(* ===== verification/Breakpad_Prelude.thy ===== *)
theory Breakpad_Prelude
  imports Main "HOL-Library.Word"
begin

text \<open>
  Shared ground of the development: the machine integer types the C++ code uses, the
  named collections that carry the component proofs, and generic lemmas on lists and on
  unsigned address arithmetic.

  Addresses (\<open>AddressType\<close>, \<open>MemAddr\<close>) are \<^typ>\<open>64 word\<close>: every instance of the address
  templates outside of the unit tests uses \<open>uint64_t\<close>. Comparison is unsigned and addition
  wraps, as in C++.
\<close>

unbundle bit_operations_syntax

type_synonym u8 = "8 word"
type_synonym u16 = "16 word"
type_synonym u32 = "32 word"
type_synonym u64 = "64 word"
type_synonym MemAddr = u64
type_synonym byte = "8 word"

named_theorems map_specs \<open>laws of the ordered containers\<close>
named_theorems range_arith \<open>unsigned arithmetic on address ranges\<close>
named_theorems cstr \<open>behaviour of the C string functions\<close>

section \<open>Lists\<close>

lemma takeWhile_append_split:
  assumes "\<forall>x\<in>set xs. P x" and "ys = [] \<or> \<not> P (hd ys)"
  shows "takeWhile P (xs @ ys) = xs" and "dropWhile P (xs @ ys) = ys"
  using assms by (cases ys; simp add: takeWhile_append2 dropWhile_append2)+

lemma sorted_wrt_hd_last:
  assumes "sorted_wrt R (xs @ y # ys)"
  shows "\<forall>x\<in>set xs. R x y" and "\<forall>z\<in>set ys. R y z"
  using assms by (auto simp: sorted_wrt_append)

lemma nth_append_length_hd [simp]: "ys \<noteq> [] \<Longrightarrow> (xs @ ys) ! length xs = hd ys"
  by (cases ys) auto

section \<open>Address arithmetic\<close>

text \<open>
  A range is given by \<open>base\<close> and \<open>size\<close>; its last address is \<open>base + (size - 1)\<close>. The
  source rejects a range when this sum wraps. The lemmas translate the guards to \<^const>\<open>unat\<close>.
\<close>

lemma unat_range_high [range_arith]:
  fixes base size :: u64
  assumes "size \<noteq> 0" and "base \<le> base + (size - 1)"
  shows "unat (base + (size - 1)) = unat base + (unat size - 1)"
proof -
  have s: "unat (size - 1) = unat size - 1"
    using assms(1) by (simp add: unat_minus_one)
  have "unat (base + (size - 1)) = unat base + unat (size - 1)"
    using assms(2) by (simp add: unat_plus_simple)
  then show ?thesis by (simp add: s)
qed

lemma word_pred_less [range_arith]:
  fixes a b :: "'a::len word"
  assumes "a < b" shows "a \<le> b - 1" and "b - 1 < b"
proof -
  from assms have "b \<noteq> 0" by auto
  then show "b - 1 < b" by (simp add: word_less_nat_alt unat_minus_one unat_gt_0)
  from assms \<open>b \<noteq> 0\<close> show "a \<le> b - 1"
    by (simp add: word_le_nat_alt word_less_nat_alt unat_minus_one)
qed

lemma word_succ_greater [range_arith]:
  fixes a b :: "'a::len word"
  assumes "a < b" shows "a + 1 \<le> b" and "a < a + 1"
proof -
  have "1 + a \<noteq> 0"
  proof
    assume "1 + a = 0"
    then have "a = - 1" by (metis add.commute eq_neg_iff_add_eq_0)
    with assms show False by simp
  qed
  then have s: "unat (a + 1) = unat a + 1"
    by (simp add: unatSuc add.commute)
  from s assms show "a + 1 \<le> b" and "a < a + 1"
    by (simp_all add: word_le_nat_alt word_less_nat_alt)
qed

lemma word_diff_succ [range_arith]:
  fixes h k :: "'a::len word"
  assumes "h < k" shows "k - (h + 1) \<noteq> - 1"
proof
  assume "k - (h + 1) = - 1"
  then have "k = h" by (simp add: diff_eq_eq)
  with assms show False by simp
qed

lemma word_subrange_size [range_arith]:
  fixes b b' k k' :: "'a::len word"
  assumes "b \<le> b'" and "b' \<le> k'" and "k' \<le> k" and "k - b \<noteq> - 1"
  shows "k' - b' \<noteq> - 1"
proof
  assume *: "k' - b' = - 1"
  have bk: "b \<le> k" using assms(1-3) by order
  have "unat k' - unat b' \<le> unat k - unat b"
    using assms(1-3) unfolding word_le_nat_alt by arith
  then have "k' - b' \<le> k - b"
    unfolding word_le_nat_alt unat_sub [OF assms(2)] unat_sub [OF bk] .
  with * have "k - b = - 1" by (simp add: word_order.extremum_uniqueI)
  with assms(4) show False by simp
qed

text \<open>
  The test \<open>address >= base && address - base < size\<close> decides membership in a range
  without forming its end, for every range whose size does not wrap.
\<close>

lemma unat_range_size [range_arith]:
  fixes base high :: "'a::len word"
  assumes "base \<le> high" and "high - base \<noteq> - 1"
  shows "unat (high - base + 1) = unat high - unat base + 1"
proof -
  have d: "unat (high - base) = unat high - unat base"
    using assms(1) by (simp add: unat_sub)
  have "unat (1 + (high - base)) = Suc (unat (high - base))"
    by (rule unatSuc) (metis assms(2) add.commute add_eq_0_iff)
  then show ?thesis by (simp add: d add.commute)
qed

lemma in_range_via_size [range_arith]:
  fixes base high a :: "'a::len word"
  assumes "base \<le> high" and "high - base \<noteq> - 1"
  shows "(base \<le> a \<and> a - base < high - base + 1) \<longleftrightarrow> (base \<le> a \<and> a \<le> high)"
  using assms(1) unat_range_size [OF assms]
  by (auto simp: word_less_nat_alt word_le_nat_alt unat_sub)

end
