(* ===== verification/Byte_Memory.thy ===== *)
theory Byte_Memory
  imports Breakpad_Prelude "HOL-Library.Monad_Syntax"
begin

text \<open>
  Raw memory as the serializers and the static maps use it. A buffer is a list of bytes, a
  write goes to a position in it, and a \<open>const char*\<close> that is only read from is the rest of
  the buffer from there on. Numbers are stored in the byte order of the little-endian hosts
  Breakpad is built for. An access outside the buffer is undefined in the source and
  \<^const>\<open>None\<close> here.
\<close>

section \<open>Numbers in little-endian order\<close>

primrec le_nat :: "byte list \<Rightarrow> nat" where
  "le_nat [] = 0"
| "le_nat (b # bs) = unat b + 256 * le_nat bs"

primrec nat_le :: "nat \<Rightarrow> nat \<Rightarrow> byte list" where
  "nat_le 0 k = []"
| "nat_le (Suc n) k = word_of_nat k # nat_le n (k div 256)"

lemma length_nat_le [simp]: "length (nat_le n k) = n"
  by (induction n arbitrary: k) auto

lemma le_nat_le: "le_nat (nat_le n k) = k mod 256 ^ n"
proof (induction n arbitrary: k)
  case (Suc n)
  have "k mod 256 ^ Suc n = k mod 256 + 256 * (k div 256 mod 256 ^ n)"
    by (simp add: mod_mult2_eq add.commute)
  with Suc show ?case by (simp add: unat_of_nat take_bit_eq_mod)
qed simp

definition put_u32 :: "u32 \<Rightarrow> byte list" where "put_u32 w = nat_le 4 (unat w)"
definition put_u64 :: "u64 \<Rightarrow> byte list" where "put_u64 w = nat_le 8 (unat w)"

definition get_u32 :: "byte list \<Rightarrow> u32 option" where
  "get_u32 p = (if length p < 4 then None else Some (word_of_nat (le_nat (take 4 p))))"

definition get_u64 :: "byte list \<Rightarrow> u64 option" where
  "get_u64 p = (if length p < 8 then None else Some (word_of_nat (le_nat (take 8 p))))"

lemma length_put [simp]: "length (put_u32 w) = 4" "length (put_u64 v) = 8"
  by (simp_all add: put_u32_def put_u64_def)

lemma unat_mod_256:
  "unat (w::u32) mod 4294967296 = unat w" "unat (v::u64) mod 18446744073709551616 = unat v"
proof -
  have "unat w < 2 ^ LENGTH(32)" "unat v < 2 ^ LENGTH(64)" by (rule unsigned_less)+
  then show "unat w mod 4294967296 = unat w" "unat v mod 18446744073709551616 = unat v" by simp_all
qed

lemma unat_word_of_nat_u32: "n < 2 ^ 32 \<Longrightarrow> unat (word_of_nat n :: u32) = n"
  by (simp add: unat_of_nat take_bit_eq_mod)

lemma get_put_u32 [simp]: "get_u32 (put_u32 w @ r) = Some w"
  by (simp add: get_u32_def put_u32_def le_nat_le unat_mod_256 del: nat_le.simps)

lemma get_put_u64 [simp]: "get_u64 (put_u64 w @ r) = Some w"
  by (simp add: get_u64_def put_u64_def le_nat_le unat_mod_256 del: nat_le.simps)

section \<open>Writing\<close>

type_synonym mem = "byte list \<times> nat option"

text \<open>
  A buffer with a write pointer into it, \<^const>\<open>None\<close> for the null pointer. Placement \<open>new\<close>:
  the bytes go to the pointer, which moves behind them.
\<close>

definition write_at :: "byte list \<Rightarrow> nat \<Rightarrow> byte list \<Rightarrow> byte list option" where
  "write_at buf off bs =
     (if off + length bs \<le> length buf
      then Some (take off buf @ bs @ drop (off + length bs) buf) else None)"

definition put :: "byte list \<Rightarrow> mem \<Rightarrow> mem option" where
  "put bs m = (case m of (buf, None) \<Rightarrow> None
     | (buf, Some dest) \<Rightarrow> map_option (\<lambda>buf. (buf, Some (dest + length bs))) (write_at buf dest bs))"

text \<open>What a writer promises: given room for them, it puts exactly these bytes at its pointer.\<close>

definition puts :: "(mem \<Rightarrow> mem option) \<Rightarrow> byte list \<Rightarrow> bool" where
  "puts w bs \<longleftrightarrow> (\<forall>X y Z. length y = length bs \<longrightarrow>
     w (X @ y @ Z, Some (length X)) = Some (X @ bs @ Z, Some (length X + length bs)))"

named_theorems puts_intros

lemma write_at_append [simp]:
  "length y = length bs \<Longrightarrow> write_at (X @ y @ Z) (length X) bs = Some (X @ bs @ Z)"
  by (simp add: write_at_def)

lemma puts_put [puts_intros]: "puts (put bs) bs"
  by (simp add: puts_def put_def)

lemma puts_Nil [puts_intros]: "puts Some []"
  by (simp add: puts_def)

lemma putsD: "puts w bs \<Longrightarrow> length y = length bs \<Longrightarrow>
    w (X @ y @ Z, Some (length X)) = Some (X @ bs @ Z, Some (length X + length bs))"
  by (simp add: puts_def)

lemma puts_seq [puts_intros]:
  assumes "puts v as" and "puts w bs"
  shows "puts (\<lambda>m. v m \<bind> w) (as @ bs)"
  unfolding puts_def
proof (intro allI impI)
  fix X y Z :: "byte list" assume "length y = length (as @ bs)"
  moreover define y1 y2 where "y1 = take (length as) y" and "y2 = drop (length as) y"
  ultimately have y: "y = y1 @ y2" "length y1 = length as" "length y2 = length bs" by auto
  have "v (X @ y @ Z, Some (length X)) = Some ((X @ as) @ y2 @ Z, Some (length (X @ as)))"
    using putsD [OF assms(1) y(2), of X "y2 @ Z"] y(1) by simp
  with putsD [OF assms(2) y(3), of "X @ as" Z]
  show "v (X @ y @ Z, Some (length X)) \<bind> w = Some (X @ (as @ bs) @ Z, Some (length X + length (as @ bs)))"
    by (simp add: add.assoc)
qed

section \<open>Strings\<close>

definition string_bytes :: "string \<Rightarrow> byte list" where
  "string_bytes s = map (\<lambda>c. word_of_nat (of_char c)) s"

text \<open>\<open>strlen\<close> and the conversion of a \<open>const char*\<close> to a \<open>string\<close>; undefined without a NUL.\<close>

definition c_str :: "byte list \<Rightarrow> string option" where
  "c_str p = (if 0 \<in> set p then Some (map (\<lambda>b. char_of (unat b)) (takeWhile (\<lambda>b. b \<noteq> 0) p)) else None)"

definition no_nul :: "string \<Rightarrow> bool" where
  "no_nul s \<longleftrightarrow> 0 \<notin> set (string_bytes s)"

lemma length_string_bytes [simp]: "length (string_bytes s) = length s"
  by (simp add: string_bytes_def)

lemma c_str_string_bytes [simp]:
  assumes "no_nul s" shows "c_str (string_bytes s @ 0 # r) = Some s"
proof -
  have "takeWhile (\<lambda>b. b \<noteq> 0) (string_bytes s @ 0 # r) = string_bytes s"
    using assms by (subst takeWhile_append2) (auto simp: no_nul_def)
  moreover have "map (\<lambda>b. char_of (unat b)) (string_bytes s) = s"
    by (simp add: string_bytes_def o_def unat_of_nat take_bit_eq_mod map_idI)
  ultimately show ?thesis by (simp add: c_str_def)
qed

end
