(* ===== verification/Std_Map.thy ===== *)
theory Std_Map
  imports Breakpad_Prelude
begin

text \<open>
  The part of \<open>std::map\<close> the sources use, as a strictly sorted association list. An
  iterator is a position in the list and \<open>end()\<close> is its length. \<open>insert\<close> keeps an existing
  element, \<open>operator[]\<close> followed by an assignment overwrites it, as the C++ standard says.

  The locale \<open>sorted_index\<close> is the contract of \<open>lower_bound\<close> and \<open>upper_bound\<close> that the
  address and range maps rely on. It is provided twice: by \<open>std::map\<close> here, and by the
  binary searches of \<open>StaticMap\<close>.
\<close>

type_synonym ('k, 'v) std_map = "('k \<times> 'v) list"

definition std_map_inv :: "('k::linorder, 'v) std_map \<Rightarrow> bool" where
  "std_map_inv m \<longleftrightarrow> sorted_wrt (<) (map fst m)"

definition lower_bound :: "('k::linorder, 'v) std_map \<Rightarrow> 'k \<Rightarrow> nat" where
  "lower_bound m k = length (takeWhile (\<lambda>p. fst p < k) m)"

definition upper_bound :: "('k::linorder, 'v) std_map \<Rightarrow> 'k \<Rightarrow> nat" where
  "upper_bound m k = length (takeWhile (\<lambda>p. fst p \<le> k) m)"

fun std_find :: "('k, 'v) std_map \<Rightarrow> 'k \<Rightarrow> 'v option" where
  "std_find [] k = None"
| "std_find ((k', v) # m) k = (if k' = k then Some v else std_find m k)"

fun std_insert :: "'k::linorder \<Rightarrow> 'v \<Rightarrow> ('k, 'v) std_map \<Rightarrow> ('k, 'v) std_map" where
  "std_insert k v [] = [(k, v)]"
| "std_insert k v ((k', v') # m) =
     (if k' < k then (k', v') # std_insert k v m
      else if k' = k then (k', v') # m
      else (k, v) # (k', v') # m)"

fun std_assign :: "'k::linorder \<Rightarrow> 'v \<Rightarrow> ('k, 'v) std_map \<Rightarrow> ('k, 'v) std_map" where
  "std_assign k v [] = [(k, v)]"
| "std_assign k v ((k', v') # m) =
     (if k' < k then (k', v') # std_assign k v m
      else if k' = k then (k, v) # m
      else (k, v) # (k', v') # m)"

definition std_erase :: "nat \<Rightarrow> ('k, 'v) std_map \<Rightarrow> ('k, 'v) std_map" where
  "std_erase i m = take i m @ drop (Suc i) m"

definition std_erase_range :: "nat \<Rightarrow> nat \<Rightarrow> ('k, 'v) std_map \<Rightarrow> ('k, 'v) std_map" where
  "std_erase_range i j m = take i m @ drop j m"

section \<open>Positions\<close>

lemma std_find_map_of: "std_find m k = map_of m k"
  by (induction m k rule: std_find.induct) auto

lemma lower_bound_append [map_specs]:
  assumes "\<forall>p\<in>set xs. fst p < k" and "ys = [] \<or> k \<le> fst (hd ys)"
  shows "lower_bound (xs @ ys) k = length xs"
  using takeWhile_append_split(1) [of xs "\<lambda>p. fst p < k" ys] assms
  by (auto simp: lower_bound_def not_less)

lemma lower_bound_le [simp]: "lower_bound m k \<le> length m"
  by (simp add: lower_bound_def length_takeWhile_le)

lemma lower_bound_less: "lower_bound m k \<noteq> length m \<Longrightarrow> lower_bound m k < length m"
  by (simp add: le_neq_implies_less)

lemma upper_bound_append [map_specs]:
  assumes "\<forall>p\<in>set xs. fst p \<le> k" and "ys = [] \<or> k < fst (hd ys)"
  shows "upper_bound (xs @ ys) k = length xs"
  using takeWhile_append_split(1) [of xs "\<lambda>p. fst p \<le> k" ys] assms
  by (auto simp: upper_bound_def not_le)

lemma std_erase_append [simp, map_specs]: "std_erase (length xs) (xs @ y # ys) = xs @ ys"
  by (simp add: std_erase_def)

lemma std_insert_append [map_specs]:
  assumes "\<forall>p\<in>set xs. fst p < k" and "ys = [] \<or> k < fst (hd ys)"
  shows "std_insert k v (xs @ ys) = xs @ (k, v) # ys"
  using assms
proof (induction xs)
  case Nil
  then show ?case by (cases ys) auto
qed auto

lemma std_insert_keys: "fst ` set (std_insert k v m) = insert k (fst ` set m)"
  by (induction k v m rule: std_insert.induct) auto

lemma std_assign_keys: "fst ` set (std_assign k v m) = insert k (fst ` set m)"
  by (induction k v m rule: std_assign.induct) auto

lemma std_map_inv_Nil [simp]: "std_map_inv []"
  by (simp add: std_map_inv_def)

lemma std_map_inv_Cons [simp]:
  "std_map_inv ((k, v) # m) \<longleftrightarrow> (\<forall>p\<in>set m. k < fst p) \<and> std_map_inv m"
  by (auto simp: std_map_inv_def)

lemma std_map_inv_append [simp]:
  "std_map_inv (xs @ ys) \<longleftrightarrow>
     std_map_inv xs \<and> std_map_inv ys \<and> (\<forall>p\<in>set xs. \<forall>q\<in>set ys. fst p < fst q)"
  by (auto simp: std_map_inv_def sorted_wrt_append)

lemma std_map_inv_insert [intro]: "std_map_inv m \<Longrightarrow> std_map_inv (std_insert k v m)"
proof (induction k v m rule: std_insert.induct)
  case (2 k v k' v' m)
  have "\<forall>p\<in>set (std_insert k v m). fst p \<in> insert k (fst ` set m)"
    using std_insert_keys [of k v m] by blast
  with 2 show ?case by fastforce
qed simp

lemma std_map_inv_assign [intro]: "std_map_inv m \<Longrightarrow> std_map_inv (std_assign k v m)"
proof (induction k v m rule: std_assign.induct)
  case (2 k v k' v' m)
  have "\<forall>p\<in>set (std_assign k v m). fst p \<in> insert k (fst ` set m)"
    using std_assign_keys [of k v m] by blast
  with 2 show ?case by fastforce
qed simp

lemma std_map_inv_distinct: "std_map_inv m \<Longrightarrow> distinct (map fst m)"
  by (simp add: std_map_inv_def strict_sorted_iff)

lemma std_find_insert:
  assumes "std_map_inv m"
  shows "std_find (std_insert k v m) k' =
           (if k' = k then (case std_find m k of None \<Rightarrow> Some v | Some w \<Rightarrow> Some w)
            else std_find m k')"
  using assms
proof (induction k v m rule: std_insert.induct)
  case (2 k v a b m)
  have "a > k \<Longrightarrow> std_find m k = None"
    using 2 by (auto simp: std_find_map_of map_of_eq_None_iff)
  with 2 show ?case by (auto split: option.splits)
qed simp

lemma std_find_assign:
  "std_find (std_assign k v m) k' = (if k' = k then Some v else std_find m k')"
  by (induction k v m rule: std_assign.induct) auto

lemma std_find_in_set:
  assumes "std_map_inv m"
  shows "std_find m k = Some v \<longleftrightarrow> (k, v) \<in> set m"
  using std_map_inv_distinct [OF assms] by (simp add: std_find_map_of)

text \<open>A sorted map splits at a key into the elements below it and the rest.\<close>

lemma std_map_split:
  assumes "std_map_inv m"
  obtains xs ys where "m = xs @ ys" and "\<forall>p\<in>set xs. fst p < k" and "\<forall>p\<in>set ys. k \<le> fst p"
    and "lower_bound m k = length xs"
proof
  let ?P = "\<lambda>p. fst p < k"
  show "m = takeWhile ?P m @ dropWhile ?P m" by simp
  show "\<forall>p\<in>set (takeWhile ?P m). fst p < k" by (auto dest: set_takeWhileD)
  show "lower_bound m k = length (takeWhile ?P m)" by (simp add: lower_bound_def)
  have "std_map_inv (dropWhile ?P m)"
    using assms std_map_inv_append [of "takeWhile ?P m" "dropWhile ?P m"] by simp
  moreover have "dropWhile ?P m = [] \<or> k \<le> fst (hd (dropWhile ?P m))"
    using hd_dropWhile [of ?P m] not_less by blast
  ultimately show "\<forall>p\<in>set (dropWhile ?P m). k \<le> fst p"
    by (cases "dropWhile ?P m") (fastforce simp del: dropWhile_eq_Nil_conv)+
qed

section \<open>The contract of an ordered index\<close>

locale sorted_index =
  fixes keys :: "'m \<Rightarrow> 'k::linorder list"
    and lb :: "'m \<Rightarrow> 'k \<Rightarrow> nat"
    and ub :: "'m \<Rightarrow> 'k \<Rightarrow> nat"
    and ok :: "'m \<Rightarrow> bool"
  assumes keys_sorted: "ok m \<Longrightarrow> sorted_wrt (<) (keys m)"
    and lb_bound: "ok m \<Longrightarrow> lb m k \<le> length (keys m)"
    and lb_below: "ok m \<Longrightarrow> i < lb m k \<Longrightarrow> keys m ! i < k"
    and lb_above: "ok m \<Longrightarrow> lb m k \<le> i \<Longrightarrow> i < length (keys m) \<Longrightarrow> k \<le> keys m ! i"
    and ub_bound: "ok m \<Longrightarrow> ub m k \<le> length (keys m)"
    and ub_below: "ok m \<Longrightarrow> i < ub m k \<Longrightarrow> keys m ! i \<le> k"
    and ub_above: "ok m \<Longrightarrow> ub m k \<le> i \<Longrightarrow> i < length (keys m) \<Longrightarrow> k < keys m ! i"
begin

lemma lb_unique:
  assumes "ok m" and "j \<le> length (keys m)"
    and "\<And>i. i < j \<Longrightarrow> keys m ! i < k"
    and "\<And>i. j \<le> i \<Longrightarrow> i < length (keys m) \<Longrightarrow> k \<le> keys m ! i"
  shows "lb m k = j"
  using assms lb_bound [of m k] lb_below [of m j k] lb_above [of m k j]
    assms(3) [of "lb m k"] lb_above [of m k "lb m k"] assms(4) [of j] lb_below [of m "j" k]
  by (metis le_neq_implies_less linorder_not_le nat_le_linear not_less_iff_gr_or_eq order_less_le_trans)

lemma ub_unique:
  assumes "ok m" and "j \<le> length (keys m)"
    and "\<And>i. i < j \<Longrightarrow> keys m ! i \<le> k"
    and "\<And>i. j \<le> i \<Longrightarrow> i < length (keys m) \<Longrightarrow> k < keys m ! i"
  shows "ub m k = j"
  using assms ub_bound [of m k]
  by (metis le_neq_implies_less linorder_not_le nat_le_linear ub_above ub_below)

text \<open>The element before \<open>upper_bound\<close> is the one with the greatest key not above \<open>k\<close>.\<close>

lemma ub_predecessor:
  assumes "ok m" and "0 < ub m k"
  shows "ub m k - 1 < length (keys m)"
    and "keys m ! (ub m k - 1) \<le> k"
    and "\<And>x. x \<in> set (keys m) \<Longrightarrow> x \<le> k \<Longrightarrow> x \<le> keys m ! (ub m k - 1)"
proof -
  show l: "ub m k - 1 < length (keys m)" using assms ub_bound [of m k] by simp
  show "keys m ! (ub m k - 1) \<le> k" using assms by (intro ub_below) auto
  fix x assume "x \<in> set (keys m)" "x \<le> k"
  then obtain i where i: "i < length (keys m)" "keys m ! i = x" by (auto simp: in_set_conv_nth)
  have "i < ub m k" using \<open>x \<le> k\<close> i assms(1) ub_above [of m k i] by (meson leD not_le_imp_less)
  then have "i \<le> ub m k - 1" by simp
  then show "x \<le> keys m ! (ub m k - 1)"
    using i l keys_sorted [OF assms(1)]
    by (cases "i = ub m k - 1") (auto simp: sorted_wrt_iff_nth_less less_imp_le)
qed

lemma ub_none:
  assumes "ok m" and "ub m k = 0"
  shows "\<And>x. x \<in> set (keys m) \<Longrightarrow> k < x"
  using assms ub_above [of m k] by (auto simp: in_set_conv_nth)

lemma lb_none:
  assumes "ok m" and "lb m k = length (keys m)"
  shows "\<And>x. x \<in> set (keys m) \<Longrightarrow> x < k"
  using assms lb_below [of m _ k] by (auto simp: in_set_conv_nth)

text \<open>The element at \<open>lower_bound\<close> is the one with the least key not below \<open>k\<close>.\<close>

lemma lb_successor:
  assumes "ok m" and "lb m k < length (keys m)"
  shows "k \<le> keys m ! lb m k"
    and "\<And>x. x \<in> set (keys m) \<Longrightarrow> k \<le> x \<Longrightarrow> keys m ! lb m k \<le> x"
proof -
  show "k \<le> keys m ! lb m k" using assms by (intro lb_above) auto
  fix x assume "x \<in> set (keys m)" "k \<le> x"
  then obtain i where i: "i < length (keys m)" "keys m ! i = x" by (auto simp: in_set_conv_nth)
  have "lb m k \<le> i" using \<open>k \<le> x\<close> i assms(1) lb_below [of m i k] by (meson leD not_le_imp_less)
  then show "keys m ! lb m k \<le> x"
    using i keys_sorted [OF assms(1)]
    by (cases "i = lb m k") (auto simp: sorted_wrt_iff_nth_less less_imp_le)
qed

end

lemma takeWhile_nth_bounds:
  assumes "i < length (takeWhile P xs)" shows "P (xs ! i)"
  using assms nth_mem [OF assms] by (metis set_takeWhileD takeWhile_nth)

interpretation std_index: sorted_index "\<lambda>m. map fst m" lower_bound upper_bound std_map_inv
proof
  fix m :: "('k::linorder \<times> 'v) list" and k :: 'k and i :: nat
  have len: "length (takeWhile P m) \<le> length m" for P by (rule length_takeWhile_le)
  assume inv: "std_map_inv m"
  then show srt: "sorted_wrt (<) (map fst m)" by (simp add: std_map_inv_def)
  show "lower_bound m k \<le> length (map fst m)" "upper_bound m k \<le> length (map fst m)"
    using len by (simp_all add: lower_bound_def upper_bound_def)
  show "map fst m ! i < k" if "i < lower_bound m k"
    using that takeWhile_nth_bounds [of i "\<lambda>p. fst p < k" m] len [of "\<lambda>p. fst p < k"]
    by (simp add: lower_bound_def)
  show "map fst m ! i \<le> k" if "i < upper_bound m k"
    using that takeWhile_nth_bounds [of i "\<lambda>p. fst p \<le> k" m] len [of "\<lambda>p. fst p \<le> k"]
    by (simp add: upper_bound_def)
  have mono: "map fst m ! j \<le> map fst m ! i" if "j \<le> i" "i < length (map fst m)" for j
    using that srt by (cases "j = i") (auto simp: sorted_wrt_iff_nth_less less_imp_le)
  show "k \<le> map fst m ! i" if "lower_bound m k \<le> i" "i < length (map fst m)"
    using that mono [OF that] nth_length_takeWhile [of "\<lambda>p. fst p < k" m]
    by (simp add: lower_bound_def)
  show "k < map fst m ! i" if "upper_bound m k \<le> i" "i < length (map fst m)"
    using that mono [OF that] nth_length_takeWhile [of "\<lambda>p. fst p \<le> k" m]
    by (simp add: upper_bound_def)
qed

end
