(* ===== verification/Address_Map.thy ===== *)
theory Address_Map
  imports Std_Map
begin

text \<open>
  \<open>AddressMap\<close> (processor/address_map.h, address_map-inl.h): entries stored at single
  addresses, found again by the nearest address at or below the one asked for. The output
  parameters of \<open>Retrieve\<close> are the returned pair.
\<close>

record 'e AddressMap =
  am_map :: "(u64, 'e) std_map"

definition AddressMap_new :: "'e AddressMap" where
  "AddressMap_new = \<lparr>am_map = []\<rparr>"

definition AddressMap_Store :: "'e AddressMap \<Rightarrow> u64 \<Rightarrow> 'e \<Rightarrow> 'e AddressMap \<times> bool" where
  "AddressMap_Store m address entry =
     (if std_find (am_map m) address \<noteq> None then (m, False)
      else (m\<lparr>am_map := std_insert address entry (am_map m)\<rparr>, True))"

definition AddressMap_Retrieve :: "'e AddressMap \<Rightarrow> u64 \<Rightarrow> ('e \<times> u64) option" where
  "AddressMap_Retrieve m address =
     (let i = upper_bound (am_map m) address in
      if i = 0 then None
      else case am_map m ! (i - 1) of (entry_address, entry) \<Rightarrow> Some (entry, entry_address))"

definition AddressMap_Clear :: "'e AddressMap \<Rightarrow> 'e AddressMap" where
  "AddressMap_Clear m = m\<lparr>am_map := []\<rparr>"

definition address_map_inv :: "'e AddressMap \<Rightarrow> bool" where
  "address_map_inv m \<longleftrightarrow> std_map_inv (am_map m)"

lemma address_map_inv_new [simp]: "address_map_inv AddressMap_new"
  by (simp add: address_map_inv_def AddressMap_new_def)

lemma address_map_inv_Store [intro]:
  "address_map_inv m \<Longrightarrow> address_map_inv (fst (AddressMap_Store m a e))"
  by (auto simp: address_map_inv_def AddressMap_Store_def)

lemma address_map_inv_Clear [simp]: "address_map_inv (AddressMap_Clear m)"
  by (simp add: address_map_inv_def AddressMap_Clear_def)

lemma Store_finds:
  assumes "address_map_inv m"
  shows "std_find (am_map (fst (AddressMap_Store m a e))) a' =
     (if a' = a \<and> std_find (am_map m) a = None then Some e else std_find (am_map m) a')"
  using assms
  by (auto simp: address_map_inv_def AddressMap_Store_def std_find_insert split: option.splits)

lemma AddressMap_Retrieve_iff:
  assumes "address_map_inv m"
  shows "AddressMap_Retrieve m a = Some (e, k) \<longleftrightarrow>
     std_find (am_map m) k = Some e \<and> k \<le> a \<and>
     (\<forall>k' e'. std_find (am_map m) k' = Some e' \<longrightarrow> k' \<le> a \<longrightarrow> k' \<le> k)"
    (is "?L \<longleftrightarrow> ?R")
proof -
  let ?m = "am_map m" and ?i = "upper_bound (am_map m) a"
  have inv: "std_map_inv ?m" using assms by (simp add: address_map_inv_def)
  note find = std_find_in_set [OF inv]
  have keys: "k' \<in> set (map fst ?m)" if "std_find ?m k' = Some e'" for k' e'
    using that by (force simp: find)
  show ?thesis
  proof (cases "?i = 0")
    case True
    have "\<not> k \<le> a" if "std_find ?m k = Some e"
      using std_index.ub_none [OF inv True keys [OF that]] by simp
    with True show ?thesis by (auto simp: AddressMap_Retrieve_def)
  next
    case False
    then have pos: "0 < ?i" by simp
    note pred = std_index.ub_predecessor [OF inv pos]
    have nth: "?m ! (?i - 1) \<in> set ?m" using pred(1) by simp
    obtain k0 e0 where ke: "?m ! (?i - 1) = (k0, e0)" by fastforce
    have k0: "k0 \<le> a" "\<And>x. x \<in> set (map fst ?m) \<Longrightarrow> x \<le> a \<Longrightarrow> x \<le> k0"
      using pred ke by auto
    have ret: "AddressMap_Retrieve m a = Some (e0, k0)"
      using False ke by (simp add: AddressMap_Retrieve_def)
    have f0: "std_find ?m k0 = Some e0" using nth ke by (simp add: find)
    show ?thesis
    proof
      assume ?L then show ?R using ret f0 k0 keys by auto
    next
      assume r: ?R
      then have "k = k0" using f0 k0 keys by (meson order_antisym)
      with r f0 ret show ?L by simp
    qed
  qed
qed

text \<open>
  C23: After a \<open>Store\<close>, \<open>Retrieve\<close> answers with the greatest stored address not above the one
  asked for: an address already in the map keeps its first entry and \<open>Store\<close> says so, a new one
  takes part in every later search.
\<close>

theorem AddressMap_Store_Retrieve:
  assumes "address_map_inv m" and "AddressMap_Store m a e = (m', ok)"
  shows "address_map_inv m' \<and> (ok \<longleftrightarrow> a \<notin> fst ` set (am_map m)) \<and>
    (AddressMap_Retrieve m' x = Some (v, k) \<longleftrightarrow>
       (if k = a \<and> ok then v = e else (k, v) \<in> set (am_map m)) \<and> k \<le> x \<and>
       (\<forall>k'\<in>insert a (fst ` set (am_map m)). k' \<le> x \<longrightarrow> k' \<le> k))"
proof -
  have inv: "std_map_inv (am_map m)" using assms(1) by (simp add: address_map_inv_def)
  have inv': "address_map_inv m'" using address_map_inv_Store [OF assms(1), of a e] assms(2) by simp
  have none: "std_find (am_map m) a = None \<longleftrightarrow> a \<notin> fst ` set (am_map m)"
    by (simp add: std_find_map_of map_of_eq_None_iff)
  have ok: "ok \<longleftrightarrow> a \<notin> fst ` set (am_map m)"
    using assms(2) none by (auto simp: AddressMap_Store_def split: if_splits)
  have find: "std_find (am_map m') k' = Some w \<longleftrightarrow>
      (if k' = a \<and> ok then w = e else (k', w) \<in> set (am_map m))" for k' w
    using Store_finds [OF assms(1), of a e k'] assms(2) ok none std_find_in_set [OF inv, of k' w]
    by (auto split: if_splits)
  have keys: "(\<exists>w. std_find (am_map m') k' = Some w) \<longleftrightarrow> k' \<in> insert a (fst ` set (am_map m))" for k'
  proof (cases "k' = a")
    case True
    then show ?thesis using ok by (cases ok) (auto simp: find)
  next
    case False
    then show ?thesis by (auto simp: find intro: rev_image_eqI)
  qed
  have "(\<forall>k' w. std_find (am_map m') k' = Some w \<longrightarrow> k' \<le> x \<longrightarrow> k' \<le> k) \<longleftrightarrow>
      (\<forall>k'. (\<exists>w. std_find (am_map m') k' = Some w) \<longrightarrow> k' \<le> x \<longrightarrow> k' \<le> k)" by blast
  then have "(\<forall>k' w. std_find (am_map m') k' = Some w \<longrightarrow> k' \<le> x \<longrightarrow> k' \<le> k) \<longleftrightarrow>
      (\<forall>k'\<in>insert a (fst ` set (am_map m)). k' \<le> x \<longrightarrow> k' \<le> k)" unfolding keys Ball_def .
  with AddressMap_Retrieve_iff [OF inv', of x v k] find [of k v] inv' ok show ?thesis by simp
qed

theorem AddressMap_Store_Retrieve_witness:
  "AddressMap_Retrieve (fst (AddressMap_Store \<lparr>am_map = [(4, 10), (16, 20::nat)]\<rparr> 8 30)) 15 = Some (30, 8)"
proof -
  have "AddressMap_Store \<lparr>am_map = [(4, 10), (16, 20::nat)]\<rparr> 8 30 = (\<lparr>am_map = [(4, 10), (8, 30), (16, 20)]\<rparr>, True)"
    by code_simp
  from AddressMap_Store_Retrieve [OF _ this, of 15 30 8] this show ?thesis
    by (simp add: address_map_inv_def)
qed

end
