(* ===== verification/Contained_Range_Map.thy ===== *)
theory Contained_Range_Map
  imports Std_Map
begin

text \<open>
  \<open>ContainedRangeMap\<close> (processor/contained_range_map.h, contained_range_map-inl.h): a tree of
  address ranges in which a range lies inside its parent and beside its siblings. A node keeps
  its base, its entry and, when it has ever had children, a map of them by their highest
  address; \<open>map_ == NULL\<close> is \<^const>\<open>None\<close>.
\<close>

section \<open>Model\<close>

datatype 'e ContainedRangeMap =
  ContainedRangeMap (crm_base: u64) (crm_entry: 'e)
    (crm_map: "(u64 \<times> 'e ContainedRangeMap) list option")

definition ContainedRangeMap_new :: "'e \<Rightarrow> 'e ContainedRangeMap" where
  "ContainedRangeMap_new default_entry = ContainedRangeMap 0 default_entry None"

definition crm_kids :: "'e ContainedRangeMap \<Rightarrow> (u64, 'e ContainedRangeMap) std_map" where
  "crm_kids c = (case crm_map c of None \<Rightarrow> [] | Some m \<Rightarrow> m)"

lemma crm_kids_simps [simp]:
  "crm_kids (ContainedRangeMap b e None) = []"
  "crm_kids (ContainedRangeMap b e (Some m)) = m"
  by (simp_all add: crm_kids_def)

lemma size_kid: "p \<in> set (crm_kids c) \<Longrightarrow> size (snd p) < size c"
proof (cases c)
  case (ContainedRangeMap b e mp)
  assume p: "p \<in> set (crm_kids c)"
  then obtain m where m: "mp = Some m" using ContainedRangeMap by (cases mp) auto
  have "size (snd p) \<le> size_prod (\<lambda>_. 0) size p" by (cases p) simp
  also have "\<dots> \<le> size_list (size_prod (\<lambda>_. 0) size) m"
    using p m ContainedRangeMap by (intro size_list_estimation') auto
  finally show ?thesis using m ContainedRangeMap by simp
qed

function crm_StoreRange ::
    "'e ContainedRangeMap \<Rightarrow> u64 \<Rightarrow> u64 \<Rightarrow> 'e \<Rightarrow> 'e ContainedRangeMap \<times> bool" where
  "crm_StoreRange c base size' entry =
   (let high = base + size' - 1 in
    if size' \<le> 0 \<or> high < base then (c, False) else
    let m = crm_kids c;
        node = (\<lambda>m. ContainedRangeMap (crm_base c) (crm_entry c) (Some m));
        iterator_base = lower_bound m base;
        iterator_high = lower_bound m high;
        iterator_end = length m in
    if iterator_base = iterator_high \<and> iterator_base \<noteq> iterator_end \<and>
       base \<ge> crm_base (snd (m ! iterator_base)) then
      (if crm_base (snd (m ! iterator_base)) = base \<and> fst (m ! iterator_base) = high then (node m, False)
       else case crm_StoreRange (snd (m ! iterator_base)) base size' entry of
              (child, ok) \<Rightarrow> (node (m[iterator_base := (fst (m ! iterator_base), child)]), ok))
    else
    let contains_high = (iterator_high \<noteq> iterator_end \<and> high \<ge> crm_base (snd (m ! iterator_high))) in
    if (iterator_base \<noteq> iterator_end \<and> base > crm_base (snd (m ! iterator_base))) \<or>
       (contains_high \<and> high < fst (m ! iterator_high)) then (node m, False)
    else
    let iterator_high = (if contains_high then iterator_high + 1 else iterator_high);
        child_map = (if iterator_base \<noteq> iterator_high
                     then Some (take (iterator_high - iterator_base) (drop iterator_base m)) else None);
        m' = (if iterator_base \<noteq> iterator_high then std_erase_range iterator_base iterator_high m else m)
    in (node (std_insert high (ContainedRangeMap base entry child_map) m'), True))"
  by pat_completeness auto
termination
  by (relation "measure (\<lambda>(c, _). size c)") (auto intro!: size_kid nth_mem dest!: lower_bound_less)

declare crm_StoreRange.simps [simp del]

function crm_RetrieveRange :: "'e ContainedRangeMap \<Rightarrow> u64 \<Rightarrow> 'e option" where
  "crm_RetrieveRange c address =
     (case crm_map c of
        None \<Rightarrow> None
      | Some m \<Rightarrow>
         (let i = lower_bound m address in
          if i = length m \<or> address < crm_base (snd (m ! i)) then None
          else case crm_RetrieveRange (snd (m ! i)) address of
                 Some entry \<Rightarrow> Some entry
               | None \<Rightarrow> Some (crm_entry (snd (m ! i)))))"
  by pat_completeness auto
termination
  by (relation "measure (\<lambda>(c, _). size c)")
    (auto intro!: size_kid nth_mem dest!: lower_bound_less simp: crm_kids_def)

declare crm_RetrieveRange.simps [simp del]

definition crm_Clear :: "'e ContainedRangeMap \<Rightarrow> 'e ContainedRangeMap" where
  "crm_Clear c = ContainedRangeMap (crm_base c) (crm_entry c) None"

section \<open>Stored ranges and the invariant\<close>

text \<open>The geometry of a child: its key is its highest address.\<close>

abbreviation lo :: "u64 \<times> 'e ContainedRangeMap \<Rightarrow> u64" where "lo p \<equiv> crm_base (snd p)"
abbreviation hi :: "u64 \<times> 'e ContainedRangeMap \<Rightarrow> u64" where "hi p \<equiv> fst p"

definition strictly_within :: "u64 \<Rightarrow> u64 \<Rightarrow> u64 \<Rightarrow> u64 \<Rightarrow> bool" where
  "strictly_within b h b' h' \<longleftrightarrow> b' \<le> b \<and> h \<le> h' \<and> \<not> (b = b' \<and> h = h')"

definition compatible :: "u64 \<Rightarrow> u64 \<Rightarrow> u64 \<times> u64 \<times> 'e \<Rightarrow> bool" where
  "compatible b h r = (case r of (b', h', _) \<Rightarrow>
     h < b' \<or> h' < b \<or> strictly_within b h b' h' \<or> strictly_within b' h' b h)"

function crm_ranges :: "'e ContainedRangeMap \<Rightarrow> (u64 \<times> u64 \<times> 'e) set" where
  "crm_ranges c =
     (\<Union>p\<in>set (crm_kids c). insert (lo p, hi p, crm_entry (snd p)) (crm_ranges (snd p)))"
  by pat_completeness auto
termination
  by (relation "measure size") (auto intro!: size_kid)

function crm_inv :: "'e ContainedRangeMap \<Rightarrow> bool" where
  "crm_inv c \<longleftrightarrow> sorted_wrt (\<lambda>p q. hi p < lo q) (crm_kids c) \<and>
     (\<forall>p\<in>set (crm_kids c). lo p \<le> hi p \<and> crm_inv (snd p) \<and>
        (\<forall>q\<in>set (crm_kids (snd p)). strictly_within (lo q) (hi q) (lo p) (hi p)))"
  by pat_completeness auto
termination
  by (relation "measure size") (auto intro!: size_kid)

declare crm_ranges.simps [simp del] crm_inv.simps [simp del]

definition kid_ok :: "u64 \<times> 'e ContainedRangeMap \<Rightarrow> bool" where
  "kid_ok p \<longleftrightarrow> lo p \<le> hi p \<and> crm_inv (snd p) \<and>
     (\<forall>q\<in>set (crm_kids (snd p)). strictly_within (lo q) (hi q) (lo p) (hi p))"

definition kids_inv :: "(u64, 'e ContainedRangeMap) std_map \<Rightarrow> bool" where
  "kids_inv m \<longleftrightarrow> sorted_wrt (\<lambda>p q. hi p < lo q) m \<and> (\<forall>p\<in>set m. kid_ok p)"

definition kid_ranges :: "u64 \<times> 'e ContainedRangeMap \<Rightarrow> (u64 \<times> u64 \<times> 'e) set" where
  "kid_ranges p = insert (lo p, hi p, crm_entry (snd p)) (crm_ranges (snd p))"

lemma crm_inv_kids: "crm_inv c \<longleftrightarrow> kids_inv (crm_kids c)"
  by (subst crm_inv.simps) (simp add: kids_inv_def kid_ok_def)

lemma crm_ranges_kids: "crm_ranges c = (\<Union>p\<in>set (crm_kids c). kid_ranges p)"
  by (subst crm_ranges.simps) (simp add: kid_ranges_def)

lemma kids_inv_Nil [simp]: "kids_inv []"
  by (simp add: kids_inv_def)

lemma kids_inv_Cons [simp]:
  "kids_inv (p # m) \<longleftrightarrow> kid_ok p \<and> (\<forall>q\<in>set m. hi p < lo q) \<and> kids_inv m"
  by (auto simp: kids_inv_def)

lemma kids_inv_append [simp]:
  "kids_inv (xs @ ys) \<longleftrightarrow> kids_inv xs \<and> kids_inv ys \<and> (\<forall>p\<in>set xs. \<forall>q\<in>set ys. hi p < lo q)"
  by (auto simp: kids_inv_def sorted_wrt_append)

lemma kids_inv_ok: "kids_inv m \<Longrightarrow> p \<in> set m \<Longrightarrow> kid_ok p"
  by (auto simp: kids_inv_def)

lemma kids_inv_std: "kids_inv m \<Longrightarrow> std_map_inv m"
proof (induction m)
  case (Cons p m)
  have "hi p < hi q" if "q \<in> set m" for q
  proof -
    have "hi p < lo q" "lo q \<le> hi q"
      using Cons.prems that kids_inv_ok [of m q] by (auto simp: kid_ok_def)
    then show ?thesis by order
  qed
  with Cons show ?case by (cases p) auto
qed simp

text \<open>Every descendant lies strictly inside the child it belongs to.\<close>

lemma descendants_within:
  assumes "kid_ok p" and "(b, h, e) \<in> crm_ranges (snd p)"
  shows "strictly_within b h (lo p) (hi p) \<and> b \<le> h"
  using assms
proof (induction "snd p" arbitrary: p b h e rule: measure_induct_rule [of size])
  case less
  then obtain q where q: "q \<in> set (crm_kids (snd p))" "(b, h, e) \<in> kid_ranges q"
    by (auto simp: crm_ranges_kids)
  have "kids_inv (crm_kids (snd p))" and w: "strictly_within (lo q) (hi q) (lo p) (hi p)"
    using less.prems(1) q(1) by (auto simp: kid_ok_def crm_inv_kids)
  then have ok: "kid_ok q" using kids_inv_ok q(1) by blast
  have "(b = lo q \<and> h = hi q) \<or> strictly_within b h (lo q) (hi q) \<and> b \<le> h"
    using q(2) less.hyps [OF size_kid [OF q(1)] ok] by (auto simp: kid_ranges_def)
  then show ?case
    using w ok unfolding strictly_within_def kid_ok_def by (meson order_antisym order_trans)
qed

lemma kid_ranges_within:
  assumes "kid_ok p" and "(b, h, e) \<in> kid_ranges p"
  shows "lo p \<le> b" and "b \<le> h" and "h \<le> hi p"
  using assms descendants_within [OF assms(1), of b h e]
  by (auto simp: kid_ranges_def kid_ok_def strictly_within_def)

lemma crm_ranges_proper: "crm_inv c \<Longrightarrow> (b, h, e) \<in> crm_ranges c \<Longrightarrow> b \<le> h"
  using kid_ranges_within(2) by (fastforce simp: crm_ranges_kids crm_inv_kids dest: kids_inv_ok)

text \<open>A list of children splits at an address.\<close>

lemma kids_split:
  assumes "kids_inv m"
  obtains xs ys where "m = xs @ ys" and "\<forall>p\<in>set xs. hi p < a" and "\<forall>p\<in>set ys. a \<le> hi p"
    and "lower_bound m a = length xs" and "kids_inv xs" and "kids_inv ys"
    and "\<forall>p\<in>set xs. \<forall>q\<in>set ys. hi p < lo q"
proof -
  obtain xs ys where "m = xs @ ys" "\<forall>p\<in>set xs. hi p < a" "\<forall>p\<in>set ys. a \<le> hi p"
      "lower_bound m a = length xs"
    by (rule std_map_split [OF kids_inv_std [OF assms]])
  with assms show ?thesis by (intro that) auto
qed

section \<open>Retrieval\<close>

definition in_range :: "u64 \<Rightarrow> u64 \<times> u64 \<times> 'e \<Rightarrow> bool" where
  "in_range a r \<longleftrightarrow> fst r \<le> a \<and> a \<le> fst (snd r)"

definition innermost :: "(u64 \<times> u64 \<times> 'e) set \<Rightarrow> u64 \<Rightarrow> 'e option \<Rightarrow> bool" where
  "innermost R a res = (case res of
     None \<Rightarrow> \<forall>r\<in>R. \<not> in_range a r
   | Some e \<Rightarrow> \<exists>r\<in>R. in_range a r \<and> snd (snd r) = e \<and>
       (\<forall>r'\<in>R. in_range a r' \<longrightarrow> fst r' \<le> fst r \<and> fst (snd r) \<le> fst (snd r')))"

lemma innermostI:
  assumes "r \<in> R" and "in_range a r"
    and "\<And>r'. r' \<in> R \<Longrightarrow> in_range a r' \<Longrightarrow> fst r' \<le> fst r \<and> fst (snd r) \<le> fst (snd r')"
  shows "innermost R a (Some (snd (snd r)))"
  unfolding innermost_def using assms by (simp only: option.case) blast

text \<open>The step of the recursion: the child that covers the address decides.\<close>

lemma innermost_child:
  assumes p: "kid_ok p" "lo p \<le> a" "a \<le> hi p"
    and rest: "\<forall>r\<in>R. \<not> in_range a r"
    and rec: "innermost (crm_ranges (snd p)) a res"
  shows "innermost (R \<union> kid_ranges p) a (Some (case res of Some e \<Rightarrow> e | None \<Rightarrow> crm_entry (snd p)))"
proof (cases res)
  case None
  let ?r = "(lo p, hi p, crm_entry (snd p))"
  have "innermost (R \<union> kid_ranges p) a (Some (snd (snd ?r)))"
  proof (rule innermostI)
    show "?r \<in> R \<union> kid_ranges p" by (simp add: kid_ranges_def)
    show "in_range a ?r" using p by (simp add: in_range_def)
    show "fst r' \<le> fst ?r \<and> fst (snd ?r) \<le> fst (snd r')" if "r' \<in> R \<union> kid_ranges p" "in_range a r'" for r'
    proof -
      have "r' = ?r" using that rec rest None by (auto simp: innermost_def kid_ranges_def)
      then show ?thesis by simp
    qed
  qed
  with None show ?thesis by simp
next
  case (Some e)
  with rec obtain r where r: "r \<in> crm_ranges (snd p)" "in_range a r" "snd (snd r) = e"
      "\<forall>r'\<in>crm_ranges (snd p). in_range a r' \<longrightarrow> fst r' \<le> fst r \<and> fst (snd r) \<le> fst (snd r')"
    by (auto simp: innermost_def)
  have "lo p \<le> fst r" "fst (snd r) \<le> hi p"
    using descendants_within [OF p(1), of "fst r" "fst (snd r)" "snd (snd r)"] r(1)
    by (auto simp: strictly_within_def)
  with r(1,2,4) rest have "innermost (R \<union> kid_ranges p) a (Some (snd (snd r)))"
    by (intro innermostI) (auto simp: kid_ranges_def)
  with r(3) Some show ?thesis by simp
qed

lemma not_in_range_beside:
  assumes "kids_inv ps" and "\<forall>p\<in>set ps. hi p < a \<or> a < lo p"
  shows "\<forall>r\<in>(\<Union>p\<in>set ps. kid_ranges p). \<not> in_range a r"
proof
  fix r assume "r \<in> (\<Union>p\<in>set ps. kid_ranges p)"
  then obtain p where p: "p \<in> set ps" "(fst r, fst (snd r), snd (snd r)) \<in> kid_ranges p" by auto
  then show "\<not> in_range a r"
    using kid_ranges_within [OF kids_inv_ok [OF assms(1) p(1)] p(2)] assms(2) by (fastforce simp: in_range_def)
qed

lemma RetrieveRange_innermost:
  assumes "crm_inv c"
  shows "innermost (crm_ranges c) a (crm_RetrieveRange c a)"
  using assms
proof (induction c rule: measure_induct_rule [of size])
  case (less c)
  obtain xs ys where m: "crm_kids c = xs @ ys" and xs: "\<forall>p\<in>set xs. hi p < a" and ys: "\<forall>p\<in>set ys. a \<le> hi p"
      and lb: "lower_bound (crm_kids c) a = length xs" and ix: "kids_inv xs" and iy: "kids_inv ys"
      and "\<forall>p\<in>set xs. \<forall>q\<in>set ys. hi p < lo q"
    by (rule kids_split [OF less.prems [unfolded crm_inv_kids]])
  have ret: "crm_RetrieveRange c a = (if ys = [] \<or> a < lo (hd ys) then None
      else Some (case crm_RetrieveRange (snd (hd ys)) a of Some e \<Rightarrow> e | None \<Rightarrow> crm_entry (snd (hd ys))))"
    using lb m by (subst crm_RetrieveRange.simps)
      (cases "crm_map c"; auto simp: crm_kids_def Let_def split: option.splits)
  show ?case
  proof (cases "ys = [] \<or> a < lo (hd ys)")
    case True
    have "\<forall>p\<in>set ys. a < lo p"
      using True iy by (cases ys) (force simp: kid_ok_def)+
    with xs m have "\<forall>p\<in>set (crm_kids c). hi p < a \<or> a < lo p" by auto
    from not_in_range_beside [OF _ this] less.prems True ret show ?thesis
      by (simp add: innermost_def crm_ranges_kids crm_inv_kids)
  next
    case False
    then obtain y zs where yz: "ys = y # zs" "lo y \<le> a" by (cases ys) auto
    have y: "y \<in> set (crm_kids c)" "kid_ok y" "a \<le> hi y" "\<forall>p\<in>set zs. a < lo p"
      using m yz iy ys by (auto intro: le_less_trans)
    have rec: "innermost (crm_ranges (snd y)) a (crm_RetrieveRange (snd y) a)"
      using less.IH [OF size_kid [OF y(1)]] y(2) by (simp add: kid_ok_def)
    have out: "\<forall>r\<in>(\<Union>p\<in>set (xs @ zs). kid_ranges p). \<not> in_range a r"
      using less.prems m yz xs y(4) by (intro not_in_range_beside) (auto simp: crm_inv_kids)
    have "crm_RetrieveRange c a =
        Some (case crm_RetrieveRange (snd y) a of Some e \<Rightarrow> e | None \<Rightarrow> crm_entry (snd y))"
      using ret False unfolding yz(1) by (simp split: option.splits)
    moreover note innermost_child [OF y(2) yz(2) y(3) out rec]
    moreover have "crm_ranges c = (\<Union>p\<in>set (xs @ zs). kid_ranges p) \<union> kid_ranges y"
      using m yz by (auto simp: crm_ranges_kids)
    ultimately show ?thesis by simp
  qed
qed

section \<open>Storing\<close>

text \<open>How a child relates to a new range decides for all the ranges below the child.\<close>

lemma compatible_disjoint:
  assumes "kid_ok p" and "h < lo p \<or> hi p < b" and "r \<in> kid_ranges p"
  shows "compatible b h r"
proof -
  obtain b' h' e where r: "r = (b', h', e)" by (cases r)
  have "lo p \<le> b'" "h' \<le> hi p" using kid_ranges_within [OF assms(1)] assms(3) r by auto
  with assms(2) r show ?thesis by (auto simp: compatible_def)
qed

lemma compatible_inside:
  assumes "kid_ok p" and "strictly_within (lo p) (hi p) b h" and "r \<in> kid_ranges p"
  shows "compatible b h r"
proof -
  obtain b' h' e where r: "r = (b', h', e)" by (cases r)
  have "lo p \<le> b'" "h' \<le> hi p" using kid_ranges_within [OF assms(1)] assms(3) r by auto
  with assms(2) have "strictly_within b' h' b h" by (auto simp: strictly_within_def)
  with r show ?thesis by (simp add: compatible_def)
qed

lemma incompatible_overlap:
  assumes "lo p \<le> h" and "b \<le> hi p" and "\<not> strictly_within (lo p) (hi p) b h"
    and "\<not> strictly_within b h (lo p) (hi p)"
  shows "\<exists>r\<in>kid_ranges p. \<not> compatible b h r"
  using assms by (auto simp: kid_ranges_def compatible_def not_less)

lemma kids_new_child:
  assumes inv: "kids_inv (xs @ zs @ ws)" and "b \<le> h" and xs: "\<forall>p\<in>set xs. hi p < b"
    and zs: "\<forall>p\<in>set zs. strictly_within (lo p) (hi p) b h" and ws: "\<forall>p\<in>set ws. h < lo p"
    and new: "crm_base new = b" "crm_entry new = e" "crm_kids new = zs"
  shows "kids_inv (xs @ (h, new) # ws)"
    and "(\<Union>p\<in>set (xs @ (h, new) # ws). kid_ranges p) =
         insert (b, h, e) (\<Union>p\<in>set (xs @ zs @ ws). kid_ranges p)"
proof -
  have "kid_ok (h, new)"
    using inv new zs assms(2) by (auto simp: kid_ok_def crm_inv_kids)
  moreover have "kids_inv xs" "kids_inv ws" "\<forall>p\<in>set xs. \<forall>q\<in>set ws. hi p < lo q"
    using inv by simp_all
  ultimately show "kids_inv (xs @ (h, new) # ws)" using xs ws new(1) by simp
  have "kid_ranges (h, new) = insert (b, h, e) (\<Union>p\<in>set zs. kid_ranges p)"
    using crm_ranges_kids [of new] by (simp add: kid_ranges_def [of "(h, new)"] new)
  then show "(\<Union>p\<in>set (xs @ (h, new) # ws). kid_ranges p) =
      insert (b, h, e) (\<Union>p\<in>set (xs @ zs @ ws). kid_ranges p)" by auto
qed

lemma kids_update_child:
  assumes inv: "kids_inv (xs @ p # ys)" and p': "hi p' = hi p" "lo p' = lo p" "crm_entry (snd p') = crm_entry (snd p)"
    and ci: "crm_inv (snd p')" and new: "strictly_within b h (lo p) (hi p)"
    and ranges: "crm_ranges (snd p') \<subseteq> insert (b, h, e) (crm_ranges (snd p))"
  shows "kids_inv (xs @ p' # ys)"
proof -
  have ok: "kid_ok p" using inv by simp
  have "strictly_within (lo q) (hi q) (lo p) (hi p)" if "q \<in> set (crm_kids (snd p'))" for q
  proof -
    have "(lo q, hi q, crm_entry (snd q)) \<in> kid_ranges q" by (simp add: kid_ranges_def)
    then have "(lo q, hi q, crm_entry (snd q)) \<in> crm_ranges (snd p')"
      using that crm_ranges_kids [of "snd p'"] by blast
    with ranges have "(lo q, hi q, crm_entry (snd q)) = (b, h, e) \<or>
        (lo q, hi q, crm_entry (snd q)) \<in> crm_ranges (snd p)" by blast
    then show ?thesis using new descendants_within [OF ok, of "lo q" "hi q"] by auto
  qed
  then have "kid_ok p'" using ok ci p' by (simp add: kid_ok_def)
  with inv p' show ?thesis by simp
qed

text \<open>
  The children split into those that end below the new range, those that end inside it and
  those that end at its last address or later; the branches of \<open>StoreRange\<close> in these terms.
\<close>

lemma StoreRange_split:
  assumes m: "crm_kids c = xs @ zs @ ws" and g: "s \<noteq> 0" "b \<le> h" "h = b + s - 1"
    and xs: "\<forall>p\<in>set xs. hi p < b" and zs: "\<forall>p\<in>set zs. b \<le> hi p \<and> hi p < h"
    and ws: "\<forall>p\<in>set ws. h \<le> hi p"
  shows "crm_StoreRange c b s e =
    (let node = (\<lambda>m. ContainedRangeMap (crm_base c) (crm_entry c) (Some m));
         contains_high = (ws \<noteq> [] \<and> lo (hd ws) \<le> h) in
     if zs = [] \<and> ws \<noteq> [] \<and> lo (hd ws) \<le> b then
       (if lo (hd ws) = b \<and> hi (hd ws) = h then (node (crm_kids c), False)
        else case crm_StoreRange (snd (hd ws)) b s e of
               (child, ok) \<Rightarrow> (node (xs @ (hi (hd ws), child) # tl ws), ok))
     else if (zs @ ws \<noteq> [] \<and> lo (hd (zs @ ws)) < b) \<or> (contains_high \<and> h < hi (hd ws))
       then (node (crm_kids c), False)
     else
       let moved = zs @ (if contains_high then [hd ws] else []);
           rest = (if contains_high then tl ws else ws)
       in (node (std_insert h (ContainedRangeMap b e (if moved = [] then None else Some moved)) (xs @ rest)), True))"
proof -
  have lb: "lower_bound (crm_kids c) b = length xs"
    unfolding m using xs zs ws g(2) by (intro lower_bound_append) (cases zs; cases ws; auto)+
  have lh: "lower_bound (crm_kids c) h = length (xs @ zs)"
    unfolding m append_assoc [symmetric] using xs zs ws g(2)
    by (intro lower_bound_append) (cases ws; auto)+
  have at: "(xs @ zs @ ws) ! (length xs + length zs) = hd ws" if "ws \<noteq> []"
    using that nth_append_length_hd [of ws "xs @ zs"] by simp
  have atb: "(xs @ zs @ ws) ! length xs = hd (zs @ ws)" if "zs @ ws \<noteq> []"
    using that nth_append_length_hd [of "zs @ ws" xs] by simp
  have nlt: "\<not> h < b" using g by simp
  show ?thesis
  proof (cases ws)
    case Nil
    show ?thesis
      unfolding crm_StoreRange.simps [of c b s e] Let_def g(3) [symmetric]
      using lb lh m Nil g nlt atb
      by (cases zs) (simp_all add: std_erase_range_def)
  next
    case (Cons w ws')
    show ?thesis
      unfolding crm_StoreRange.simps [of c b s e] Let_def g(3) [symmetric]
      using lb lh m Cons g nlt at atb
      by (cases zs) (simp_all add: std_erase_range_def list_update_append split: prod.splits)
  qed
qed

text \<open>The contract of a store, and the four ways in which it ends.\<close>

definition stored :: "'e ContainedRangeMap \<Rightarrow> u64 \<Rightarrow> u64 \<Rightarrow> 'e \<Rightarrow> 'e ContainedRangeMap \<times> bool \<Rightarrow> bool" where
  "stored c b h e res = (case res of (c', ok) \<Rightarrow>
     crm_base c' = crm_base c \<and> crm_entry c' = crm_entry c \<and> crm_inv c' \<and>
     (ok \<longleftrightarrow> (\<forall>r\<in>crm_ranges c. compatible b h r)) \<and>
     crm_ranges c' = (if ok then insert (b, h, e) (crm_ranges c) else crm_ranges c))"

abbreviation with_kids :: "'e ContainedRangeMap \<Rightarrow> (u64, 'e ContainedRangeMap) std_map \<Rightarrow> 'e ContainedRangeMap" where
  "with_kids c m \<equiv> ContainedRangeMap (crm_base c) (crm_entry c) (Some m)"

lemma ranges_with_kids [simp]: "crm_ranges (with_kids c m) = (\<Union>p\<in>set m. kid_ranges p)"
  by (subst crm_ranges_kids) simp

lemma stored_refused:
  assumes "crm_inv c" and "p \<in> set (crm_kids c)" and "\<exists>r\<in>kid_ranges p. \<not> compatible b h r"
  shows "stored c b h e (with_kids c (crm_kids c), False)"
proof -
  have "\<exists>r\<in>crm_ranges c. \<not> compatible b h r" using assms(2,3) crm_ranges_kids [of c] by blast
  then show ?thesis
    using assms(1) crm_ranges_kids [of c] by (auto simp: stored_def crm_inv_kids)
qed

lemma stored_below:
  assumes inv: "crm_inv c" and m: "crm_kids c = xs @ w # ys"
    and w: "strictly_within b h (lo w) (hi w)" "b \<le> h"
    and rec: "stored (snd w) b h e (child, ok)"
  shows "stored c b h e (with_kids c (xs @ (hi w, child) # ys), ok)"
proof -
  let ?w = "(hi w, child)"
  have ki: "kids_inv (xs @ w # ys)" using inv m by (simp add: crm_inv_kids)
  have r: "crm_base child = lo w" "crm_entry child = crm_entry (snd w)" "crm_inv child"
    "ok \<longleftrightarrow> (\<forall>r\<in>crm_ranges (snd w). compatible b h r)"
    "crm_ranges child = (if ok then insert (b, h, e) (crm_ranges (snd w)) else crm_ranges (snd w))"
    using rec by (auto simp: stored_def)
  have "kids_inv (xs @ ?w # ys)"
    by (rule kids_update_child [OF ki, of ?w b h e]) (use r w in auto)
  moreover have kr: "kid_ranges ?w = (if ok then insert (b, h, e) (kid_ranges w) else kid_ranges w)"
    using r by (auto simp: kid_ranges_def)
  moreover have "\<forall>p\<in>set xs \<union> set ys. \<forall>r\<in>kid_ranges p. compatible b h r"
  proof (intro ballI)
    fix p r assume that: "p \<in> set xs \<union> set ys" "r \<in> kid_ranges p"
    show "compatible b h r"
    proof (rule compatible_disjoint [OF _ _ that(2)])
    show "kid_ok p" using that(1) kids_inv_ok [OF ki, of p] by auto
    show "h < lo p \<or> hi p < b"
      using ki that(1) w by (auto simp: strictly_within_def intro: le_less_trans order_less_le_trans)
    qed
  qed
  moreover have "compatible b h (lo w, hi w, crm_entry (snd w))"
    using w by (simp add: compatible_def)
  ultimately show ?thesis
    using r(4) crm_ranges_kids [of c] m
    by (auto simp: stored_def crm_inv_kids kid_ranges_def [of w])
qed

lemma stored_here:
  assumes inv: "crm_inv c" and m: "crm_kids c = xs @ zs @ ws" and "b \<le> h"
    and xs: "\<forall>p\<in>set xs. hi p < b" and zs: "\<forall>p\<in>set zs. strictly_within (lo p) (hi p) b h"
    and ws: "\<forall>p\<in>set ws. h < lo p"
  shows "stored c b h e
    (with_kids c (std_insert h (ContainedRangeMap b e (if zs = [] then None else Some zs)) (xs @ ws)), True)"
proof -
  let ?new = "ContainedRangeMap b e (if zs = [] then None else Some zs)"
  have ki: "kids_inv (xs @ zs @ ws)" using inv m by (simp add: crm_inv_kids)
  have new: "crm_base ?new = b" "crm_entry ?new = e" "crm_kids ?new = zs" by auto
  have key: "h < hi p" if "p \<in> set ws" for p
  proof -
    have "h < lo p" "lo p \<le> hi p" using that ws ki kids_inv_ok [of ws p] by (auto simp: kid_ok_def)
    then show ?thesis by order
  qed
  have ins: "std_insert h ?new (xs @ ws) = xs @ (h, ?new) # ws"
    using xs key assms(3) by (intro std_insert_append) (force, cases ws, auto)
  have "\<forall>p\<in>set (xs @ zs @ ws). \<forall>r\<in>kid_ranges p. compatible b h r"
  proof (intro ballI)
    fix p r assume that: "p \<in> set (xs @ zs @ ws)" "r \<in> kid_ranges p"
    have ok: "kid_ok p" using ki that(1) kids_inv_ok by blast
    show "compatible b h r"
      using compatible_disjoint [OF ok _ that(2)] compatible_inside [OF ok _ that(2)] that(1) xs zs ws
      by auto
  qed
  then have "\<forall>r\<in>crm_ranges c. compatible b h r" unfolding crm_ranges_kids [of c] m by blast
  then show ?thesis
    using kids_new_child [OF ki assms(3) xs zs ws new] crm_ranges_kids [of c] m
    unfolding stored_def ins by (simp add: crm_inv_kids)
qed

text \<open>The guard of the branch that stores the range at this level is exactly non-overlap.\<close>

lemma kids_accepting:
  assumes inv: "kids_inv (zs @ ws)" and zs: "\<forall>p\<in>set zs. b \<le> hi p \<and> hi p < h" and ws: "\<forall>p\<in>set ws. h \<le> hi p"
    and outside: "\<not> (zs = [] \<and> ws \<noteq> [] \<and> lo (hd ws) \<le> b)"
    and high: "contains_high = (ws \<noteq> [] \<and> lo (hd ws) \<le> h)"
    and guard: "\<not> ((zs @ ws \<noteq> [] \<and> lo (hd (zs @ ws)) < b) \<or> (contains_high \<and> h < hi (hd ws)))"
    and moved: "moved = zs @ (if contains_high then [hd ws] else [])"
    and rest: "rest = (if contains_high then tl ws else ws)"
  shows "zs @ ws = moved @ rest" and "\<forall>p\<in>set moved. strictly_within (lo p) (hi p) b h"
    and "\<forall>p\<in>set rest. h < lo p"
proof -
  show "zs @ ws = moved @ rest" using high by (cases ws) (auto simp: moved rest)
  have first: "\<forall>p\<in>set (zs @ ws). b \<le> lo p"
  proof (cases "zs @ ws")
    case (Cons y ys)
    have y: "b \<le> lo y" using guard Cons by (simp add: not_less)
    have "kids_inv (y # ys)" using inv Cons by simp
    then have ys: "lo y \<le> hi y" "\<forall>q\<in>set ys. hi y < lo q" by (auto simp: kid_ok_def)
    have "b \<le> lo q" if "q \<in> set ys" for q
    proof -
      have "hi y < lo q" using ys(2) that by blast
      with y ys(1) show ?thesis by order
    qed
    with y show ?thesis unfolding Cons by auto
  qed simp
  have "b < lo w" if "ws = w # ws'" for w ws'
  proof (cases zs)
    case Nil then show ?thesis using outside that by auto
  next
    case (Cons z zs')
    then have "b \<le> hi z" "hi z < lo w" using inv zs that by auto
    then show ?thesis by order
  qed
  with first zs ws guard high show "\<forall>p\<in>set moved. strictly_within (lo p) (hi p) b h"
    by (cases ws) (auto simp: moved strictly_within_def)
  show "\<forall>p\<in>set rest. h < lo p"
    using high inv ws by (cases ws) (auto simp: rest not_le kid_ok_def intro: le_less_trans less_trans order_less_le_trans)
qed

lemma crm_StoreRange_stored:
  assumes "crm_inv c" and g: "s \<noteq> 0" "b \<le> h" "h = b + s - 1"
  shows "stored c b h e (crm_StoreRange c b s e)"
  using assms(1)
proof (induction c rule: measure_induct_rule [of size])
  case (less c)
  obtain xs ts where m: "crm_kids c = xs @ ts" and xs: "\<forall>p\<in>set xs. hi p < b" and ts: "\<forall>p\<in>set ts. b \<le> hi p"
      and "lower_bound (crm_kids c) b = length xs" and "kids_inv xs" and it: "kids_inv ts"
      and xt: "\<forall>p\<in>set xs. \<forall>q\<in>set ts. hi p < lo q"
    by (rule kids_split [OF less.prems [unfolded crm_inv_kids]])
  obtain zs ws where t: "ts = zs @ ws" and zh: "\<forall>p\<in>set zs. hi p < h" and ws: "\<forall>p\<in>set ws. h \<le> hi p"
      and "lower_bound ts h = length zs" "kids_inv zs" "kids_inv ws"
      and zw: "\<forall>p\<in>set zs. \<forall>q\<in>set ws. hi p < lo q"
    by (rule kids_split [OF it])
  have zs: "\<forall>p\<in>set zs. b \<le> hi p \<and> hi p < h" using zh ts t by auto
  let ?high = "ws \<noteq> [] \<and> lo (hd ws) \<le> h"
  note step = StoreRange_split [OF m [unfolded t] g xs zs ws, of e]
  consider (child) "zs = [] \<and> ws \<noteq> [] \<and> lo (hd ws) \<le> b"
    | (partial) "\<not> (zs = [] \<and> ws \<noteq> [] \<and> lo (hd ws) \<le> b)"
        "(zs @ ws \<noteq> [] \<and> lo (hd (zs @ ws)) < b) \<or> (?high \<and> h < hi (hd ws))"
    | (here) "\<not> (zs = [] \<and> ws \<noteq> [] \<and> lo (hd ws) \<le> b)"
        "\<not> ((zs @ ws \<noteq> [] \<and> lo (hd (zs @ ws)) < b) \<or> (?high \<and> h < hi (hd ws)))" by blast
  then show ?case
  proof cases
    case child
    then obtain w ws' where w: "ws = w # ws'" "lo w \<le> b" "h \<le> hi w" "zs = []" using ws by (cases ws) auto
    have wk: "w \<in> set (crm_kids c)" and wi: "crm_inv (snd w)"
      using m t w less.prems by (auto simp: crm_inv_kids kid_ok_def)
    show ?thesis
    proof (cases "lo w = b \<and> hi w = h")
      case True
      then have "\<exists>r\<in>kid_ranges w. \<not> compatible b h r"
        using g(2) by (intro incompatible_overlap) (auto simp: strictly_within_def)
      with stored_refused [OF less.prems wk] True w step show ?thesis by (simp add: Let_def)
    next
      case False
      then have sw: "strictly_within b h (lo w) (hi w)" using w by (auto simp: strictly_within_def)
      obtain child ok where rec: "crm_StoreRange (snd w) b s e = (child, ok)" by fastforce
      have "stored (snd w) b h e (child, ok)"
        using less.IH [OF size_kid [OF wk] wi] rec by simp
      from stored_below [OF less.prems _ sw g(2) this, of xs ws'] m t w
      have "stored c b h e (with_kids c (xs @ (hi w, child) # ws'), ok)" by simp
      then show ?thesis using False w(2,4) rec unfolding step Let_def w(1) by auto
    qed
  next
    case partial
    have "\<exists>p\<in>set (crm_kids c). \<exists>r\<in>kid_ranges p. \<not> compatible b h r"
    proof (cases "?high \<and> h < hi (hd ws)")
      case True
      have "b < lo (hd ws)"
      proof (cases zs)
        case Nil then show ?thesis using partial(1) True by (simp add: not_le)
      next
        case (Cons z zs')
        then have "b \<le> hi z" "hi z < lo (hd ws)" using zs zw True by simp_all
        then show ?thesis by order
      qed
      with True g(2) have "\<exists>r\<in>kid_ranges (hd ws). \<not> compatible b h r"
        by (intro incompatible_overlap) (auto simp: strictly_within_def)
      with True m t show ?thesis by (intro bexI [of _ "hd ws"]) auto
    next
      case False
      with partial have p: "zs @ ws \<noteq> []" "lo (hd (zs @ ws)) < b" by auto
      then obtain z zs' where z: "zs = z # zs'" using partial(1) by (cases zs) (auto simp: less_imp_le)
      then have "lo z < b" "b \<le> hi z" "hi z < h" using p zs by auto
      with g(2) have "\<exists>r\<in>kid_ranges z. \<not> compatible b h r"
        by (intro incompatible_overlap) (auto simp: strictly_within_def)
      with z m t show ?thesis by (intro bexI [of _ z]) auto
    qed
    then obtain p where "p \<in> set (crm_kids c)" "\<exists>r\<in>kid_ranges p. \<not> compatible b h r" ..
    from stored_refused [OF less.prems this] show ?thesis
      unfolding step Let_def using partial by (simp only: if_True if_False)
  next
    case here
    define moved rest where mr: "moved = zs @ (if ?high then [hd ws] else [])" "rest = (if ?high then tl ws else ws)"
    note acc = kids_accepting [OF it [unfolded t] zs ws here(1) refl here(2) mr]
    have "crm_kids c = xs @ moved @ rest" using m t acc(1) by simp
    from stored_here [OF less.prems this g(2) xs acc(2,3), of e] show ?thesis
      unfolding step Let_def mr [symmetric] using here by (simp only: if_False)
  qed
qed

lemma crm_StoreRange_invalid: "s = 0 \<or> b + s - 1 < b \<Longrightarrow> crm_StoreRange c b s e = (c, False)"
  by (subst crm_StoreRange.simps) (auto simp: Let_def)

section \<open>Properties\<close>

lemma crm_StoreRange_contract:
  assumes "crm_inv c" and "crm_StoreRange c b s e = (c', ok)"
  shows "crm_inv c' \<and>
    (ok \<longleftrightarrow> s \<noteq> 0 \<and> b \<le> b + s - 1 \<and> (\<forall>r\<in>crm_ranges c. compatible b (b + s - 1) r)) \<and>
    crm_ranges c' = (if ok then insert (b, b + s - 1, e) (crm_ranges c) else crm_ranges c)"
proof (cases "s = 0 \<or> b + s - 1 < b")
  case True
  with crm_StoreRange_invalid [OF this, of c e] assms show ?thesis by auto
next
  case False
  with crm_StoreRange_stored [OF assms(1), of s b "b + s - 1" e] assms(2) show ?thesis
    by (auto simp: stored_def)
qed

text \<open>
  C22: \<open>StoreRange\<close> keeps the tree well formed; it accepts a range exactly when the range is
  nonempty, does not wrap around the address space and, against every range stored anywhere
  in the tree, is disjoint from it or strictly nested with it; an accepted range is added to
  the stored ranges and a refused one changes none of them.
\<close>

theorem ContainedRangeMap_StoreRange_correct:
  assumes "crm_inv c" and "crm_StoreRange c b s e = (c', ok)"
  shows "crm_inv c' \<and>
    (ok \<longleftrightarrow> s \<noteq> 0 \<and> b \<le> b + s - 1 \<and> (\<forall>r\<in>crm_ranges c. compatible b (b + s - 1) r)) \<and>
    crm_ranges c' = (if ok then insert (b, b + s - 1, e) (crm_ranges c) else crm_ranges c)"
  by (rule crm_StoreRange_contract [OF assms])

lemma crm_example:
  "crm_inv (ContainedRangeMap 0 0 (Some [(29, ContainedRangeMap 20 (7::nat) None)]))"
  by (simp add: crm_inv_kids kid_ok_def)

theorem ContainedRangeMap_StoreRange_correct_witness:
  "crm_inv (fst (crm_StoreRange (ContainedRangeMap 0 0 (Some [(29, ContainedRangeMap 20 (7::nat) None)])) 10 30 8))
   \<and> snd (crm_StoreRange (ContainedRangeMap 0 0 (Some [(29, ContainedRangeMap 20 (7::nat) None)])) 10 30 8)"
proof -
  have "crm_StoreRange (ContainedRangeMap 0 0 (Some [(29, ContainedRangeMap 20 (7::nat) None)])) 10 30 8 =
      (ContainedRangeMap 0 0 (Some [(39, ContainedRangeMap 10 8 (Some [(29, ContainedRangeMap 20 7 None)]))]), True)"
    by (subst crm_StoreRange.simps) code_simp
  from ContainedRangeMap_StoreRange_correct [OF crm_example this] this show ?thesis by simp
qed

text \<open>
  C15: \<open>RetrieveRange\<close> returns the entry of the innermost stored range that holds the address:
  the result's range holds it and lies inside every other stored range that does; there is no
  result exactly when no stored range holds the address.
\<close>

theorem ContainedRangeMap_RetrieveRange_correct:
  assumes "crm_inv c"
  shows "innermost (crm_ranges c) address (crm_RetrieveRange c address)"
  by (rule RetrieveRange_innermost [OF assms])

theorem ContainedRangeMap_RetrieveRange_correct_witness:
  "innermost (crm_ranges (ContainedRangeMap 0 0 (Some [(29, ContainedRangeMap 20 (7::nat) None)]))) 25 (Some 7)"
proof -
  have "crm_RetrieveRange (ContainedRangeMap 0 0 (Some [(29, ContainedRangeMap 20 (7::nat) None)])) 25 = Some 7"
    by code_simp
  with ContainedRangeMap_RetrieveRange_correct [OF crm_example, of 25] show ?thesis by simp
qed

end
