(* ===== verification/Range_Map.thy ===== *)
theory Range_Map
  imports Std_Map
begin

text \<open>
  \<open>RangeMap\<close> (processor/range_map.h, range_map-inl.h): disjoint address ranges, kept in a
  \<open>std::map\<close> by their highest address, with the three strategies for ranges that overlap.

  \<open>StoreRangeInternal\<close> calls itself after each adjustment, so it is a
  \<^theory_text>\<open>partial_function\<close>: \<^const>\<open>None\<close> is a call that does not return, or one that uses the
  outputs of a \<open>RetrieveRange\<close> that failed. On every map that satisfies the invariant the
  call returns, with the closed form given by \<open>store_exclusive\<close>, \<open>store_truncate_lower\<close> and
  \<open>store_truncate_upper\<close> below.
\<close>

section \<open>Model\<close>

datatype MergeRangeStrategy = kExclusiveRanges | kTruncateLower | kTruncateUpper

record 'e Range =
  base :: u64
  delta :: u64
  entry :: 'e

record 'e RangeMap =
  merge_strategy :: MergeRangeStrategy
  rm_map :: "(u64, 'e Range) std_map"

definition RangeMap_new :: "'e RangeMap" where
  "RangeMap_new = \<lparr>merge_strategy = kExclusiveRanges, rm_map = []\<rparr>"

definition SetMergeStrategy :: "'e RangeMap \<Rightarrow> MergeRangeStrategy \<Rightarrow> 'e RangeMap" where
  "SetMergeStrategy m strat = m\<lparr>merge_strategy := strat\<rparr>"

text \<open>The outputs of a successful retrieval: entry, base, delta and size.\<close>

definition range_outputs :: "u64 \<times> 'e Range \<Rightarrow> 'e \<times> u64 \<times> u64 \<times> u64" where
  "range_outputs p = (case p of (high, r) \<Rightarrow> (entry r, base r, delta r, high - base r + 1))"

definition RangeMap_RetrieveRange :: "'e RangeMap \<Rightarrow> u64 \<Rightarrow> ('e \<times> u64 \<times> u64 \<times> u64) option" where
  "RangeMap_RetrieveRange m address =
     (let i = lower_bound (rm_map m) address in
      if i = length (rm_map m) then None
      else if address < base (snd (rm_map m ! i)) then None
      else Some (range_outputs (rm_map m ! i)))"

definition RangeMap_RetrieveNearestRange ::
    "'e RangeMap \<Rightarrow> u64 \<Rightarrow> ('e \<times> u64 \<times> u64 \<times> u64) option" where
  "RangeMap_RetrieveNearestRange m address =
     (case RangeMap_RetrieveRange m address of
        Some out \<Rightarrow> Some out
      | None \<Rightarrow>
         (let i = upper_bound (rm_map m) address in
          if i = 0 then None else Some (range_outputs (rm_map m ! (i - 1)))))"

text \<open>
  The count and the index are natural numbers: a map has less than \<open>2 ^ 31\<close> entries, so that the
  conversion of its size to \<open>int\<close> keeps it, and the callers count indices from zero.
\<close>

definition RangeMap_GetCount :: "'e RangeMap \<Rightarrow> nat" where
  "RangeMap_GetCount m = length (rm_map m)"

definition RangeMap_RetrieveRangeAtIndex ::
    "'e RangeMap \<Rightarrow> nat \<Rightarrow> ('e \<times> u64 \<times> u64 \<times> u64) option" where
  "RangeMap_RetrieveRangeAtIndex m index =
     (if index \<ge> RangeMap_GetCount m then None else Some (range_outputs (rm_map m ! index)))"

definition RangeMap_Clear :: "'e RangeMap \<Rightarrow> 'e RangeMap" where
  "RangeMap_Clear m = m\<lparr>rm_map := []\<rparr>"

partial_function (option) StoreRangeInternal ::
    "'e RangeMap \<Rightarrow> u64 \<Rightarrow> u64 \<Rightarrow> u64 \<Rightarrow> 'e \<Rightarrow> ('e RangeMap \<times> bool) option" where
  "StoreRangeInternal m base' delta' size' entry' =
   (let high = base' + (size' - 1) in
    if size' \<le> 0 \<or> high < base' then Some (m, False) else
    let iterator_base = lower_bound (rm_map m) base';
        iterator_high = lower_bound (rm_map m) high in
    if iterator_base \<noteq> iterator_high then
      (if merge_strategy m = kTruncateLower then
         let other_base = base (snd (rm_map m ! iterator_base)) in
         if base' < other_base then
           StoreRangeInternal m base' delta' (other_base - base') entry'
         else if other_base < base' then
           (case RangeMap_RetrieveRange m (fst (rm_map m ! iterator_base)) of
              None \<Rightarrow> None
            | Some (other_entry, other_base, other_delta, other_size) \<Rightarrow>
                StoreRangeInternal
                  (m\<lparr>rm_map := std_insert (base' - 1)
                       \<lparr>base = other_base, delta = other_delta, entry = other_entry\<rparr>
                       (std_erase iterator_base (rm_map m))\<rparr>)
                  base' delta' size' entry')
         else Some (m, False)
       else if merge_strategy m = kTruncateUpper then
         let additional_delta = fst (rm_map m ! iterator_base) - base' + 1 in
         StoreRangeInternal m (base' + additional_delta) (delta' + additional_delta)
           (size' - additional_delta) entry'
       else Some (m, False))
    else if iterator_high \<noteq> length (rm_map m) \<and> base (snd (rm_map m ! iterator_high)) \<le> high then
      (if merge_strategy m = kTruncateLower then
         let other_base = base (snd (rm_map m ! iterator_high)) in
         if base' < other_base then
           StoreRangeInternal m base' delta' (other_base - base') entry'
         else if other_base < base' then
           (case RangeMap_RetrieveRange m (fst (rm_map m ! iterator_high)) of
              None \<Rightarrow> None
            | Some (other_entry, other_base, other_delta, other_size) \<Rightarrow>
                StoreRangeInternal
                  (m\<lparr>rm_map := std_insert (base' - 1)
                       \<lparr>base = other_base, delta = other_delta, entry = other_entry\<rparr>
                       (std_erase iterator_high (rm_map m))\<rparr>)
                  base' delta' size' entry')
         else Some (m, False)
       else if merge_strategy m = kTruncateUpper \<and> fst (rm_map m ! iterator_high) > high then
         let other_high = fst (rm_map m ! iterator_high);
             additional_delta = high - base (snd (rm_map m ! iterator_high)) + 1 in
         (case RangeMap_RetrieveRange m other_high of
            None \<Rightarrow> None
          | Some (other_entry, other_base, other_delta, other_size) \<Rightarrow>
              StoreRangeInternal
                (m\<lparr>rm_map := std_insert other_high
                     \<lparr>base = other_base + additional_delta, delta = other_delta + additional_delta,
                      entry = other_entry\<rparr>
                     (std_erase iterator_high (rm_map m))\<rparr>)
                base' delta' size' entry')
       else Some (m, False))
    else
      Some (m\<lparr>rm_map := std_insert high \<lparr>base = base', delta = delta', entry = entry'\<rparr> (rm_map m)\<rparr>,
            True))"

definition RangeMap_StoreRange ::
    "'e RangeMap \<Rightarrow> u64 \<Rightarrow> u64 \<Rightarrow> 'e \<Rightarrow> ('e RangeMap \<times> bool) option" where
  "RangeMap_StoreRange m base' size' entry' = StoreRangeInternal m base' 0 size' entry'"

section \<open>Invariant\<close>

text \<open>
  Every stored range is non-empty and does not cover the whole address space (its size fits
  into the address type), and each range ends before the next one begins.
\<close>

definition range_ok :: "u64 \<times> 'e Range \<Rightarrow> bool" where
  "range_ok p \<longleftrightarrow> base (snd p) \<le> fst p \<and> fst p - base (snd p) \<noteq> - 1"

definition range_before :: "u64 \<times> 'e Range \<Rightarrow> u64 \<times> 'e Range \<Rightarrow> bool" where
  "range_before p q \<longleftrightarrow> fst p < base (snd q)"

definition ranges_inv :: "(u64, 'e Range) std_map \<Rightarrow> bool" where
  "ranges_inv rs \<longleftrightarrow> sorted_wrt range_before rs \<and> list_all range_ok rs"

definition range_map_inv :: "'e RangeMap \<Rightarrow> bool" where
  "range_map_inv m \<longleftrightarrow> ranges_inv (rm_map m)"

lemma ranges_inv_Nil [simp]: "ranges_inv []"
  by (simp add: ranges_inv_def)

lemma ranges_inv_Cons [simp]:
  "ranges_inv (p # rs) \<longleftrightarrow> range_ok p \<and> (\<forall>q\<in>set rs. range_before p q) \<and> ranges_inv rs"
  by (auto simp: ranges_inv_def)

lemma ranges_inv_append [simp]:
  "ranges_inv (xs @ ys) \<longleftrightarrow>
     ranges_inv xs \<and> ranges_inv ys \<and> (\<forall>p\<in>set xs. \<forall>q\<in>set ys. range_before p q)"
  by (auto simp: ranges_inv_def sorted_wrt_append)

lemma range_before_key: "range_before p q \<Longrightarrow> range_ok q \<Longrightarrow> fst p < fst q"
  by (auto simp: range_before_def range_ok_def)

lemma ranges_inv_ok: "ranges_inv rs \<Longrightarrow> p \<in> set rs \<Longrightarrow> range_ok p"
  by (auto simp: ranges_inv_def list_all_iff)

lemma ranges_inv_std [intro]: "ranges_inv rs \<Longrightarrow> std_map_inv rs"
proof (induction rs)
  case (Cons p rs)
  have "\<forall>q\<in>set rs. fst p < fst q"
    using Cons.prems ranges_inv_ok [of rs] by (auto intro: range_before_key)
  with Cons show ?case by (cases p) auto
qed simp

text \<open>A map that satisfies the invariant splits at an address.\<close>

lemma ranges_split:
  assumes "ranges_inv rs"
  obtains xs ys where "rs = xs @ ys" and "\<forall>p\<in>set xs. fst p < a" and "\<forall>p\<in>set ys. a \<le> fst p"
    and "ranges_inv xs" and "ranges_inv ys" and "\<forall>p\<in>set xs. \<forall>q\<in>set ys. range_before p q"
    and "lower_bound rs a = length xs"
proof -
  obtain xs ys where "rs = xs @ ys" "\<forall>p\<in>set xs. fst p < a" "\<forall>p\<in>set ys. a \<le> fst p"
      "lower_bound rs a = length xs"
    by (rule std_map_split [OF ranges_inv_std [OF assms]])
  with assms show ?thesis by (intro that) auto
qed

section \<open>Retrieval\<close>

definition covers :: "u64 \<Rightarrow> u64 \<times> 'e Range \<Rightarrow> bool" where
  "covers a p \<longleftrightarrow> base (snd p) \<le> a \<and> a \<le> fst p"

definition last_range_from :: "(u64, 'e Range) std_map \<Rightarrow> u64 \<Rightarrow> (u64 \<times> 'e Range) option" where
  "last_range_from rs a =
     (case filter (\<lambda>p. base (snd p) \<le> a) rs of [] \<Rightarrow> None | ps \<Rightarrow> Some (last ps))"

lemma last_range_from_eq:
  "filter (\<lambda>p. base (snd p) \<le> a) rs = ps \<Longrightarrow>
   last_range_from rs a = (if ps = [] then None else Some (last ps))"
  by (auto simp: last_range_from_def split: list.splits)

text \<open>What an address finds depends on the first range that ends at or after it.\<close>

lemma find_none: "\<forall>p\<in>set rs. \<not> P p \<Longrightarrow> List.find P rs = None"
  by (simp add: find_None_iff)

lemma find_SomeD: "List.find P rs = Some p \<Longrightarrow> p \<in> set rs \<and> P p"
  by (induction rs) (auto split: if_splits)

lemma RetrieveRange_find:
  assumes "range_map_inv m"
  shows "RangeMap_RetrieveRange m a = map_option range_outputs (List.find (covers a) (rm_map m))"
proof -
  obtain xs ys where s: "rm_map m = xs @ ys" "\<forall>p\<in>set xs. fst p < a" "\<forall>p\<in>set ys. a \<le> fst p"
      "ranges_inv xs" "ranges_inv ys" "\<forall>p\<in>set xs. \<forall>q\<in>set ys. range_before p q"
      and lb: "lower_bound (rm_map m) a = length xs"
    by (rule ranges_split [OF assms [unfolded range_map_inv_def]])
  have xs: "List.find (covers a) (xs @ zs) = List.find (covers a) zs" for zs
    using s(2) by (induction xs) (auto simp: covers_def)
  show ?thesis
  proof (cases ys)
    case Nil
    then show ?thesis using s lb xs [of "[]"] by (simp add: RangeMap_RetrieveRange_def)
  next
    case (Cons y zs)
    have "\<forall>q\<in>set zs. \<not> covers a q" if "a < base (snd y)"
      using s(3,5) that Cons by (fastforce simp: covers_def range_before_def)
    with Cons s lb xs [of ys] show ?thesis
      by (auto simp: RangeMap_RetrieveRange_def find_none covers_def)
  qed
qed

lemma RetrieveNearestRange_last:
  assumes "range_map_inv m"
  shows "RangeMap_RetrieveNearestRange m a = map_option range_outputs (last_range_from (rm_map m) a)"
proof -
  obtain xs ys where s: "rm_map m = xs @ ys" "\<forall>p\<in>set xs. fst p < a" "\<forall>p\<in>set ys. a \<le> fst p"
      "ranges_inv xs" "ranges_inv ys" "\<forall>p\<in>set xs. \<forall>q\<in>set ys. range_before p q"
      and lb: "lower_bound (rm_map m) a = length xs"
    by (rule ranges_split [OF assms [unfolded range_map_inv_def]])
  have fx: "filter (\<lambda>p. base (snd p) \<le> a) xs = xs"
    using s(2,4) by (fastforce simp: filter_id_conv range_ok_def dest: ranges_inv_ok)
  have ub: "upper_bound (rm_map m) a = length xs" if "ys = [] \<or> a < base (snd (hd ys))"
    unfolding s(1) using s that
    by (intro upper_bound_append; cases ys; auto simp: range_ok_def less_imp_le)
  have fy: "filter (\<lambda>p. base (snd p) \<le> a) zs = []"
    if "ys = y # zs" for y zs
    using s(3,5) that by (fastforce simp: filter_empty_conv range_before_def)
  show ?thesis
  proof (cases "ys = [] \<or> a < base (snd (hd ys))")
    case True
    then have "filter (\<lambda>p. base (snd p) \<le> a) ys = []"
      using fy by (cases ys) auto
    with fx s(1) have "last_range_from (rm_map m) a = (if xs = [] then None else Some (last xs))"
      by (intro last_range_from_eq) simp
    moreover have "RangeMap_RetrieveRange m a = None"
      using True s(1) lb by (auto simp: RangeMap_RetrieveRange_def Let_def)
    moreover have "xs \<noteq> [] \<Longrightarrow> rm_map m ! (length xs - 1) = last xs"
      using s(1) by (simp add: nth_append last_conv_nth)
    ultimately show ?thesis
      using ub [OF True] by (auto simp: RangeMap_RetrieveNearestRange_def Let_def)
  next
    case False
    then obtain y zs where "ys = y # zs" "base (snd y) \<le> a" by (cases ys) auto
    with s(1) fx fy have "last_range_from (rm_map m) a = Some y"
      using last_range_from_eq [of a "rm_map m" "xs @ [y]"] by simp
    with \<open>ys = y # zs\<close> \<open>base (snd y) \<le> a\<close> s(1) lb show ?thesis
      by (auto simp: RangeMap_RetrieveNearestRange_def RangeMap_RetrieveRange_def)
  qed
qed

section \<open>Closed forms of StoreRange\<close>

definition overlaps :: "u64 \<Rightarrow> u64 \<Rightarrow> u64 \<times> 'e Range \<Rightarrow> bool" where
  "overlaps b h p \<longleftrightarrow> base (snd p) \<le> h \<and> b \<le> fst p"

definition store_exclusive ::
    "(u64, 'e Range) std_map \<Rightarrow> u64 \<Rightarrow> u64 \<Rightarrow> u64 \<Rightarrow> 'e \<Rightarrow> (u64, 'e Range) std_map \<times> bool" where
  "store_exclusive rs b h d e =
     (if list_ex (overlaps b h) rs then (rs, False)
      else (filter (\<lambda>p. fst p < b) rs @ (h, \<lparr>base = b, delta = d, entry = e\<rparr>) #
            filter (\<lambda>p. h < base (snd p)) rs, True))"

text \<open>
  \<open>kTruncateLower\<close>: ranges that begin below the new one are cut to end before it; the new
  range is cut to end before the first range that begins above its base.
\<close>

definition store_truncate_lower ::
    "(u64, 'e Range) std_map \<Rightarrow> u64 \<Rightarrow> u64 \<Rightarrow> u64 \<Rightarrow> 'e \<Rightarrow> (u64, 'e Range) std_map \<times> bool" where
  "store_truncate_lower rs b h d e =
     (if list_ex (\<lambda>p. base (snd p) = b) rs then (rs, False)
      else let below = filter (\<lambda>p. base (snd p) < b) rs;
               above = filter (\<lambda>p. b < base (snd p)) rs;
               h' = (case above of [] \<Rightarrow> h | q # _ \<Rightarrow> min h (base (snd q) - 1))
           in (map (\<lambda>(k, r). (min k (b - 1), r)) below @
               (h', \<lparr>base = b, delta = d, entry = e\<rparr>) # above, True))"

text \<open>
  \<open>kTruncateUpper\<close>: the new range is cut to begin after the last range that ends below its
  last address; ranges that end above it are cut to begin after it. The deltas record by how
  much a range was shifted.
\<close>

definition shift_range :: "u64 \<Rightarrow> u64 \<times> 'e Range \<Rightarrow> u64 \<times> 'e Range" where
  "shift_range h p =
     (if base (snd p) \<le> h
      then (fst p, \<lparr>base = h + 1, delta = delta (snd p) + (h - base (snd p) + 1),
                    entry = entry (snd p)\<rparr>)
      else p)"

definition store_truncate_upper ::
    "(u64, 'e Range) std_map \<Rightarrow> u64 \<Rightarrow> u64 \<Rightarrow> u64 \<Rightarrow> 'e \<Rightarrow> (u64, 'e Range) std_map \<times> bool" where
  "store_truncate_upper rs b h d e =
     (if list_ex (\<lambda>p. fst p = h) rs then (rs, False)
      else let below = filter (\<lambda>p. fst p < h) rs;
               above = filter (\<lambda>p. h < fst p) rs;
               b' = (if below = [] then b else max b (fst (last below) + 1))
           in (below @ (h, \<lparr>base = b', delta = d + (b' - b), entry = e\<rparr>) #
               map (shift_range h) above, True))"

definition store_spec ::
    "MergeRangeStrategy \<Rightarrow> (u64, 'e Range) std_map \<Rightarrow> u64 \<Rightarrow> u64 \<Rightarrow> u64 \<Rightarrow> 'e \<Rightarrow>
     (u64, 'e Range) std_map \<times> bool" where
  "store_spec strat rs b d s e =
     (let h = b + (s - 1) in
      if s = 0 \<or> h < b then (rs, False)
      else case strat of
             kExclusiveRanges \<Rightarrow> store_exclusive rs b h d e
           | kTruncateLower \<Rightarrow> store_truncate_lower rs b h d e
           | kTruncateUpper \<Rightarrow> store_truncate_upper rs b h d e)"

text \<open>One unfolding of \<open>StoreRangeInternal\<close> on a map that is split at the new base.\<close>

lemma store_fits:
  assumes "rm_map m = xs @ ys" and "s \<noteq> 0" and "b \<le> b + (s - 1)"
    and "\<forall>p\<in>set xs. fst p < b" and "ranges_inv ys" and "\<forall>p\<in>set ys. b + (s - 1) < base (snd p)"
  shows "StoreRangeInternal m b d s e =
     Some (m\<lparr>rm_map := xs @ (b + (s - 1), \<lparr>base = b, delta = d, entry = e\<rparr>) # ys\<rparr>, True)"
proof -
  have key: "\<forall>p\<in>set ys. b + (s - 1) < fst p"
    using assms(5,6) by (fastforce simp: range_ok_def dest: ranges_inv_ok)
  have "lower_bound (rm_map m) b = length xs" "lower_bound (rm_map m) (b + (s - 1)) = length xs"
    unfolding assms(1) using assms(3,4) key
    by (intro lower_bound_append; cases ys; force)+
  moreover have "std_insert (b + (s - 1)) v (rm_map m) = xs @ (b + (s - 1), v) # ys" for v
    unfolding assms(1) using assms(3,4) key by (intro std_insert_append; cases ys; force)
  ultimately show ?thesis
    using assms(1,2,3,6)
    by (subst StoreRangeInternal.simps) (cases ys; auto simp: Let_def)
qed

lemma lower_bound_first:
  assumes "rs = xs @ y # ys" and "\<forall>p\<in>set xs. fst p < b" and "b \<le> fst y"
  shows "lower_bound rs b = length xs"
  unfolding assms(1) using assms(2,3) by (intro lower_bound_append) auto

lemma lower_bound_after:
  assumes "rs = xs @ y # ys" and "\<forall>p\<in>set xs. fst p < b" and "fst y < h" and "b \<le> h"
  shows "lower_bound rs h \<noteq> length xs"
proof -
  have "takeWhile (\<lambda>p. fst p < h) rs = xs @ y # takeWhile (\<lambda>p. fst p < h) ys"
    unfolding assms(1) using assms(2-4) by (subst takeWhile_append2) auto
  then show ?thesis by (simp add: lower_bound_def)
qed

lemma RetrieveRange_own_key:
  assumes "rm_map m = xs @ y # ys" and "ranges_inv (xs @ y # ys)"
  shows "RangeMap_RetrieveRange m (fst y) = Some (range_outputs y)"
proof -
  have "lower_bound (rm_map m) (fst y) = length xs"
    using assms by (intro lower_bound_first [OF assms(1)]) (auto intro: range_before_key)
  then show ?thesis
    using assms by (auto simp: RangeMap_RetrieveRange_def range_ok_def)
qed

text \<open>
  Under \<open>kTruncateLower\<close> the two overlap branches of the source do the same to the first
  range that ends at or after the new base.
\<close>

lemma store_lower_step:
  assumes "rm_map m = xs @ y # ys" and "merge_strategy m = kTruncateLower"
    and "s \<noteq> 0" and "b \<le> b + (s - 1)" and "\<forall>p\<in>set xs. fst p < b"
    and inv: "ranges_inv (xs @ y # ys)" and "b \<le> fst y" and "base (snd y) \<le> b + (s - 1)"
  shows "StoreRangeInternal m b d s e =
    (if b < base (snd y) then StoreRangeInternal m b d (base (snd y) - b) e
     else if base (snd y) < b then
       StoreRangeInternal (m\<lparr>rm_map := std_insert (b - 1) (snd y) (xs @ ys)\<rparr>) b d s e
     else Some (m, False))"
proof -
  have lb: "lower_bound (rm_map m) b = length xs"
    using assms by (intro lower_bound_first [OF assms(1)]) auto
  have at: "rm_map m ! length xs = y" and er: "std_erase (length xs) (rm_map m) = xs @ ys"
    and len: "length xs \<noteq> length (rm_map m)"
    using assms(1) by auto
  have own: "RangeMap_RetrieveRange m (fst y) = Some (range_outputs y)"
    using RetrieveRange_own_key [OF assms(1) inv] .
  have out: "range_outputs y =
      (entry (snd y), base (snd y), delta (snd y), fst y - base (snd y) + 1)"
    by (simp add: range_outputs_def split: prod.splits)
  have eta: "\<lparr>base = base r, delta = delta r, entry = entry r\<rparr> = r" for r :: "'a Range" by simp
  have nlt: "\<not> b + (s - 1) < b" using assms(4) by simp
  show ?thesis
    by (subst StoreRangeInternal.simps,
        cases "lower_bound (rm_map m) (b + (s - 1)) = length xs")
      (simp_all add: Let_def lb at er len own out eta nlt assms(2,3,8))
qed

lemma store_lower_cut:
  assumes "rm_map m = xs @ y # ys" and "merge_strategy m = kTruncateLower"
    and "s \<noteq> 0" and "b \<le> b + (s - 1)" and "\<forall>p\<in>set xs. fst p < b"
    and inv: "ranges_inv (xs @ y # ys)" and "base (snd y) < b" and "b \<le> fst y"
  shows "StoreRangeInternal m b d s e =
     StoreRangeInternal (m\<lparr>rm_map := xs @ (b - 1, snd y) # ys\<rparr>) b d s e"
proof -
  have xs: "\<forall>p\<in>set xs. fst p < b - 1"
    using inv word_pred_less(1) [OF assms(7)] by (auto simp: range_before_def)
  have ys: "ys = [] \<or> b - 1 < fst (hd ys)"
    using inv word_pred_less(2) [OF assms(7)] assms(8)
    by (cases ys) (auto dest!: range_before_key)
  have "base (snd y) \<le> b + (s - 1)" using assms(4,7) by simp
  from store_lower_step [OF assms(1-6,8) this] show ?thesis
    using assms(7) std_insert_append [OF xs ys] by (auto dest: less_asym)
qed

text \<open>Once the range that covers the base is cut, the new range fits below the next one.\<close>

lemma store_lower_fit:
  assumes m: "rm_map m = xs @ ys" and strat: "merge_strategy m = kTruncateLower"
    and s: "s \<noteq> 0" "b \<le> b + (s - 1)" and xs: "\<forall>p\<in>set xs. fst p < b"
    and inv: "ranges_inv (xs @ ys)" and above: "\<forall>p\<in>set ys. b < base (snd p)"
    and h': "h' = (case ys of [] \<Rightarrow> b + (s - 1) | q # _ \<Rightarrow> min (b + (s - 1)) (base (snd q) - 1))"
  shows "StoreRangeInternal m b d s e =
     Some (m\<lparr>rm_map := xs @ (h', \<lparr>base = b, delta = d, entry = e\<rparr>) # ys\<rparr>, True)"
proof (cases "\<forall>p\<in>set ys. b + (s - 1) < base (snd p)")
  case True
  then have "h' = b + (s - 1)"
    unfolding h' by (cases ys) (auto simp: word_pred_less min_absorb1)
  with store_fits [OF m s xs _ True] inv show ?thesis by simp
next
  case False
  then obtain y zs where ys: "ys = y # zs" by (cases ys) auto
  have rest: "\<forall>p\<in>set zs. base (snd y) < base (snd p)"
    using inv ys by (auto simp: range_before_def range_ok_def)
  have y: "b < base (snd y)" "range_ok y" using above inv ys by auto
  have ov: "base (snd y) \<le> b + (s - 1)"
    using False rest ys by (force simp: not_less)
  let ?s = "base (snd y) - b"
  have hs: "b + (?s - 1) = base (snd y) - 1" by simp
  have h'': "h' = base (snd y) - 1"
    using ov word_pred_less(2) [OF y(1)] unfolding h' ys
    by (simp add: min_absorb2 less_imp_le order_less_le_trans)
  have "StoreRangeInternal m b d s e = StoreRangeInternal m b d ?s e"
    using store_lower_step [OF m [unfolded ys] strat s xs inv [unfolded ys] _ ov] y
    by (auto simp: range_ok_def)
  also have "\<dots> = Some (m\<lparr>rm_map := xs @ (b + (?s - 1), \<lparr>base = b, delta = d, entry = e\<rparr>) # ys\<rparr>, True)"
  proof (rule store_fits [OF m _ _ xs])
    show "?s \<noteq> 0" using y(1) by simp
    show "b \<le> b + (?s - 1)" using word_pred_less(1) [OF y(1)] by simp
    show "ranges_inv ys" using inv by simp
    show "\<forall>p\<in>set ys. b + (?s - 1) < base (snd p)"
      using word_pred_less(2) [OF y(1)] rest ys by auto
  qed
  finally show ?thesis by (simp add: h'')
qed

text \<open>
  Under \<open>kTruncateUpper\<close> every range that ends inside the new one moves the new base above
  it and leaves the last address as it is.
\<close>

lemma store_upper_skip:
  assumes "rm_map m = xs @ y # ys" and "merge_strategy m = kTruncateUpper"
    and "s \<noteq> 0" and "b \<le> b + (s - 1)" and "\<forall>p\<in>set xs. fst p < b"
    and "b \<le> fst y" and "fst y < b + (s - 1)"
  shows "StoreRangeInternal m b d s e =
    StoreRangeInternal m (fst y + 1) (d + (fst y + 1 - b)) (s - (fst y + 1 - b)) e"
proof -
  have lb: "lower_bound (rm_map m) b = length xs"
    using assms by (intro lower_bound_first [OF assms(1)]) auto
  have ne: "length xs \<noteq> lower_bound (rm_map m) (b + (s - 1))"
    using lower_bound_after [OF assms(1,5,7,4)] by simp
  have at: "rm_map m ! length xs = y" using assms(1) by simp
  have eqs: "b + (fst y - b + 1) = fst y + 1" "fst y - b + 1 = fst y + 1 - b" by simp_all
  have nlt: "\<not> b + (s - 1) < b" using assms(4) by simp
  show ?thesis
    by (subst StoreRangeInternal.simps)
      (simp add: Let_def lb ne at nlt assms(2,3) eqs(1) eqs(2) del: add_diff_eq diff_add_eq)
qed

lemma store_upper_shift:
  assumes "rm_map m = xs @ y # ys" and "merge_strategy m = kTruncateUpper"
    and "s \<noteq> 0" and "b \<le> b + (s - 1)" and "\<forall>p\<in>set xs. fst p < b"
    and inv: "ranges_inv (xs @ y # ys)" and "b + (s - 1) \<le> fst y" and "base (snd y) \<le> b + (s - 1)"
  shows "StoreRangeInternal m b d s e =
    (if fst y = b + (s - 1) then Some (m, False)
     else StoreRangeInternal (m\<lparr>rm_map := xs @ shift_range (b + (s - 1)) y # ys\<rparr>) b d s e)"
proof -
  let ?h = "b + (s - 1)"
  have lb: "lower_bound (rm_map m) b = length xs" "lower_bound (rm_map m) ?h = length xs"
    using assms by (force intro!: lower_bound_first [OF assms(1)])+
  have at: "rm_map m ! length xs = y" and er: "std_erase (length xs) (rm_map m) = xs @ ys"
    and len: "length xs \<noteq> length (rm_map m)"
    using assms(1) by auto
  have own: "RangeMap_RetrieveRange m (fst y) = Some (range_outputs y)"
    using RetrieveRange_own_key [OF assms(1) inv] .
  have out: "range_outputs y =
      (entry (snd y), base (snd y), delta (snd y), fst y - base (snd y) + 1)"
    by (simp add: range_outputs_def split: prod.splits)
  have ins: "std_insert (fst y) v (xs @ ys) = xs @ (fst y, v) # ys" for v
    using inv assms(4,5,7)
    by (intro std_insert_append; cases ys; auto dest: range_before_key)
  have eqs: "base (snd y) + (?h - base (snd y) + 1) = ?h + 1" by simp
  have nlt: "\<not> b + (s - 1) < b" using assms(4) by simp
  have gt: "(?h < fst y) = (fst y \<noteq> ?h)" using assms(7) by auto
  show ?thesis
    by (subst StoreRangeInternal.simps)
      (simp add: Let_def lb at er len own out ins nlt gt assms(2,3,8) shift_range_def eqs
        del: add_diff_eq diff_add_eq)
qed

lemma shift_range_id: "\<forall>p\<in>set ys. h < base (snd p) \<Longrightarrow> map (shift_range h) ys = ys"
  by (auto simp: shift_range_def intro!: map_idI)

lemma store_upper_end:
  assumes m: "rm_map m = xs @ ys" and strat: "merge_strategy m = kTruncateUpper"
    and s: "s \<noteq> 0" "b \<le> b + (s - 1)" and xs: "\<forall>p\<in>set xs. fst p < b"
    and inv: "ranges_inv (xs @ ys)" and ys: "\<forall>p\<in>set ys. b + (s - 1) \<le> fst p"
  shows "StoreRangeInternal m b d s e =
    Some (if list_ex (\<lambda>p. fst p = b + (s - 1)) ys then (m, False)
          else (m\<lparr>rm_map := xs @ (b + (s - 1), \<lparr>base = b, delta = d, entry = e\<rparr>) #
                             map (shift_range (b + (s - 1))) ys\<rparr>, True))"
    (is "_ = Some (if _ then _ else (m\<lparr>rm_map := xs @ (?h, ?r) # _\<rparr>, True))")
proof (cases "\<forall>p\<in>set ys. ?h < base (snd p)")
  case True
  have "\<forall>p\<in>set ys. fst p \<noteq> ?h"
    using True inv by (fastforce simp: range_ok_def dest: ranges_inv_ok)
  then have "\<not> list_ex (\<lambda>p. fst p = ?h) ys" by (auto simp: list_ex_iff)
  with store_fits [OF m s xs _ True] inv show ?thesis by (simp add: shift_range_id [OF True])
next
  case False
  then obtain y zs where yz: "ys = y # zs" by (cases ys) auto
  have zs: "\<forall>p\<in>set zs. fst y < base (snd p)" "\<forall>p\<in>set zs. ?h < base (snd p)"
    and keys: "\<forall>p\<in>set zs. ?h < fst p"
    using inv ys yz by (fastforce simp: range_before_def range_ok_def dest: ranges_inv_ok)+
  have y: "base (snd y) \<le> ?h" "?h \<le> fst y" "range_ok y" using False zs(2) ys inv yz by auto
  have nex: "\<not> list_ex (\<lambda>p. fst p = ?h) zs" using keys by (auto simp: list_ex_iff)
  show ?thesis
  proof (cases "fst y = ?h")
    case True
    with store_upper_shift [OF m [unfolded yz] strat s xs inv [unfolded yz] y(2,1)] yz
    show ?thesis by simp
  next
    case ne: False
    then have lt: "?h < fst y" using y(2) by simp
    let ?y = "shift_range ?h y" and ?m = "m\<lparr>rm_map := xs @ shift_range ?h y # zs\<rparr>"
    have sy: "base (snd ?y) = ?h + 1" "fst ?y = fst y" using y(1) by (auto simp: shift_range_def)
    have ok: "range_ok ?y"
      using word_succ_greater [OF lt] word_diff_succ [OF lt] unfolding range_ok_def sy by blast
    have "StoreRangeInternal ?m b d s e = Some (?m\<lparr>rm_map := xs @ (?h, ?r) # ?y # zs\<rparr>, True)"
    proof (rule store_fits [OF _ s xs])
      show "ranges_inv (?y # zs)" using ok inv yz by (auto simp: range_before_def sy)
      show "\<forall>p\<in>set (?y # zs). ?h < base (snd p)"
        using zs(2) word_succ_greater(2) [OF lt] by (auto simp: sy)
    qed simp
    with store_upper_shift [OF m [unfolded yz] strat s xs inv [unfolded yz] y(2,1)] ne nex yz
    show ?thesis by (simp add: shift_range_id [OF zs(2)])
  qed
qed

lemma store_upper_run:
  assumes "rm_map m = xs @ zs @ ys" and "merge_strategy m = kTruncateUpper"
    and "s \<noteq> 0" and "b \<le> b + (s - 1)" and "\<forall>p\<in>set xs. fst p < b"
    and "ranges_inv (xs @ zs @ ys)" and "\<forall>p\<in>set zs. b \<le> fst p \<and> fst p < b + (s - 1)"
    and "\<forall>p\<in>set ys. b + (s - 1) \<le> fst p"
    and "b' = (if zs = [] then b else fst (last zs) + 1)"
  shows "StoreRangeInternal m b d s e =
    Some (if list_ex (\<lambda>p. fst p = b + (s - 1)) ys then (m, False)
          else (m\<lparr>rm_map := (xs @ zs) @ (b + (s - 1), \<lparr>base = b', delta = d + (b' - b), entry = e\<rparr>) #
                             map (shift_range (b + (s - 1))) ys\<rparr>, True))"
  using assms
proof (induction zs arbitrary: xs b d s)
  case Nil
  then show ?case using store_upper_end [of m xs ys s b d e] by simp
next
  case (Cons z zs)
  let ?h = "b + (s - 1)" and ?b = "fst z + 1"
  let ?d = "d + (?b - b)" and ?s = "s - (?b - b)"
  have z: "b \<le> fst z" "fst z < ?h" using Cons.prems(7) by auto
  have h: "?b + (?s - 1) = ?h" by simp
  have s: "?s \<noteq> 0"
  proof
    assume "?s = 0"
    then have "fst z = ?h" by (simp add: algebra_simps)
    with z(2) show False by simp
  qed
  have zs: "\<forall>p\<in>set zs. fst z < fst p"
    using Cons.prems(6) by (auto intro: range_before_key dest: ranges_inv_ok)
  have "StoreRangeInternal m b d s e = StoreRangeInternal m ?b ?d ?s e"
    using store_upper_skip [of m xs z "zs @ ys" s b d e] Cons.prems z by simp
  also have "\<dots> = Some (if list_ex (\<lambda>p. fst p = ?b + (?s - 1)) ys then (m, False)
      else (m\<lparr>rm_map := ((xs @ [z]) @ zs) @
                (?b + (?s - 1), \<lparr>base = b', delta = ?d + (b' - ?b), entry = e\<rparr>) #
                map (shift_range (?b + (?s - 1))) ys\<rparr>, True))"
  proof (rule Cons.IH [OF _ Cons.prems(2) s])
    show "\<forall>p\<in>set (xs @ [z]). fst p < ?b"
      using Cons.prems(5) z word_succ_greater(2) [OF z(2)] by fastforce
    show "\<forall>p\<in>set zs. ?b \<le> fst p \<and> fst p < ?b + (?s - 1)"
      unfolding h using Cons.prems(7) zs word_succ_greater(1) by auto
    show "?b \<le> ?b + (?s - 1)" unfolding h using word_succ_greater(1) [OF z(2)] .
    show "\<forall>p\<in>set ys. ?b + (?s - 1) \<le> fst p" unfolding h using Cons.prems(8) .
  qed (use Cons.prems in auto)
  finally show ?case unfolding h by simp
qed

section \<open>StoreRange refines its closed form\<close>

lemma store_exclusive_run:
  assumes inv: "range_map_inv m" and strat: "merge_strategy m = kExclusiveRanges"
    and s: "s \<noteq> 0" "b \<le> b + (s - 1)"
  shows "StoreRangeInternal m b d s e =
    Some (apfst (\<lambda>rs. m\<lparr>rm_map := rs\<rparr>) (store_exclusive (rm_map m) b (b + (s - 1)) d e))"
proof -
  let ?h = "b + (s - 1)"
  obtain xs ys where m: "rm_map m = xs @ ys" and xs: "\<forall>p\<in>set xs. fst p < b"
      and ys: "\<forall>p\<in>set ys. b \<le> fst p" and ix: "ranges_inv xs" and iy: "ranges_inv ys"
      and "\<forall>p\<in>set xs. \<forall>q\<in>set ys. range_before p q"
      and lb: "lower_bound (rm_map m) b = length xs"
    by (rule ranges_split [OF inv [unfolded range_map_inv_def]])
  have xo: "\<forall>p\<in>set xs. \<not> overlaps b ?h p" "\<forall>p\<in>set xs. base (snd p) \<le> ?h"
    using xs s(2) ix by (fastforce simp: overlaps_def range_ok_def dest: ranges_inv_ok)+
  have ov: "list_ex (overlaps b ?h) (rm_map m) \<longleftrightarrow> (\<exists>p\<in>set ys. base (snd p) \<le> ?h)"
    using xo(1) ys m by (auto simp: list_ex_iff overlaps_def)
  show ?thesis
  proof (cases "\<exists>p\<in>set ys. base (snd p) \<le> ?h")
    case True
    then obtain y zs where yz: "ys = y # zs" by (cases ys) auto
    have y: "base (snd y) \<le> ?h"
      using True iy yz by (fastforce simp: range_before_def range_ok_def)
    have at: "rm_map m ! length xs = y" and len: "length xs \<noteq> length (rm_map m)"
      using m yz by auto
    have nlt: "\<not> ?h < b" using s(2) by simp
    have "StoreRangeInternal m b d s e = Some (m, False)"
      by (subst StoreRangeInternal.simps, cases "lower_bound (rm_map m) ?h = length xs")
        (simp_all add: Let_def lb at len y nlt s(1) strat)
    then show ?thesis using True ov by (simp add: store_exclusive_def)
  next
    case False
    then have fy: "\<forall>p\<in>set ys. ?h < base (snd p)" by (auto simp: not_le)
    have "filter (\<lambda>p. fst p < b) (rm_map m) = xs"
      using m xs ys by (auto simp: filter_empty_conv not_less intro!: filter_True)
    moreover have "filter (\<lambda>p. ?h < base (snd p)) (rm_map m) = ys"
      using m xo(2) fy by (auto simp: filter_empty_conv not_less intro!: filter_True)
    ultimately show ?thesis
      using False ov store_fits [OF m s xs iy fy] by (simp add: store_exclusive_def)
  qed
qed

lemma store_truncate_lower_run:
  assumes inv: "range_map_inv m" and strat: "merge_strategy m = kTruncateLower"
    and s: "s \<noteq> 0" "b \<le> b + (s - 1)"
  shows "StoreRangeInternal m b d s e =
    Some (apfst (\<lambda>rs. m\<lparr>rm_map := rs\<rparr>) (store_truncate_lower (rm_map m) b (b + (s - 1)) d e))"
proof -
  let ?h = "b + (s - 1)" and ?cut = "map (\<lambda>(k, r). (min k (b - 1), r))"
  obtain xs ys where m: "rm_map m = xs @ ys" and xs: "\<forall>p\<in>set xs. fst p < b"
      and ys: "\<forall>p\<in>set ys. b \<le> fst p" and ix: "ranges_inv xs" and iy: "ranges_inv ys"
      and xy: "\<forall>p\<in>set xs. \<forall>q\<in>set ys. range_before p q"
      and lb: "lower_bound (rm_map m) b = length xs"
    by (rule ranges_split [OF inv [unfolded range_map_inv_def]])
  have inv': "ranges_inv (xs @ ys)" using inv m by (simp add: range_map_inv_def)
  have xb: "\<forall>p\<in>set xs. base (snd p) < b"
    using xs ix by (fastforce simp: range_ok_def dest: ranges_inv_ok)
  have cx: "?cut xs = xs"
    using xs by (auto intro!: map_idI simp: min_absorb1 word_pred_less)
  have above: "\<forall>p\<in>set zs. b < base (snd p)" if "ys = y # zs" for y zs
    using ys iy that by (fastforce simp: range_before_def)
  have fx: "filter (\<lambda>p. base (snd p) < b) xs = xs" "filter (\<lambda>p. b < base (snd p)) xs = []"
    using xb by (auto simp: filter_empty_conv intro!: filter_True)
  have fz: "filter (\<lambda>p. base (snd p) < b) zs = []" "filter (\<lambda>p. b < base (snd p)) zs = zs"
      "\<not> list_ex (\<lambda>p. base (snd p) = b) zs" if "\<forall>p\<in>set zs. b < base (snd p)" for zs :: "(u64 \<times> 'a Range) list"
    using that by (auto simp: filter_empty_conv list_ex_iff intro!: filter_True)
  have nx: "\<not> list_ex (\<lambda>p. base (snd p) = b) xs" using xb by (auto simp: list_ex_iff)
  consider "\<forall>p\<in>set ys. b < base (snd p)" | y zs where "ys = y # zs" "base (snd y) = b"
    | y zs where "ys = y # zs" "base (snd y) < b"
    using above by (cases ys) force+
  then show ?thesis
  proof cases
    case 1
    show ?thesis
      using store_lower_fit [OF m strat s xs inv' 1 refl] m nx fz [OF 1] fx cx
      by (simp add: store_truncate_lower_def Let_def)
  next
    case (2 y zs)
    have "StoreRangeInternal m b d s e = Some (m, False)"
      using store_lower_step [OF m [unfolded 2(1)] strat s xs inv' [unfolded 2(1)]] ys 2 s by auto
    then show ?thesis using m 2 by (simp add: store_truncate_lower_def)
  next
    case (3 y zs)
    let ?m = "m\<lparr>rm_map := (xs @ [(b - 1, snd y)]) @ zs\<rparr>"
    have yb: "b \<le> fst y" using ys 3 by simp
    note zs = above [OF 3(1)]
    have ok: "range_ok (b - 1, snd y)"
      using word_pred_less(1) [OF 3(2)] iy 3(1) word_pred_less(2) [OF 3(2)] yb
      by (auto simp: range_ok_def word_le_nat_alt word_less_nat_alt unat_sub)
    have inv2: "ranges_inv ((xs @ [(b - 1, snd y)]) @ zs)"
      using inv' ok 3(1) zs word_pred_less(2) [OF 3(2)] by (auto simp: range_before_def)
    have "StoreRangeInternal m b d s e = StoreRangeInternal ?m b d s e"
      using store_lower_cut [OF m [unfolded 3(1)] strat s xs inv' [unfolded 3(1)] 3(2) yb] by simp
    also have "\<dots> = Some (?m\<lparr>rm_map := (xs @ [(b - 1, snd y)]) @
        (case zs of [] \<Rightarrow> ?h | q # _ \<Rightarrow> min ?h (base (snd q) - 1),
         \<lparr>base = b, delta = d, entry = e\<rparr>) # zs\<rparr>, True)"
      by (rule store_lower_fit [OF _ _ s _ inv2 zs refl])
        (use strat xs word_pred_less(2) [OF 3(2)] in auto)
    finally have run: "StoreRangeInternal m b d s e = \<dots>" .
    have "(\<lambda>(k, r). (min k (b - 1), r)) y = (b - 1, snd y)"
      using yb word_pred_less(2) [OF 3(2)] by (cases y) (auto simp: min_def)
    with cx have "?cut (xs @ [y]) = xs @ [(b - 1, snd y)]" by simp
    moreover have "filter (\<lambda>p. base (snd p) < b) (rm_map m) = xs @ [y]"
      "filter (\<lambda>p. b < base (snd p)) (rm_map m) = zs" "\<not> list_ex (\<lambda>p. base (snd p) = b) (rm_map m)"
      using m 3 fx fz [OF zs] nx by auto
    ultimately have "store_truncate_lower (rm_map m) b ?h d e =
        ((xs @ [(b - 1, snd y)]) @ (case zs of [] \<Rightarrow> ?h | q # _ \<Rightarrow> min ?h (base (snd q) - 1),
         \<lparr>base = b, delta = d, entry = e\<rparr>) # zs, True)"
      by (simp only: store_truncate_lower_def Let_def if_False)
    with run show ?thesis by simp
  qed
qed

lemma store_truncate_upper_run:
  assumes inv: "range_map_inv m" and strat: "merge_strategy m = kTruncateUpper"
    and s: "s \<noteq> 0" "b \<le> b + (s - 1)"
  shows "StoreRangeInternal m b d s e =
    Some (apfst (\<lambda>rs. m\<lparr>rm_map := rs\<rparr>) (store_truncate_upper (rm_map m) b (b + (s - 1)) d e))"
proof -
  let ?h = "b + (s - 1)"
  obtain xs ts where m: "rm_map m = xs @ ts" and xs: "\<forall>p\<in>set xs. fst p < b"
      and ts: "\<forall>p\<in>set ts. b \<le> fst p" and it: "ranges_inv xs" "ranges_inv ts"
      "\<forall>p\<in>set xs. \<forall>q\<in>set ts. range_before p q" "lower_bound (rm_map m) b = length xs"
    by (rule ranges_split [OF inv [unfolded range_map_inv_def]])
  obtain zs ys where t: "ts = zs @ ys" and zs: "\<forall>p\<in>set zs. fst p < ?h"
      and ys: "\<forall>p\<in>set ys. ?h \<le> fst p" and "ranges_inv zs" "ranges_inv ys"
      "\<forall>p\<in>set zs. \<forall>q\<in>set ys. range_before p q" "lower_bound ts ?h = length zs"
    by (rule ranges_split [OF it(2)])
  let ?b = "if zs = [] then b else fst (last zs) + 1"
  have inv': "ranges_inv (xs @ zs @ ys)" using inv m t by (simp add: range_map_inv_def)
  have zb: "\<forall>p\<in>set zs. b \<le> fst p \<and> fst p < ?h" using zs ts t by auto
  have run: "StoreRangeInternal m b d s e =
      Some (if list_ex (\<lambda>p. fst p = ?h) ys then (m, False)
            else (m\<lparr>rm_map := (xs @ zs) @ (?h, \<lparr>base = ?b, delta = d + (?b - b), entry = e\<rparr>) #
                               map (shift_range ?h) ys\<rparr>, True))"
    by (rule store_upper_run [OF _ strat s xs inv' zb ys refl]) (simp add: m t)
  have lx: "\<forall>p\<in>set (xs @ zs). fst p < ?h" using xs zs s(2) by auto
  have ex: "list_ex (\<lambda>p. fst p = ?h) (rm_map m) = list_ex (\<lambda>p. fst p = ?h) ys"
  proof -
    have "\<forall>p\<in>set (xs @ zs). fst p \<noteq> ?h" using lx by force
    then show ?thesis using m t by (auto simp: list_ex_iff)
  qed
  have fb: "filter (\<lambda>p. fst p < ?h) (rm_map m) = xs @ zs"
    using lx ys m t by (auto simp: filter_empty_conv not_less intro!: filter_True)
  have fa: "filter (\<lambda>p. ?h < fst p) (rm_map m) = ys" if "\<not> list_ex (\<lambda>p. fst p = ?h) ys"
  proof -
    have "\<forall>p\<in>set ys. ?h < fst p" using ys that by (force simp: list_ex_iff order_less_le)
    then show ?thesis using lx m t by (force simp: filter_empty_conv intro!: filter_True)
  qed
  have "fst (last xs) + 1 \<le> b" if "xs \<noteq> []"
    using xs that by (intro word_succ_greater(1)) auto
  moreover have "b \<le> fst (last zs) + 1" if "zs \<noteq> []"
    using zb that word_succ_greater(2) [of "fst (last zs)" ?h] by (meson last_in_set order.trans less_imp_le)
  ultimately have b: "?b = (if xs @ zs = [] then b else max b (fst (last (xs @ zs)) + 1))"
    by (auto simp: max_absorb1 max_absorb2)
  show ?thesis
    using run ex fb fa unfolding store_truncate_upper_def Let_def b by (auto simp del: append_is_Nil_conv)
qed

text \<open>
  The whole of \<open>StoreRangeInternal\<close>: on a map that satisfies the invariant it returns, and
  the result is the closed form of the strategy.
\<close>

lemma StoreRangeInternal_spec:
  assumes "range_map_inv m"
  shows "StoreRangeInternal m b d s e =
    Some (apfst (\<lambda>rs. m\<lparr>rm_map := rs\<rparr>) (store_spec (merge_strategy m) (rm_map m) b d s e))"
proof (cases "s = 0 \<or> b + (s - 1) < b")
  case True
  then show ?thesis by (subst StoreRangeInternal.simps) (auto simp: store_spec_def Let_def)
next
  case False
  then have "s \<noteq> 0" "b \<le> b + (s - 1)" by auto
  with assms False show ?thesis
    by (cases "merge_strategy m")
      (simp_all add: store_spec_def Let_def store_exclusive_run store_truncate_lower_run
        store_truncate_upper_run)
qed

section \<open>Every operation keeps the invariant\<close>

lemma range_map_inv_new [simp]: "range_map_inv RangeMap_new"
  by (simp add: range_map_inv_def RangeMap_new_def)

lemma range_map_inv_Clear [simp]: "range_map_inv (RangeMap_Clear m)"
  by (simp add: range_map_inv_def RangeMap_Clear_def)

lemma range_map_inv_SetMergeStrategy [simp]:
  "range_map_inv (SetMergeStrategy m strat) = range_map_inv m"
  by (simp add: range_map_inv_def SetMergeStrategy_def)

lemma ranges_inv_filter [intro]: "ranges_inv rs \<Longrightarrow> ranges_inv (filter P rs)"
  by (auto simp: ranges_inv_def list_all_iff intro: sorted_wrt_filter)

lemma range_ok_cut: "range_ok (k, r) \<Longrightarrow> base r \<le> k' \<Longrightarrow> k' \<le> k \<Longrightarrow> range_ok (k', r)"
  using word_subrange_size [of "base r" "base r" k' k] by (auto simp: range_ok_def)

lemma ranges_inv_sandwich:
  assumes "ranges_inv xs" and "ranges_inv ys" and "range_ok p"
    and "\<forall>x\<in>set xs. fst x < base (snd p)" and "\<forall>y\<in>set ys. fst p < base (snd y)"
  shows "ranges_inv (xs @ p # ys)"
proof -
  have "fst x < base (snd y)" if "x \<in> set xs" "y \<in> set ys" for x y
  proof -
    have "fst x < base (snd p)" "base (snd p) \<le> fst p" "fst p < base (snd y)"
      using that assms(3-5) by (auto simp: range_ok_def)
    then show ?thesis by order
  qed
  with assms show ?thesis by (auto simp: range_before_def)
qed

lemma store_exclusive_inv:
  assumes inv: "ranges_inv rs" and bh: "b \<le> h" "h - b \<noteq> - 1"
  shows "ranges_inv (fst (store_exclusive rs b h d e))"
  using inv bh
  by (auto simp: store_exclusive_def ranges_inv_filter range_ok_def range_before_def)

lemma ranges_inv_cut:
  assumes "ranges_inv rs" and "\<forall>p\<in>set rs. base (snd p) < b"
  shows "ranges_inv (map (\<lambda>(k, r). (min k (b - 1), r)) rs)"
  using assms
proof (induction rs)
  case (Cons p rs)
  obtain k r where p: "p = (k, r)" by fastforce
  have "base r \<le> min k (b - 1)"
    using Cons.prems p word_pred_less(1) [of "base r" b] by (auto simp: range_ok_def)
  then have "range_ok (min k (b - 1), r)"
    using Cons.prems p by (auto intro: range_ok_cut)
  with Cons p show ?case by (auto simp: range_before_def min_less_iff_disj)
qed simp

lemma store_truncate_lower_inv:
  assumes inv: "ranges_inv rs" and bh: "b \<le> h" "h - b \<noteq> - 1"
  shows "ranges_inv (fst (store_truncate_lower rs b h d e))"
proof (cases "list_ex (\<lambda>p. base (snd p) = b) rs")
  case True then show ?thesis using inv by (simp add: store_truncate_lower_def)
next
  case False
  let ?below = "map (\<lambda>(k, r). (min k (b - 1), r)) (filter (\<lambda>p. base (snd p) < b) rs)"
  let ?above = "filter (\<lambda>p. b < base (snd p)) rs"
  let ?h = "case ?above of [] \<Rightarrow> h | q # _ \<Rightarrow> min h (base (snd q) - 1)"
  have ia: "ranges_inv ?above" and ib: "ranges_inv ?below"
    using inv by (auto intro!: ranges_inv_cut)
  have below: "\<forall>p\<in>set ?below. fst p < b"
    using word_pred_less(2) by (fastforce simp: min_less_iff_disj)
  have h: "b \<le> ?h" "?h \<le> h" "\<forall>q\<in>set ?above. ?h < base (snd q)"
  proof -
    have "b \<le> ?h \<and> ?h \<le> h \<and> (\<forall>q\<in>set ?above. ?h < base (snd q))"
    proof (cases ?above)
      case (Cons q qs)
      then have "q \<in> set ?above" by (metis list.set_intros(1))
      then have q: "b < base (snd q)" by simp
      have "\<forall>p\<in>set qs. base (snd q) < base (snd p)"
        using ia Cons by (fastforce simp: range_before_def range_ok_def)
      then show ?thesis
        using word_pred_less [OF q] bh(1) Cons by (fastforce simp: min_less_iff_disj)
    qed (use bh in simp)
    then show "b \<le> ?h" "?h \<le> h" "\<forall>q\<in>set ?above. ?h < base (snd q)" by blast+
  qed
  have "range_ok (?h, \<lparr>base = b, delta = d, entry = e\<rparr>)"
    using h(1,2) word_subrange_size [of b b ?h h] bh by (simp add: range_ok_def)
  then have "ranges_inv (?below @ (?h, \<lparr>base = b, delta = d, entry = e\<rparr>) # ?above)"
    using ia ib below h(3) by (intro ranges_inv_sandwich) simp_all
  then show ?thesis using False by (simp add: store_truncate_lower_def Let_def)
qed

lemma shift_range_props:
  assumes "range_ok p" and "h < fst p"
  shows "range_ok (shift_range h p)" and "fst (shift_range h p) = fst p"
    and "h < base (snd (shift_range h p))" and "base (snd p) \<le> base (snd (shift_range h p))"
  using assms word_succ_greater [OF assms(2)] word_diff_succ [OF assms(2)]
  by (auto simp: shift_range_def range_ok_def not_le)

lemma store_truncate_upper_inv:
  assumes inv: "ranges_inv rs" and bh: "b \<le> h" "h - b \<noteq> - 1"
  shows "ranges_inv (fst (store_truncate_upper rs b h d e))"
proof (cases "list_ex (\<lambda>p. fst p = h) rs")
  case True then show ?thesis using inv by (simp add: store_truncate_upper_def)
next
  case False
  let ?below = "filter (\<lambda>p. fst p < h) rs" and ?above = "filter (\<lambda>p. h < fst p) rs"
  let ?b = "if ?below = [] then b else max b (fst (last ?below) + 1)"
  have ib: "ranges_inv ?below" and ia': "ranges_inv ?above" using inv by auto
  have ia: "ranges_inv (map (shift_range h) ?above)" "\<forall>q\<in>set (map (shift_range h) ?above). h < base (snd q)"
  proof -
    have *: "ranges_inv (map (shift_range h) qs)" if "ranges_inv qs" "\<forall>q\<in>set qs. h < fst q" for qs
      using that
    proof (induction qs)
      case (Cons q qs)
      then show ?case
        using shift_range_props [of q h] by (auto simp: range_before_def dest!: ranges_inv_ok
          intro: order_less_le_trans shift_range_props(4))
    qed simp
    show "ranges_inv (map (shift_range h) ?above)" using ia' by (intro *) auto
    show "\<forall>q\<in>set (map (shift_range h) ?above). h < base (snd q)"
      by (auto intro!: shift_range_props(3) ranges_inv_ok [OF inv])
  qed
  have b: "b \<le> ?b" "?b \<le> h" "\<forall>p\<in>set ?below. fst p < ?b"
  proof -
    have "b \<le> ?b \<and> ?b \<le> h \<and> (\<forall>p\<in>set ?below. fst p < ?b)"
    proof (cases ?below rule: rev_cases)
      case (snoc ps p)
      then have "p \<in> set ?below" by simp
      then have p: "fst p < h" by simp
      have "\<forall>q\<in>set ps. fst q < fst p"
        using ib snoc by (auto intro: range_before_key)
      then show ?thesis
        using word_succ_greater [OF p] bh(1) snoc by (fastforce simp: less_max_iff_disj)
    qed (use bh in simp)
    then show "b \<le> ?b" "?b \<le> h" "\<forall>p\<in>set ?below. fst p < ?b" by blast+
  qed
  have "range_ok (h, \<lparr>base = ?b, delta = d + (?b - b), entry = e\<rparr>)"
    using b(1,2) word_subrange_size [of b ?b h h] bh by (simp add: range_ok_def)
  then have "ranges_inv (?below @ (h, \<lparr>base = ?b, delta = d + (?b - b), entry = e\<rparr>) #
      map (shift_range h) ?above)"
    using ia ib b(3) by (intro ranges_inv_sandwich) simp_all
  then show ?thesis using False by (simp add: store_truncate_upper_def Let_def)
qed

lemma store_spec_inv:
  assumes "ranges_inv rs" shows "ranges_inv (fst (store_spec strat rs b d s e))"
proof (cases "s = 0 \<or> b + (s - 1) < b")
  case True then show ?thesis using assms by (auto simp: store_spec_def Let_def)
next
  case False
  then have h: "b \<le> b + (s - 1)" "(b + (s - 1)) - b \<noteq> - 1" by auto
  show ?thesis
    using False store_exclusive_inv [OF assms h] store_truncate_lower_inv [OF assms h]
      store_truncate_upper_inv [OF assms h]
    by (simp add: store_spec_def Let_def split: MergeRangeStrategy.split)
qed

lemma store_spec_fail: "\<not> snd (store_spec strat rs b d s e) \<Longrightarrow> fst (store_spec strat rs b d s e) = rs"
  by (auto simp: store_spec_def store_exclusive_def store_truncate_lower_def
      store_truncate_upper_def Let_def split: MergeRangeStrategy.splits if_splits)

section \<open>Who owns an address\<close>

definition range_owner :: "'e RangeMap \<Rightarrow> u64 \<Rightarrow> 'e option" where
  "range_owner m a = map_option fst (RangeMap_RetrieveRange m a)"

lemma ranges_covers_unique:
  assumes "ranges_inv rs" and "p \<in> set rs" and "q \<in> set rs" and "covers a p" and "covers a q"
  shows "p = q"
  using assms
proof (induction rs)
  case (Cons r rs)
  have "\<not> covers a r \<or> (\<forall>z\<in>set rs. \<not> covers a z)"
    using Cons.prems(1) by (fastforce simp: covers_def range_before_def)
  with Cons show ?case by auto
qed simp

lemma find_covers:
  assumes "ranges_inv rs" and "p \<in> set rs" and "covers a p"
  shows "List.find (covers a) rs = Some p"
proof (cases "List.find (covers a) rs")
  case None then show ?thesis using assms find_None_iff [of "covers a" rs] by blast
next
  case (Some q)
  then have "q \<in> set rs" "covers a q" by (auto simp: find_Some_iff)
  with assms Some show ?thesis using ranges_covers_unique by blast
qed

lemma range_owner_Some:
  assumes "range_map_inv m" and "p \<in> set (rm_map m)" and "covers a p"
  shows "range_owner m a = Some (entry (snd p))"
  using find_covers [of "rm_map m" p a] assms
  by (simp add: range_owner_def RetrieveRange_find range_map_inv_def range_outputs_def split: prod.splits)

lemma range_owner_None:
  assumes "range_map_inv m" and "\<forall>p\<in>set (rm_map m). \<not> covers a p"
  shows "range_owner m a = None"
  using assms by (simp add: range_owner_def RetrieveRange_find find_none)

lemma range_owner_cases:
  assumes "range_map_inv m"
  obtains (covered) p where "p \<in> set (rm_map m)" "covers a p" "range_owner m a = Some (entry (snd p))"
  | (free) "\<forall>p\<in>set (rm_map m). \<not> covers a p" "range_owner m a = None"
proof (cases "\<exists>p\<in>set (rm_map m). covers a p")
  case True
  then obtain p where p: "p \<in> set (rm_map m)" "covers a p" ..
  show ?thesis by (rule covered [OF p range_owner_Some [OF assms p]])
next
  case False
  then have none: "\<forall>p\<in>set (rm_map m). \<not> covers a p" by blast
  show ?thesis by (rule free [OF none range_owner_None [OF assms none]])
qed

lemma ranges_total:
  assumes "ranges_inv rs" and "p \<in> set rs" and "q \<in> set rs"
  shows "p = q \<or> range_before p q \<or> range_before q p"
  using assms by (induction rs) auto

lemma covers_ordered:
  assumes "ranges_inv rs" and "p \<in> set rs" and "q \<in> set rs" and "covers a p"
  shows "base (snd q) \<le> a \<Longrightarrow> base (snd q) \<le> base (snd p)"
    and "a \<le> fst q \<Longrightarrow> fst p \<le> fst q"
proof -
  have ok: "base (snd p) \<le> fst p" "base (snd q) \<le> fst q"
    using ranges_inv_ok [OF assms(1)] assms(2,3) by (auto simp: range_ok_def)
  then show "base (snd q) \<le> a \<Longrightarrow> base (snd q) \<le> base (snd p)" and "a \<le> fst q \<Longrightarrow> fst p \<le> fst q"
    using ranges_total [OF assms(1-3)] assms(4) by (auto simp: covers_def range_before_def)
qed

lemma store_truncate_lower_set:
  assumes "snd (store_truncate_lower rs b h d e)"
  obtains h' where
    "set (fst (store_truncate_lower rs b h d e)) =
       {(min k (b - 1), r) | k r. (k, r) \<in> set rs \<and> base r < b} \<union>
       {(h', \<lparr>base = b, delta = d, entry = e\<rparr>)} \<union> {p \<in> set rs. b < base (snd p)}"
    and "\<forall>q\<in>set rs. base (snd q) \<noteq> b"
    and "h' = (case filter (\<lambda>p. b < base (snd p)) rs of [] \<Rightarrow> h | q # _ \<Rightarrow> min h (base (snd q) - 1))"
proof -
  have "\<not> list_ex (\<lambda>p. base (snd p) = b) rs"
    using assms by (auto simp: store_truncate_lower_def split: if_splits)
  then show ?thesis
    by (intro that [OF _ _ refl]) (force simp: store_truncate_lower_def Let_def list_ex_iff)+
qed

lemma first_above:
  assumes "ranges_inv rs" and "b \<le> h"
    and h': "h' = (case filter (\<lambda>p. b < base (snd p)) rs of [] \<Rightarrow> h | q # _ \<Rightarrow> min h (base (snd q) - 1))"
  shows "a \<le> h' \<longleftrightarrow> a \<le> h \<and> (\<forall>p\<in>set rs. b < base (snd p) \<longrightarrow> a < base (snd p))"
proof (cases "filter (\<lambda>p. b < base (snd p)) rs")
  case Nil
  then show ?thesis using h' by (auto simp: filter_empty_conv)
next
  case (Cons q qs)
  let ?above = "filter (\<lambda>p. b < base (snd p)) rs"
  have "q \<in> set ?above" using Cons by simp
  then have q: "q \<in> set rs" "b < base (snd q)" by auto
  have "ranges_inv ?above" using assms(1) by auto
  then have "\<forall>p\<in>set ?above. base (snd q) \<le> base (snd p)"
    unfolding Cons by (fastforce simp: range_before_def range_ok_def)
  then have min: "\<forall>p\<in>set rs. b < base (snd p) \<longrightarrow> base (snd q) \<le> base (snd p)" by auto
  have "0 < base (snd q)" using q by (auto intro: le_less_trans)
  then have "a \<le> base (snd q) - 1 \<longleftrightarrow> a < base (snd q)"
    using word_pred_less(1) [of a "base (snd q)"] word_pred_less(2) [of 0 "base (snd q)"]
    by (auto intro: le_less_trans)
  then show ?thesis using h' Cons q min by (auto intro: order_less_le_trans)
qed

lemma truncate_lower_owner_lemma:
  assumes inv: "ranges_inv rs" and bh: "b \<le> h" "h - b \<noteq> - 1"
    and ok: "snd (store_truncate_lower rs b h d e)"
    and m: "rm_map m = rs" and m': "rm_map m' = fst (store_truncate_lower rs b h d e)"
  shows "range_owner m' a =
    (if a < b \<or> (\<exists>p\<in>set rs. b < base (snd p) \<and> base (snd p) \<le> a) then range_owner m a
     else if a \<le> h then Some e else None)"
proof -
  obtain h' where set: "set (rm_map m') =
       {(min k (b - 1), r) | k r. (k, r) \<in> set rs \<and> base r < b} \<union>
       {(h', \<lparr>base = b, delta = d, entry = e\<rparr>)} \<union> {p \<in> set rs. b < base (snd p)}"
    and ne: "\<forall>q\<in>set rs. base (snd q) \<noteq> b"
    and h': "h' = (case filter (\<lambda>p. b < base (snd p)) rs of [] \<Rightarrow> h | q # _ \<Rightarrow> min h (base (snd q) - 1))"
    unfolding m' by (rule store_truncate_lower_set [OF ok])
  note h'_iff = first_above [OF inv bh(1) h']
  have im: "range_map_inv m" using inv m by (simp add: range_map_inv_def)
  have im': "range_map_inv m'"
    using store_truncate_lower_inv [OF inv bh] m' by (simp add: range_map_inv_def)
  have cut: "k \<le> b - 1 \<longleftrightarrow> k < b" if "base r < b" for k and r :: "'a Range"
    using word_pred_less [OF that] word_pred_less(1) [of k b] by (auto intro: le_less_trans)
  show ?thesis
  proof (cases "a < b \<or> (\<exists>p\<in>set rs. b < base (snd p) \<and> base (snd p) \<le> a)")
    case True
    then have notnew: "\<not> (b \<le> a \<and> a \<le> h')" using h'_iff [of a] by auto
    show ?thesis
    proof (rule range_owner_cases [OF im, of a])
      fix p assume p: "p \<in> set (rm_map m)" "covers a p" "range_owner m a = Some (entry (snd p))"
      obtain k r where kr: "p = (k, r)" by fastforce
      show ?thesis
      proof (cases "base r < b")
        case low: True
        have ab: "a < b"
        proof (rule ccontr)
          assume "\<not> a < b"
          with True obtain q where q: "q \<in> set rs" "b < base (snd q)" "base (snd q) \<le> a" by auto
          then have "base (snd q) \<le> base r" using covers_ordered(1) [OF inv _ q(1) p(2)] p(1) m kr by auto
          with low q(2) show False by simp
        qed
        have "(min k (b - 1), r) \<in> set (rm_map m')" using p(1) m kr low set by auto
        moreover have "covers a (min k (b - 1), r)"
          using p(2) kr ab cut [OF low, of a] by (auto simp: covers_def)
        ultimately show ?thesis using range_owner_Some [OF im'] p(3) True kr by auto
      next
        case False
        then have "p \<in> set (rm_map m')" using ne p(1) m kr set by force
        then show ?thesis using range_owner_Some [OF im' _ p(2)] p(3) True by auto
      qed
    next
      assume none: "\<forall>p\<in>set (rm_map m). \<not> covers a p" "range_owner m a = None"
      have "\<forall>p\<in>set (rm_map m'). \<not> covers a p"
        using none(1) notnew m unfolding set by (auto simp: covers_def)
      then show ?thesis using range_owner_None [OF im'] none(2) True by auto
    qed
  next
    case False
    then have a: "b \<le> a" "a \<le> h' \<longleftrightarrow> a \<le> h" using h'_iff [of a] by (auto simp: not_le)
    show ?thesis
    proof (cases "a \<le> h")
      case True
      let ?new = "(h', \<lparr>base = b, delta = d, entry = e\<rparr>)"
      have "?new \<in> set (rm_map m')" "covers a ?new" using True a set by (auto simp: covers_def)
      from range_owner_Some [OF im' this] show ?thesis using False True by auto
    next
      case gt: False
      have "\<forall>p\<in>set (rm_map m'). \<not> covers a p"
        using False gt a cut unfolding set by (force simp: covers_def)
      from range_owner_None [OF im' this] show ?thesis using False gt by auto
    qed
  qed
qed

lemma last_below:
  assumes inv: "ranges_inv rs"
    and b': "b' = (if filter (\<lambda>p. fst p < h) rs = [] then b
                   else max b (fst (last (filter (\<lambda>p. fst p < h) rs)) + 1))"
  shows "b' \<le> a \<longleftrightarrow> b \<le> a \<and> (\<forall>p\<in>set rs. fst p < h \<longrightarrow> fst p < a)"
proof (cases "filter (\<lambda>p. fst p < h) rs" rule: rev_cases)
  case Nil
  then show ?thesis using b' by (auto simp: filter_empty_conv)
next
  case (snoc ps q)
  let ?below = "filter (\<lambda>p. fst p < h) rs"
  have "q \<in> set ?below" using snoc by simp
  then have q: "q \<in> set rs" "fst q < h" by auto
  have "ranges_inv ?below" using inv by auto
  then have "\<forall>p\<in>set ?below. fst p \<le> fst q"
    unfolding snoc by (auto intro: less_imp_le range_before_key)
  then have max: "\<forall>p\<in>set rs. fst p < h \<longrightarrow> fst p \<le> fst q" by auto
  have "fst q + 1 \<le> a \<longleftrightarrow> fst q < a"
    using word_succ_greater(2) [OF q(2)] word_succ_greater(1) [of "fst q" a] by (auto intro: order_less_le_trans)
  then show ?thesis using b' snoc q max by (auto intro: le_less_trans)
qed

lemma truncate_upper_owner_lemma:
  assumes inv: "ranges_inv rs" and bh: "b \<le> h" "h - b \<noteq> - 1"
    and ok: "snd (store_truncate_upper rs b h d e)"
    and m: "rm_map m = rs" and m': "rm_map m' = fst (store_truncate_upper rs b h d e)"
  shows "range_owner m' a =
    (if h < a \<or> (\<exists>p\<in>set rs. a \<le> fst p \<and> fst p < h) then range_owner m a
     else if b \<le> a then Some e else None)"
proof -
  define b' where "b' = (if filter (\<lambda>p. fst p < h) rs = [] then b
                   else max b (fst (last (filter (\<lambda>p. fst p < h) rs)) + 1))"
  let ?new = "(h, \<lparr>base = b', delta = d + (b' - b), entry = e\<rparr>)"
  have nex: "\<not> list_ex (\<lambda>p. fst p = h) rs"
    using ok by (auto simp: store_truncate_upper_def split: if_splits)
  then have set: "set (rm_map m') = {p \<in> set rs. fst p < h} \<union> {?new} \<union>
      shift_range h ` {p \<in> set rs. h < fst p}" and ne: "\<forall>q\<in>set rs. fst q \<noteq> h"
    unfolding m' by (auto simp: store_truncate_upper_def Let_def b'_def list_ex_iff)
  note b'_iff = last_below [OF inv b'_def]
  have im: "range_map_inv m" using inv m by (simp add: range_map_inv_def)
  have im': "range_map_inv m'"
    using store_truncate_upper_inv [OF inv bh] m' by (simp add: range_map_inv_def)
  have shift: "covers a (shift_range h p) \<longleftrightarrow> h < a \<and> covers a p" if "h < fst p" for p :: "u64 \<times> 'a Range"
    using word_succ_greater [OF that] word_succ_greater(1) [of h a] that
    by (auto simp: covers_def shift_range_def intro: order_less_le_trans)
  have entry: "entry (snd (shift_range h p)) = entry (snd p)" for p :: "u64 \<times> 'a Range"
    by (simp add: shift_range_def)
  show ?thesis
  proof (cases "h < a \<or> (\<exists>p\<in>set rs. a \<le> fst p \<and> fst p < h)")
    case True
    then have notnew: "\<not> covers a ?new" using b'_iff [of a] by (auto simp: covers_def not_less)
    show ?thesis
    proof (rule range_owner_cases [OF im, of a])
      fix p assume p: "p \<in> set (rm_map m)" "covers a p" "range_owner m a = Some (entry (snd p))"
      have rs: "p \<in> set rs" using p(1) m by simp
      have "\<exists>p'\<in>set (rm_map m'). covers a p' \<and> entry (snd p') = entry (snd p)"
      proof (cases "fst p < h")
        case False
        have "h < fst p" using False ne rs by force
        moreover have "h < a"
          using True covers_ordered(2) [OF inv rs _ p(2)] False by (meson le_less_trans)
        ultimately show ?thesis using shift p(2) rs entry unfolding set by blast
      qed (use p rs set in blast)
      then show ?thesis using range_owner_Some [OF im', of _ a] p(3) True by auto
    next
      assume none: "\<forall>p\<in>set (rm_map m). \<not> covers a p" "range_owner m a = None"
      have "\<forall>p\<in>set (rm_map m'). \<not> covers a p"
        using none(1) notnew m shift unfolding set by blast
      then show ?thesis using range_owner_None [OF im'] none(2) True by simp
    qed
  next
    case False
    then have a: "a \<le> h" "b' \<le> a \<longleftrightarrow> b \<le> a" using b'_iff [of a] by (auto simp: not_le)
    show ?thesis
    proof (cases "b \<le> a")
      case True
      have "?new \<in> set (rm_map m')" "covers a ?new" using True a set by (auto simp: covers_def)
      from range_owner_Some [OF im' this] show ?thesis using False True by auto
    next
      case lt: False
      have "\<not> covers a p" if "p \<in> set rs" "fst p < h" for p
        using False that by (auto simp: covers_def)
      moreover have "\<not> covers a ?new" using lt a by (simp add: covers_def)
      ultimately have "\<forall>p\<in>set (rm_map m'). \<not> covers a p"
        using shift a(1) unfolding set by auto
      from range_owner_None [OF im' this] show ?thesis using False lt by auto
    qed
  qed
qed

lemma StoreRange_spec:
  assumes "range_map_inv m" and "RangeMap_StoreRange m b s e = Some (m', ok)"
  shows "m' = m\<lparr>rm_map := fst (store_spec (merge_strategy m) (rm_map m) b 0 s e)\<rparr>"
    and "ok = snd (store_spec (merge_strategy m) (rm_map m) b 0 s e)"
  using assms by (auto simp: RangeMap_StoreRange_def StoreRangeInternal_spec apfst_def map_prod_def
      split: prod.splits)

lemma overlaps_iff_covered:
  assumes "b \<le> h" and "range_ok p"
  shows "overlaps b h p \<longleftrightarrow> (\<exists>a. b \<le> a \<and> a \<le> h \<and> covers a p)"
proof
  assume "overlaps b h p"
  then have "covers (max b (base (snd p))) p" "max b (base (snd p)) \<le> h"
    using assms by (auto simp: overlaps_def covers_def range_ok_def)
  then show "\<exists>a. b \<le> a \<and> a \<le> h \<and> covers a p" by (intro exI [of _ "max b (base (snd p))"]) simp
qed (auto simp: overlaps_def covers_def)

lemma exclusive_success_iff:
  assumes inv: "range_map_inv m" and "b \<le> h"
  shows "snd (store_exclusive (rm_map m) b h d e) \<longleftrightarrow>
    (\<forall>a. b \<le> a \<longrightarrow> a \<le> h \<longrightarrow> RangeMap_RetrieveRange m a = None)"
proof -
  have "list_ex (overlaps b h) (rm_map m) \<longleftrightarrow> (\<exists>a. b \<le> a \<and> a \<le> h \<and> (\<exists>p\<in>set (rm_map m). covers a p))"
    using overlaps_iff_covered [OF assms(2)] ranges_inv_ok inv
    unfolding list_ex_iff range_map_inv_def by blast
  then show ?thesis
    by (auto simp: store_exclusive_def RetrieveRange_find [OF inv] find_None_iff)
qed

lemma exclusive_lookup:
  assumes inv: "range_map_inv m" and b: "s \<noteq> 0" "b \<le> b + (s - 1)"
    and ok: "snd (store_exclusive (rm_map m) b (b + (s - 1)) d e)"
    and m': "rm_map m' = fst (store_exclusive (rm_map m) b (b + (s - 1)) d e)"
  shows "RangeMap_RetrieveRange m' a =
    (if b \<le> a \<and> a \<le> b + (s - 1) then Some (e, b, d, s) else RangeMap_RetrieveRange m a)"
proof -
  let ?h = "b + (s - 1)" and ?new = "(b + (s - 1), \<lparr>base = b, delta = d, entry = e\<rparr>)"
  have d: "?h - b \<noteq> - 1" using b(1) by simp
  have ri: "ranges_inv (rm_map m)" "ranges_inv (rm_map m')"
    using inv store_exclusive_inv [OF _ b(2) d] m' by (simp_all add: range_map_inv_def)
  have im': "range_map_inv m'" using ri(2) by (simp add: range_map_inv_def)
  have nov: "\<forall>p\<in>set (rm_map m). \<not> overlaps b ?h p"
    using ok by (auto simp: store_exclusive_def list_ex_iff split: if_splits)
  then have set: "set (rm_map m') = insert ?new (set (rm_map m))"
    unfolding m' by (auto simp: store_exclusive_def list_ex_iff overlaps_def not_le)
  show ?thesis
  proof (cases "covers a ?new")
    case True
    with set have "List.find (covers a) (rm_map m') = Some ?new" by (intro find_covers [OF ri(2)]) auto
    with True show ?thesis
      by (simp add: RetrieveRange_find [OF im'] range_outputs_def covers_def)
  next
    case new: False
    have "List.find (covers a) (rm_map m') = List.find (covers a) (rm_map m)"
    proof (cases "\<exists>p\<in>set (rm_map m). covers a p")
      case True
      then obtain p where p: "p \<in> set (rm_map m)" "covers a p" ..
      then have "p \<in> set (rm_map m')" using set by simp
      with p show ?thesis using find_covers [OF ri(1)] find_covers [OF ri(2)] by metis
    next
      case False
      then have "\<forall>p\<in>set (rm_map m'). \<not> covers a p" using new set by auto
      with False show ?thesis by (simp add: find_none)
    qed
    with new show ?thesis
      by (auto simp: RetrieveRange_find [OF im'] RetrieveRange_find [OF inv] covers_def)
  qed
qed

section \<open>Properties\<close>

lemma StoreRange_defined:
  assumes "range_map_inv m"
  shows "\<exists>m' ok. RangeMap_StoreRange m b s e = Some (m', ok) \<and> range_map_inv m' \<and>
           merge_strategy m' = merge_strategy m \<and> (\<not> ok \<longrightarrow> m' = m)"
  using store_spec_inv [OF assms [unfolded range_map_inv_def], of "merge_strategy m" b 0 s e]
    store_spec_fail [of "merge_strategy m" "rm_map m" b 0 s e]
  by (auto simp: RangeMap_StoreRange_def StoreRangeInternal_spec [OF assms] apfst_def map_prod_def
      range_map_inv_def split: prod.splits)

text \<open>
  C20: \<open>RangeMap::StoreRange\<close> always returns on a well-formed map, whatever the merge strategy
  and the arguments; the resulting map is well formed again (non-empty, disjoint, ordered
  ranges), the strategy is kept, and a call that returns false leaves the map unchanged.
\<close>

theorem RangeMap_StoreRange_total:
  assumes "range_map_inv m"
  shows "\<exists>m' ok. RangeMap_StoreRange m b s e = Some (m', ok) \<and> range_map_inv m' \<and>
           merge_strategy m' = merge_strategy m \<and> (\<not> ok \<longrightarrow> m' = m)"
  by (rule StoreRange_defined [OF assms])

theorem RangeMap_StoreRange_total_witness:
  "range_map_inv (RangeMap_new :: nat RangeMap) \<and>
   (\<exists>m' ok. RangeMap_StoreRange (RangeMap_new :: nat RangeMap) 16 8 1 = Some (m', ok) \<and> range_map_inv m' \<and>
      merge_strategy m' = merge_strategy (RangeMap_new :: nat RangeMap) \<and> (\<not> ok \<longrightarrow> m' = RangeMap_new))"
  using RangeMap_StoreRange_total [OF range_map_inv_new, where b = 16 and s = 8 and e = "1::nat"] by simp

lemma exclusive_StoreRange_lookup:
  assumes "range_map_inv m" and "merge_strategy m = kExclusiveRanges"
    and "RangeMap_StoreRange m b s e = Some (m', ok)"
  shows "(ok \<longleftrightarrow> s \<noteq> 0 \<and> b \<le> b + (s - 1) \<and>
             (\<forall>a. b \<le> a \<longrightarrow> a \<le> b + (s - 1) \<longrightarrow> RangeMap_RetrieveRange m a = None)) \<and>
         RangeMap_RetrieveRange m' a =
           (if ok \<and> b \<le> a \<and> a \<le> b + (s - 1) then Some (e, b, 0, s) else RangeMap_RetrieveRange m a)"
proof (cases "s = 0 \<or> b + (s - 1) < b")
  case True
  then show ?thesis using StoreRange_spec [OF assms(1,3)] by (auto simp: store_spec_def)
next
  case False
  then have g: "s \<noteq> 0" "b \<le> b + (s - 1)" by auto
  note st = StoreRange_spec [OF assms(1,3), unfolded assms(2)]
  have spec: "store_spec kExclusiveRanges (rm_map m) b 0 s e = store_exclusive (rm_map m) b (b + (s - 1)) 0 e"
    using False by (simp add: store_spec_def Let_def)
  have m: "m' = m" if "\<not> ok"
    using st that store_spec_fail [of kExclusiveRanges "rm_map m" b 0 s e] by simp
  show ?thesis
    using exclusive_success_iff [OF assms(1) g(2), of 0 e] exclusive_lookup [OF assms(1) g, of 0 e m' a]
      st spec g m by (cases ok) auto
qed

text \<open>
  C21: with \<open>kExclusiveRanges\<close>, \<open>StoreRange\<close> succeeds exactly when the range is non-empty, does
  not wrap around the address space and meets no stored range; afterwards every address of
  the range finds the new entry with the base and size it was stored with and delta 0, and
  every other address finds what it found before.
\<close>

theorem StoreRange_exclusive_retrieve:
  assumes "range_map_inv m" and "merge_strategy m = kExclusiveRanges"
    and "RangeMap_StoreRange m b s e = Some (m', ok)"
  shows "(ok \<longleftrightarrow> s \<noteq> 0 \<and> b \<le> b + (s - 1) \<and>
             (\<forall>a. b \<le> a \<longrightarrow> a \<le> b + (s - 1) \<longrightarrow> RangeMap_RetrieveRange m a = None)) \<and>
         RangeMap_RetrieveRange m' a =
           (if ok \<and> b \<le> a \<and> a \<le> b + (s - 1) then Some (e, b, 0, s) else RangeMap_RetrieveRange m a)"
  by (rule exclusive_StoreRange_lookup [OF assms])

theorem StoreRange_exclusive_retrieve_witness:
  "\<exists>m'. RangeMap_StoreRange (RangeMap_new :: nat RangeMap) 16 8 7 = Some (m', True) \<and>
        RangeMap_RetrieveRange m' 20 = Some (7, 16, 0, 8) \<and> RangeMap_RetrieveRange m' 24 = None"
proof -
  obtain m' ok where m': "RangeMap_StoreRange (RangeMap_new :: nat RangeMap) 16 8 7 = Some (m', ok)"
    using StoreRangeInternal_spec [OF range_map_inv_new]
    by (metis RangeMap_StoreRange_def apfst_def old.prod.exhaust)
  have strat: "merge_strategy RangeMap_new = kExclusiveRanges" by (simp add: RangeMap_new_def)
  have none: "RangeMap_RetrieveRange (RangeMap_new :: nat RangeMap) a = None" for a
    by (simp add: RangeMap_RetrieveRange_def RangeMap_new_def lower_bound_def)
  from StoreRange_exclusive_retrieve [OF range_map_inv_new strat m'] none
  have "ok" and "RangeMap_RetrieveRange m' a = (if 16 \<le> a \<and> a \<le> 23 then Some (7, 16, 0, 8) else None)" for a
    by auto
  with m' show ?thesis by simp
qed

text \<open>
  C9: with \<open>kTruncateLower\<close>, after a successful \<open>StoreRange\<close> of the addresses from \<open>b\<close> to
  \<open>b + (s - 1)\<close>: addresses below \<open>b\<close>, and addresses at or above the next stored base, keep
  their owner; of the others the ones in the new range belong to the new entry and the rest
  to nobody.
\<close>

theorem StoreRange_truncate_lower_owner:
  assumes "range_map_inv m" and "merge_strategy m = kTruncateLower"
    and "RangeMap_StoreRange m b s e = Some (m', True)"
  shows "range_owner m' a =
    (if a < b \<or> (\<exists>p\<in>set (rm_map m). b < base (snd p) \<and> base (snd p) \<le> a) then range_owner m a
     else if a \<le> b + (s - 1) then Some e else None)"
proof -
  note st = StoreRange_spec [OF assms(1,3), unfolded assms(2)]
  then have g: "s \<noteq> 0" "b \<le> b + (s - 1)" by (auto simp: store_spec_def Let_def split: if_splits)
  then have "(b + (s - 1)) - b \<noteq> - 1"
    and "store_spec kTruncateLower (rm_map m) b 0 s e = store_truncate_lower (rm_map m) b (b + (s - 1)) 0 e"
    by (auto simp: store_spec_def Let_def)
  with st g show ?thesis
    using truncate_lower_owner_lemma [OF assms(1) [unfolded range_map_inv_def] g(2), where m = m and m' = m' and d = 0 and e = e]
    by simp
qed

theorem StoreRange_truncate_lower_owner_witness:
  "\<exists>m m'. range_map_inv m \<and> merge_strategy m = kTruncateLower \<and>
     RangeMap_StoreRange m 8 16 (6 :: nat) = Some (m', True) \<and>
     range_owner m' 7 = Some 5 \<and> range_owner m' 12 = Some 6"
proof -
  let ?m = "\<lparr>merge_strategy = kTruncateLower, rm_map = [(15, \<lparr>base = 0, delta = 0, entry = 5 :: nat\<rparr>)]\<rparr>"
  have inv: "range_map_inv ?m" by (simp add: range_map_inv_def range_ok_def)
  obtain m' where m': "RangeMap_StoreRange ?m 8 16 6 = Some (m', True)"
    by (simp add: RangeMap_StoreRange_def StoreRangeInternal_spec [OF inv] store_spec_def
        store_truncate_lower_def)
  have strat: "merge_strategy ?m = kTruncateLower" by simp
  note own = StoreRange_truncate_lower_owner [OF inv strat m']
  have "range_owner ?m 7 = Some 5"
    by (simp add: range_owner_def RetrieveRange_find [OF inv] covers_def range_outputs_def)
  with own [of 7] own [of 12] inv m' strat show ?thesis by (intro exI [of _ ?m] exI [of _ m']) simp
qed

text \<open>
  With \<open>kTruncateUpper\<close>, after a successful \<open>StoreRange\<close>: addresses above the last address
  of the new range, and addresses at or below the last range that ends before it, keep their
  owner; of the others the ones in the new range belong to the new entry and the rest to
  nobody.
\<close>

theorem StoreRange_truncate_upper_owner:
  assumes "range_map_inv m" and "merge_strategy m = kTruncateUpper"
    and "RangeMap_StoreRange m b s e = Some (m', True)"
  shows "range_owner m' a =
    (if b + (s - 1) < a \<or> (\<exists>p\<in>set (rm_map m). a \<le> fst p \<and> fst p < b + (s - 1)) then range_owner m a
     else if b \<le> a then Some e else None)"
proof -
  note st = StoreRange_spec [OF assms(1,3), unfolded assms(2)]
  then have g: "s \<noteq> 0" "b \<le> b + (s - 1)" by (auto simp: store_spec_def Let_def split: if_splits)
  then have "(b + (s - 1)) - b \<noteq> - 1"
    and "store_spec kTruncateUpper (rm_map m) b 0 s e = store_truncate_upper (rm_map m) b (b + (s - 1)) 0 e"
    by (auto simp: store_spec_def Let_def)
  with st g show ?thesis
    using truncate_upper_owner_lemma [OF assms(1) [unfolded range_map_inv_def] g(2), where m = m and m' = m' and d = 0 and e = e]
    by simp
qed

theorem StoreRange_truncate_upper_owner_witness:
  "\<exists>m m'. range_map_inv m \<and> merge_strategy m = kTruncateUpper \<and>
     RangeMap_StoreRange m 8 16 (6 :: nat) = Some (m', True) \<and>
     range_owner m' 12 = Some 5 \<and> range_owner m' 20 = Some 6"
proof -
  let ?m = "\<lparr>merge_strategy = kTruncateUpper, rm_map = [(15, \<lparr>base = 0, delta = 0, entry = 5 :: nat\<rparr>)]\<rparr>"
  have inv: "range_map_inv ?m" by (simp add: range_map_inv_def range_ok_def)
  obtain m' where m': "RangeMap_StoreRange ?m 8 16 6 = Some (m', True)"
    by (simp add: RangeMap_StoreRange_def StoreRangeInternal_spec [OF inv] store_spec_def
        store_truncate_upper_def)
  have strat: "merge_strategy ?m = kTruncateUpper" by simp
  note own = StoreRange_truncate_upper_owner [OF inv strat m']
  have "range_owner ?m 12 = Some 5"
    by (simp add: range_owner_def RetrieveRange_find [OF inv] covers_def range_outputs_def)
  with own [of 12] own [of 20] inv m' strat show ?thesis by (intro exI [of _ ?m] exI [of _ m']) simp
qed

text \<open>What a client of a map with disjoint ranges needs: stores are defined and add at most one entry.\<close>

definition exclusive_table :: "('e \<Rightarrow> bool) \<Rightarrow> 'e RangeMap \<Rightarrow> bool" where
  "exclusive_table P m \<longleftrightarrow> range_map_inv m \<and> merge_strategy m = kExclusiveRanges \<and>
     (\<forall>p\<in>set (rm_map m). P (entry (snd p)))"

lemma exclusive_table_new [simp]: "exclusive_table P RangeMap_new"
  by (simp add: exclusive_table_def) (simp add: RangeMap_new_def)

lemma exclusive_table_mono: "exclusive_table P m \<Longrightarrow> (\<And>e. P e \<Longrightarrow> Q e) \<Longrightarrow> exclusive_table Q m"
  by (auto simp: exclusive_table_def)

lemma exclusive_table_inv: "exclusive_table P m \<Longrightarrow> range_map_inv m"
  by (simp add: exclusive_table_def)

lemma exclusive_table_StoreRange:
  assumes "exclusive_table P m" and "P e"
  shows "\<exists>m' ok. RangeMap_StoreRange m b s e = Some (m', ok) \<and> exclusive_table P m'"
proof -
  have inv: "range_map_inv m" and strat: "merge_strategy m = kExclusiveRanges"
    and P: "\<forall>p\<in>set (rm_map m). P (entry (snd p))"
    using assms(1) by (simp_all add: exclusive_table_def)
  obtain m' ok where m': "RangeMap_StoreRange m b s e = Some (m', ok)" "range_map_inv m'"
    "merge_strategy m' = merge_strategy m"
    using StoreRange_defined [OF inv] by blast
  have "set (rm_map m') \<subseteq> insert (b + (s - 1), \<lparr>base = b, delta = 0, entry = e\<rparr>) (set (rm_map m))"
    unfolding StoreRange_spec(1) [OF inv m'(1)]
    by (auto simp: strat store_spec_def store_exclusive_def Let_def)
  with m' strat P assms(2) show ?thesis
    by (intro exI [of _ m'] exI [of _ ok]) (auto simp: exclusive_table_def)
qed

lemma RetrieveRange_entry:
  assumes "exclusive_table P m" and "RangeMap_RetrieveRange m a = Some (e, b, d, s)"
  shows "P e"
  using assms find_SomeD [of "covers a" "rm_map m"]
  by (fastforce simp: exclusive_table_def RetrieveRange_find range_outputs_def)

lemma RetrieveRange_via_nearest:
  assumes "range_map_inv m"
  shows "RangeMap_RetrieveNearestRange m a = map_option range_outputs (last_range_from (rm_map m) a) \<and>
    RangeMap_RetrieveRange m a =
      (case RangeMap_RetrieveNearestRange m a of None \<Rightarrow> None
       | Some (e, b, d, s) \<Rightarrow> if b \<le> a \<and> a - b < s then Some (e, b, d, s) else None)"
proof (cases "RangeMap_RetrieveRange m a")
  case (Some out)
  then obtain p where "List.find (covers a) (rm_map m) = Some p" and out: "out = range_outputs p"
    by (auto simp: RetrieveRange_find [OF assms])
  then have p: "p \<in> set (rm_map m)" "covers a p" "out = range_outputs p"
    using find_SomeD by fast+
  have "range_ok p" using ranges_inv_ok [OF assms [unfolded range_map_inv_def] p(1)] .
  then have "base (snd p) \<le> a \<and> a - base (snd p) < fst p - base (snd p) + 1"
    using p(2) in_range_via_size [of "base (snd p)" "fst p" a] by (simp add: covers_def range_ok_def)
  moreover have near: "RangeMap_RetrieveNearestRange m a = Some out"
    using Some by (simp add: RangeMap_RetrieveNearestRange_def)
  ultimately have "RangeMap_RetrieveRange m a =
      (case RangeMap_RetrieveNearestRange m a of None \<Rightarrow> None
       | Some (e, b, d, s) \<Rightarrow> if b \<le> a \<and> a - b < s then Some (e, b, d, s) else None)"
    unfolding near Some using p(3) by (cases p) (simp add: range_outputs_def)
  with RetrieveNearestRange_last [OF assms, of a] show ?thesis by simp
next
  case None
  then have none: "\<forall>p\<in>set (rm_map m). \<not> covers a p"
    by (auto simp: RetrieveRange_find [OF assms] find_None_iff)
  have "\<not> (base (snd p) \<le> a \<and> a - base (snd p) < fst p - base (snd p) + 1)" if "p \<in> set (rm_map m)" for p
    using none that in_range_via_size [of "base (snd p)" "fst p" a] ranges_inv_ok [of "rm_map m" p] assms
    by (auto simp: range_map_inv_def range_ok_def covers_def)
  moreover have "p \<in> set (rm_map m)" if "last_range_from (rm_map m) a = Some p" for p
    using that last_in_set [of "filter (\<lambda>p. base (snd p) \<le> a) (rm_map m)"]
    by (auto simp: last_range_from_eq [OF refl] split: if_splits)
  ultimately show ?thesis
    using None RetrieveNearestRange_last [OF assms]
    by (auto simp: range_outputs_def split: option.splits prod.splits)
qed

lemma RetrieveNearestRange_entry:
  assumes "exclusive_table P m" and "RangeMap_RetrieveNearestRange m a = Some (e, b, d, s)"
  shows "P e"
proof -
  have inv: "range_map_inv m" using assms(1) by (rule exclusive_table_inv)
  obtain p where p: "last_range_from (rm_map m) a = Some p" "e = entry (snd p)"
    using assms(2) RetrieveRange_via_nearest [OF inv, of a] by (auto simp: range_outputs_def)
  let ?ps = "filter (\<lambda>p. base (snd p) \<le> a) (rm_map m)"
  have "p \<in> set ?ps" using p(1) last_in_set [of ?ps]
    by (simp add: last_range_from_eq [OF refl] split: if_splits)
  then have "p \<in> set (rm_map m)" by simp
  with p(2) assms(1) show ?thesis by (simp add: exclusive_table_def)
qed

text \<open>
  On a well-formed map \<open>RetrieveNearestRange\<close> returns the last range whose base is not
  above the address, and \<open>RetrieveRange\<close> returns the same range when it reaches the address
  and fails when it does not; \<open>address >= base && address - base < size\<close> on the outputs
  decides which of the two cases holds.
\<close>

theorem RetrieveNearestRange_correct:
  assumes "range_map_inv m"
  shows "RangeMap_RetrieveNearestRange m a = map_option range_outputs (last_range_from (rm_map m) a) \<and>
    RangeMap_RetrieveRange m a =
      (case RangeMap_RetrieveNearestRange m a of None \<Rightarrow> None
       | Some (e, b, d, s) \<Rightarrow> if b \<le> a \<and> a - b < s then Some (e, b, d, s) else None)"
  by (rule RetrieveRange_via_nearest [OF assms])

theorem RetrieveNearestRange_correct_witness:
  "range_map_inv \<lparr>merge_strategy = kExclusiveRanges, rm_map = [(15, \<lparr>base = 4, delta = 0, entry = 5 :: nat\<rparr>)]\<rparr> \<and>
   RangeMap_RetrieveNearestRange
     \<lparr>merge_strategy = kExclusiveRanges, rm_map = [(15, \<lparr>base = 4, delta = 0, entry = 5 :: nat\<rparr>)]\<rparr> 20
     = Some (5, 4, 0, 12)"
    (is "range_map_inv ?m \<and> _")
proof -
  have inv: "range_map_inv ?m" by (simp add: range_map_inv_def range_ok_def)
  with RetrieveNearestRange_correct [OF inv, of 20] show ?thesis
    by (simp add: last_range_from_def range_outputs_def)
qed

end
