(* ===== verification/Resolver_Types.thy ===== *)
theory Resolver_Types
  imports Range_Map
begin

text \<open>
  The records of the source line resolvers: \<open>Line\<close>, \<open>Function\<close> and \<open>PublicSymbol\<close>
  (processor/source_line_resolver_base_types.h, basic_source_line_resolver_types.h) and
  \<open>WindowsFrameInfo\<close> (processor/windows_frame_info.h). An \<open>int32_t\<close> is kept as a 32-bit
  word and read as a signed number by \<^const>\<open>sint\<close>; a \<open>linked_ptr\<close> to an object nobody
  changes afterwards is an optional value, \<^const>\<open>None\<close> being the null pointer.
\<close>

type_synonym int32 = u32
type_synonym 'a linked_ptr = "'a option"

record Line =
  line_address :: MemAddr
  line_size :: MemAddr
  source_file_id :: int32
  line_number :: int32

record Function =
  func_name :: string
  func_address :: MemAddr
  func_size :: MemAddr
  func_parameter_size :: int32
  func_is_multiple :: bool
  func_lines :: "Line linked_ptr RangeMap"

definition Function_new :: "string \<Rightarrow> MemAddr \<Rightarrow> MemAddr \<Rightarrow> int32 \<Rightarrow> bool \<Rightarrow> Function" where
  "Function_new name address size' parameter_size is_multiple =
     \<lparr>func_name = name, func_address = address, func_size = size',
      func_parameter_size = parameter_size, func_is_multiple = is_multiple,
      func_lines = RangeMap_new\<rparr>"

record PublicSymbol =
  pub_name :: string
  pub_address :: MemAddr
  pub_parameter_size :: int32
  pub_is_multiple :: bool

datatype StackInfoTypes =
    STACK_INFO_FPO | STACK_INFO_TRAP | STACK_INFO_TSS | STACK_INFO_STANDARD
  | STACK_INFO_FRAME_DATA | STACK_INFO_LAST | STACK_INFO_UNKNOWN

text \<open>The numeric values of the enumerators, and the cast from \<open>int\<close>.\<close>

fun stack_info_code :: "StackInfoTypes \<Rightarrow> int" where
  "stack_info_code STACK_INFO_FPO = 0"
| "stack_info_code STACK_INFO_TRAP = 1"
| "stack_info_code STACK_INFO_TSS = 2"
| "stack_info_code STACK_INFO_STANDARD = 3"
| "stack_info_code STACK_INFO_FRAME_DATA = 4"
| "stack_info_code STACK_INFO_LAST = 5"
| "stack_info_code STACK_INFO_UNKNOWN = -1"

definition stack_info_of :: "int \<Rightarrow> StackInfoTypes" where
  "stack_info_of i =
     (if i = 0 then STACK_INFO_FPO else if i = 1 then STACK_INFO_TRAP
      else if i = 2 then STACK_INFO_TSS else if i = 3 then STACK_INFO_STANDARD
      else if i = 4 then STACK_INFO_FRAME_DATA else if i = 5 then STACK_INFO_LAST
      else STACK_INFO_UNKNOWN)"

lemma stack_info_of_code [simp]: "stack_info_of (stack_info_code t) = t"
  by (cases t) (simp_all add: stack_info_of_def)

definition VALID_NONE :: int32 where "VALID_NONE = 0"
definition VALID_PARAMETER_SIZE :: int32 where "VALID_PARAMETER_SIZE = 1"
definition VALID_ALL :: int32 where "VALID_ALL = - 1"

record WindowsFrameInfo =
  wfi_type :: StackInfoTypes
  wfi_valid :: int32
  prolog_size :: u32
  epilog_size :: u32
  parameter_size :: u32
  saved_register_size :: u32
  local_size :: u32
  max_stack_size :: u32
  allocates_base_pointer :: bool
  program_string :: string

definition WindowsFrameInfo_default :: WindowsFrameInfo where
  "WindowsFrameInfo_default =
     \<lparr>wfi_type = STACK_INFO_UNKNOWN, wfi_valid = VALID_NONE, prolog_size = 0, epilog_size = 0,
      parameter_size = 0, saved_register_size = 0, local_size = 0, max_stack_size = 0,
      allocates_base_pointer = False, program_string = []\<rparr>"

definition WindowsFrameInfo_new ::
    "StackInfoTypes \<Rightarrow> u32 \<Rightarrow> u32 \<Rightarrow> u32 \<Rightarrow> u32 \<Rightarrow> u32 \<Rightarrow> u32 \<Rightarrow> int32 \<Rightarrow> string \<Rightarrow> WindowsFrameInfo" where
  "WindowsFrameInfo_new type prolog epilog parameter saved local max' allocates program =
     \<lparr>wfi_type = type, wfi_valid = VALID_ALL, prolog_size = prolog, epilog_size = epilog,
      parameter_size = parameter, saved_register_size = saved, local_size = local,
      max_stack_size = max', allocates_base_pointer = (allocates \<noteq> 0), program_string = program\<rparr>"

definition WindowsFrameInfo_CopyFrom :: "WindowsFrameInfo \<Rightarrow> WindowsFrameInfo \<Rightarrow> WindowsFrameInfo" where
  "WindowsFrameInfo_CopyFrom this that = this
     \<lparr>wfi_type := wfi_type that, wfi_valid := wfi_valid that, prolog_size := prolog_size that,
      epilog_size := epilog_size that, parameter_size := parameter_size that,
      saved_register_size := saved_register_size that, local_size := local_size that,
      max_stack_size := max_stack_size that,
      allocates_base_pointer := allocates_base_pointer that,
      program_string := program_string that\<rparr>"

definition WindowsFrameInfo_Clear :: "WindowsFrameInfo \<Rightarrow> WindowsFrameInfo" where
  "WindowsFrameInfo_Clear this =
     this\<lparr>wfi_type := STACK_INFO_UNKNOWN, wfi_valid := VALID_NONE, program_string := []\<rparr>"

lemma CopyFrom_eq: "WindowsFrameInfo_CopyFrom this that = that"
  by (cases this; cases that) (simp add: WindowsFrameInfo_CopyFrom_def)

end
