(* ===== verification/Map_Serializers.thy ===== *)
theory Map_Serializers
  imports Byte_Memory Address_Map Contained_Range_Map Resolver_Types
begin

text \<open>
  The serializers that turn the maps of the basic resolver into the byte format of the fast
  one: \<open>SimpleSerializer\<close> and its specializations (processor/simple_serializer.h,
  simple_serializer-inl.h) and \<open>StdMapSerializer\<close>, \<open>AddressMapSerializer\<close>,
  \<open>RangeMapSerializer\<close>, \<open>ContainedRangeMapSerializer\<close> (processor/map_serializers.h,
  map_serializers-inl.h). A specialization is a record of its two static functions; the
  template arguments of the map serializers are such records.

  \<open>size_t\<close> is 64 bits wide and the objects measured lie in memory, so sizes kept in it are
  natural numbers; where the source keeps a size in an \<open>unsigned int\<close> or casts it to
  \<open>uint32_t\<close>, the reduction modulo \<open>2 ^ 32\<close> is written out.

  The locale \<open>serializer\<close> is the contract between a \<open>SimpleSerializer\<close> and its users:
  \<open>Write\<close> puts exactly \<open>SizeOf\<close> bytes, the encoding of the item, at its destination.
\<close>

section \<open>Simple serializers\<close>

record 'a SimpleSerializer =
  SizeOf :: "'a \<Rightarrow> nat"
  Write :: "'a \<Rightarrow> mem \<Rightarrow> mem option"

definition u32_serializer :: "u32 SimpleSerializer" where
  "u32_serializer = \<lparr>SizeOf = (\<lambda>_. 4), Write = (\<lambda>w. put (put_u32 w))\<rparr>"

definition u64_serializer :: "u64 SimpleSerializer" where
  "u64_serializer = \<lparr>SizeOf = (\<lambda>_. 8), Write = (\<lambda>w. put (put_u64 w))\<rparr>"

definition bool_bytes :: "bool \<Rightarrow> byte list" where
  "bool_bytes b = [if b then 255 else 0]"

definition bool_serializer :: "bool SimpleSerializer" where
  "bool_serializer = \<lparr>SizeOf = (\<lambda>_. 1), Write = (\<lambda>b. put (bool_bytes b))\<rparr>"

definition bool_Read :: "byte list \<Rightarrow> (bool \<times> byte list) option" where
  "bool_Read source = (case source of [] \<Rightarrow> None | b # rest \<Rightarrow> Some (b \<noteq> 0, rest))"

text \<open>\<open>strcpy\<close> stops at the first NUL; the pointer moves by the full size of the string.\<close>

definition string_serializer :: "string SimpleSerializer" where
  "string_serializer = \<lparr>SizeOf = (\<lambda>s. length s + 1),
     Write = (\<lambda>s m. case m of (buf, None) \<Rightarrow> None
       | (buf, Some dest) \<Rightarrow> map_option (\<lambda>buf. (buf, Some (dest + (length s + 1))))
           (write_at buf dest (takeWhile (\<lambda>b. b \<noteq> 0) (string_bytes s) @ [0])))\<rparr>"

definition cstring_serializer :: "byte list SimpleSerializer" where
  "cstring_serializer = \<lparr>SizeOf = (\<lambda>p. length (takeWhile (\<lambda>b. b \<noteq> 0) p) + 1),
     Write = (\<lambda>p. put (takeWhile (\<lambda>b. b \<noteq> 0) p @ [0]))\<rparr>"

definition Line_serializer :: "Line SimpleSerializer" where
  "Line_serializer = \<lparr>
     SizeOf = (\<lambda>line. SizeOf u64_serializer (line_address line) + SizeOf u64_serializer (line_size line)
        + SizeOf u32_serializer (source_file_id line) + SizeOf u32_serializer (line_number line)),
     Write = (\<lambda>line dest. do {
        dest \<leftarrow> Write u64_serializer (line_address line) dest;
        dest \<leftarrow> Write u64_serializer (line_size line) dest;
        dest \<leftarrow> Write u32_serializer (source_file_id line) dest;
        Write u32_serializer (line_number line) dest })\<rparr>"

definition PublicSymbol_serializer :: "PublicSymbol SimpleSerializer" where
  "PublicSymbol_serializer = \<lparr>
     SizeOf = (\<lambda>pubsymbol. SizeOf string_serializer (pub_name pubsymbol)
        + SizeOf u64_serializer (pub_address pubsymbol)
        + SizeOf u32_serializer (pub_parameter_size pubsymbol)),
     Write = (\<lambda>pubsymbol dest. do {
        dest \<leftarrow> Write string_serializer (pub_name pubsymbol) dest;
        dest \<leftarrow> Write u64_serializer (pub_address pubsymbol) dest;
        Write u32_serializer (pub_parameter_size pubsymbol) dest })\<rparr>"

definition WindowsFrameInfo_serializer :: "WindowsFrameInfo SimpleSerializer" where
  "WindowsFrameInfo_serializer = \<lparr>
     SizeOf = (\<lambda>wfi. (4 + SizeOf u32_serializer (wfi_valid wfi)
        + SizeOf u32_serializer (prolog_size wfi) + SizeOf u32_serializer (epilog_size wfi)
        + SizeOf u32_serializer (parameter_size wfi) + SizeOf u32_serializer (saved_register_size wfi)
        + SizeOf u32_serializer (local_size wfi) + SizeOf u32_serializer (max_stack_size wfi)
        + SizeOf bool_serializer (allocates_base_pointer wfi)
        + SizeOf string_serializer (program_string wfi)) mod 2 ^ 32),
     Write = (\<lambda>wfi dest. do {
        dest \<leftarrow> Write u32_serializer (word_of_int (stack_info_code (wfi_type wfi))) dest;
        dest \<leftarrow> Write u32_serializer (wfi_valid wfi) dest;
        dest \<leftarrow> Write u32_serializer (prolog_size wfi) dest;
        dest \<leftarrow> Write u32_serializer (epilog_size wfi) dest;
        dest \<leftarrow> Write u32_serializer (parameter_size wfi) dest;
        dest \<leftarrow> Write u32_serializer (saved_register_size wfi) dest;
        dest \<leftarrow> Write u32_serializer (local_size wfi) dest;
        dest \<leftarrow> Write u32_serializer (max_stack_size wfi) dest;
        dest \<leftarrow> Write bool_serializer (allocates_base_pointer wfi) dest;
        Write string_serializer (program_string wfi) dest })\<rparr>"

text \<open>
  The specializations for \<open>linked_ptr\<close> of \<open>Line\<close>, \<open>Function\<close>, \<open>PublicSymbol\<close> and
  \<open>WindowsFrameInfo\<close> are the same code: a null pointer takes no bytes.
\<close>

definition linked_ptr_serializer :: "'a SimpleSerializer \<Rightarrow> 'a linked_ptr SimpleSerializer" where
  "linked_ptr_serializer ser = \<lparr>
     SizeOf = (\<lambda>ptr. case ptr of None \<Rightarrow> 0 | Some x \<Rightarrow> SizeOf ser x),
     Write = (\<lambda>ptr dest. case ptr of None \<Rightarrow> Some dest | Some x \<Rightarrow> Write ser x dest)\<rparr>"

section \<open>Map serializers\<close>

lemma size_map_kid: "crm_map c = Some m \<Longrightarrow> (k, v) \<in> set m \<Longrightarrow> size v < size c"
  using size_kid [of "(k, v)" c] by (simp add: crm_kids_def)

text \<open>
  The loop the three \<open>Write\<close> functions share: store the offset of the value relative to
  \<open>start_address\<close>, then the key in the key array, then the value at the end.
\<close>

fun write_nodes ::
    "('k \<Rightarrow> mem \<Rightarrow> mem option) \<Rightarrow> ('v \<Rightarrow> mem \<Rightarrow> mem option) \<Rightarrow> nat \<Rightarrow> nat \<Rightarrow> ('k \<times> 'v) list \<Rightarrow>
     nat \<Rightarrow> byte list \<Rightarrow> nat option \<Rightarrow> nat option \<Rightarrow> mem option" where
  "write_nodes wk wv start offsets [] index buf key_address dest = Some (buf, dest)"
| "write_nodes wk wv start offsets ((k, v) # m) index buf key_address dest =
     (case dest of None \<Rightarrow> None | Some d \<Rightarrow> do {
        buf \<leftarrow> write_at buf (offsets + 4 * index) (put_u32 (word_of_nat (d - start)));
        (buf, key_address) \<leftarrow> wk k (buf, key_address);
        (buf, dest) \<leftarrow> wv v (buf, dest);
        write_nodes wk wv start offsets m (index + 1) buf key_address dest })"

text \<open>Number of nodes, room for the offsets and for the keys, then the loop.\<close>

definition write_map ::
    "('k \<Rightarrow> mem \<Rightarrow> mem option) \<Rightarrow> ('v \<Rightarrow> mem \<Rightarrow> mem option) \<Rightarrow> nat \<Rightarrow> ('k \<times> 'v) list \<Rightarrow> mem \<Rightarrow> mem option" where
  "write_map wk wv sizeof_key m mem = (case mem of
     (buf, None) \<Rightarrow> None
   | (buf, Some start_address) \<Rightarrow> do {
       (buf, dest) \<leftarrow> Write u32_serializer (word_of_nat (length m)) (buf, Some start_address);
       let offsets = start_address + 4;
           key_address = offsets + 4 * length m;
           dest = key_address + sizeof_key * length m
       in write_nodes wk wv start_address offsets m 0 buf (Some key_address) (Some dest) })"

lemma write_nodes_cong [fundef_cong]:
  assumes "m = m'" and "\<And>k v x. (k, v) \<in> set m' \<Longrightarrow> wv v x = wv' v x"
    and "wk = wk'" "start = start'" "offsets = offsets'" "index = index'" "buf = buf'" "ka = ka'" "dest = dest'"
  shows "write_nodes wk wv start offsets m index buf ka dest =
         write_nodes wk' wv' start' offsets' m' index' buf' ka' dest'"
  using assms(2) unfolding assms(1,3-)
proof (induction m' arbitrary: index' buf' ka' dest')
  case (Cons p m)
  obtain k v where p: "p = (k, v)" by fastforce
  have "wv v = wv' v" using Cons.prems [of k v] p by (intro ext) simp
  moreover have "write_nodes wk' wv start' offsets' m i b ka d = write_nodes wk' wv' start' offsets' m i b ka d"
    for i b ka d by (rule Cons.IH) (use Cons.prems in auto)
  ultimately show ?case unfolding p write_nodes.simps by presburger
qed simp

lemma write_map_cong [fundef_cong]:
  assumes "m = m'" and "\<And>k v x. (k, v) \<in> set m' \<Longrightarrow> wv v x = wv' v x" and "wk = wk'" "n = n'" "mem = mem'"
  shows "write_map wk wv n m mem = write_map wk' wv' n' m' mem'"
proof -
  have "write_nodes wk' wv start offsets m' i b ka d = write_nodes wk' wv' start offsets m' i b ka d"
    for start offsets i b ka d using assms(2) by (intro write_nodes_cong) auto
  then show ?thesis unfolding assms(1,3-) write_map_def by presburger
qed

definition StdMap_SizeOf :: "'k SimpleSerializer \<Rightarrow> 'v SimpleSerializer \<Rightarrow> ('k, 'v) std_map \<Rightarrow> nat" where
  "StdMap_SizeOf ks vs m = (1 + length m) * 4 + (\<Sum>(k, v)\<leftarrow>m. SizeOf ks k + SizeOf vs v)"

definition StdMap_Write ::
    "'k SimpleSerializer \<Rightarrow> 'v SimpleSerializer \<Rightarrow> nat \<Rightarrow> ('k, 'v) std_map \<Rightarrow> mem \<Rightarrow> mem option" where
  "StdMap_Write ks vs sizeof_key m dest =
     (if snd dest = None then Some dest else write_map (Write ks) (Write vs) sizeof_key m dest)"

text \<open>\<open>new char[size]\<close> never returns null; its bytes are indeterminate, here the argument \<open>fresh\<close>.\<close>

definition Serialize ::
    "(nat \<Rightarrow> byte list) \<Rightarrow> ('m \<Rightarrow> nat) \<Rightarrow> ('m \<Rightarrow> mem \<Rightarrow> mem option) \<Rightarrow> 'm \<Rightarrow> (byte list \<times> u32) option" where
  "Serialize fresh size_of write m = do {
     let size_to_alloc = (word_of_nat (size_of m) :: u32);
     (buf, _) \<leftarrow> write m (fresh (unat size_to_alloc), Some 0);
     Some (buf, size_to_alloc) }"

definition StdMap_Serialize ::
    "(nat \<Rightarrow> byte list) \<Rightarrow> 'k SimpleSerializer \<Rightarrow> 'v SimpleSerializer \<Rightarrow> nat \<Rightarrow> ('k, 'v) std_map \<Rightarrow> (byte list \<times> u32) option" where
  "StdMap_Serialize fresh ks vs sizeof_key =
     Serialize fresh (StdMap_SizeOf ks vs) (StdMap_Write ks vs sizeof_key)"

definition AddressMap_SizeOf :: "'e SimpleSerializer \<Rightarrow> 'e AddressMap \<Rightarrow> nat" where
  "AddressMap_SizeOf es m = StdMap_SizeOf u64_serializer es (am_map m)"

definition AddressMap_Write :: "'e SimpleSerializer \<Rightarrow> 'e AddressMap \<Rightarrow> mem \<Rightarrow> mem option" where
  "AddressMap_Write es m dest = StdMap_Write u64_serializer es 8 (am_map m) dest"

definition AddressMap_Serialize ::
    "(nat \<Rightarrow> byte list) \<Rightarrow> 'e SimpleSerializer \<Rightarrow> 'e AddressMap \<Rightarrow> (byte list \<times> u32) option" where
  "AddressMap_Serialize fresh es m = StdMap_Serialize fresh u64_serializer es 8 (am_map m)"

definition RangeMap_SizeOf :: "'e SimpleSerializer \<Rightarrow> 'e RangeMap \<Rightarrow> nat" where
  "RangeMap_SizeOf es m = (1 + length (rm_map m)) * 4 +
     (\<Sum>(high, range)\<leftarrow>rm_map m. SizeOf u64_serializer high + SizeOf u64_serializer (base range)
        + SizeOf es (entry range))"

definition RangeMap_Write :: "'e SimpleSerializer \<Rightarrow> 'e RangeMap \<Rightarrow> mem \<Rightarrow> mem option" where
  "RangeMap_Write es m dest =
     (if snd dest = None then Some dest
      else write_map (Write u64_serializer)
             (\<lambda>range dest. do { dest \<leftarrow> Write u64_serializer (base range) dest; Write es (entry range) dest })
             8 (rm_map m) dest)"

definition RangeMap_Serialize ::
    "(nat \<Rightarrow> byte list) \<Rightarrow> 'e SimpleSerializer \<Rightarrow> 'e RangeMap \<Rightarrow> (byte list \<times> u32) option" where
  "RangeMap_Serialize fresh es = Serialize fresh (RangeMap_SizeOf es) (RangeMap_Write es)"

function ContainedRangeMap_SizeOf :: "'e SimpleSerializer \<Rightarrow> 'e ContainedRangeMap \<Rightarrow> nat" where
  "ContainedRangeMap_SizeOf es c =
     SizeOf u64_serializer (crm_base c) + SizeOf es (crm_entry c) + 4 + 4 +
     (case crm_map c of None \<Rightarrow> 0
      | Some m \<Rightarrow> length m * 4 + (\<Sum>p\<leftarrow>m. SizeOf u64_serializer (fst p) + ContainedRangeMap_SizeOf es (snd p)))"
  by pat_completeness auto
termination
  by (relation "measure (\<lambda>(_, c). size c)") (auto intro!: size_kid simp: crm_kids_def)

function ContainedRangeMap_Write :: "'e SimpleSerializer \<Rightarrow> 'e ContainedRangeMap \<Rightarrow> mem \<Rightarrow> mem option" where
  "ContainedRangeMap_Write es c dest =
     (if snd dest = None then Some dest
      else do {
        dest \<leftarrow> Write u64_serializer (crm_base c) dest;
        dest \<leftarrow> Write u32_serializer (word_of_nat (SizeOf es (crm_entry c))) dest;
        dest \<leftarrow> Write es (crm_entry c) dest;
        case crm_map c of
          None \<Rightarrow> Write u32_serializer 0 dest
        | Some m \<Rightarrow> write_map (Write u64_serializer) (ContainedRangeMap_Write es) 8 m dest })"
  by pat_completeness auto
termination
  by (relation "measure (\<lambda>(_, c, _). size c)") (auto intro: size_map_kid)

declare ContainedRangeMap_SizeOf.simps [simp del] ContainedRangeMap_Write.simps [simp del]

definition ContainedRangeMap_Serialize ::
    "(nat \<Rightarrow> byte list) \<Rightarrow> 'e SimpleSerializer \<Rightarrow> 'e ContainedRangeMap \<Rightarrow> (byte list \<times> u32) option" where
  "ContainedRangeMap_Serialize fresh es = Serialize fresh (ContainedRangeMap_SizeOf es) (ContainedRangeMap_Write es)"

definition Function_serializer :: "Function SimpleSerializer" where
  "Function_serializer = \<lparr>
     SizeOf = (\<lambda>func. (SizeOf string_serializer (func_name func) + SizeOf u64_serializer (func_address func)
        + SizeOf u64_serializer (func_size func) + SizeOf u32_serializer (func_parameter_size func)
        + RangeMap_SizeOf (linked_ptr_serializer Line_serializer) (func_lines func)) mod 2 ^ 32),
     Write = (\<lambda>func dest. do {
        dest \<leftarrow> Write string_serializer (func_name func) dest;
        dest \<leftarrow> Write u64_serializer (func_address func) dest;
        dest \<leftarrow> Write u64_serializer (func_size func) dest;
        dest \<leftarrow> Write u32_serializer (func_parameter_size func) dest;
        RangeMap_Write (linked_ptr_serializer Line_serializer) (func_lines func) dest })\<rparr>"

definition Line_ptr_serializer :: "Line linked_ptr SimpleSerializer" where
  "Line_ptr_serializer = linked_ptr_serializer Line_serializer"

definition Function_ptr_serializer :: "Function linked_ptr SimpleSerializer" where
  "Function_ptr_serializer = linked_ptr_serializer Function_serializer"

definition PublicSymbol_ptr_serializer :: "PublicSymbol linked_ptr SimpleSerializer" where
  "PublicSymbol_ptr_serializer = linked_ptr_serializer PublicSymbol_serializer"

definition WindowsFrameInfo_ptr_serializer :: "WindowsFrameInfo linked_ptr SimpleSerializer" where
  "WindowsFrameInfo_ptr_serializer = linked_ptr_serializer WindowsFrameInfo_serializer"

section \<open>Encodings\<close>

text \<open>
  The byte format of a static map (processor/static_map.h): number of nodes, offsets of the
  values, keys, values.
\<close>

primrec node_offsets :: "nat \<Rightarrow> nat list \<Rightarrow> u32 list" where
  "node_offsets d [] = []"
| "node_offsets d (s # ss) = word_of_nat d # node_offsets (d + s) ss"

definition map_bytes :: "('k \<Rightarrow> byte list) \<Rightarrow> ('v \<Rightarrow> byte list) \<Rightarrow> nat \<Rightarrow> ('k \<times> 'v) list \<Rightarrow> byte list" where
  "map_bytes ek ev sizeof_key m =
     put_u32 (word_of_nat (length m)) @
     concat (map put_u32 (node_offsets (4 + 4 * length m + sizeof_key * length m) (map (\<lambda>p. length (ev (snd p))) m))) @
     concat (map (\<lambda>p. ek (fst p)) m) @ concat (map (\<lambda>p. ev (snd p)) m)"

lemma length_node_offsets [simp]: "length (node_offsets d ss) = length ss"
  by (induction ss arbitrary: d) auto

lemma length_concat_put_u32 [simp]: "length (concat (map put_u32 ws)) = 4 * length ws"
  by (induction ws) auto

lemma length_concat_const: "\<forall>p\<in>set m. length (f p) = n \<Longrightarrow> length (concat (map f m)) = n * length m"
  by (induction m) auto

lemma write_at_append_offset:
  "off = length X \<Longrightarrow> length y = length bs \<Longrightarrow> write_at (X @ y @ Z) off bs = Some (X @ bs @ Z)"
  by simp

text \<open>The loop fills the three areas from left to right.\<close>

lemma write_nodes_puts:
  assumes "\<forall>p\<in>set m. puts (wk (fst p)) (ek (fst p)) \<and> length (ek (fst p)) = n \<and> puts (wv (snd p)) (ev (snd p))"
    and "length P = offsets + 4 * index" and "length Q = 4 * length m" and "length K = n * length m"
    and "length V = length (concat (map (\<lambda>p. ev (snd p)) m))" and "start \<le> length P"
    and "ka = length (P @ Q @ KD)" and "d = length (P @ Q @ KD @ K @ VD)"
  shows "write_nodes wk wv start offsets m index (P @ Q @ KD @ K @ VD @ V @ Z) (Some ka) (Some d) =
    Some (P @ concat (map put_u32 (node_offsets (d - start) (map (\<lambda>p. length (ev (snd p))) m))) @
          KD @ concat (map (\<lambda>p. ek (fst p)) m) @ VD @ concat (map (\<lambda>p. ev (snd p)) m) @ Z, Some (d + length V))"
  using assms
proof (induction m arbitrary: index P Q KD K VD V ka d)
  case (Cons p m)
  obtain k v where p: "p = (k, v)" by fastforce
  define Q1 Q2 where "Q1 = take 4 Q" "Q2 = drop 4 Q"
  then have Q: "Q = Q1 @ Q2" "length Q1 = 4" "length Q2 = 4 * length m" using Cons.prems by auto
  define K1 K2 where "K1 = take n K" "K2 = drop n K"
  then have K: "K = K1 @ K2" "length K1 = n" "length K2 = n * length m" using Cons.prems by auto
  define V1 V2 where "V1 = take (length (ev v)) V" "V2 = drop (length (ev v)) V"
  then have V: "V = V1 @ V2" "length V1 = length (ev v)" "length V2 = length (concat (map (\<lambda>p. ev (snd p)) m))"
    using Cons.prems p by auto
  have w: "puts (wk k) (ek k)" "length (ek k) = n" "puts (wv v) (ev v)" using Cons.prems p by auto
  define ob where "ob = put_u32 (word_of_nat (d - start))"
  have ob: "length ob = 4" by (simp add: ob_def)
  have off: "write_at (P @ Q @ KD @ K @ VD @ V @ Z) (offsets + 4 * index) ob =
      Some ((P @ ob) @ Q2 @ KD @ K @ VD @ V @ Z)"
    using write_at_append_offset [of "offsets + 4 * index" P Q1 ob "Q2 @ KD @ K @ VD @ V @ Z"] Cons.prems Q ob by simp
  have key: "wk k ((P @ ob) @ Q2 @ KD @ K @ VD @ V @ Z, Some ka) =
      Some ((P @ ob) @ Q2 @ (KD @ ek k) @ K2 @ VD @ V @ Z, Some (ka + n))"
    using putsD [OF w(1), of K1 "P @ ob @ Q2 @ KD" "K2 @ VD @ V @ Z"] Cons.prems w K Q ob by (simp add: ac_simps)
  have val: "wv v ((P @ ob) @ Q2 @ (KD @ ek k) @ K2 @ VD @ V @ Z, Some d) =
      Some ((P @ ob) @ Q2 @ (KD @ ek k) @ K2 @ (VD @ ev v) @ V2 @ Z, Some (d + length (ev v)))"
    using putsD [OF w(3), of V1 "P @ ob @ Q2 @ KD @ ek k @ K2 @ VD" "V2 @ Z"] Cons.prems w K Q V ob by (simp add: ac_simps)
  have rest: "write_nodes wk wv start offsets m (index + 1) ((P @ ob) @ Q2 @ (KD @ ek k) @ K2 @ (VD @ ev v) @ V2 @ Z)
      (Some (ka + n)) (Some (d + length (ev v))) =
    Some ((P @ ob) @ concat (map put_u32 (node_offsets (d + length (ev v) - start) (map (\<lambda>p. length (ev (snd p))) m))) @
          (KD @ ek k) @ concat (map (\<lambda>p. ek (fst p)) m) @ (VD @ ev v) @ concat (map (\<lambda>p. ev (snd p)) m) @ Z,
          Some (d + length (ev v) + length V2))"
    by (rule Cons.IH) (use Cons.prems Q K V w ob in auto)
  have d: "d + length (ev v) - start = d - start + length (ev v)" using Cons.prems by simp
  show ?case
    unfolding p write_nodes.simps option.case ob_def [symmetric] off bind.bind_lunit key prod.case val rest d
    using V by (simp add: ob_def)
qed simp

lemma write_map_puts:
  assumes "\<forall>p\<in>set m. puts (wk (fst p)) (ek (fst p)) \<and> length (ek (fst p)) = n \<and> puts (wv (snd p)) (ev (snd p))"
  shows "puts (write_map wk wv n m) (map_bytes ek ev n m)"
  unfolding puts_def
proof (intro allI impI)
  fix X y Z :: "byte list"
  let ?c = "put_u32 (word_of_nat (length m))" and ?vs = "concat (map (\<lambda>p. ev (snd p)) m)"
  have lk: "length (concat (map (\<lambda>p. ek (fst p)) m)) = n * length m"
    using assms by (intro length_concat_const) auto
  assume y: "length y = length (map_bytes ek ev n m)"
  define N where "N = length m"
  define c Q K V where "c = take 4 y" and "Q = take (4 * N) (drop 4 y)" and "K = take (n * N) (drop (4 + 4 * N) y)"
    and "V = drop (4 + 4 * N + n * N) y"
  have len: "length c = 4" "length Q = 4 * N" "length K = n * N" "length V = length ?vs"
    using y lk by (simp_all add: map_bytes_def N_def c_def Q_def K_def V_def)
  have "y = c @ Q @ K @ V"
    by (simp add: c_def Q_def K_def V_def append_assoc [symmetric] take_add [symmetric] ac_simps
        flip: drop_drop) (metis add.assoc append_take_drop_id drop_drop take_add)
  then have buf: "put ?c (X @ y @ Z, Some (length X)) = Some (X @ ?c @ Q @ K @ V @ Z, Some (length X + 4))"
    using putsD [OF puts_put, of c ?c X "Q @ K @ V @ Z"] len by simp
  have loop: "write_nodes wk wv (length X) (length X + 4) m 0 ((X @ ?c) @ Q @ [] @ K @ [] @ V @ Z)
      (Some (length X + 4 + 4 * N)) (Some (length X + 4 + 4 * N + n * N)) =
    Some ((X @ ?c) @ concat (map put_u32 (node_offsets (length X + 4 + 4 * N + n * N - length X)
            (map (\<lambda>p. length (ev (snd p))) m))) @
          [] @ concat (map (\<lambda>p. ek (fst p)) m) @ [] @ ?vs @ Z, Some (length X + 4 + 4 * N + n * N + length V))"
    using assms len by (intro write_nodes_puts) (auto simp: N_def)
  show "write_map wk wv n m (X @ y @ Z, Some (length X)) =
      Some (X @ map_bytes ek ev n m @ Z, Some (length X + length (map_bytes ek ev n m)))"
    using loop len lk
    by (simp add: write_map_def u32_serializer_def buf Let_def map_bytes_def N_def ac_simps)
qed

text \<open>The values of a serialized range map and of a serialized contained range map.\<close>

definition range_bytes :: "('e \<Rightarrow> byte list) \<Rightarrow> 'e Range \<Rightarrow> byte list" where
  "range_bytes enc r = put_u64 (base r) @ enc (entry r)"

lemma map_bytes_cong [fundef_cong]:
  assumes "m = m'" and "\<And>k v. (k, v) \<in> set m' \<Longrightarrow> ev v = ev' v" and "ek = ek'" "n = n'"
  shows "map_bytes ek ev n m = map_bytes ek' ev' n' m'"
proof -
  have "ev (snd p) = ev' (snd p)" if "p \<in> set m'" for p using that assms(2) [of "fst p" "snd p"] by simp
  then show ?thesis
    unfolding map_bytes_def assms(1,3,4) by (simp cong: map_cong)
qed

function crm_bytes :: "('e \<Rightarrow> byte list) \<Rightarrow> 'e ContainedRangeMap \<Rightarrow> byte list" where
  "crm_bytes enc c = put_u64 (crm_base c) @ put_u32 (word_of_nat (length (enc (crm_entry c)))) @
     enc (crm_entry c) @ map_bytes put_u64 (crm_bytes enc) 8 (crm_kids c)"
  by pat_completeness auto
termination
  by (relation "measure (\<lambda>(_, c). size c)") (auto dest!: size_kid)

function crm_all :: "('e \<Rightarrow> bool) \<Rightarrow> 'e ContainedRangeMap \<Rightarrow> bool" where
  "crm_all ok c \<longleftrightarrow> ok (crm_entry c) \<and> (\<forall>p\<in>set (crm_kids c). crm_all ok (snd p))"
  by pat_completeness auto
termination
  by (relation "measure (\<lambda>(_, c). size c)") (auto dest!: size_kid)

declare crm_bytes.simps [simp del] crm_all.simps [simp del]

lemma map_bytes_Nil: "map_bytes ek ev n [] = put_u32 0"
  by (simp add: map_bytes_def)

section \<open>The contract of a serializer\<close>

locale serializer =
  fixes ser :: "'a SimpleSerializer" and enc :: "'a \<Rightarrow> byte list" and ok :: "'a \<Rightarrow> bool"
  assumes enc_size: "ok x \<Longrightarrow> length (enc x) = SizeOf ser x"
    and write_enc: "ok x \<Longrightarrow> puts (Write ser x) (enc x)"
begin

lemma std_map_contract:
  assumes "\<forall>p\<in>set m. ok (snd p)"
  shows "puts (StdMap_Write u64_serializer ser 8 m) (map_bytes put_u64 enc 8 m)"
    and "length (map_bytes put_u64 enc 8 m) = StdMap_SizeOf u64_serializer ser m"
proof -
  have "puts (write_map (Write u64_serializer) (Write ser) 8 m) (map_bytes put_u64 enc 8 m)"
    using assms write_enc by (intro write_map_puts) (auto simp: u64_serializer_def puts_put)
  then show "puts (StdMap_Write u64_serializer ser 8 m) (map_bytes put_u64 enc 8 m)"
    by (simp add: puts_def StdMap_Write_def)
  have "length (concat (map (\<lambda>p. enc (snd p)) m)) = (\<Sum>p\<leftarrow>m. SizeOf ser (snd p))"
    using assms by (induction m) (auto simp: enc_size)
  moreover have "length (concat (map (\<lambda>p. put_u64 (fst p)) m)) = 8 * length m"
    by (rule length_concat_const) simp
  moreover have "(\<Sum>p\<leftarrow>m. 8 + SizeOf ser (snd p)) = 8 * length m + (\<Sum>p\<leftarrow>m. SizeOf ser (snd p))"
    by (induction m) auto
  ultimately show "length (map_bytes put_u64 enc 8 m) = StdMap_SizeOf u64_serializer ser m"
    by (simp add: map_bytes_def StdMap_SizeOf_def u64_serializer_def case_prod_beta')
qed

lemma range_map_contract:
  assumes "\<forall>p\<in>set (rm_map m). ok (entry (snd p))"
  shows "puts (RangeMap_Write ser m) (map_bytes put_u64 (range_bytes enc) 8 (rm_map m))"
    and "length (map_bytes put_u64 (range_bytes enc) 8 (rm_map m)) = RangeMap_SizeOf ser m"
proof -
  let ?w = "\<lambda>range dest. do { dest \<leftarrow> Write u64_serializer (base range) dest; Write ser (entry range) dest }"
  have w: "puts (?w r) (range_bytes enc r)" if "ok (entry r)" for r :: "'a Range"
    unfolding range_bytes_def using write_enc [OF that]
    by (intro puts_seq) (auto simp: u64_serializer_def puts_put)
  then have "puts (write_map (Write u64_serializer) ?w 8 (rm_map m)) (map_bytes put_u64 (range_bytes enc) 8 (rm_map m))"
    using assms by (intro write_map_puts) (auto simp: u64_serializer_def puts_put)
  then show "puts (RangeMap_Write ser m) (map_bytes put_u64 (range_bytes enc) 8 (rm_map m))"
    by (simp add: puts_def RangeMap_Write_def)
  have "length (concat (map (\<lambda>p. range_bytes enc (snd p)) xs)) = (\<Sum>p\<leftarrow>xs. 8 + SizeOf ser (entry (snd p)))"
    if "\<forall>p\<in>set xs. ok (entry (snd p))" for xs :: "(u64 \<times> 'a Range) list"
    using that by (induction xs) (auto simp: enc_size range_bytes_def)
  note this [OF assms]
  moreover have "length (concat (map (\<lambda>p. put_u64 (fst p)) (rm_map m))) = 8 * length (rm_map m)"
    by (rule length_concat_const) simp
  moreover have "(\<Sum>p\<leftarrow>xs. 16 + SizeOf ser (entry (snd p))) =
      8 * length xs + (\<Sum>p\<leftarrow>xs. 8 + SizeOf ser (entry (snd p)))" for xs :: "(u64 \<times> 'a Range) list"
    by (induction xs) auto
  ultimately show "length (map_bytes put_u64 (range_bytes enc) 8 (rm_map m)) = RangeMap_SizeOf ser m"
    by (simp add: map_bytes_def RangeMap_SizeOf_def u64_serializer_def case_prod_beta')
qed

lemma contained_size:
  assumes "crm_all ok c" shows "length (crm_bytes enc c) = ContainedRangeMap_SizeOf ser c"
  using assms
proof (induction c rule: measure_induct_rule [of size])
  case (less c)
  have e: "ok (crm_entry c)" and k: "\<forall>p\<in>set (crm_kids c). crm_all ok (snd p)"
    using less.prems by (auto simp: crm_all.simps [of ok c])
  have IH: "\<forall>p\<in>set (crm_kids c). length (crm_bytes enc (snd p)) = ContainedRangeMap_SizeOf ser (snd p)"
    using less.IH size_kid k by blast
  have vals: "length (concat (map (\<lambda>p. crm_bytes enc (snd p)) xs)) = (\<Sum>p\<leftarrow>xs. ContainedRangeMap_SizeOf ser (snd p))"
    if "set xs \<subseteq> set (crm_kids c)" for xs using that IH by (induction xs) auto
  have keys: "length (concat (map (\<lambda>p. put_u64 (fst p)) xs)) = 8 * length xs" for xs :: "(u64 \<times> 'a ContainedRangeMap) list"
    by (rule length_concat_const) simp
  have sum: "(\<Sum>p\<leftarrow>xs. 8 + ContainedRangeMap_SizeOf ser (snd p)) =
      8 * length xs + (\<Sum>p\<leftarrow>xs. ContainedRangeMap_SizeOf ser (snd p))" for xs :: "(u64 \<times> 'a ContainedRangeMap) list"
    by (induction xs) auto
  show ?case
    unfolding crm_bytes.simps [of enc c] ContainedRangeMap_SizeOf.simps [of ser c]
    using vals keys sum enc_size [OF e]
    by (cases "crm_map c") (simp_all add: map_bytes_def crm_kids_def u64_serializer_def)
qed

lemma contained_write:
  assumes "crm_all ok c" shows "puts (ContainedRangeMap_Write ser c) (crm_bytes enc c)"
  using assms
proof (induction c rule: measure_induct_rule [of size])
  case (less c)
  have e: "ok (crm_entry c)" and k: "\<forall>p\<in>set (crm_kids c). crm_all ok (snd p)"
    using less.prems by (auto simp: crm_all.simps [of ok c])
  have IH: "\<forall>p\<in>set (crm_kids c). puts (ContainedRangeMap_Write ser (snd p)) (crm_bytes enc (snd p))"
    using less.IH size_kid k by blast
  have u64: "puts (Write u64_serializer x) (put_u64 x)" for x by (simp add: u64_serializer_def puts_put)
  have u32: "puts (Write u32_serializer x) (put_u32 x)" for x by (simp add: u32_serializer_def puts_put)
  have kids: "puts (case crm_map c of None \<Rightarrow> Write u32_serializer 0
      | Some m \<Rightarrow> write_map (Write u64_serializer) (ContainedRangeMap_Write ser) 8 m)
    (map_bytes put_u64 (crm_bytes enc) 8 (crm_kids c))"
    using IH u64 u32 by (cases "crm_map c") (auto simp: crm_kids_def map_bytes_Nil intro!: write_map_puts)
  have "puts (\<lambda>dest. do {
        dest \<leftarrow> Write u64_serializer (crm_base c) dest;
        dest \<leftarrow> Write u32_serializer (word_of_nat (length (enc (crm_entry c)))) dest;
        dest \<leftarrow> Write ser (crm_entry c) dest;
        (case crm_map c of None \<Rightarrow> Write u32_serializer 0
         | Some m \<Rightarrow> write_map (Write u64_serializer) (ContainedRangeMap_Write ser) 8 m) dest }) (crm_bytes enc c)"
    unfolding crm_bytes.simps [of enc c] by (intro puts_seq u64 u32 write_enc [OF e] kids)
  then show ?case
    unfolding puts_def ContainedRangeMap_Write.simps [of ser c] enc_size [OF e]
    by (cases "crm_map c") simp_all
qed

end

text \<open>\<open>Serialize\<close> over a writer that keeps the contract, as long as the size fits \<open>unsigned int\<close>.\<close>

lemma Serialize_puts:
  assumes "puts (write m) bs" and "length bs = size_of m" and "size_of m < 2 ^ 32"
    and "\<And>n. length (fresh n) = n"
  shows "Serialize fresh size_of write m = Some (bs, word_of_nat (length bs))"
proof -
  have n: "unat (word_of_nat (length bs) :: u32) = length bs"
    using assms(2,3) by (simp add: unat_of_nat take_bit_eq_mod)
  have "write m (fresh (length bs), Some 0) = Some (bs, Some (length bs))"
    using putsD [OF assms(1) assms(4), of "[]" "[]"] by simp
  then show ?thesis by (simp add: Serialize_def Let_def n flip: assms(2))
qed

lemma serializer_linked_ptr:
  assumes "serializer ser enc ok"
  shows "serializer (linked_ptr_serializer ser) (case_option [] enc) (pred_option ok)"
  using assms by (auto simp: serializer_def linked_ptr_serializer_def puts_Nil split: option.splits)

interpretation u32_ser: serializer u32_serializer put_u32 "\<lambda>_. True"
  by unfold_locales (auto simp: u32_serializer_def intro: puts_put)

interpretation u64_ser: serializer u64_serializer put_u64 "\<lambda>_. True"
  by unfold_locales (auto simp: u64_serializer_def intro: puts_put)

interpretation bool_ser: serializer bool_serializer bool_bytes "\<lambda>_. True"
  by unfold_locales (auto simp: bool_serializer_def bool_bytes_def intro: puts_put)

interpretation cstring_ser: serializer cstring_serializer "\<lambda>p. takeWhile (\<lambda>b. b \<noteq> 0) p @ [0]" "\<lambda>_. True"
  by unfold_locales (auto simp: cstring_serializer_def intro: puts_put)

interpretation string_ser: serializer string_serializer "\<lambda>s. string_bytes s @ [0]" no_nul
proof
  fix s assume s: "no_nul s"
  show "length (string_bytes s @ [0]) = SizeOf string_serializer s" by (simp add: string_serializer_def)
  have "takeWhile (\<lambda>b. b \<noteq> 0) (string_bytes s) = string_bytes s"
    using s by (auto simp: takeWhile_eq_all_conv no_nul_def)
  then show "puts (Write string_serializer s) (string_bytes s @ [0])"
    by (simp add: puts_def string_serializer_def del: takeWhile_eq_all_conv)
qed

definition Line_bytes :: "Line \<Rightarrow> byte list" where
  "Line_bytes l = put_u64 (line_address l) @ put_u64 (line_size l) @
     put_u32 (source_file_id l) @ put_u32 (line_number l)"

interpretation line_ser: serializer Line_serializer Line_bytes "\<lambda>_. True"
proof
  fix x
  show "length (Line_bytes x) = SizeOf Line_serializer x"
    by (simp add: Line_bytes_def Line_serializer_def u32_serializer_def u64_serializer_def)
  show "puts (Write Line_serializer x) (Line_bytes x)"
    unfolding Line_bytes_def Line_serializer_def SimpleSerializer.simps
    by (intro puts_seq u64_ser.write_enc u32_ser.write_enc TrueI)
qed

definition PublicSymbol_bytes :: "PublicSymbol \<Rightarrow> byte list" where
  "PublicSymbol_bytes p = (string_bytes (pub_name p) @ [0]) @ put_u64 (pub_address p) @
     put_u32 (pub_parameter_size p)"

interpretation public_ser: serializer PublicSymbol_serializer PublicSymbol_bytes "\<lambda>p. no_nul (pub_name p)"
proof
  fix x :: PublicSymbol assume n: "no_nul (pub_name x)"
  show "length (PublicSymbol_bytes x) = SizeOf PublicSymbol_serializer x"
    by (simp add: PublicSymbol_bytes_def PublicSymbol_serializer_def u32_serializer_def
        u64_serializer_def string_serializer_def)
  show "puts (Write PublicSymbol_serializer x) (PublicSymbol_bytes x)"
    unfolding PublicSymbol_bytes_def PublicSymbol_serializer_def SimpleSerializer.simps
    by (intro puts_seq u64_ser.write_enc u32_ser.write_enc string_ser.write_enc TrueI n)
qed

definition WindowsFrameInfo_bytes :: "WindowsFrameInfo \<Rightarrow> byte list" where
  "WindowsFrameInfo_bytes w = put_u32 (word_of_int (stack_info_code (wfi_type w))) @ put_u32 (wfi_valid w) @
     put_u32 (prolog_size w) @ put_u32 (epilog_size w) @ put_u32 (parameter_size w) @
     put_u32 (saved_register_size w) @ put_u32 (local_size w) @ put_u32 (max_stack_size w) @
     bool_bytes (allocates_base_pointer w) @ string_bytes (program_string w) @ [0]"

interpretation wfi_ser: serializer WindowsFrameInfo_serializer WindowsFrameInfo_bytes
  "\<lambda>w. no_nul (program_string w) \<and> length (program_string w) + 34 < 2 ^ 32"
proof
  fix x :: WindowsFrameInfo assume ok: "no_nul (program_string x) \<and> length (program_string x) + 34 < 2 ^ 32"
  show "length (WindowsFrameInfo_bytes x) = SizeOf WindowsFrameInfo_serializer x"
    using ok by (simp add: WindowsFrameInfo_bytes_def WindowsFrameInfo_serializer_def u32_serializer_def
        bool_serializer_def string_serializer_def bool_bytes_def)
  show "puts (Write WindowsFrameInfo_serializer x) (WindowsFrameInfo_bytes x)"
    unfolding WindowsFrameInfo_bytes_def WindowsFrameInfo_serializer_def SimpleSerializer.simps
    by (intro puts_seq u32_ser.write_enc bool_ser.write_enc string_ser.write_enc TrueI conjunct1 [OF ok])
qed

definition Function_bytes :: "Function \<Rightarrow> byte list" where
  "Function_bytes f = (string_bytes (func_name f) @ [0]) @ put_u64 (func_address f) @ put_u64 (func_size f) @
     put_u32 (func_parameter_size f) @
     map_bytes put_u64 (range_bytes (case_option [] Line_bytes)) 8 (rm_map (func_lines f))"

definition Function_fits :: "Function \<Rightarrow> bool" where
  "Function_fits f \<longleftrightarrow> no_nul (func_name f) \<and> length (Function_bytes f) < 2 ^ 32"

interpretation line_ptr_ser: serializer "linked_ptr_serializer Line_serializer" "case_option [] Line_bytes"
    "pred_option (\<lambda>_. True)"
  by (rule serializer_linked_ptr) unfold_locales

interpretation function_ser: serializer Function_serializer Function_bytes Function_fits
proof
  fix x :: Function assume f: "Function_fits x"
  have lines: "\<forall>p\<in>set (rm_map (func_lines x)). pred_option (\<lambda>_. True) (entry (snd p))"
    by (simp add: pred_option_def)
  have n: "no_nul (func_name x)" using f by (simp add: Function_fits_def)
  show "length (Function_bytes x) = SizeOf Function_serializer x"
    using f line_ptr_ser.range_map_contract(2) [OF lines]
    by (simp add: Function_bytes_def Function_fits_def Function_serializer_def string_serializer_def
        u64_serializer_def u32_serializer_def)
  show "puts (Write Function_serializer x) (Function_bytes x)"
    unfolding Function_bytes_def Function_serializer_def SimpleSerializer.simps
    by (intro puts_seq u64_ser.write_enc u32_ser.write_enc string_ser.write_enc TrueI n
        line_ptr_ser.range_map_contract(1) lines)
qed

interpretation line_linked_ser: serializer Line_ptr_serializer "case_option [] Line_bytes" "pred_option (\<lambda>_. True)"
  unfolding Line_ptr_serializer_def by unfold_locales

interpretation function_linked_ser: serializer Function_ptr_serializer "case_option [] Function_bytes"
    "pred_option Function_fits"
  unfolding Function_ptr_serializer_def by (rule serializer_linked_ptr) unfold_locales

interpretation public_linked_ser: serializer PublicSymbol_ptr_serializer "case_option [] PublicSymbol_bytes"
    "pred_option (\<lambda>p. no_nul (pub_name p))"
  unfolding PublicSymbol_ptr_serializer_def by (rule serializer_linked_ptr) unfold_locales

interpretation wfi_linked_ser: serializer WindowsFrameInfo_ptr_serializer "case_option [] WindowsFrameInfo_bytes"
    "pred_option (\<lambda>w. no_nul (program_string w) \<and> length (program_string w) + 34 < 2 ^ 32)"
  unfolding WindowsFrameInfo_ptr_serializer_def by (rule serializer_linked_ptr) unfold_locales

end
