(* ===== verification/Static_Map.thy ===== *)
theory Static_Map
  imports Map_Serializers
begin

text \<open>
  \<open>StaticMap\<close> and \<open>StaticMapIterator\<close> (processor/static_map.h, static_map-inl.h,
  static_map_iterator.h, static_map_iterator-inl.h): a map read in place from its serialized
  bytes, searched by binary search. The template argument \<open>Key\<close> is a record with its size
  and the load from memory. The outer \<^const>\<open>None\<close> of a result is a read outside the
  buffer or through the null pointer; \<open>int\<close> indices stay below the number of nodes, an
  \<open>int32_t\<close>, and are integers.

  The binary searches are a second provider of the contract \<open>sorted_index\<close>.
\<close>

section \<open>Model\<close>

record 'k KeyType =
  sizeof_key :: nat
  load_key :: "byte list \<Rightarrow> 'k option"

definition u64_key :: "u64 KeyType" where
  "u64_key = \<lparr>sizeof_key = 8, load_key = get_u64\<rparr>"

definition int_key :: "int KeyType" where
  "int_key = \<lparr>sizeof_key = 4, load_key = (\<lambda>p. map_option sint (get_u32 p))\<rparr>"

definition DefaultCompare :: "'k::linorder \<Rightarrow> 'k \<Rightarrow> int" where
  "DefaultCompare k1 k2 = (if k1 < k2 then - 1 else if k1 = k2 then 0 else 1)"

record StaticMap =
  raw_data :: "byte list option"
  num_nodes :: int

definition StaticMap_default :: StaticMap where
  "StaticMap_default = \<lparr>raw_data = None, num_nodes = 0\<rparr>"

definition StaticMap_new :: "byte list \<Rightarrow> StaticMap option" where
  "StaticMap_new raw = map_option (\<lambda>n. \<lparr>raw_data = Some raw, num_nodes = sint n\<rparr>) (get_u32 raw)"

text \<open>The arrays \<open>offsets_\<close> and \<open>keys_\<close> behind the number of nodes.\<close>

definition offsets_at :: "byte list \<Rightarrow> int \<Rightarrow> u32 option" where
  "offsets_at raw i = get_u32 (drop (4 + 4 * nat i) raw)"

definition keys_at :: "'k KeyType \<Rightarrow> byte list \<Rightarrow> int \<Rightarrow> int \<Rightarrow> 'k option" where
  "keys_at K raw num i = load_key K (drop ((1 + nat num) * 4 + sizeof_key K * nat i) raw)"

definition GetKeyAtIndex :: "'k::zero KeyType \<Rightarrow> StaticMap \<Rightarrow> int \<Rightarrow> 'k option" where
  "GetKeyAtIndex K m index =
     (if index < 0 \<or> index \<ge> num_nodes m then Some 0
      else case raw_data m of None \<Rightarrow> None | Some raw \<Rightarrow> keys_at K raw (num_nodes m) index)"

record StaticMapIterator =
  it_index :: int
  it_base :: "byte list option"
  it_num_nodes :: int

definition StaticMapIterator_new :: "byte list option \<Rightarrow> int \<Rightarrow> StaticMapIterator option" where
  "StaticMapIterator_new base' index = do {
     raw \<leftarrow> base';
     n \<leftarrow> get_u32 raw;
     Some \<lparr>it_index = index, it_base = base', it_num_nodes = sint n\<rparr> }"

definition IteratorAtIndex :: "StaticMap \<Rightarrow> int \<Rightarrow> StaticMapIterator option" where
  "IteratorAtIndex m index = StaticMapIterator_new (raw_data m) index"

definition StaticMap_begin :: "StaticMap \<Rightarrow> StaticMapIterator option" where
  "StaticMap_begin m = IteratorAtIndex m 0"

definition StaticMap_end :: "StaticMap \<Rightarrow> StaticMapIterator option" where
  "StaticMap_end m = IteratorAtIndex m (num_nodes m)"

definition IsValid :: "StaticMapIterator \<Rightarrow> bool" where
  "IsValid it \<longleftrightarrow> \<not> (it_base it = None \<or> it_index it < 0 \<or> it_index it > it_num_nodes it)"

definition it_incr :: "StaticMapIterator \<Rightarrow> StaticMapIterator" where
  "it_incr it =
     (if \<not> IsValid it then it
      else if it_index it + 1 > it_num_nodes it then it\<lparr>it_index := it_num_nodes it\<rparr>
      else it\<lparr>it_index := it_index it + 1\<rparr>)"

definition it_decr :: "StaticMapIterator \<Rightarrow> StaticMapIterator" where
  "it_decr it =
     (if \<not> IsValid it then it
      else if it_index it - 1 < 0 then it\<lparr>it_index := 0\<rparr>
      else it\<lparr>it_index := it_index it - 1\<rparr>)"

text \<open>The postfix operators return the iterator as it was and change it in the same way.\<close>

definition it_post_incr :: "StaticMapIterator \<Rightarrow> StaticMapIterator \<times> StaticMapIterator" where
  "it_post_incr it = (if \<not> IsValid it then (it, it) else (it, it_incr it))"

definition it_post_decr :: "StaticMapIterator \<Rightarrow> StaticMapIterator \<times> StaticMapIterator" where
  "it_post_decr it = (if \<not> IsValid it then (it, it) else (it, it_decr it))"

definition it_equal :: "StaticMapIterator \<Rightarrow> StaticMapIterator \<Rightarrow> bool" where
  "it_equal x y \<longleftrightarrow> it_base x = it_base y \<and> it_index x = it_index y"

text \<open>\<open>GetKey\<close> dereferences \<open>GetKeyPtr\<close>, which is null for an invalid iterator.\<close>

definition GetKey :: "'k KeyType \<Rightarrow> StaticMapIterator \<Rightarrow> 'k option" where
  "GetKey K it = (if \<not> IsValid it then None
     else do { raw \<leftarrow> it_base it; keys_at K raw (it_num_nodes it) (it_index it) })"

text \<open>The result is a pointer, null for an invalid iterator.\<close>

definition GetValueRawPtr :: "StaticMapIterator \<Rightarrow> byte list option option" where
  "GetValueRawPtr it = (if \<not> IsValid it then Some None
     else do {
       raw \<leftarrow> it_base it;
       offset \<leftarrow> offsets_at raw (it_index it);
       if unat offset \<le> length raw then Some (Some (drop (unat offset) raw)) else None })"

function find_loop :: "'k::{linorder,zero} KeyType \<Rightarrow> StaticMap \<Rightarrow> 'k \<Rightarrow> int \<Rightarrow> int \<Rightarrow> int option" where
  "find_loop K m key begin' end' =
     (if begin' < end' then
        let middle = begin' + (end' - begin') div 2 in
        (case GetKeyAtIndex K m middle of
           None \<Rightarrow> None
         | Some k \<Rightarrow>
             let compare_result = DefaultCompare key k in
             if compare_result = 0 then Some middle
             else if compare_result < 0 then find_loop K m key begin' middle
             else find_loop K m key (middle + 1) end')
      else Some (num_nodes m))"
  by pat_completeness auto
termination
  by (relation "measure (\<lambda>(_, _, _, b, e). nat (e - b))") auto

function lower_bound_loop :: "'k::{linorder,zero} KeyType \<Rightarrow> StaticMap \<Rightarrow> 'k \<Rightarrow> int \<Rightarrow> int \<Rightarrow> int option" where
  "lower_bound_loop K m key begin' end' =
     (if begin' < end' then
        let middle = begin' + (end' - begin') div 2 in
        (case GetKeyAtIndex K m middle of
           None \<Rightarrow> None
         | Some k \<Rightarrow>
             let comp_result = DefaultCompare key k in
             if comp_result = 0 then Some middle
             else if comp_result < 0 then lower_bound_loop K m key begin' middle
             else lower_bound_loop K m key (middle + 1) end')
      else Some begin')"
  by pat_completeness auto
termination
  by (relation "measure (\<lambda>(_, _, _, b, e). nat (e - b))") auto

function upper_bound_loop :: "'k::{linorder,zero} KeyType \<Rightarrow> StaticMap \<Rightarrow> 'k \<Rightarrow> int \<Rightarrow> int \<Rightarrow> int option" where
  "upper_bound_loop K m key begin' end' =
     (if begin' < end' then
        let middle = begin' + (end' - begin') div 2 in
        (case GetKeyAtIndex K m middle of
           None \<Rightarrow> None
         | Some k \<Rightarrow>
             let compare_result = DefaultCompare key k in
             if compare_result = 0 then Some (middle + 1)
             else if compare_result < 0 then upper_bound_loop K m key begin' middle
             else upper_bound_loop K m key (middle + 1) end')
      else Some begin')"
  by pat_completeness auto
termination
  by (relation "measure (\<lambda>(_, _, _, b, e). nat (e - b))") auto

declare find_loop.simps [simp del] lower_bound_loop.simps [simp del] upper_bound_loop.simps [simp del]

definition StaticMap_find :: "'k::{linorder,zero} KeyType \<Rightarrow> StaticMap \<Rightarrow> 'k \<Rightarrow> StaticMapIterator option" where
  "StaticMap_find K m key = find_loop K m key 0 (num_nodes m) \<bind> IteratorAtIndex m"

definition StaticMap_lower_bound :: "'k::{linorder,zero} KeyType \<Rightarrow> StaticMap \<Rightarrow> 'k \<Rightarrow> StaticMapIterator option" where
  "StaticMap_lower_bound K m key = lower_bound_loop K m key 0 (num_nodes m) \<bind> IteratorAtIndex m"

definition StaticMap_upper_bound :: "'k::{linorder,zero} KeyType \<Rightarrow> StaticMap \<Rightarrow> 'k \<Rightarrow> StaticMapIterator option" where
  "StaticMap_upper_bound K m key = upper_bound_loop K m key 0 (num_nodes m) \<bind> IteratorAtIndex m"

text \<open>
  For the largest \<open>num_nodes_\<close> the sum \<open>num_nodes_ + 1\<close> leaves the range of \<open>int\<close>; with or
  without the wrap-around the size check fails then.
\<close>

fun validate_nodes :: "'k::{linorder,zero} KeyType \<Rightarrow> StaticMap \<Rightarrow> byte list \<Rightarrow> int list \<Rightarrow> bool option" where
  "validate_nodes K m raw [] = Some True"
| "validate_nodes K m raw (i # is) = do {
     offset \<leftarrow> offsets_at raw i;
     previous \<leftarrow> offsets_at raw (i - 1);
     if offset \<le> previous then Some False
     else do {
       key \<leftarrow> GetKeyAtIndex K m i;
       previous_key \<leftarrow> GetKeyAtIndex K m (i - 1);
       if DefaultCompare key previous_key \<le> 0 then Some False
       else validate_nodes K m raw is } }"

definition ValidateInMemoryStructure :: "'k::{linorder,zero} KeyType \<Rightarrow> StaticMap \<Rightarrow> bool option" where
  "ValidateInMemoryStructure K m = (case raw_data m of
     None \<Rightarrow> Some False
   | Some raw \<Rightarrow> do {
       num \<leftarrow> get_u32 raw;
       if sint num < 0 then Some False
       else do {
         first \<leftarrow> (if num_nodes m = 0 then Some True
           else let first_offset = 4 * (num_nodes m + 1) + int (sizeof_key K) * num_nodes m in
             if first_offset > 0xffffffff then Some False
             else do { offset \<leftarrow> offsets_at raw 0; Some (offset = word_of_int first_offset) });
         if \<not> first then Some False else validate_nodes K m raw [1..num_nodes m - 1] } })"

section \<open>Binary search\<close>

definition static_keys :: "'k::{linorder,zero} KeyType \<Rightarrow> StaticMap \<Rightarrow> 'k list" where
  "static_keys K m = map (\<lambda>i. the (GetKeyAtIndex K m i)) [0..num_nodes m - 1]"

definition static_map_ok :: "'k::{linorder,zero} KeyType \<Rightarrow> StaticMap \<Rightarrow> bool" where
  "static_map_ok K m \<longleftrightarrow> 0 \<le> num_nodes m \<and> (\<forall>i\<in>{0..<num_nodes m}. GetKeyAtIndex K m i \<noteq> None) \<and>
     sorted_wrt (<) (static_keys K m)"

lemma length_static_keys [simp]: "length (static_keys K m) = nat (num_nodes m)"
  by (simp add: static_keys_def)

lemma GetKeyAtIndex_static_keys:
  assumes "static_map_ok K m" and "0 \<le> i" and "i < num_nodes m"
  shows "GetKeyAtIndex K m i = Some (static_keys K m ! nat i)"
  using assms by (auto simp: static_map_ok_def static_keys_def)

lemma static_keys_less:
  assumes "static_map_ok K m" and "i < j" and "j < nat (num_nodes m)"
  shows "static_keys K m ! i < static_keys K m ! j"
  using assms by (auto simp: static_map_ok_def sorted_wrt_iff_nth_less)

lemma DefaultCompare_cases [simp]:
  "DefaultCompare a b = 0 \<longleftrightarrow> a = b" "DefaultCompare a b < 0 \<longleftrightarrow> a < b" "DefaultCompare a b \<le> 0 \<longleftrightarrow> a \<le> b"
  by (auto simp: DefaultCompare_def)

text \<open>
  Both bounds narrow an interval that keeps the keys left of it below the key searched for
  and the keys right of it above.
\<close>

definition brackets :: "'k::{linorder,zero} KeyType \<Rightarrow> StaticMap \<Rightarrow> 'k \<Rightarrow> int \<Rightarrow> int \<Rightarrow> bool" where
  "brackets K m key b e \<longleftrightarrow> 0 \<le> b \<and> b \<le> e \<and> e \<le> num_nodes m \<and>
     (\<forall>i<nat b. static_keys K m ! i < key) \<and>
     (\<forall>i. nat e \<le> i \<longrightarrow> i < nat (num_nodes m) \<longrightarrow> key < static_keys K m ! i)"

lemma brackets_step:
  assumes "static_map_ok K m" and "brackets K m key b e" and "b < e"
    and "mid = b + (e - b) div 2" and "k = static_keys K m ! nat mid"
  shows "b \<le> mid" "mid < e" and "key < k \<Longrightarrow> brackets K m key b mid"
    and "k < key \<Longrightarrow> brackets K m key (mid + 1) e"
    and "key = k \<Longrightarrow> (\<forall>i<nat mid. static_keys K m ! i < key) \<and>
          (\<forall>i. nat mid < i \<longrightarrow> i < nat (num_nodes m) \<longrightarrow> key < static_keys K m ! i)"
proof -
  show mid: "b \<le> mid" "mid < e" using assms(3,4) by auto
  have n: "0 \<le> b" "e \<le> num_nodes m" using assms(2) by (auto simp: brackets_def)
  have up: "k < static_keys K m ! i" if "nat mid < i" "i < nat (num_nodes m)" for i
    using static_keys_less [OF assms(1) that] assms(5) by simp
  have down: "static_keys K m ! i < k" if "i < nat mid" for i
    using static_keys_less [OF assms(1) that] assms(5) mid n by simp
  show "brackets K m key b mid" if "key < k"
    using assms(2,5) mid n that up by (auto simp: brackets_def intro: less_trans dest!: le_neq_implies_less)
  show "brackets K m key (mid + 1) e" if "k < key"
  proof -
    have "static_keys K m ! i < key" if "i < nat (mid + 1)" for i
    proof (cases "i = nat mid")
      case False
      with that mid n have "i < nat mid" by linarith
      from down [OF this] \<open>k < key\<close> show ?thesis by order
    qed (use \<open>k < key\<close> assms(5) in simp)
    then show ?thesis using assms(2) mid by (auto simp: brackets_def)
  qed
  show "key = k \<Longrightarrow> (\<forall>i<nat mid. static_keys K m ! i < key) \<and>
      (\<forall>i. nat mid < i \<longrightarrow> i < nat (num_nodes m) \<longrightarrow> key < static_keys K m ! i)"
    using up down by auto
qed

lemma lower_bound_loop_correct:
  assumes "static_map_ok K m" and "brackets K m key b e"
  shows "\<exists>j. lower_bound_loop K m key b e = Some j \<and> 0 \<le> j \<and> j \<le> num_nodes m \<and>
    (\<forall>i<nat j. static_keys K m ! i < key) \<and>
    (\<forall>i. nat j \<le> i \<longrightarrow> i < nat (num_nodes m) \<longrightarrow> key \<le> static_keys K m ! i)"
  using assms
proof (induction K m key b e rule: lower_bound_loop.induct)
  case (1 K m key b e)
  note bounds = \<open>brackets K m key b e\<close> [unfolded brackets_def]
  show ?case
  proof (cases "b < e")
    case True
    define mid k where mk: "mid = b + (e - b) div 2" "k = static_keys K m ! nat mid"
    note st = brackets_step [OF 1(3,4) True mk]
    have get: "GetKeyAtIndex K m mid = Some k"
      using GetKeyAtIndex_static_keys [OF 1(3), of mid] st(1,2) bounds mk(2) by auto
    note IH = 1(1,2) [OF True mk(1) get refl]
    consider "key = k" | "key < k" | "k < key" by (rule linorder_cases) auto
    then show ?thesis
    proof cases
      case 1
      have "key \<le> static_keys K m ! i" if "nat mid \<le> i" "i < nat (num_nodes m)" for i
        using st(5) [OF 1] that 1 mk(2) by (cases "i = nat mid") (auto simp: less_imp_le)
      moreover have "lower_bound_loop K m key b e = Some mid"
        using True get 1 by (subst lower_bound_loop.simps) (simp add: Let_def mk(1) [symmetric])
      ultimately show ?thesis using st(1,2,5) 1 bounds by auto
    next
      case 2
      then have "lower_bound_loop K m key b e = lower_bound_loop K m key b mid"
        using True get by (subst lower_bound_loop.simps) (auto simp: Let_def mk(1) [symmetric])
      with IH(1) 2 st(3) \<open>static_map_ok K m\<close> show ?thesis by auto
    next
      case 3
      then have "lower_bound_loop K m key b e = lower_bound_loop K m key (mid + 1) e"
        using True get by (subst lower_bound_loop.simps) (auto simp: Let_def mk(1) [symmetric] dest: less_asym)
      with IH(2) 3 st(4) \<open>static_map_ok K m\<close> show ?thesis by auto
    qed
  next
    case False
    have "lower_bound_loop K m key b e = Some b" using False by (subst lower_bound_loop.simps) simp
    moreover have "b = e" using False bounds by simp
    ultimately show ?thesis using bounds by (auto simp: less_imp_le)
  qed
qed

lemma upper_bound_loop_correct:
  assumes "static_map_ok K m" and "brackets K m key b e"
  shows "\<exists>j. upper_bound_loop K m key b e = Some j \<and> 0 \<le> j \<and> j \<le> num_nodes m \<and>
    (\<forall>i<nat j. static_keys K m ! i \<le> key) \<and>
    (\<forall>i. nat j \<le> i \<longrightarrow> i < nat (num_nodes m) \<longrightarrow> key < static_keys K m ! i)"
  using assms
proof (induction K m key b e rule: upper_bound_loop.induct)
  case (1 K m key b e)
  note bounds = \<open>brackets K m key b e\<close> [unfolded brackets_def]
  show ?case
  proof (cases "b < e")
    case True
    define mid k where mk: "mid = b + (e - b) div 2" "k = static_keys K m ! nat mid"
    note st = brackets_step [OF 1(3,4) True mk]
    have get: "GetKeyAtIndex K m mid = Some k"
      using GetKeyAtIndex_static_keys [OF 1(3), of mid] st(1,2) bounds mk(2) by auto
    note IH = 1(1,2) [OF True mk(1) get refl]
    consider "key = k" | "key < k" | "k < key" by (rule linorder_cases) auto
    then show ?thesis
    proof cases
      case 1
      have "static_keys K m ! i \<le> key" if "i < nat (mid + 1)" for i
        using st(5) [OF 1] that 1 mk(2) st(1) bounds by (cases "i = nat mid") (auto simp: less_imp_le)
      moreover have "upper_bound_loop K m key b e = Some (mid + 1)"
        using True get 1 by (subst upper_bound_loop.simps) (simp add: Let_def mk(1) [symmetric])
      ultimately show ?thesis using st(1,2,5) 1 bounds by auto
    next
      case 2
      then have "upper_bound_loop K m key b e = upper_bound_loop K m key b mid"
        using True get by (subst upper_bound_loop.simps) (auto simp: Let_def mk(1) [symmetric])
      with IH(1) 2 st(3) \<open>static_map_ok K m\<close> show ?thesis by auto
    next
      case 3
      then have "upper_bound_loop K m key b e = upper_bound_loop K m key (mid + 1) e"
        using True get by (subst upper_bound_loop.simps) (auto simp: Let_def mk(1) [symmetric] dest: less_asym)
      with IH(2) 3 st(4) \<open>static_map_ok K m\<close> show ?thesis by auto
    qed
  next
    case False
    have "upper_bound_loop K m key b e = Some b" using False by (subst upper_bound_loop.simps) simp
    moreover have "b = e" using False bounds by simp
    ultimately show ?thesis using bounds by (auto simp: less_imp_le)
  qed
qed

lemma find_loop_correct:
  assumes "static_map_ok K m" and "brackets K m key b e"
  shows "\<exists>j. find_loop K m key b e = Some j \<and>
    (if key \<in> set (static_keys K m) then 0 \<le> j \<and> j < num_nodes m \<and> static_keys K m ! nat j = key
     else j = num_nodes m)"
  using assms
proof (induction K m key b e rule: find_loop.induct)
  case (1 K m key b e)
  note bounds = \<open>brackets K m key b e\<close> [unfolded brackets_def]
  show ?case
  proof (cases "b < e")
    case True
    define mid k where mk: "mid = b + (e - b) div 2" "k = static_keys K m ! nat mid"
    note st = brackets_step [OF 1(3,4) True mk]
    have mid: "nat mid < length (static_keys K m)" using st(1,2) bounds by auto
    have get: "GetKeyAtIndex K m mid = Some k"
      using GetKeyAtIndex_static_keys [OF 1(3), of mid] st(1,2) bounds mk(2) by auto
    note IH = 1(1,2) [OF True mk(1) get refl]
    consider "key = k" | "key < k" | "k < key" by (rule linorder_cases) auto
    then show ?thesis
    proof cases
      case 1
      then have "find_loop K m key b e = Some mid"
        using True get by (subst find_loop.simps) (simp add: Let_def mk(1) [symmetric])
      with 1 mid mk(2) st(1) bounds show ?thesis using nth_mem [OF mid] by auto
    next
      case 2
      then have "find_loop K m key b e = find_loop K m key b mid"
        using True get by (subst find_loop.simps) (auto simp: Let_def mk(1) [symmetric])
      with IH(1) 2 st(3) \<open>static_map_ok K m\<close> show ?thesis by auto
    next
      case 3
      then have "find_loop K m key b e = find_loop K m key (mid + 1) e"
        using True get by (subst find_loop.simps) (auto simp: Let_def mk(1) [symmetric] dest: less_asym)
      with IH(2) 3 st(4) \<open>static_map_ok K m\<close> show ?thesis by auto
    qed
  next
    case False
    have "find_loop K m key b e = Some (num_nodes m)" using False by (subst find_loop.simps) simp
    moreover have "b = e" using False bounds by simp
    moreover have "key \<notin> set (static_keys K m)"
    proof
      assume "key \<in> set (static_keys K m)"
      then obtain i where "i < nat (num_nodes m)" "static_keys K m ! i = key" by (auto simp: in_set_conv_nth)
      then show False using bounds \<open>b = e\<close> by (metis not_less order_less_irrefl)
    qed
    ultimately show ?thesis by simp
  qed
qed

lemma brackets_start: "static_map_ok K m \<Longrightarrow> brackets K m key 0 (num_nodes m)"
  by (auto simp: brackets_def static_map_ok_def)

definition static_lb :: "'k::{linorder,zero} KeyType \<Rightarrow> StaticMap \<Rightarrow> 'k \<Rightarrow> nat" where
  "static_lb K m key = nat (the (lower_bound_loop K m key 0 (num_nodes m)))"

definition static_ub :: "'k::{linorder,zero} KeyType \<Rightarrow> StaticMap \<Rightarrow> 'k \<Rightarrow> nat" where
  "static_ub K m key = nat (the (upper_bound_loop K m key 0 (num_nodes m)))"

interpretation static_index: sorted_index "static_keys K" "static_lb K" "static_ub K" "static_map_ok K"
  for K :: "'k::{linorder,zero} KeyType"
proof
  fix m :: StaticMap and key :: 'k and i assume ok: "static_map_ok K m"
  obtain l u where l: "lower_bound_loop K m key 0 (num_nodes m) = Some l" "0 \<le> l" "l \<le> num_nodes m"
      "\<forall>i<nat l. static_keys K m ! i < key"
      "\<forall>i. nat l \<le> i \<longrightarrow> i < nat (num_nodes m) \<longrightarrow> key \<le> static_keys K m ! i"
    and u: "upper_bound_loop K m key 0 (num_nodes m) = Some u" "0 \<le> u" "u \<le> num_nodes m"
      "\<forall>i<nat u. static_keys K m ! i \<le> key"
      "\<forall>i. nat u \<le> i \<longrightarrow> i < nat (num_nodes m) \<longrightarrow> key < static_keys K m ! i"
    using lower_bound_loop_correct [OF ok brackets_start [OF ok], of key]
      upper_bound_loop_correct [OF ok brackets_start [OF ok], of key] by auto
  show "sorted_wrt (<) (static_keys K m)" using ok by (simp add: static_map_ok_def)
  show "static_lb K m key \<le> length (static_keys K m)" "static_ub K m key \<le> length (static_keys K m)"
    using l u by (auto simp: static_lb_def static_ub_def)
  show "static_keys K m ! i < key" if "i < static_lb K m key" using l that by (auto simp: static_lb_def)
  show "key \<le> static_keys K m ! i" if "static_lb K m key \<le> i" "i < length (static_keys K m)"
    using l that by (auto simp: static_lb_def)
  show "static_keys K m ! i \<le> key" if "i < static_ub K m key" using u that by (auto simp: static_ub_def)
  show "key < static_keys K m ! i" if "static_ub K m key \<le> i" "i < length (static_keys K m)"
    using u that by (auto simp: static_ub_def)
qed

section \<open>Serialized maps\<close>

text \<open>The contract of a key type: a stored key is loaded again.\<close>

locale key_type =
  fixes K :: "'k::{linorder,zero} KeyType" and ek :: "'k \<Rightarrow> byte list" and key_ok :: "'k \<Rightarrow> bool"
  assumes key_size: "length (ek k) = sizeof_key K"
    and key_load: "key_ok k \<Longrightarrow> load_key K (ek k @ rest) = Some k"
begin

lemma load_nth_key:
  assumes "i < length ks" and "list_all key_ok ks"
  shows "load_key K (drop (sizeof_key K * i) (concat (map ek ks) @ rest)) = Some (ks ! i)"
  using assms
proof (induction ks arbitrary: i)
  case (Cons k ks)
  then show ?case by (cases i) (simp_all add: key_size key_load)
qed simp

end

lemma load_nth_offset:
  "i < length os \<Longrightarrow> get_u32 (drop (4 * i) (concat (map put_u32 os) @ rest)) = Some (os ! i)"
proof (induction os arbitrary: i)
  case (Cons w os)
  then show ?case by (cases i) simp_all
qed simp

lemma node_offsets_nth:
  "i < length ss \<Longrightarrow> node_offsets d ss ! i = word_of_nat (d + sum_list (take i ss))"
proof (induction ss arbitrary: d i)
  case (Cons s ss)
  then show ?case by (cases i) (simp_all add: add.assoc)
qed simp

lemma drop_concat_map:
  "i < length m \<Longrightarrow> drop (sum_list (take i (map (\<lambda>p. length (f p)) m))) (concat (map f m) @ rest) =
     f (m ! i) @ concat (map f (drop (Suc i) m)) @ rest"
proof (induction m arbitrary: i)
  case (Cons p m)
  then show ?case by (cases i) simp_all
qed simp

text \<open>The iterator at a position.\<close>

definition static_it :: "StaticMap \<Rightarrow> nat \<Rightarrow> StaticMapIterator" where
  "static_it sm i = \<lparr>it_index = int i, it_base = raw_data sm, it_num_nodes = num_nodes sm\<rparr>"

text \<open>A static map over the bytes that the serializer wrote, followed by anything.\<close>

definition serialized_map ::
    "('k \<Rightarrow> byte list) \<Rightarrow> ('v \<Rightarrow> byte list) \<Rightarrow> nat \<Rightarrow> ('k \<times> 'v) list \<Rightarrow> byte list \<Rightarrow> StaticMap \<Rightarrow> bool" where
  "serialized_map ek ev n m rest sm \<longleftrightarrow>
     StaticMap_new (map_bytes ek ev n m @ rest) = Some sm \<and> length (map_bytes ek ev n m) < 2 ^ 32 \<and> 0 < n"

context key_type
begin

lemma keys_length: "length (concat (map (\<lambda>p. ek (fst p)) m)) = sizeof_key K * length m"
  using key_size by (intro length_concat_const) auto

lemma few_nodes:
  assumes "length (map_bytes ek ev (sizeof_key K) m) < 2 ^ 32" and "0 < sizeof_key K"
  shows "length m < 2 ^ 31"
proof -
  have "4 * length m \<le> length (map_bytes ek ev (sizeof_key K) m)" by (simp add: map_bytes_def)
  with assms(1) have "4 * length m < 2 ^ 32" by linarith
  then show ?thesis by simp
qed

lemma serialized_fields:
  assumes "serialized_map ek ev (sizeof_key K) m rest sm"
  shows "raw_data sm = Some (map_bytes ek ev (sizeof_key K) m @ rest)" and "num_nodes sm = int (length m)"
    and "get_u32 (map_bytes ek ev (sizeof_key K) m @ rest) = Some (word_of_nat (length m))"
proof -
  note s = assms [unfolded serialized_map_def]
  show g: "get_u32 (map_bytes ek ev (sizeof_key K) m @ rest) = Some (word_of_nat (length m))"
    by (simp add: map_bytes_def)
  have "length m < 2 ^ 31" using few_nodes s by blast
  then have "sint (word_of_nat (length m) :: u32) = int (length m)"
    by (simp add: signed_of_nat signed_take_bit_int_eq_self)
  with s g show "raw_data sm = Some (map_bytes ek ev (sizeof_key K) m @ rest)" "num_nodes sm = int (length m)"
    by (auto simp: StaticMap_new_def)
qed

lemma serialized_key:
  assumes "serialized_map ek ev (sizeof_key K) m rest sm" and "i < length m" and "list_all key_ok (map fst m)"
  shows "keys_at K (map_bytes ek ev (sizeof_key K) m @ rest) (int (length m)) (int i) = Some (fst (m ! i))"
proof -
  let ?os = "node_offsets (4 + 4 * length m + sizeof_key K * length m) (map (\<lambda>p. length (ev (snd p))) m)"
  let ?h = "put_u32 (word_of_nat (length m)) @ concat (map put_u32 ?os)"
  let ?tail = "concat (map (\<lambda>p. ev (snd p)) m) @ rest"
  have h: "length ?h = (1 + length m) * 4" by simp
  have raw: "map_bytes ek ev (sizeof_key K) m @ rest = ?h @ concat (map ek (map fst m)) @ ?tail"
    by (simp add: map_bytes_def o_def)
  have "drop ((1 + length m) * 4 + sizeof_key K * i) (map_bytes ek ev (sizeof_key K) m @ rest) =
      drop (sizeof_key K * i) (concat (map ek (map fst m)) @ ?tail)"
    unfolding raw using h by (simp only: drop_append) simp
  with load_nth_key [of i "map fst m" ?tail] assms(2,3) show ?thesis by (simp add: keys_at_def)
qed

lemma serialized_value:
  assumes "serialized_map ek ev (sizeof_key K) m rest sm" and "i < length m"
  shows "\<exists>offset. offsets_at (map_bytes ek ev (sizeof_key K) m @ rest) (int i) = Some offset \<and>
    unat offset \<le> length (map_bytes ek ev (sizeof_key K) m @ rest) \<and>
    drop (unat offset) (map_bytes ek ev (sizeof_key K) m @ rest) =
      ev (snd (m ! i)) @ concat (map (\<lambda>p. ev (snd p)) (drop (Suc i) m)) @ rest"
proof -
  let ?ss = "map (\<lambda>p. length (ev (snd p))) m" and ?vs = "concat (map (\<lambda>p. ev (snd p)) m)"
  let ?d = "4 + 4 * length m + sizeof_key K * length m"
  let ?os = "node_offsets ?d ?ss" and ?c = "put_u32 (word_of_nat (length m))"
  let ?h = "?c @ concat (map put_u32 ?os) @ concat (map (\<lambda>p. ek (fst p)) m)"
  define off where "off = ?d + sum_list (take i ?ss)"
  have h: "length ?h = ?d" by (simp add: keys_length)
  have raw: "map_bytes ek ev (sizeof_key K) m @ rest = ?h @ ?vs @ rest" by (simp add: map_bytes_def)
  have vs: "length ?vs = sum_list ?ss" by (induction m) auto
  have "sum_list ?ss = sum_list (take i ?ss) + sum_list (drop i ?ss)"
    by (metis append_take_drop_id sum_list_append)
  then have le: "off \<le> length (map_bytes ek ev (sizeof_key K) m)"
    using h vs by (simp add: map_bytes_def keys_length off_def)
  then have u: "unat (word_of_nat off :: u32) = off"
    using assms(1) by (intro unat_word_of_nat_u32) (simp add: serialized_map_def)
  have "offsets_at (map_bytes ek ev (sizeof_key K) m @ rest) (int i) = Some (?os ! i)"
  proof -
    have "drop (4 + 4 * i) (map_bytes ek ev (sizeof_key K) m @ rest) =
        drop (4 * i) (concat (map put_u32 ?os) @ concat (map (\<lambda>p. ek (fst p)) m) @ ?vs @ rest)"
      by (simp add: map_bytes_def)
    with load_nth_offset [of i ?os] assms(2) show ?thesis by (simp add: offsets_at_def)
  qed
  moreover have "?os ! i = word_of_nat off" using assms(2) node_offsets_nth [of i ?ss ?d] unfolding off_def by simp
  moreover have "drop off (?h @ ?vs @ rest) = ev (snd (m ! i)) @ concat (map (\<lambda>p. ev (snd p)) (drop (Suc i) m)) @ rest"
    unfolding off_def drop_append [of _ ?h] h using drop_concat_map [OF assms(2), of "\<lambda>p. ev (snd p)" rest] h by simp
  ultimately show ?thesis using u le raw by auto
qed


text \<open>The searches and iterators over a serialized map, in terms of the map.\<close>

lemma serialized_ok:
  assumes "serialized_map ek ev (sizeof_key K) m rest sm" and "std_map_inv m" and "list_all key_ok (map fst m)"
  shows "static_map_ok K sm" and "static_keys K sm = map fst m"
proof -
  note f = serialized_fields [OF assms(1)]
  have get: "GetKeyAtIndex K sm (int i) = Some (fst (m ! i))" if "i < length m" for i
    using that f serialized_key [OF assms(1) that assms(3)] by (simp add: GetKeyAtIndex_def)
  show keys: "static_keys K sm = map fst m"
    by (rule nth_equalityI) (simp_all add: static_keys_def f(2) get)
  have "GetKeyAtIndex K sm i \<noteq> None" if "0 \<le> i" "i < int (length m)" for i
    using get [of "nat i"] that by simp
  then show "static_map_ok K sm"
    using keys assms(2) f(2) by (simp add: static_map_ok_def std_map_inv_def)
qed

lemma serialized_iterator:
  assumes "serialized_map ek ev (sizeof_key K) m rest sm"
  shows "IteratorAtIndex sm (int i) = Some (static_it sm i)"
proof -
  have "length m < 2 ^ 31" using few_nodes assms by (auto simp: serialized_map_def)
  then have "sint (word_of_nat (length m) :: u32) = int (length m)"
    by (simp add: signed_of_nat signed_take_bit_int_eq_self)
  then show ?thesis
    using serialized_fields [OF assms]
    by (simp add: IteratorAtIndex_def StaticMapIterator_new_def static_it_def)
qed

lemma serialized_searches:
  assumes "serialized_map ek ev (sizeof_key K) m rest sm" and "std_map_inv m" and "list_all key_ok (map fst m)"
  shows "StaticMap_lower_bound K sm k = Some (static_it sm (lower_bound m k))"
    and "StaticMap_upper_bound K sm k = Some (static_it sm (upper_bound m k))"
    and "StaticMap_begin sm = Some (static_it sm 0)" and "StaticMap_end sm = Some (static_it sm (length m))"
    and "StaticMap_find K sm k = Some (static_it sm (if std_find m k = None then length m else lower_bound m k))"
proof -
  note ok = serialized_ok [OF assms] and it = serialized_iterator [OF assms(1)] and inv = assms(2)
  obtain l u j where l: "lower_bound_loop K sm k 0 (num_nodes sm) = Some l" "0 \<le> l"
    and u: "upper_bound_loop K sm k 0 (num_nodes sm) = Some u" "0 \<le> u"
    and j: "find_loop K sm k 0 (num_nodes sm) = Some j"
      "if k \<in> set (static_keys K sm) then 0 \<le> j \<and> j < num_nodes sm \<and> static_keys K sm ! nat j = k
       else j = num_nodes sm"
    using lower_bound_loop_correct [OF ok(1) brackets_start [OF ok(1)], of k]
      upper_bound_loop_correct [OF ok(1) brackets_start [OF ok(1)], of k]
      find_loop_correct [OF ok(1) brackets_start [OF ok(1)], of k] by auto
  have lb: "static_lb K sm k = lower_bound m k"
    using std_index.lb_bound [OF inv, of k] std_index.lb_below [OF inv, of _ k] std_index.lb_above [OF inv, of k]
    by (intro static_index.lb_unique ok(1)) (auto simp: ok(2))
  have ub: "static_ub K sm k = upper_bound m k"
    using std_index.ub_bound [OF inv, of k] std_index.ub_below [OF inv, of _ k] std_index.ub_above [OF inv, of k]
    by (intro static_index.ub_unique ok(1)) (auto simp: ok(2))
  have "l = int (lower_bound m k)" using l lb by (auto simp: static_lb_def)
  with l(1) it [of "lower_bound m k"] show "StaticMap_lower_bound K sm k = Some (static_it sm (lower_bound m k))"
    by (simp add: StaticMap_lower_bound_def)
  have "u = int (upper_bound m k)" using u ub by (auto simp: static_ub_def)
  with u(1) it [of "upper_bound m k"] show "StaticMap_upper_bound K sm k = Some (static_it sm (upper_bound m k))"
    by (simp add: StaticMap_upper_bound_def)
  show "StaticMap_begin sm = Some (static_it sm 0)" "StaticMap_end sm = Some (static_it sm (length m))"
    using it [of 0] it [of "length m"] serialized_fields(2) [OF assms(1)]
    by (simp_all add: StaticMap_begin_def StaticMap_end_def)
  have "j = int (if std_find m k = None then length m else lower_bound m k)"
  proof (cases "std_find m k")
    case None
    then show ?thesis
      using j(2) ok(2) serialized_fields(2) [OF assms(1)] by (simp add: std_find_map_of map_of_eq_None_iff)
  next
    case (Some v)
    then have "k \<in> set (map fst m)" by (auto simp: std_find_in_set [OF inv] image_iff intro: rev_bexI)
    with j(2) ok(2) serialized_fields(2) [OF assms(1)]
    have nj: "0 \<le> j" "nat j < length m" "map fst m ! nat j = k" by auto
    have srt: "sorted_wrt (<) (map fst m)" using inv by (simp add: std_map_inv_def)
    have "lower_bound m k = nat j"
    proof (rule std_index.lb_unique [OF inv])
      show "map fst m ! i < k" if "i < nat j" for i
        using srt nj that sorted_wrt_nth_less [OF srt that] by simp
      show "k \<le> map fst m ! i" if "nat j \<le> i" "i < length (map fst m)" for i
        using nj that sorted_wrt_nth_less [OF srt, of "nat j" i] by (cases "i = nat j") auto
    qed (use nj in simp)
    with Some nj(1) show ?thesis by simp
  qed
  with j(1) it show "StaticMap_find K sm k = Some (static_it sm (if std_find m k = None then length m else lower_bound m k))"
    by (simp add: StaticMap_find_def)
qed

lemma serialized_it_at:
  assumes "serialized_map ek ev (sizeof_key K) m rest sm" and "i < length m" and "list_all key_ok (map fst m)"
  shows "GetKey K (static_it sm i) = Some (fst (m ! i))"
    and "GetValueRawPtr (static_it sm i) =
      Some (Some (ev (snd (m ! i)) @ concat (map (\<lambda>p. ev (snd p)) (drop (Suc i) m)) @ rest))"
    and "it_decr (static_it sm (Suc i)) = static_it sm i"
proof -
  note f = serialized_fields [OF assms(1)]
  have valid: "IsValid (static_it sm i)" "IsValid (static_it sm (Suc i))"
    using f assms(2) by (simp_all add: IsValid_def static_it_def)
  show "GetKey K (static_it sm i) = Some (fst (m ! i))"
    using valid f serialized_key [OF assms] by (simp add: GetKey_def) (simp add: static_it_def)
  show "GetValueRawPtr (static_it sm i) =
      Some (Some (ev (snd (m ! i)) @ concat (map (\<lambda>p. ev (snd p)) (drop (Suc i) m)) @ rest))"
    using valid f serialized_value [OF assms(1,2)] by (auto simp: GetValueRawPtr_def static_it_def)
  show "it_decr (static_it sm (Suc i)) = static_it sm i"
    using valid by (simp add: it_decr_def) (simp add: static_it_def)
qed

end

interpretation u64_key: key_type u64_key put_u64 "\<lambda>_. True"
  by unfold_locales (auto simp: u64_key_def)

definition put_int :: "int \<Rightarrow> byte list" where
  "put_int i = put_u32 (word_of_int i)"

interpretation int_key: key_type int_key put_int "\<lambda>i. - (2 ^ 31) \<le> i \<and> i < 2 ^ 31"
proof
  fix i :: int and rest assume "- (2 ^ 31) \<le> i \<and> i < 2 ^ 31"
  then have "sint (word_of_int i :: u32) = i"
    by (simp add: signed_of_int signed_take_bit_int_eq_self)
  then show "load_key int_key (put_int i @ rest) = Some i" by (simp add: int_key_def put_int_def)
qed (simp add: int_key_def put_int_def)

section \<open>Validation\<close>

text \<open>A structure that passes the check has readable, strictly increasing keys.\<close>

lemma validate_nodes_keys:
  assumes "validate_nodes K m raw [a..b] = Some True" and "a \<le> i" and "i \<le> b"
  shows "\<exists>k k'. GetKeyAtIndex K m i = Some k \<and> GetKeyAtIndex K m (i - 1) = Some k' \<and> k' < k"
  using assms
proof (induction "[a..b]" arbitrary: a)
  case Nil
  then show ?case by (simp add: upto_empty)
next
  case (Cons c cs)
  then have c: "c = a" "cs = [a + 1..b]" by (auto simp: upto_rec1)
  with Cons.hyps(2) Cons.prems have v: "validate_nodes K m raw (a # [a + 1..b]) = Some True" by simp
  then have rest: "validate_nodes K m raw [a + 1..b] = Some True"
    and here: "\<exists>k k'. GetKeyAtIndex K m a = Some k \<and> GetKeyAtIndex K m (a - 1) = Some k' \<and> k' < k"
    by (auto split: bind_splits if_splits)
  show ?case
  proof (cases "i = a")
    case False
    then show ?thesis using Cons.hyps(1) [OF c(2) rest] Cons.prems by simp
  qed (use here in simp)
qed

lemma validated_map_ok:
  assumes "ValidateInMemoryStructure K m = Some True" and "num_nodes m = 1 \<longrightarrow> GetKeyAtIndex K m 0 \<noteq> None"
    and "raw_data m = Some raw" and "get_u32 raw = Some n" and "num_nodes m = sint n"
  shows "static_map_ok K m"
proof -
  have pos: "0 \<le> num_nodes m" and v: "validate_nodes K m raw [1..num_nodes m - 1] = Some True"
    using assms by (auto simp: ValidateInMemoryStructure_def Let_def split: bind_splits if_splits)
  note st = validate_nodes_keys [OF v]
  have get: "GetKeyAtIndex K m i \<noteq> None" if "0 \<le> i" "i < num_nodes m" for i
  proof (cases "i = 0")
    case True
    show ?thesis
    proof (cases "num_nodes m = 1")
      case False
      with that True have "1 \<le> num_nodes m - 1" by simp
      with st [of 1] True show ?thesis by auto
    qed (use assms(2) True in simp)
  qed (use st [of i] that in auto)
  have "static_keys K m ! i < static_keys K m ! Suc i" if "Suc i < length (static_keys K m)" for i
  proof -
    have "int (Suc i) \<le> num_nodes m - 1" using that by simp
    with st [of "int (Suc i)"] show ?thesis using that by (auto simp: static_keys_def)
  qed
  then have "sorted_wrt (<) (static_keys K m)" by (simp add: sorted_wrt_iff_nth_Suc_transp)
  with pos get show ?thesis by (simp add: static_map_ok_def)
qed

lemma length_filter_prefix:
  assumes "j \<le> length xs" and "\<forall>i<j. P (xs ! i)" and "\<forall>i. j \<le> i \<longrightarrow> i < length xs \<longrightarrow> \<not> P (xs ! i)"
  shows "length (filter P xs) = j"
proof -
  have "filter P (take j xs) = take j xs" using assms(1,2) by (auto simp: filter_id_conv in_set_conv_nth)
  moreover have "filter P (drop j xs) = []" using assms(3) by (auto simp: filter_empty_conv in_set_conv_nth)
  ultimately have "filter P (take j xs @ drop j xs) = take j xs" by (simp only: filter_append append_Nil2)
  then show ?thesis using assms(1) by simp
qed

lemma StaticMap_new_fields:
  assumes "StaticMap_new raw = Some m"
  shows "raw_data m = Some raw" and "\<exists>n. get_u32 raw = Some n \<and> num_nodes m = sint n"
    and "IteratorAtIndex m i = Some \<lparr>it_index = i, it_base = Some raw, it_num_nodes = num_nodes m\<rparr>"
  using assms by (auto simp: StaticMap_new_def IteratorAtIndex_def StaticMapIterator_new_def)

lemma searches_unreadable:
  assumes "num_nodes m = 1" and "GetKeyAtIndex K m 0 = None"
  shows "StaticMap_lower_bound K m key = None" and "StaticMap_upper_bound K m key = None"
    and "StaticMap_find K m key = None"
  using assms
  by (simp_all add: StaticMap_lower_bound_def StaticMap_upper_bound_def StaticMap_find_def
    lower_bound_loop.simps [of K m key 0 1] upper_bound_loop.simps [of K m key 0 1] find_loop.simps [of K m key 0 1])

text \<open>
  C24: what \<open>ValidateInMemoryStructure\<close> guarantees for the searches. A static map of no or of at
  least two nodes that passes the check is searched correctly: \<open>lower_bound\<close> returns the first
  position whose key is not below the one searched for, \<open>upper_bound\<close> the first whose key is
  above it, \<open>find\<close> a position with the key, or \<open>end()\<close> when there is none; no search reads
  outside of the keys. A map of one node passes without a look at its key: it is searched
  correctly when that key lies inside of the buffer, and otherwise every search reads outside.
\<close>

theorem validated_searches_correct:
  assumes "ValidateInMemoryStructure K m = Some True" and "StaticMap_new raw = Some m"
  shows "if num_nodes m = 1 \<and> GetKeyAtIndex K m 0 = None then
      StaticMap_lower_bound K m key = None \<and> StaticMap_upper_bound K m key = None \<and> StaticMap_find K m key = None
    else (\<exists>l u f. StaticMap_lower_bound K m key = Some l \<and> StaticMap_upper_bound K m key = Some u \<and>
      StaticMap_find K m key = Some f \<and>
      it_index l = int (length (filter (\<lambda>k. k < key) (static_keys K m))) \<and>
      it_index u = int (length (filter (\<lambda>k. k \<le> key) (static_keys K m))) \<and>
      (if key \<in> set (static_keys K m) then 0 \<le> it_index f \<and> static_keys K m ! nat (it_index f) = key
       else it_index f = num_nodes m))"
proof (cases "num_nodes m = 1 \<and> GetKeyAtIndex K m 0 = None")
  case True
  with searches_unreadable [of m K key] show ?thesis by simp
next
  case False
  then have one: "num_nodes m = 1 \<longrightarrow> GetKeyAtIndex K m 0 \<noteq> None" by simp
  obtain n where raw: "raw_data m = Some raw" "get_u32 raw = Some n" "num_nodes m = sint n"
    using StaticMap_new_fields [OF assms(2)] by blast
  note it = StaticMap_new_fields(3) [OF assms(2)]
  have ok: "static_map_ok K m" by (rule validated_map_ok [OF assms(1) one raw])
  note br = brackets_start [OF ok, of key]
  obtain l u f where l: "lower_bound_loop K m key 0 (num_nodes m) = Some l" "0 \<le> l" "l \<le> num_nodes m"
      "\<forall>i<nat l. static_keys K m ! i < key"
      "\<forall>i. nat l \<le> i \<longrightarrow> i < nat (num_nodes m) \<longrightarrow> key \<le> static_keys K m ! i"
    and u: "upper_bound_loop K m key 0 (num_nodes m) = Some u" "0 \<le> u" "u \<le> num_nodes m"
      "\<forall>i<nat u. static_keys K m ! i \<le> key"
      "\<forall>i. nat u \<le> i \<longrightarrow> i < nat (num_nodes m) \<longrightarrow> key < static_keys K m ! i"
    and f: "find_loop K m key 0 (num_nodes m) = Some f"
      "if key \<in> set (static_keys K m) then 0 \<le> f \<and> f < num_nodes m \<and> static_keys K m ! nat f = key
       else f = num_nodes m"
    using lower_bound_loop_correct [OF ok br] upper_bound_loop_correct [OF ok br]
      find_loop_correct [OF ok br] by auto
  have "length (filter (\<lambda>k. k < key) (static_keys K m)) = nat l"
    using l by (intro length_filter_prefix) (auto simp: not_less)
  moreover have "length (filter (\<lambda>k. k \<le> key) (static_keys K m)) = nat u"
    using u by (intro length_filter_prefix) (auto simp: not_le)
  ultimately have "\<exists>l u f. StaticMap_lower_bound K m key = Some l \<and> StaticMap_upper_bound K m key = Some u \<and>
      StaticMap_find K m key = Some f \<and>
      it_index l = int (length (filter (\<lambda>k. k < key) (static_keys K m))) \<and>
      it_index u = int (length (filter (\<lambda>k. k \<le> key) (static_keys K m))) \<and>
      (if key \<in> set (static_keys K m) then 0 \<le> it_index f \<and> static_keys K m ! nat (it_index f) = key
       else it_index f = num_nodes m)"
    using l(1,2) u(1,2) f
    by (auto simp: StaticMap_lower_bound_def StaticMap_upper_bound_def StaticMap_find_def it)
  with False show ?thesis by (simp only: if_False)
qed

lemma static_example_valid:
  "ValidateInMemoryStructure u64_key
     \<lparr>raw_data = Some (map_bytes put_u64 put_u32 8 [(5, 7), (9, 8)]), num_nodes = 2\<rparr> = Some True"
  by code_simp

text \<open>A buffer of eight bytes that says that it holds one node, with its key behind the end.\<close>

lemma static_example_short:
  "ValidateInMemoryStructure u64_key \<lparr>raw_data = Some (put_u32 1 @ put_u32 16), num_nodes = 1\<rparr> = Some True"
  "StaticMap_new (put_u32 1 @ put_u32 16) = Some \<lparr>raw_data = Some (put_u32 1 @ put_u32 16), num_nodes = 1\<rparr>"
  "GetKeyAtIndex u64_key \<lparr>raw_data = Some (put_u32 1 @ put_u32 16), num_nodes = 1\<rparr> 0 = None"
  by code_simp+

theorem validated_searches_correct_witness:
  "(\<exists>l u f. StaticMap_lower_bound u64_key
      \<lparr>raw_data = Some (map_bytes put_u64 put_u32 8 [(5, 7), (9, 8)]), num_nodes = 2\<rparr> 6 = Some l \<and>
    StaticMap_upper_bound u64_key
      \<lparr>raw_data = Some (map_bytes put_u64 put_u32 8 [(5, 7), (9, 8)]), num_nodes = 2\<rparr> 6 = Some u \<and>
    StaticMap_find u64_key
      \<lparr>raw_data = Some (map_bytes put_u64 put_u32 8 [(5, 7), (9, 8)]), num_nodes = 2\<rparr> 6 = Some f \<and> it_index f = 2) \<and>
   StaticMap_find u64_key \<lparr>raw_data = Some (put_u32 1 @ put_u32 16), num_nodes = 1\<rparr> 6 = None"
proof
  let ?raw = "map_bytes put_u64 put_u32 8 [(5, 7), (9, 8)]"
  let ?m = "\<lparr>raw_data = Some ?raw, num_nodes = 2\<rparr>"
  have new: "StaticMap_new ?raw = Some ?m" by code_simp
  have keys: "static_keys u64_key ?m = [5, 9]" by code_simp
  show "\<exists>l u f. StaticMap_lower_bound u64_key ?m 6 = Some l \<and> StaticMap_upper_bound u64_key ?m 6 = Some u \<and>
      StaticMap_find u64_key ?m 6 = Some f \<and> it_index f = 2"
    using validated_searches_correct [OF static_example_valid new, of 6] keys by auto
  show "StaticMap_find u64_key \<lparr>raw_data = Some (put_u32 1 @ put_u32 16), num_nodes = 1\<rparr> 6 = None"
    using validated_searches_correct [OF static_example_short(1,2), of 6] static_example_short(3) by simp
qed

end
