(* ===== verification/Static_Range_Maps.thy ===== *)
theory Static_Range_Maps
  imports Static_Map
begin

text \<open>
  \<open>StaticAddressMap\<close>, \<open>StaticRangeMap\<close> and \<open>StaticContainedRangeMap\<close>
  (processor/static_address_map-inl.h, static_range_map.h, static_range_map-inl.h,
  static_contained_range_map.h, static_contained_range_map-inl.h): the maps of the fast
  resolver, which answer from the serialized bytes. The outer option of a result is
  \<^const>\<open>None\<close> for an access outside the buffer, the inner one is the returned bool with the
  output parameters; a returned entry is the pointer into the bytes.

  The theorems say that each of them, over the bytes its serializer wrote, answers what the
  map it was written from answers.
\<close>

section \<open>Model\<close>

definition StaticAddressMap_Retrieve :: "StaticMap \<Rightarrow> u64 \<Rightarrow> (byte list option \<times> u64) option option" where
  "StaticAddressMap_Retrieve m address = do {
     iterator \<leftarrow> StaticMap_upper_bound u64_key m address;
     begin' \<leftarrow> StaticMap_begin m;
     if it_equal iterator begin' then Some None
     else do {
       let iterator = it_decr iterator;
       entry' \<leftarrow> GetValueRawPtr iterator;
       entry_address \<leftarrow> GetKey u64_key iterator;
       Some (Some (entry', entry_address)) } }"

text \<open>\<open>Range::base\<close> and \<open>Range::entryptr\<close>; \<open>Range\<close> is an empty class, of size one.\<close>

definition range_base :: "byte list option \<Rightarrow> u64 option" where
  "range_base r = r \<bind> get_u64"

definition range_entryptr :: "byte list option \<Rightarrow> byte list option" where
  "range_entryptr r = map_option (drop 8) r"

definition StaticRangeMap_GetCount :: "StaticMap \<Rightarrow> int" where
  "StaticRangeMap_GetCount m = num_nodes m"

definition StaticRangeMap_RetrieveRange ::
    "StaticMap \<Rightarrow> u64 \<Rightarrow> (byte list option \<times> u64 \<times> u64) option option" where
  "StaticRangeMap_RetrieveRange m address = do {
     iterator \<leftarrow> StaticMap_lower_bound u64_key m address;
     end' \<leftarrow> StaticMap_end m;
     if it_equal iterator end' then Some None
     else do {
       range' \<leftarrow> GetValueRawPtr iterator;
       base' \<leftarrow> range_base range';
       if address < base' then Some None
       else do {
         high \<leftarrow> GetKey u64_key iterator;
         Some (Some (range_entryptr range', base', high - base' + 1)) } } }"

definition StaticRangeMap_RetrieveNearestRange ::
    "StaticMap \<Rightarrow> u64 \<Rightarrow> (byte list option \<times> u64 \<times> u64) option option" where
  "StaticRangeMap_RetrieveNearestRange m address = do {
     found \<leftarrow> StaticRangeMap_RetrieveRange m address;
     if found \<noteq> None then Some found
     else do {
       iterator \<leftarrow> StaticMap_upper_bound u64_key m address;
       begin' \<leftarrow> StaticMap_begin m;
       if it_equal iterator begin' then Some None
       else do {
         let iterator = it_decr iterator;
         range' \<leftarrow> GetValueRawPtr iterator;
         base' \<leftarrow> range_base range';
         high \<leftarrow> GetKey u64_key iterator;
         Some (Some (range_entryptr range', base', high - base' + 1)) } } }"

definition StaticRangeMap_RetrieveRangeAtIndex ::
    "StaticMap \<Rightarrow> int \<Rightarrow> (byte list option \<times> u64 \<times> u64) option option" where
  "StaticRangeMap_RetrieveRangeAtIndex m index =
     (if index \<ge> StaticRangeMap_GetCount m then Some None
      else do {
        iterator \<leftarrow> IteratorAtIndex m index;
        range' \<leftarrow> GetValueRawPtr iterator;
        base' \<leftarrow> range_base range';
        high \<leftarrow> GetKey u64_key iterator;
        Some (Some (range_entryptr range', base', high - base' + 1)) })"

record StaticContainedRangeMap =
  sc_base :: u64
  sc_entry_size :: u32
  sc_entry_ptr :: "byte list option"
  sc_map :: StaticMap

definition StaticContainedRangeMap_new :: "byte list \<Rightarrow> StaticContainedRangeMap option" where
  "StaticContainedRangeMap_new p = do {
     base' \<leftarrow> get_u64 p;
     entry_size \<leftarrow> get_u32 (drop 8 p);
     map' \<leftarrow> StaticMap_new (drop (8 + 4 + unat entry_size) p);
     Some \<lparr>sc_base = base', sc_entry_size = entry_size,
       sc_entry_ptr = (if entry_size = 0 then None else Some (drop (8 + 4) p)), sc_map = map'\<rparr> }"

definition sc_length :: "StaticContainedRangeMap \<Rightarrow> nat" where
  "sc_length c = (case raw_data (sc_map c) of None \<Rightarrow> 0 | Some raw \<Rightarrow> length raw)"

text \<open>Every level of the recursion starts at least twelve bytes further into the buffer.\<close>

lemma StaticContainedRangeMap_new_length:
  assumes "StaticContainedRangeMap_new p = Some c" shows "sc_length c < length p"
proof -
  obtain b es m where "get_u64 p = Some b" "get_u32 (drop 8 p) = Some es"
      "StaticMap_new (drop (8 + 4 + unat es) p) = Some m"
      "Some \<lparr>sc_base = b, sc_entry_size = es,
         sc_entry_ptr = (if es = 0 then None else Some (drop (8 + 4) p)), sc_map = m\<rparr> = Some c"
    using assms unfolding StaticContainedRangeMap_new_def bind_eq_Some_conv by blast
  then have es: "get_u64 p \<noteq> None" "StaticMap_new (drop (8 + 4 + unat es) p) = Some (sc_map c)" by auto
  then have "raw_data (sc_map c) = Some (drop (8 + 4 + unat es) p)"
    using StaticMap_new_fields(1) by blast
  moreover have "8 \<le> length p" using es(1) by (simp add: get_u64_def split: if_splits)
  ultimately show ?thesis by (simp add: sc_length_def)
qed

lemma lower_bound_value_length:
  assumes "StaticMap_lower_bound K m a = Some it" and "GetValueRawPtr it = Some (Some p)"
  shows "\<exists>raw. raw_data m = Some raw \<and> length p \<le> length raw"
proof -
  have "it_base it = raw_data m"
    using assms(1) by (auto simp: StaticMap_lower_bound_def IteratorAtIndex_def StaticMapIterator_new_def
        split: bind_splits)
  then show ?thesis using assms(2) by (auto simp: GetValueRawPtr_def split: if_splits bind_splits)
qed

function StaticContainedRangeMap_RetrieveRange ::
    "StaticContainedRangeMap \<Rightarrow> u64 \<Rightarrow> byte list option option option" where
  "StaticContainedRangeMap_RetrieveRange c address = do {
     iterator \<leftarrow> StaticMap_lower_bound u64_key (sc_map c) address;
     end' \<leftarrow> StaticMap_end (sc_map c);
     if it_equal iterator end' then Some None
     else do {
       memory_child \<leftarrow> GetValueRawPtr iterator;
       (case memory_child of None \<Rightarrow> None
        | Some p \<Rightarrow> do {
            child_map \<leftarrow> StaticContainedRangeMap_new p;
            if address < sc_base child_map then Some None
            else do {
              found \<leftarrow> StaticContainedRangeMap_RetrieveRange child_map address;
              (case found of
                 Some entry' \<Rightarrow> Some (Some entry')
               | None \<Rightarrow> Some (Some (sc_entry_ptr child_map))) } }) } }"
  by pat_completeness auto
termination
proof (relation "measure (\<lambda>(c, _). sc_length c)", simp, clarify)
  fix c child :: StaticContainedRangeMap and address it p
  assume "StaticMap_lower_bound u64_key (sc_map c) address = Some it" "GetValueRawPtr it = Some (Some p)"
    and "StaticContainedRangeMap_new p = Some child"
  from lower_bound_value_length [OF this(1,2)] StaticContainedRangeMap_new_length [OF this(3)]
  show "((child, address), (c, address)) \<in> measure (\<lambda>(c, _). sc_length c)"
    by (auto simp: sc_length_def)
qed

declare StaticContainedRangeMap_RetrieveRange.simps [simp del]

section \<open>The static maps answer what the serialized maps answer\<close>

lemma it_equal_static_it [simp]: "it_equal (static_it sm i) (static_it sm j) \<longleftrightarrow> i = j"
  by (auto simp: it_equal_def static_it_def)

lemma sizeof_u64_key [simp]: "sizeof_key u64_key = 8"
  by (simp add: u64_key_def)

abbreviation serialized_u64 where
  "serialized_u64 ev m rest sm \<equiv> serialized_map put_u64 ev 8 m rest sm"

lemma list_all_True: "list_all (\<lambda>_. True) xs"
  by (simp add: list_all_iff)

lemmas u64_searches = u64_key.serialized_searches [OF _ _ list_all_True, simplified]
lemmas u64_it_at = u64_key.serialized_it_at [OF _ _ list_all_True, simplified]
lemmas u64_fields = u64_key.serialized_fields [simplified]
lemmas u64_iterator = u64_key.serialized_iterator [simplified]

lemma serialized_u64I:
  assumes "length (map_bytes put_u64 ev 8 m) < 2 ^ 32" and "StaticMap_new (map_bytes put_u64 ev 8 m @ rest) = Some sm"
  shows "serialized_u64 ev m rest sm"
  using assms by (simp add: serialized_map_def)

lemma StaticMap_new_serialized: "\<exists>sm. StaticMap_new (map_bytes ek ev n m @ rest) = Some sm"
  by (simp add: StaticMap_new_def map_bytes_def)

text \<open>A pointer to the bytes of an entry.\<close>

definition points_to :: "('e \<Rightarrow> byte list) \<Rightarrow> 'e \<Rightarrow> byte list option \<Rightarrow> bool" where
  "points_to enc e p \<longleftrightarrow> (\<exists>rest. p = Some (enc e @ rest))"

lemma static_address_map_retrieve:
  assumes "serialized_u64 enc (am_map m) rest sm" and "address_map_inv m"
  shows "\<exists>res. StaticAddressMap_Retrieve sm a = Some res \<and>
    rel_option (\<lambda>(e, k) (p, k'). points_to enc e p \<and> k = k') (AddressMap_Retrieve m a) res"
proof -
  have inv: "std_map_inv (am_map m)" using assms(2) by (simp add: address_map_inv_def)
  note s = u64_searches [OF assms(1) inv]
  show ?thesis
  proof (cases "upper_bound (am_map m) a")
    case 0
    then show ?thesis by (simp add: StaticAddressMap_Retrieve_def s AddressMap_Retrieve_def)
  next
    case (Suc i)
    then have i: "i < length (am_map m)" using std_index.ub_bound [OF inv, of a] by simp
    note at = u64_it_at [OF assms(1) i]
    obtain k e where ke: "am_map m ! i = (k, e)" by fastforce
    show ?thesis
      using Suc at ke
      by (auto simp: StaticAddressMap_Retrieve_def s AddressMap_Retrieve_def points_to_def Let_def)
  qed
qed

text \<open>The outputs read at a node of a serialized range map.\<close>

lemma range_node:
  assumes "serialized_u64 (range_bytes enc) (rm_map m) rest sm" and "i < length (rm_map m)"
  shows "\<exists>p t. GetValueRawPtr (static_it sm i) = Some p \<and>
    range_base p = Some (base (snd (rm_map m ! i))) \<and>
    range_entryptr p = Some (enc (entry (snd (rm_map m ! i))) @ t)"
  using u64_it_at(2) [OF assms]
  by (auto simp: range_base_def range_entryptr_def range_bytes_def)

definition same_range :: "('e \<Rightarrow> byte list) \<Rightarrow> 'e \<times> u64 \<times> u64 \<times> u64 \<Rightarrow> byte list option \<times> u64 \<times> u64 \<Rightarrow> bool" where
  "same_range enc x y = (case x of (e, b, _, s) \<Rightarrow> case y of (p, b', s') \<Rightarrow> points_to enc e p \<and> b = b' \<and> s = s')"

lemma static_range_map_retrieve:
  assumes "serialized_u64 (range_bytes enc) (rm_map m) rest sm" and "range_map_inv m"
  shows "\<exists>res. StaticRangeMap_RetrieveRange sm a = Some res \<and>
    rel_option (same_range enc) (RangeMap_RetrieveRange m a) res"
proof -
  have inv: "std_map_inv (rm_map m)" using assms(2) ranges_inv_std by (simp add: range_map_inv_def)
  note s = u64_searches [OF assms(1) inv]
  show ?thesis
  proof (cases "lower_bound (rm_map m) a = length (rm_map m)")
    case True
    then show ?thesis by (simp add: StaticRangeMap_RetrieveRange_def s RangeMap_RetrieveRange_def)
  next
    case False
    then have i: "lower_bound (rm_map m) a < length (rm_map m)" by (rule lower_bound_less)
    obtain p t where p: "GetValueRawPtr (static_it sm (lower_bound (rm_map m) a)) = Some p"
        "range_base p = Some (base (snd (rm_map m ! lower_bound (rm_map m) a)))"
        "range_entryptr p = Some (enc (entry (snd (rm_map m ! lower_bound (rm_map m) a))) @ t)"
      using range_node [OF assms(1) i] by blast
    show ?thesis
      using False p u64_it_at(1) [OF assms(1) i]
      by (auto simp: StaticRangeMap_RetrieveRange_def s RangeMap_RetrieveRange_def Let_def range_outputs_def
          same_range_def points_to_def split: prod.splits)
  qed
qed

lemma static_range_map_nearest:
  assumes "serialized_u64 (range_bytes enc) (rm_map m) rest sm" and "range_map_inv m"
  shows "\<exists>res. StaticRangeMap_RetrieveNearestRange sm a = Some res \<and>
    rel_option (same_range enc) (RangeMap_RetrieveNearestRange m a) res"
proof -
  have inv: "std_map_inv (rm_map m)" using assms(2) ranges_inv_std by (simp add: range_map_inv_def)
  note s = u64_searches [OF assms(1) inv]
  obtain res where res: "StaticRangeMap_RetrieveRange sm a = Some res"
      "rel_option (same_range enc) (RangeMap_RetrieveRange m a) res"
    using static_range_map_retrieve [OF assms, of a] by blast
  show ?thesis
  proof (cases "RangeMap_RetrieveRange m a")
    case (Some out)
    with res show ?thesis
      by (cases res) (auto simp: StaticRangeMap_RetrieveNearestRange_def RangeMap_RetrieveNearestRange_def)
  next
    case None
    with res have r: "StaticRangeMap_RetrieveRange sm a = Some None" by (cases res) auto
    show ?thesis
    proof (cases "upper_bound (rm_map m) a")
      case 0
      with None r show ?thesis
        by (simp add: StaticRangeMap_RetrieveNearestRange_def RangeMap_RetrieveNearestRange_def s)
    next
      case (Suc i)
      then have i: "i < length (rm_map m)" using std_index.ub_bound [OF inv, of a] by simp
      obtain p t where "GetValueRawPtr (static_it sm i) = Some p" "range_base p = Some (base (snd (rm_map m ! i)))"
          "range_entryptr p = Some (enc (entry (snd (rm_map m ! i))) @ t)"
        using range_node [OF assms(1) i] by blast
      with None r Suc u64_it_at(1,3) [OF assms(1) i] show ?thesis
        by (auto simp: StaticRangeMap_RetrieveNearestRange_def RangeMap_RetrieveNearestRange_def s Let_def
            range_outputs_def same_range_def points_to_def split: prod.splits)
    qed
  qed
qed

lemma static_range_map_at_index:
  assumes "serialized_u64 (range_bytes enc) (rm_map m) rest sm"
  shows "\<exists>res. StaticRangeMap_RetrieveRangeAtIndex sm (int i) = Some res \<and>
    rel_option (same_range enc) (RangeMap_RetrieveRangeAtIndex m i) res"
proof (cases "i < length (rm_map m)")
  case True
  obtain p t where "GetValueRawPtr (static_it sm i) = Some p" "range_base p = Some (base (snd (rm_map m ! i)))"
      "range_entryptr p = Some (enc (entry (snd (rm_map m ! i))) @ t)"
    using range_node [OF assms True] by blast
  with True u64_it_at(1) [OF assms True] u64_fields(2) [OF assms] u64_iterator [OF assms] show ?thesis
    by (auto simp: StaticRangeMap_RetrieveRangeAtIndex_def RangeMap_RetrieveRangeAtIndex_def
        StaticRangeMap_GetCount_def RangeMap_GetCount_def range_outputs_def same_range_def points_to_def
        split: prod.splits)
next
  case False
  with u64_fields(2) [OF assms] show ?thesis
    by (simp add: StaticRangeMap_RetrieveRangeAtIndex_def RangeMap_RetrieveRangeAtIndex_def
        StaticRangeMap_GetCount_def RangeMap_GetCount_def)
qed

text \<open>
  An entry of a contained range map without any bytes is read back as the null pointer.
\<close>

definition entry_at :: "('e \<Rightarrow> byte list) \<Rightarrow> 'e \<Rightarrow> byte list option \<Rightarrow> bool" where
  "entry_at enc e p \<longleftrightarrow> (if enc e = [] then p = None else points_to enc e p)"

definition serialized_crm :: "('e \<Rightarrow> byte list) \<Rightarrow> 'e ContainedRangeMap \<Rightarrow> StaticContainedRangeMap \<Rightarrow> bool" where
  "serialized_crm enc c sc \<longleftrightarrow> length (crm_bytes enc c) < 2 ^ 32 \<and>
     (\<exists>rest. StaticContainedRangeMap_new (crm_bytes enc c @ rest) = Some sc)"

lemma static_contained_new:
  assumes "length (crm_bytes enc c) < 2 ^ 32"
  shows "\<exists>sm. StaticMap_new (map_bytes put_u64 (crm_bytes enc) 8 (crm_kids c) @ rest) = Some sm \<and>
    StaticContainedRangeMap_new (crm_bytes enc c @ rest) =
      Some \<lparr>sc_base = crm_base c, sc_entry_size = word_of_nat (length (enc (crm_entry c))),
        sc_entry_ptr = (if enc (crm_entry c) = [] then None
          else Some (enc (crm_entry c) @ map_bytes put_u64 (crm_bytes enc) 8 (crm_kids c) @ rest)), sc_map = sm\<rparr>"
proof -
  let ?m = "map_bytes put_u64 (crm_bytes enc) 8 (crm_kids c)" and ?e = "enc (crm_entry c)"
  have b: "crm_bytes enc c @ rest = put_u64 (crm_base c) @ put_u32 (word_of_nat (length ?e)) @ ?e @ ?m @ rest"
    by (simp add: crm_bytes.simps [of enc c])
  have "length ?e < 2 ^ 32" using assms by (simp add: crm_bytes.simps [of enc c])
  then have u: "unat (word_of_nat (length ?e) :: u32) = length ?e" by (rule unat_word_of_nat_u32)
  have z: "(word_of_nat (length ?e) :: u32) = 0 \<longleftrightarrow> ?e = []"
    using u by (metis length_0_conv unat_0 unat_eq_zero)
  obtain sm where sm: "StaticMap_new (?m @ rest) = Some sm" using StaticMap_new_serialized by blast
  then show ?thesis unfolding b StaticContainedRangeMap_new_def by (simp add: u z)
qed

lemma serialized_crm_fields:
  assumes "serialized_crm enc c sc"
  shows "sc_base sc = crm_base c" and "entry_at enc (crm_entry c) (sc_entry_ptr sc)"
    and "\<exists>rest. serialized_u64 (crm_bytes enc) (crm_kids c) rest (sc_map sc)"
proof -
  let ?m = "map_bytes put_u64 (crm_bytes enc) 8 (crm_kids c)" and ?e = "enc (crm_entry c)"
  obtain rest where r: "StaticContainedRangeMap_new (crm_bytes enc c @ rest) = Some sc"
    and len: "length (crm_bytes enc c) < 2 ^ 32"
    using assms by (auto simp: serialized_crm_def)
  have l: "length ?m < 2 ^ 32" using len by (simp add: crm_bytes.simps [of enc c])
  obtain sm where sm: "StaticMap_new (?m @ rest) = Some sm" and
    sc: "sc = \<lparr>sc_base = crm_base c, sc_entry_size = word_of_nat (length ?e),
        sc_entry_ptr = (if ?e = [] then None else Some (?e @ ?m @ rest)), sc_map = sm\<rparr>"
    using static_contained_new [OF len, of rest] r by auto
  show "sc_base sc = crm_base c" "entry_at enc (crm_entry c) (sc_entry_ptr sc)"
    using sc by (auto simp: entry_at_def points_to_def)
  show "\<exists>rest. serialized_u64 (crm_bytes enc) (crm_kids c) rest (sc_map sc)"
    using serialized_u64I [OF l sm] sc by auto
qed

lemma crm_RetrieveRange_kids:
  "crm_RetrieveRange c a =
    (let i = lower_bound (crm_kids c) a in
     if i = length (crm_kids c) \<or> a < crm_base (snd (crm_kids c ! i)) then None
     else case crm_RetrieveRange (snd (crm_kids c ! i)) a of
            Some e \<Rightarrow> Some e | None \<Rightarrow> Some (crm_entry (snd (crm_kids c ! i))))"
proof (cases "crm_map c")
  case None
  then have k: "crm_kids c = []" by (simp add: crm_kids_def)
  show ?thesis unfolding k crm_RetrieveRange.simps [of c] None by (simp add: lower_bound_def)
next
  case (Some m)
  then have k: "crm_kids c = m" by (simp add: crm_kids_def)
  show ?thesis unfolding k crm_RetrieveRange.simps [of c] Some by simp
qed

lemma crm_kid_bytes_le:
  assumes "p \<in> set (crm_kids c)" shows "length (crm_bytes enc (snd p)) \<le> length (crm_bytes enc c)"
proof -
  have "length (crm_bytes enc (snd p)) \<le> length (concat (map (\<lambda>p. crm_bytes enc (snd p)) (crm_kids c)))"
    using assms by (induction "crm_kids c") (auto simp: length_concat member_le_sum_list)
  then show ?thesis by (simp add: crm_bytes.simps [of enc c] map_bytes_def)
qed

lemma static_contained_retrieve:
  assumes "serialized_crm enc c sc" and "crm_inv c"
  shows "\<exists>res. StaticContainedRangeMap_RetrieveRange sc a = Some res \<and>
    rel_option (entry_at enc) (crm_RetrieveRange c a) res"
  using assms
proof (induction c arbitrary: sc rule: measure_induct_rule [of size])
  case (less c)
  let ?m = "crm_kids c" and ?i = "lower_bound (crm_kids c) a"
  obtain rest where s: "serialized_u64 (crm_bytes enc) ?m rest (sc_map sc)"
    using serialized_crm_fields(3) [OF less.prems(1)] by blast
  have inv: "std_map_inv ?m" using less.prems(2) kids_inv_std by (simp add: crm_inv_kids)
  note sr = u64_searches [OF s inv]
  show ?case
  proof (cases "?i = length ?m")
    case True
    then show ?thesis
      by (subst StaticContainedRangeMap_RetrieveRange.simps, subst crm_RetrieveRange_kids) (simp add: sr)
  next
    case False
    then have i: "?i < length ?m" by (rule lower_bound_less)
    let ?p = "?m ! ?i"
    have p: "?p \<in> set ?m" using i by simp
    obtain t where val: "GetValueRawPtr (static_it (sc_map sc) ?i) = Some (Some (crm_bytes enc (snd ?p) @ t))"
      using u64_it_at(2) [OF s i] by blast
    have len: "length (crm_bytes enc (snd ?p)) < 2 ^ 32"
      using crm_kid_bytes_le [OF p, of enc] less.prems(1) by (simp add: serialized_crm_def)
    obtain child where new: "StaticContainedRangeMap_new (crm_bytes enc (snd ?p) @ t) = Some child"
      using static_contained_new [OF len] by blast
    then have sp: "serialized_crm enc (snd ?p) child" using len by (auto simp: serialized_crm_def)
    have "crm_inv (snd ?p)" using less.prems(2) p kids_inv_ok by (fastforce simp: crm_inv_kids kid_ok_def)
    from less.IH [OF size_kid [OF p] sp this] obtain res where
      res: "StaticContainedRangeMap_RetrieveRange child a = Some res"
        "rel_option (entry_at enc) (crm_RetrieveRange (snd ?p) a) res" by blast
    show ?thesis
      using False val new res serialized_crm_fields(1,2) [OF sp]
      by (subst StaticContainedRangeMap_RetrieveRange.simps, subst crm_RetrieveRange_kids)
        (cases res; auto simp: sr Let_def split: option.splits)
  qed
qed

section \<open>Properties\<close>

text \<open>
  \<open>RangeMapSerializer::Serialize\<close> writes exactly \<open>SizeOf\<close> bytes, and the \<open>StaticRangeMap\<close>
  over them gives, for every address, the same answers of \<open>RetrieveRange\<close> and
  \<open>RetrieveNearestRange\<close> as the \<open>RangeMap\<close>, base and size included, with a pointer to the
  bytes of the entry; no access leaves the buffer. The entry serializer is any that keeps the
  contract, the size has to fit into \<open>unsigned int\<close>.
\<close>

theorem RangeMap_serialize_retrieve:
  assumes "serializer ser enc ok" and "range_map_inv m" and "\<forall>p\<in>set (rm_map m). ok (entry (snd p))"
    and "RangeMap_SizeOf ser m < 2 ^ 32" and "\<And>n. length (fresh n) = n"
  shows "\<exists>buf sm. RangeMap_Serialize fresh ser m = Some (buf, word_of_nat (RangeMap_SizeOf ser m)) \<and>
    length buf = RangeMap_SizeOf ser m \<and> StaticMap_new buf = Some sm \<and>
    (\<forall>a. \<exists>r n. StaticRangeMap_RetrieveRange sm a = Some r \<and> StaticRangeMap_RetrieveNearestRange sm a = Some n \<and>
       rel_option (same_range enc) (RangeMap_RetrieveRange m a) r \<and>
       rel_option (same_range enc) (RangeMap_RetrieveNearestRange m a) n)"
proof -
  let ?bs = "map_bytes put_u64 (range_bytes enc) 8 (rm_map m)"
  note c = serializer.range_map_contract [OF assms(1,3)]
  obtain sm where sm: "StaticMap_new (?bs @ []) = Some sm" using StaticMap_new_serialized by blast
  have s: "serialized_u64 (range_bytes enc) (rm_map m) [] sm"
    using c(2) assms(4) sm by (intro serialized_u64I) auto
  have "RangeMap_Serialize fresh ser m = Some (?bs, word_of_nat (length ?bs))"
    unfolding RangeMap_Serialize_def by (intro Serialize_puts c assms(4,5))
  with c(2) sm static_range_map_retrieve [OF s assms(2)] static_range_map_nearest [OF s assms(2)]
  show ?thesis by (intro exI [of _ ?bs] exI [of _ sm]) (simp, blast)
qed

theorem RangeMap_serialize_retrieve_witness:
  "\<exists>buf sm. RangeMap_Serialize (\<lambda>n. replicate n 0) u32_serializer
      \<lparr>merge_strategy = kExclusiveRanges, rm_map = [(19, \<lparr>base = 10, delta = 0, entry = 7\<rparr>)]\<rparr> = Some (buf, 28) \<and>
    StaticMap_new buf = Some sm \<and> StaticRangeMap_RetrieveRange sm 9 = Some None"
proof -
  let ?m = "\<lparr>merge_strategy = kExclusiveRanges, rm_map = [(19, \<lparr>base = 10, delta = 0, entry = 7 :: u32\<rparr>)]\<rparr>"
  have inv: "range_map_inv ?m" by (simp add: range_map_inv_def range_ok_def)
  have size: "RangeMap_SizeOf u32_serializer ?m = 28"
    by (simp add: RangeMap_SizeOf_def u64_serializer_def u32_serializer_def)
  have none: "RangeMap_RetrieveRange ?m 9 = None"
    by (simp add: RangeMap_RetrieveRange_def lower_bound_def)
  have "\<exists>buf sm. RangeMap_Serialize (\<lambda>n. replicate n 0) u32_serializer ?m =
      Some (buf, word_of_nat (RangeMap_SizeOf u32_serializer ?m)) \<and>
    length buf = RangeMap_SizeOf u32_serializer ?m \<and> StaticMap_new buf = Some sm \<and>
    (\<forall>a. \<exists>r n. StaticRangeMap_RetrieveRange sm a = Some r \<and> StaticRangeMap_RetrieveNearestRange sm a = Some n \<and>
       rel_option (same_range put_u32) (RangeMap_RetrieveRange ?m a) r \<and>
       rel_option (same_range put_u32) (RangeMap_RetrieveNearestRange ?m a) n)"
    by (rule RangeMap_serialize_retrieve [OF u32_ser.serializer_axioms inv]) (use size in simp_all)
  then obtain buf sm where b: "RangeMap_Serialize (\<lambda>n. replicate n 0) u32_serializer ?m = Some (buf, 28)"
      "StaticMap_new buf = Some sm" and
      all: "\<forall>a. \<exists>r n. StaticRangeMap_RetrieveRange sm a = Some r \<and> StaticRangeMap_RetrieveNearestRange sm a = Some n \<and>
       rel_option (same_range put_u32) (RangeMap_RetrieveRange ?m a) r \<and>
       rel_option (same_range put_u32) (RangeMap_RetrieveNearestRange ?m a) n"
    unfolding size by auto
  from all [rule_format, of 9] none have "StaticRangeMap_RetrieveRange sm 9 = Some None" by auto
  with b show ?thesis by blast
qed

text \<open>
  The same for \<open>ContainedRangeMap\<close>: the bytes its serializer writes, read back by
  \<open>StaticContainedRangeMap\<close>, give for every address the entry of the innermost range.
\<close>

theorem ContainedRangeMap_serialize_retrieve:
  assumes "serializer ser enc ok" and "crm_inv c" and "crm_all ok c"
    and "ContainedRangeMap_SizeOf ser c < 2 ^ 32" and "\<And>n. length (fresh n) = n"
  shows "\<exists>buf sc. ContainedRangeMap_Serialize fresh ser c = Some (buf, word_of_nat (ContainedRangeMap_SizeOf ser c)) \<and>
    length buf = ContainedRangeMap_SizeOf ser c \<and> StaticContainedRangeMap_new buf = Some sc \<and>
    (\<forall>a. \<exists>r. StaticContainedRangeMap_RetrieveRange sc a = Some r \<and>
       rel_option (entry_at enc) (crm_RetrieveRange c a) r)"
proof -
  let ?bs = "crm_bytes enc c"
  have w: "puts (ContainedRangeMap_Write ser c) ?bs" and l: "length ?bs = ContainedRangeMap_SizeOf ser c"
    using serializer.contained_write [OF assms(1,3)] serializer.contained_size [OF assms(1,3)] by auto
  have len: "length ?bs < 2 ^ 32" using l assms(4) by simp
  obtain sc where sc: "StaticContainedRangeMap_new (?bs @ []) = Some sc"
    using static_contained_new [OF len, of "[]"] by blast
  have "serialized_crm enc c sc" using len sc by (auto simp: serialized_crm_def intro: exI [of _ "[]"])
  note r = static_contained_retrieve [OF this assms(2)]
  have "ContainedRangeMap_Serialize fresh ser c = Some (?bs, word_of_nat (length ?bs))"
    unfolding ContainedRangeMap_Serialize_def by (intro Serialize_puts w l assms(4,5))
  with l sc r show ?thesis by (intro exI [of _ ?bs] exI [of _ sc]) simp
qed

theorem ContainedRangeMap_serialize_retrieve_witness:
  "\<exists>buf sc. ContainedRangeMap_Serialize (\<lambda>n. replicate n 0) u32_serializer
      (ContainedRangeMap 0 0 (Some [(29, ContainedRangeMap 20 7 None)])) = Some (buf, 52) \<and>
    StaticContainedRangeMap_new buf = Some sc \<and> StaticContainedRangeMap_RetrieveRange sc 30 = Some None"
proof -
  let ?c = "ContainedRangeMap 0 0 (Some [(29, ContainedRangeMap 20 (7::u32) None)])"
  have inv: "crm_inv ?c" by (simp add: crm_inv_kids kid_ok_def)
  have size: "ContainedRangeMap_SizeOf u32_serializer ?c = 52"
    unfolding ContainedRangeMap_SizeOf.simps [of _ ?c]
    by (simp add: ContainedRangeMap_SizeOf.simps [of _ "ContainedRangeMap _ _ None"] u64_serializer_def u32_serializer_def)
  have none: "crm_RetrieveRange ?c 30 = None" by code_simp
  have all: "crm_all (\<lambda>_. True) ?c"
    by (simp add: crm_all.simps [of _ ?c] crm_all.simps [of _ "ContainedRangeMap _ _ None"])
  have "\<exists>buf sc. ContainedRangeMap_Serialize (\<lambda>n. replicate n 0) u32_serializer ?c =
      Some (buf, word_of_nat (ContainedRangeMap_SizeOf u32_serializer ?c)) \<and>
    length buf = ContainedRangeMap_SizeOf u32_serializer ?c \<and> StaticContainedRangeMap_new buf = Some sc \<and>
    (\<forall>a. \<exists>r. StaticContainedRangeMap_RetrieveRange sc a = Some r \<and>
       rel_option (entry_at put_u32) (crm_RetrieveRange ?c a) r)"
    by (rule ContainedRangeMap_serialize_retrieve [OF u32_ser.serializer_axioms inv all]) (use size in simp_all)
  then obtain buf sc where b: "ContainedRangeMap_Serialize (\<lambda>n. replicate n 0) u32_serializer ?c = Some (buf, 52)"
      "StaticContainedRangeMap_new buf = Some sc" and
    r: "\<forall>a. \<exists>r. StaticContainedRangeMap_RetrieveRange sc a = Some r \<and>
       rel_option (entry_at put_u32) (crm_RetrieveRange ?c a) r"
    unfolding size by auto
  from r [rule_format, of 30] none have "StaticContainedRangeMap_RetrieveRange sc 30 = Some None" by auto
  with b show ?thesis by blast
qed

text \<open>
  The bytes \<open>AddressMapSerializer\<close> writes, read back by \<open>StaticAddressMap\<close>, give for
  every address the same nearest entry at or below it.
\<close>

theorem AddressMap_serialize_retrieve:
  assumes "serializer ser enc ok" and "address_map_inv m" and "\<forall>p\<in>set (am_map m). ok (snd p)"
    and "AddressMap_SizeOf ser m < 2 ^ 32" and "\<And>n. length (fresh n) = n"
  shows "\<exists>buf sm. AddressMap_Serialize fresh ser m = Some (buf, word_of_nat (AddressMap_SizeOf ser m)) \<and>
    length buf = AddressMap_SizeOf ser m \<and> StaticMap_new buf = Some sm \<and>
    (\<forall>a. \<exists>r. StaticAddressMap_Retrieve sm a = Some r \<and>
       rel_option (\<lambda>(e, k) (p, k'). points_to enc e p \<and> k = k') (AddressMap_Retrieve m a) r)"
proof -
  let ?bs = "map_bytes put_u64 enc 8 (am_map m)"
  note c = serializer.std_map_contract [OF assms(1,3)]
  note sz = assms(4) [unfolded AddressMap_SizeOf_def]
  obtain sm where sm: "StaticMap_new (?bs @ []) = Some sm" using StaticMap_new_serialized by blast
  have s: "serialized_u64 enc (am_map m) [] sm" using c(2) sz sm by (intro serialized_u64I) auto
  have "AddressMap_Serialize fresh ser m = Some (?bs, word_of_nat (length ?bs))"
    unfolding AddressMap_Serialize_def StdMap_Serialize_def by (intro Serialize_puts c sz assms(5))
  with c(2) sm static_address_map_retrieve [OF s assms(2)] show ?thesis
    by (intro exI [of _ ?bs] exI [of _ sm]) (simp add: AddressMap_SizeOf_def)
qed

theorem AddressMap_serialize_retrieve_witness:
  "\<exists>buf sm. AddressMap_Serialize (\<lambda>n. replicate n 0) u32_serializer \<lparr>am_map = [(5, 7)]\<rparr> = Some (buf, 20) \<and>
    StaticMap_new buf = Some sm \<and> StaticAddressMap_Retrieve sm 4 = Some None"
proof -
  let ?m = "\<lparr>am_map = [(5, 7::u32)]\<rparr>"
  have inv: "address_map_inv ?m" by (simp add: address_map_inv_def)
  have size: "AddressMap_SizeOf u32_serializer ?m = 20"
    by (simp add: AddressMap_SizeOf_def StdMap_SizeOf_def u64_serializer_def u32_serializer_def)
  have none: "AddressMap_Retrieve ?m 4 = None" by (simp add: AddressMap_Retrieve_def upper_bound_def)
  have "\<exists>buf sm. AddressMap_Serialize (\<lambda>n. replicate n 0) u32_serializer ?m =
      Some (buf, word_of_nat (AddressMap_SizeOf u32_serializer ?m)) \<and>
    length buf = AddressMap_SizeOf u32_serializer ?m \<and> StaticMap_new buf = Some sm \<and>
    (\<forall>a. \<exists>r. StaticAddressMap_Retrieve sm a = Some r \<and>
       rel_option (\<lambda>(e, k) (p, k'). points_to put_u32 e p \<and> k = k') (AddressMap_Retrieve ?m a) r)"
    by (rule AddressMap_serialize_retrieve [OF u32_ser.serializer_axioms inv]) (use size in simp_all)
  then obtain buf sm where b: "AddressMap_Serialize (\<lambda>n. replicate n 0) u32_serializer ?m = Some (buf, 20)"
      "StaticMap_new buf = Some sm" and
    r: "\<forall>a. \<exists>r. StaticAddressMap_Retrieve sm a = Some r \<and>
       rel_option (\<lambda>(e, k) (p, k'). points_to put_u32 e p \<and> k = k') (AddressMap_Retrieve ?m a) r"
    unfolding size by auto
  from r [rule_format, of 4] none have "StaticAddressMap_Retrieve sm 4 = Some None" by auto
  with b show ?thesis by blast
qed

end
