(* ===== verification/C_String.thy ===== *)
theory C_String
  imports Breakpad_Prelude "HOL-Library.Monad_Syntax"
begin

text \<open>
  The C library functions on strings that the parsers use, and \<open>Tokenize\<close>,
  \<open>StringToVector\<close> (processor/tokenize.cc).

  A C string is the list of its characters without the terminator. \<open>strtok_r\<close> cuts the
  string it works on; the pieces do not overlap and nobody reads the whole afterwards, so it
  is a function from what \<open>save_ptr\<close> points to, to the token and the new \<open>save_ptr\<close>. The
  types \<open>long\<close>, \<open>unsigned long\<close> and \<open>unsigned long long\<close> have 64 bits.
\<close>

section \<open>Library functions\<close>

text \<open>\<open>strtok_r\<close>: skip separators, take what is not a separator, drop the one that ends it.\<close>

definition strtok_r :: "string \<Rightarrow> string \<Rightarrow> string option \<times> string" where
  "strtok_r separators s =
     (let s = dropWhile (\<lambda>c. c \<in> set separators) s in
      if s = [] then (None, [])
      else (Some (takeWhile (\<lambda>c. c \<notin> set separators) s),
            drop 1 (dropWhile (\<lambda>c. c \<notin> set separators) s)))"

definition isspace :: "char \<Rightarrow> bool" where
  "isspace c \<longleftrightarrow> c \<in> {CHR '' '', CHR 0x09, CHR 0x0A, CHR 0x0B, CHR 0x0C, CHR 0x0D}"

definition digit_value :: "char \<Rightarrow> nat" where
  "digit_value c =
     (let n = of_char c :: nat in
      if 48 \<le> n \<and> n \<le> 57 then n - 48
      else if 97 \<le> n \<and> n \<le> 122 then n - 87
      else if 65 \<le> n \<and> n \<le> 90 then n - 55
      else 36)"

definition is_digit :: "nat \<Rightarrow> char \<Rightarrow> bool" where
  "is_digit b c \<longleftrightarrow> digit_value c < b"

definition digits_value :: "nat \<Rightarrow> string \<Rightarrow> nat" where
  "digits_value b ds = foldl (\<lambda>n c. n * b + digit_value c) 0 ds"

text \<open>Sign, the optional \<open>0x\<close> of base 16, digits; \<^const>\<open>None\<close> without any digit.\<close>

definition skip_0x :: "nat \<Rightarrow> string \<Rightarrow> string" where
  "skip_0x b s = (case s of
     z # x # d # r \<Rightarrow> if b = 16 \<and> z = CHR ''0'' \<and> (x = CHR ''x'' \<or> x = CHR ''X'') \<and> is_digit b d
                     then d # r else s
   | _ \<Rightarrow> s)"

definition scan_number :: "nat \<Rightarrow> string \<Rightarrow> (bool \<times> nat \<times> string) option" where
  "scan_number b s =
     (let s = dropWhile isspace s;
          neg = (s \<noteq> [] \<and> hd s = CHR ''-'');
          s = (if s \<noteq> [] \<and> (hd s = CHR ''-'' \<or> hd s = CHR ''+'') then tl s else s);
          s = skip_0x b s;
          ds = takeWhile (is_digit b) s in
      if ds = [] then None else Some (neg, digits_value b ds, dropWhile (is_digit b) s))"

definition LONG_MAX :: int where "LONG_MAX = 2 ^ 63 - 1"
definition LONG_MIN :: int where "LONG_MIN = - (2 ^ 63)"

text \<open>The results are the number and what the end pointer points to.\<close>

definition strtol :: "nat \<Rightarrow> string \<Rightarrow> int \<times> string" where
  "strtol b s = (case scan_number b s of
     None \<Rightarrow> (0, s)
   | Some (neg, n, rest) \<Rightarrow>
       (max LONG_MIN (min LONG_MAX (if neg then - int n else int n)), rest))"

definition strtoull :: "nat \<Rightarrow> string \<Rightarrow> u64 \<times> string" where
  "strtoull b s = (case scan_number b s of
     None \<Rightarrow> (0, s)
   | Some (neg, n, rest) \<Rightarrow>
       (if n \<ge> 2 ^ 64 then - 1 else if neg then - word_of_nat n else word_of_nat n, rest))"

definition strtoul :: "nat \<Rightarrow> string \<Rightarrow> u64 \<times> string" where
  "strtoul = strtoull"

text \<open>\<open>strncmp(s, prefix, length) == 0\<close> for a prefix of that length.\<close>

definition starts_with :: "string \<Rightarrow> string \<Rightarrow> bool" where
  "starts_with prefix s \<longleftrightarrow> take (length prefix) s = prefix"

section \<open>Tokenize\<close>

text \<open>
  The loop after the first \<open>strtok_r\<close>, with \<open>remaining\<close> before the decrement; it returns
  \<open>remaining\<close> behind the loop, the tokens and \<open>save_ptr\<close>. A token stays the current one when
  \<open>remaining\<close> is not above one.
\<close>

function tokenize_loop ::
    "string \<Rightarrow> string option \<Rightarrow> string \<Rightarrow> int \<Rightarrow> string list \<Rightarrow> int \<times> string list \<times> string" where
  "tokenize_loop separators token save_ptr remaining tokens =
     (case token of
        None \<Rightarrow> (remaining, tokens, save_ptr)
      | Some t \<Rightarrow>
          let remaining = remaining - 1 in
          if remaining > 0 then
            (if remaining > 1 then
               (case strtok_r separators save_ptr of
                  (token, save_ptr) \<Rightarrow> tokenize_loop separators token save_ptr remaining (tokens @ [t]))
             else tokenize_loop separators token save_ptr remaining (tokens @ [t]))
          else (remaining, tokens, save_ptr))"
  by pat_completeness auto
termination
  by (relation "measure (\<lambda>(_, _, _, remaining, _). nat remaining)") auto

declare tokenize_loop.simps [simp del]

definition Tokenize :: "string \<Rightarrow> string \<Rightarrow> int \<Rightarrow> string list \<times> bool" where
  "Tokenize line separators max_tokens =
     (case strtok_r separators line of (token, save_ptr) \<Rightarrow>
      case tokenize_loop separators token save_ptr max_tokens [] of (remaining, tokens, save_ptr) \<Rightarrow>
      let tokens = (if remaining = 0 then
                      (case fst (strtok_r [CHR 0x0D, CHR 0x0A] save_ptr) of
                         None \<Rightarrow> tokens
                       | Some token \<Rightarrow> tokens @ [token])
                    else tokens)
      in (tokens, int (length tokens) = max_tokens))"

definition StringToVector :: "string \<Rightarrow> string" where
  "StringToVector str = str @ [CHR 0x00]"

text \<open>The C string at the start of such a vector.\<close>

definition vector_string :: "string \<Rightarrow> string" where
  "vector_string vec = takeWhile (\<lambda>c. c \<noteq> CHR 0x00) vec"

lemma vector_string_StringToVector [simp]:
  assumes "CHR 0x00 \<notin> set s" shows "vector_string (StringToVector s) = s"
proof -
  have "\<forall>c\<in>set s. c \<noteq> CHR 0x00" using assms by auto
  from takeWhile_append_split(1) [OF this, of "[CHR 0x00]"] show ?thesis
    by (simp add: vector_string_def StringToVector_def)
qed

section \<open>What the tokenizer computes\<close>

text \<open>
  Reference: the first \<open>n\<close> words, each followed by what is behind its separator; then the
  rest of the line up to its end.
\<close>

fun words_of :: "string \<Rightarrow> nat \<Rightarrow> string \<Rightarrow> (string list \<times> string) option" where
  "words_of separators 0 s = Some ([], s)"
| "words_of separators (Suc n) s = (case strtok_r separators s of
     (None, _) \<Rightarrow> None
   | (Some w, rest) \<Rightarrow> map_option (\<lambda>(ws, r). (w # ws, r)) (words_of separators n rest))"

abbreviation (input) "loop_from separators s \<equiv>
  tokenize_loop separators (fst (strtok_r separators s)) (snd (strtok_r separators s))"

lemma tokenize_loop_all:
  assumes "words_of separators (Suc n) s = Some (ws, rest)"
  shows "loop_from separators s (int n + 2) tokens = (0, tokens @ ws, rest)"
  using assms
proof (induction n arbitrary: s ws tokens)
  case 0
  obtain t r where t: "strtok_r separators s = (t, r)" by fastforce
  from 0 t show ?case
    by (cases t) (auto simp: tokenize_loop.simps [of _ _ _ 2] tokenize_loop.simps [of _ _ _ 1])
next
  case (Suc n)
  obtain t r where t: "strtok_r separators s = (t, r)" by fastforce
  with Suc.prems obtain w ws' where w: "t = Some w" "ws = w # ws'" "words_of separators (Suc n) r = Some (ws', rest)"
    by (cases t) (auto simp del: words_of.simps(2) simp: words_of.simps(2) [of _ "Suc n"])
  have "loop_from separators s (int (Suc n) + 2) tokens = loop_from separators r (int n + 2) (tokens @ [w])"
    using t w(1) by (simp add: tokenize_loop.simps [of _ "Some w"] case_prod_beta' add.commute)
  also have "\<dots> = (0, (tokens @ [w]) @ ws', rest)" by (rule Suc.IH [OF w(3)])
  finally show ?case by (simp add: w(2))
qed

lemma tokenize_loop_short:
  assumes "words_of separators (Suc n) s = None"
  shows "\<exists>r ts sp. loop_from separators s (int n + 2) tokens = (r, ts, sp) \<and> 0 < r \<and> length ts \<le> length tokens + n"
  using assms
proof (induction n arbitrary: s tokens)
  case 0
  obtain t r where t: "strtok_r separators s = (t, r)" by fastforce
  with 0 have "t = None" by (cases t) auto
  with t show ?case by (simp add: tokenize_loop.simps)
next
  case (Suc n)
  obtain t r where t: "strtok_r separators s = (t, r)" by fastforce
  show ?case
  proof (cases t)
    case None
    with t show ?thesis by (simp add: tokenize_loop.simps)
  next
    case (Some w)
    with t Suc.prems have "words_of separators (Suc n) r = None"
      by (auto simp del: words_of.simps(2) simp: words_of.simps(2) [of _ "Suc n"])
    from Suc.IH [OF this, of "tokens @ [w]"] show ?thesis
      using t Some by (auto simp: tokenize_loop.simps [of _ "Some w"] case_prod_beta' add.commute)
  qed
qed

lemma words_of_length: "words_of separators n s = Some (ws, rest) \<Longrightarrow> length ws = n"
proof (induction n arbitrary: s ws)
  case (Suc n)
  then show ?case by (auto split: prod.splits option.splits)
qed simp

abbreviation (input) "line_end \<equiv> [CHR 0x0D, CHR 0x0A]"

lemma Tokenize_words:
  "Tokenize line separators (int n + 2) = (tokens, True) \<longleftrightarrow>
     (\<exists>ws rest t. words_of separators (Suc n) line = Some (ws, rest) \<and> fst (strtok_r line_end rest) = Some t \<and>
        tokens = ws @ [t])"
proof (cases "words_of separators (Suc n) line")
  case None
  obtain r ts sp where l: "loop_from separators line (int n + 2) [] = (r, ts, sp)" "0 < r" "length ts \<le> n"
    using tokenize_loop_short [OF None, of "[]"] by auto
  then have "snd (Tokenize line separators (int n + 2)) = False"
    by (auto simp: Tokenize_def case_prod_beta' Let_def)
  with None show ?thesis by (metis option.distinct(1) snd_conv)
next
  case (Some p)
  obtain ws rest where p: "p = (ws, rest)" by fastforce
  have len: "length ws = Suc n" using Some p words_of_length by blast
  have "loop_from separators line (int n + 2) [] = (0, ws, rest)"
    using tokenize_loop_all [of separators n line ws rest "[]"] Some p by simp
  then have "Tokenize line separators (int n + 2) = (case fst (strtok_r line_end rest) of
      None \<Rightarrow> (ws, False) | Some t \<Rightarrow> (ws @ [t], True))"
    using len by (auto simp: Tokenize_def case_prod_beta' Let_def split: option.splits)
  with Some p show ?thesis by (auto split: option.splits)
qed

text \<open>Words joined by separators are found again.\<close>

definition is_word :: "string \<Rightarrow> string \<Rightarrow> bool" where
  "is_word separators w \<longleftrightarrow> w \<noteq> [] \<and> (\<forall>c\<in>set w. c \<notin> set separators)"

lemma strtok_r_word:
  assumes "is_word separators w" and "c \<in> set separators"
  shows "strtok_r separators (w @ c # rest) = (Some w, rest)"
proof -
  have "takeWhile (\<lambda>c. c \<notin> set separators) (w @ c # rest) = w"
    "dropWhile (\<lambda>c. c \<notin> set separators) (w @ c # rest) = c # rest"
    using takeWhile_append_split [of w "\<lambda>c. c \<notin> set separators" "c # rest"] assms by (auto simp: is_word_def)
  moreover have "dropWhile (\<lambda>c. c \<in> set separators) (w @ c # rest) = w @ c # rest"
    using assms(1) by (cases w) (auto simp: is_word_def)
  ultimately show ?thesis by (simp add: strtok_r_def Let_def)
qed

lemma strtok_r_last:
  assumes "is_word separators w" shows "strtok_r separators w = (Some w, [])"
proof -
  have "takeWhile (\<lambda>c. c \<notin> set separators) w = w" "dropWhile (\<lambda>c. c \<notin> set separators) w = []"
    using assms by (auto simp: is_word_def takeWhile_eq_all_conv)
  moreover have "dropWhile (\<lambda>c. c \<in> set separators) w = w" using assms by (cases w) (auto simp: is_word_def)
  ultimately show ?thesis using assms
    by (simp add: strtok_r_def Let_def is_word_def del: takeWhile_eq_all_conv dropWhile_eq_Nil_conv)
qed

definition join_words :: "char \<Rightarrow> string list \<Rightarrow> string" where
  "join_words c ws = concat (map (\<lambda>w. w @ [c]) ws)"

lemma words_of_join:
  assumes "\<forall>w\<in>set ws. is_word separators w" and "c \<in> set separators"
  shows "words_of separators (length ws) (join_words c ws @ rest) = Some (ws, rest)"
  using assms(1) by (induction ws) (simp_all add: join_words_def strtok_r_word [OF _ assms(2)])

lemma Tokenize_join:
  assumes "\<forall>w\<in>set ws. is_word separators w" and "c \<in> set separators" and "is_word line_end t" and "ws \<noteq> []"
  shows "Tokenize (join_words c ws @ t) separators (int (length ws) + 1) = (ws @ [t], True)"
proof -
  obtain n where n: "length ws = Suc n" using assms(4) by (cases ws) auto
  have "words_of separators (Suc n) (join_words c ws @ t) = Some (ws, t)"
    using words_of_join [OF assms(1,2), of t] n by simp
  with strtok_r_last [OF assms(3)] have "Tokenize (join_words c ws @ t) separators (int n + 2) = (ws @ [t], True)"
    unfolding Tokenize_words by auto
  then show ?thesis using n by (simp add: add.commute)
qed

section \<open>Numbers\<close>

definition digit_char :: "nat \<Rightarrow> char" where
  "digit_char d = char_of (if d < 10 then d + 48 else d + 87)"

function print_number :: "nat \<Rightarrow> nat \<Rightarrow> string" where
  "print_number b n = (if n < b \<or> b < 2 then [digit_char n] else print_number b (n div b) @ [digit_char (n mod b)])"
  by pat_completeness auto
termination
  by (relation "measure snd") auto

declare print_number.simps [simp del]

lemma digit_value_char: "d < 36 \<Longrightarrow> digit_value (digit_char d) = d"
  by (auto simp: digit_value_def digit_char_def Let_def)

lemma digits_value_snoc: "digits_value b (ds @ [c]) = digits_value b ds * b + digit_value c"
  by (simp add: digits_value_def)

lemma print_number_value:
  assumes "2 \<le> b" and "b \<le> 36"
  shows "digits_value b (print_number b n) = n \<and> print_number b n \<noteq> [] \<and> (\<forall>c\<in>set (print_number b n). is_digit b c)"
  using assms
proof (induction b n rule: print_number.induct)
  case (1 b n)
  show ?case
  proof (cases "n < b")
    case True
    then have "print_number b n = [digit_char n]" by (simp add: print_number.simps)
    with True 1(3) show ?thesis by (simp add: digits_value_def is_digit_def digit_value_char)
  next
    case False
    then have p: "print_number b n = print_number b (n div b) @ [digit_char (n mod b)]"
      using 1(2) by (subst print_number.simps) auto
    have m: "n mod b < b" using 1(2) by simp
    have "digits_value b (print_number b (n div b)) = n div b" "\<forall>c\<in>set (print_number b (n div b)). is_digit b c"
      using 1 False by auto
    moreover have "digit_value (digit_char (n mod b)) = n mod b" using m 1(3) by (intro digit_value_char) simp
    ultimately show ?thesis using p m by (simp add: digits_value_snoc is_digit_def)
  qed
qed

lemma is_digit_plain:
  assumes "is_digit b c" and "b \<le> 16"
  shows "\<not> isspace c" and "c \<noteq> CHR ''-''" and "c \<noteq> CHR ''+''" and "c \<noteq> CHR ''x''" and "c \<noteq> CHR ''X''"
    and "c \<notin> set '' ''" and "c \<noteq> CHR 0x0D" and "c \<noteq> CHR 0x0A"
  using assms by (auto simp: is_digit_def isspace_def digit_value_def Let_def)

lemma scan_number_print:
  assumes "2 \<le> b" and "b \<le> 16" and "rest = [] \<or> \<not> is_digit b (hd rest) \<and> hd rest \<noteq> CHR ''x'' \<and> hd rest \<noteq> CHR ''X''"
  shows "scan_number b (print_number b n @ rest) = Some (False, n, rest)"
proof -
  let ?p = "print_number b n"
  have v: "digits_value b ?p = n" "?p \<noteq> []" "\<forall>c\<in>set ?p. is_digit b c"
    using print_number_value [of b n] assms by auto
  then obtain c cs where p: "?p = c # cs" "is_digit b c" by (cases ?p) auto
  note plain = is_digit_plain [OF _ assms(2)]
  have d: "dropWhile isspace (?p @ rest) = ?p @ rest" using p plain(1) by simp
  have x: "skip_0x b (?p @ rest) = ?p @ rest"
  proof (cases cs)
    case Nil
    then show ?thesis using p assms(3) by (cases rest) (auto simp: skip_0x_def split: list.splits)
  next
    case (Cons c' cs')
    then have "is_digit b c'" using v(3) p by simp
    then show ?thesis using p Cons plain(4,5) by (auto simp: skip_0x_def split: list.splits)
  qed
  have t: "takeWhile (is_digit b) (?p @ rest) = ?p" "dropWhile (is_digit b) (?p @ rest) = rest"
    using takeWhile_append_split [of ?p "is_digit b" rest] v(3) assms(3) by auto
  have h: "hd (?p @ rest) \<noteq> CHR ''-''" "hd (?p @ rest) \<noteq> CHR ''+''" using p plain(2,3) by auto
  show ?thesis using d x t h v by (simp add: scan_number_def Let_def)
qed

lemma strtoull_print [simp]:
  "n < 2 ^ 64 \<Longrightarrow> strtoull 16 (print_number 16 n) = (word_of_nat n, [])"
  using scan_number_print [of 16 "[]" n] by (simp add: strtoull_def)

lemma strtol_print [simp]:
  "int n \<le> LONG_MAX \<Longrightarrow> 2 \<le> b \<Longrightarrow> b \<le> 16 \<Longrightarrow> strtol b (print_number b n) = (int n, [])"
  using scan_number_print [of b "[]" n] by (simp add: strtol_def LONG_MIN_def)

lemma strtol_range: "LONG_MIN \<le> fst (strtol b s) \<and> fst (strtol b s) \<le> LONG_MAX"
  by (auto simp: strtol_def LONG_MIN_def LONG_MAX_def split: option.splits)

lemma print_number_word:
  assumes "2 \<le> b" and "b \<le> 16" and "set separators \<subseteq> {CHR '' '', CHR 0x0D, CHR 0x0A}"
  shows "is_word separators (print_number b n)"
proof -
  have v: "print_number b n \<noteq> []" "\<forall>c\<in>set (print_number b n). is_digit b c"
    using print_number_value [of b n] assms by auto
  have "c \<notin> set separators" if "c \<in> set (print_number b n)" for c
    using is_digit_plain(6-8) [of b c] v(2) that assms(2,3) by auto
  with v(1) show ?thesis by (auto simp: is_word_def)
qed

end
