(* ===== verification/Symbol_Parse.thy ===== *)
theory Symbol_Parse
  imports C_String Resolver_Types
begin

text \<open>
  The record parsers of the symbol file format: \<open>TokenizeWithOptionalField\<close> and
  \<open>SymbolParseHelper\<close> (processor/basic_source_line_resolver.cc) and
  \<open>WindowsFrameInfo::ParseFromString\<close> (processor/windows_frame_info.h). Output parameters
  are the components of the result, a false or null result is \<^const>\<open>None\<close>. A \<open>long\<close> is an
  integer in its range; where it is assigned to an \<open>int\<close> the truncation is written out.

  The theorems are round trips: a record written the way the symbol dumpers write it is parsed
  to the values it was written from.
\<close>

section \<open>Model\<close>

definition kWhitespace :: string where
  "kWhitespace = [CHR '' '', CHR 0x0D, CHR 0x0A]"

definition TokenizeWithOptionalField ::
    "string \<Rightarrow> string \<Rightarrow> string \<Rightarrow> int \<Rightarrow> string list option" where
  "TokenizeWithOptionalField line optional_field separators max_tokens =
     (case Tokenize line separators (max_tokens - 1) of (tokens, ok) \<Rightarrow>
      if \<not> ok then None
      else if hd tokens = optional_field then
        (case Tokenize (last tokens) separators 2 of (last_tokens, ok) \<Rightarrow>
         if \<not> ok then None
         else Some (butlast tokens @ [last_tokens ! 0, last_tokens ! 1]))
      else Some tokens)"

definition IsValidAfterNumber :: "string \<Rightarrow> bool" where
  "IsValidAfterNumber after_number \<longleftrightarrow> after_number = [] \<or> hd after_number \<in> set kWhitespace"

definition ParseFile :: "string \<Rightarrow> (int \<times> string) option" where
  "ParseFile file_line =
     (case Tokenize (drop 5 file_line) kWhitespace 2 of (tokens, ok) \<Rightarrow>
      if \<not> ok then None else
      case strtol 10 (tokens ! 0) of (index, after_number) \<Rightarrow>
      if \<not> IsValidAfterNumber after_number \<or> index < 0 \<or> index = LONG_MAX then None
      else Some (index, tokens ! 1))"

definition ParseFunction :: "string \<Rightarrow> (bool \<times> u64 \<times> u64 \<times> int \<times> string) option" where
  "ParseFunction function_line =
     (case TokenizeWithOptionalField (drop 5 function_line) ''m'' kWhitespace 5 of
        None \<Rightarrow> None
      | Some tokens \<Rightarrow>
          let is_multiple = (tokens ! 0 = ''m'');
              next_token = (if is_multiple then 1 else 0) in
          case strtoull 16 (tokens ! next_token) of (address, after_number) \<Rightarrow>
          if \<not> IsValidAfterNumber after_number \<or> address = - 1 then None else
          case strtoull 16 (tokens ! (next_token + 1)) of (size', after_number) \<Rightarrow>
          if \<not> IsValidAfterNumber after_number \<or> size' = - 1 then None else
          case strtol 16 (tokens ! (next_token + 2)) of (stack_param_size, after_number) \<Rightarrow>
          if \<not> IsValidAfterNumber after_number \<or> stack_param_size = LONG_MAX \<or> stack_param_size < 0 then None
          else Some (is_multiple, address, size', stack_param_size, tokens ! (next_token + 3)))"

definition ParseLine :: "string \<Rightarrow> (u64 \<times> u64 \<times> int \<times> int) option" where
  "ParseLine line_line =
     (case Tokenize line_line kWhitespace 4 of (tokens, ok) \<Rightarrow>
      if \<not> ok then None else
      case strtoull 16 (tokens ! 0) of (address, after_number) \<Rightarrow>
      if \<not> IsValidAfterNumber after_number \<or> address = - 1 then None else
      case strtoull 16 (tokens ! 1) of (size', after_number) \<Rightarrow>
      if \<not> IsValidAfterNumber after_number \<or> size' = - 1 then None else
      case strtol 10 (tokens ! 2) of (line_no, after_number) \<Rightarrow>
      if \<not> IsValidAfterNumber after_number \<or> line_no = LONG_MAX then None else
      case strtol 10 (tokens ! 3) of (source_file, after_number) \<Rightarrow>
      if \<not> IsValidAfterNumber after_number \<or> source_file < 0 \<or> source_file = LONG_MAX then None
      else if line_no < 0 then None
      else Some (address, size', line_no, source_file))"

definition ParsePublicSymbol :: "string \<Rightarrow> (bool \<times> u64 \<times> int \<times> string) option" where
  "ParsePublicSymbol public_line =
     (case TokenizeWithOptionalField (drop 7 public_line) ''m'' kWhitespace 4 of
        None \<Rightarrow> None
      | Some tokens \<Rightarrow>
          let is_multiple = (tokens ! 0 = ''m'');
              next_token = (if is_multiple then 1 else 0) in
          case strtoull 16 (tokens ! next_token) of (address, after_number) \<Rightarrow>
          if \<not> IsValidAfterNumber after_number \<or> address = - 1 then None else
          case strtol 16 (tokens ! (next_token + 1)) of (stack_param_size, after_number) \<Rightarrow>
          if \<not> IsValidAfterNumber after_number \<or> stack_param_size = LONG_MAX \<or> stack_param_size < 0 then None
          else Some (is_multiple, address, stack_param_size, tokens ! (next_token + 2)))"

text \<open>Assignments of a \<open>long\<close> to an \<open>int\<close>, and of an \<open>unsigned long\<close> to 32 bits.\<close>

definition long_to_int :: "int \<Rightarrow> int32" where "long_to_int n = word_of_int n"

definition ulong_to_u32 :: "u64 \<Rightarrow> u32" where "ulong_to_u32 w = ucast w"

definition ParseFromString :: "string \<Rightarrow> (WindowsFrameInfo \<times> int \<times> u64 \<times> u64) option" where
  "ParseFromString str =
     (case Tokenize (vector_string (StringToVector str)) kWhitespace 11 of (tokens, ok) \<Rightarrow>
      if \<not> ok then None else
      let type = sint (long_to_int (fst (strtol 16 (tokens ! 0)))) in
      if type < 0 \<or> type > stack_info_code STACK_INFO_LAST - 1 then None else
      let rva = fst (strtoull 16 (tokens ! 1));
          code_size = fst (strtoull 16 (tokens ! 2));
          u32_at = (\<lambda>i. ulong_to_u32 (fst (strtoul 16 (tokens ! i))));
          has_program_string = u32_at 9;
          program = (if has_program_string \<noteq> 0 then tokens ! 10 else []);
          allocates = (if has_program_string \<noteq> 0 then 0 else u32_at 10)
      in Some (WindowsFrameInfo_new (stack_info_of type) (u32_at 3) (u32_at 4) (u32_at 5) (u32_at 6)
                 (u32_at 7) (u32_at 8) allocates program, type, rva, code_size))"

section \<open>Records as the dumpers write them\<close>

abbreviation "hex \<equiv> print_number 16"
abbreviation "dec \<equiv> print_number 10"

definition print_file :: "nat \<Rightarrow> string \<Rightarrow> string" where
  "print_file index filename = ''FILE '' @ join_words (CHR '' '') [dec index] @ filename"

definition print_function :: "bool \<Rightarrow> nat \<Rightarrow> nat \<Rightarrow> nat \<Rightarrow> string \<Rightarrow> string" where
  "print_function is_multiple address size' param name =
     ''FUNC '' @ join_words (CHR '' '') ((if is_multiple then [''m''] else []) @ [hex address, hex size', hex param]) @ name"

definition print_line :: "nat \<Rightarrow> nat \<Rightarrow> nat \<Rightarrow> nat \<Rightarrow> string" where
  "print_line address size' line file =
     join_words (CHR '' '') [hex address, hex size', dec line] @ dec file"

definition print_public :: "bool \<Rightarrow> nat \<Rightarrow> nat \<Rightarrow> string \<Rightarrow> string" where
  "print_public is_multiple address param name =
     ''PUBLIC '' @ join_words (CHR '' '') ((if is_multiple then [''m''] else []) @ [hex address, hex param]) @ name"

lemma set_kWhitespace: "set kWhitespace = {CHR '' '', CHR 0x0D, CHR 0x0A}"
  by (simp add: kWhitespace_def)

lemma number_word [simp]: "is_word kWhitespace (hex n)" "is_word kWhitespace (dec n)"
    "is_word line_end (hex n)" "is_word line_end (dec n)"
  by (auto intro!: print_number_word simp: set_kWhitespace)

lemma m_word [simp]: "is_word kWhitespace ''m''"
  by (simp add: is_word_def kWhitespace_def)

lemma hex_not_m: "hex n \<noteq> ''m''"
proof
  assume "hex n = ''m''"
  moreover have "\<forall>c\<in>set (hex n). is_digit 16 c" using print_number_value [of 16 n] by simp
  ultimately have "is_digit 16 (CHR ''m'')" by simp
  then show False by (simp add: is_digit_def digit_value_def)
qed

lemma Tokenize_printed:
  assumes "\<forall>w\<in>set ws. is_word kWhitespace w" and "is_word line_end t" and "ws \<noteq> []" and "n = int (length ws) + 1"
  shows "Tokenize (join_words (CHR '' '') ws @ t) kWhitespace n = (ws @ [t], True)"
  unfolding assms(4) using assms by (intro Tokenize_join) (auto simp: set_kWhitespace)

lemma IsValidAfterNumber_Nil [simp]: "IsValidAfterNumber []"
  by (simp add: IsValidAfterNumber_def)

lemma word_not_max: "n < 2 ^ 64 - 1 \<Longrightarrow> (word_of_nat n :: u64) \<noteq> - 1"
proof
  assume n: "n < 2 ^ 64 - 1" and "(word_of_nat n :: u64) = - 1"
  then have "unat (word_of_nat n :: u64) = unat (- 1 :: u64)" by simp
  with n show False by (simp add: unat_of_nat take_bit_eq_mod unsigned_minus_1_eq_mask mask_eq_exp_minus_1)
qed

text \<open>The optional field: the last of the tokens is split once more.\<close>

lemma optional_absent:
  assumes "\<forall>w\<in>set ws. is_word kWhitespace w" and "is_word line_end t" and "ws \<noteq> []" and "hd ws \<noteq> f"
    and "n = int (length ws) + 2"
  shows "TokenizeWithOptionalField (join_words (CHR '' '') ws @ t) f kWhitespace n = Some (ws @ [t])"
  using Tokenize_printed [OF assms(1-3), of "n - 1"] assms(4,5) by (simp add: TokenizeWithOptionalField_def assms(3))

lemma optional_present:
  assumes "\<forall>w\<in>set (f # ws). is_word kWhitespace w" and "is_word kWhitespace p" and "is_word line_end t"
    and "n = int (length ws) + 3"
  shows "TokenizeWithOptionalField (join_words (CHR '' '') (f # ws @ [p]) @ t) f kWhitespace n = Some (f # ws @ [p, t])"
proof -
  have last: "is_word line_end (p @ CHR '' '' # t)" using assms(2,3) by (auto simp: is_word_def set_kWhitespace)
  have "join_words (CHR '' '') (f # ws @ [p]) @ t = join_words (CHR '' '') (f # ws) @ (p @ CHR '' '' # t)"
    by (simp add: join_words_def)
  then have "Tokenize (join_words (CHR '' '') (f # ws @ [p]) @ t) kWhitespace (n - 1) =
      ((f # ws) @ [p @ CHR '' '' # t], True)"
    using Tokenize_printed [OF assms(1) last, of "n - 1"] assms(4) by simp
  moreover have "Tokenize (p @ CHR '' '' # t) kWhitespace 2 = ([p, t], True)"
    using Tokenize_printed [of "[p]" t 2] assms(2,3) by (simp add: join_words_def)
  ultimately show ?thesis by (simp add: TokenizeWithOptionalField_def)
qed

section \<open>Round trips\<close>

text \<open>
  A \<open>FUNC\<close> record, with or without the \<open>m\<close> field, is parsed to the address, size,
  parameter size and name it was written from; the name may hold spaces.
\<close>

lemma ParseFunction_print:
  assumes "address < 2 ^ 64 - 1" and "size' < 2 ^ 64 - 1" and "int param < LONG_MAX" and "is_word line_end name"
  shows "ParseFunction (print_function is_multiple address size' param name) =
    Some (is_multiple, word_of_nat address, word_of_nat size', int param, name)"
proof (cases is_multiple)
  case True
  have "TokenizeWithOptionalField (drop 5 (print_function is_multiple address size' param name)) ''m'' kWhitespace 5 =
      Some [''m'', hex address, hex size', hex param, name]"
    using True optional_present [of "''m''" "[hex address, hex size']" "hex param" name 5] assms(4)
    by (simp add: print_function_def)
  with True assms show ?thesis by (simp add: ParseFunction_def word_not_max LONG_MAX_def)
next
  case False
  have "TokenizeWithOptionalField (drop 5 (print_function is_multiple address size' param name)) ''m'' kWhitespace 5 =
      Some [hex address, hex size', hex param, name]"
    using False optional_absent [of "[hex address, hex size', hex param]" name "''m''" 5] assms(4) hex_not_m
    by (simp add: print_function_def)
  with False assms hex_not_m show ?thesis by (simp add: ParseFunction_def word_not_max LONG_MAX_def)
qed

text \<open>
  A line record is parsed to the address, size, line number and file it was written
  from. Line number 0 is accepted.
\<close>

lemma ParseLine_print:
  assumes "address < 2 ^ 64 - 1" and "size' < 2 ^ 64 - 1" and "int line < LONG_MAX" and "int file < LONG_MAX"
  shows "ParseLine (print_line address size' line file) =
    Some (word_of_nat address, word_of_nat size', int line, int file)"
proof -
  have "Tokenize (print_line address size' line file) kWhitespace 4 =
      ([hex address, hex size', dec line, dec file], True)"
    using Tokenize_printed [of "[hex address, hex size', dec line]" "dec file" 4] by (simp add: print_line_def)
  with assms show ?thesis by (simp add: ParseLine_def word_not_max LONG_MAX_def numeral_3_eq_3 numeral_2_eq_2)
qed

text \<open>
  \<open>PUBLIC\<close> and \<open>FILE\<close> records are parsed to the values they were written from.
\<close>

lemma ParsePublicSymbol_ParseFile_print:
  assumes "address < 2 ^ 64 - 1" and "int param < LONG_MAX" and "is_word line_end name"
    and "int index < LONG_MAX" and "is_word line_end filename"
  shows "ParsePublicSymbol (print_public is_multiple address param name) =
      Some (is_multiple, word_of_nat address, int param, name) \<and>
    ParseFile (print_file index filename) = Some (int index, filename)"
proof
  show "ParsePublicSymbol (print_public is_multiple address param name) =
      Some (is_multiple, word_of_nat address, int param, name)"
  proof (cases is_multiple)
    case True
    have "TokenizeWithOptionalField (drop 7 (print_public is_multiple address param name)) ''m'' kWhitespace 4 =
        Some [''m'', hex address, hex param, name]"
      using True optional_present [of "''m''" "[hex address]" "hex param" name 4] assms(3)
      by (simp add: print_public_def)
    with True assms show ?thesis by (simp add: ParsePublicSymbol_def word_not_max LONG_MAX_def)
  next
    case False
    have "TokenizeWithOptionalField (drop 7 (print_public is_multiple address param name)) ''m'' kWhitespace 4 =
        Some [hex address, hex param, name]"
      using False optional_absent [of "[hex address, hex param]" name "''m''" 4] assms(3) hex_not_m
      by (simp add: print_public_def)
    with False assms hex_not_m show ?thesis by (simp add: ParsePublicSymbol_def word_not_max LONG_MAX_def)
  qed
  have "Tokenize (drop 5 (print_file index filename)) kWhitespace 2 = ([dec index, filename], True)"
    using Tokenize_printed [of "[dec index]" filename 2] assms(5) by (simp add: print_file_def)
  with assms show "ParseFile (print_file index filename) = Some (int index, filename)"
    by (simp add: ParseFile_def LONG_MAX_def)
qed

end
