(* ===== verification/Postfix_Evaluator.thy ===== *)
theory Postfix_Evaluator
  imports C_String
begin

text \<open>
  \<open>PostfixEvaluator\<close> (processor/postfix_evaluator.h, postfix_evaluator-inl.h), the machine
  behind the program strings of Windows frame data and the rules of DWARF CFI. \<open>ValueType\<close> is
  any unsigned word, \<open>uint32_t\<close> and \<open>uint64_t\<close> in the source.

  The stack is a list with its top first. The memory region is a parameter: \<^const>\<open>None\<close> for
  the null pointer, otherwise the result of \<open>GetMemoryAtAddress\<close> for every address. The
  \<open>assigned\<close> parameter is kept in the state, \<^const>\<open>None\<close> for the null pointer. An operation
  returns its bool and the new state; the outer \<^const>\<open>None\<close> is undefined behaviour
  of the source, a division by zero or the use of a null pointer.
\<close>

section \<open>Streams\<close>

abbreviation "stream_space \<equiv> [CHR '' '', CHR 0x09, CHR 0x0A, CHR 0x0B, CHR 0x0C, CHR 0x0D]"

lemma strtok_r_shorter: "strtok_r sep s = (Some t, r) \<Longrightarrow> length r < length s"
proof -
  assume a: "strtok_r sep s = (Some t, r)"
  define d e where "d = dropWhile (\<lambda>c. c \<in> set sep) s" and "e = dropWhile (\<lambda>c. c \<notin> set sep) d"
  then have "d \<noteq> []" and r: "r = drop 1 e" using a by (auto simp: strtok_r_def Let_def split: if_splits)
  have "length d \<le> length s" "length e \<le> length d" unfolding d_def e_def by (rule length_dropWhile_le)+
  then show ?thesis using r \<open>d \<noteq> []\<close> by (cases d) auto
qed

text \<open>All tokens, as by \<open>stream >> token\<close> or by \<open>strtok_r\<close> in a loop.\<close>

function tokens_of :: "string \<Rightarrow> string \<Rightarrow> string list" where
  "tokens_of sep s = (case strtok_r sep s of (None, _) \<Rightarrow> [] | (Some t, r) \<Rightarrow> t # tokens_of sep r)"
  by pat_completeness auto
termination
  by (relation "measure (\<lambda>(_, s). length s)") (auto dest: strtok_r_shorter [OF sym])

declare tokens_of.simps [simp del]

text \<open>
  \<open>stream >> literal\<close> for an unsigned type: an optional sign, decimal digits; a number that
  does not fit makes the extraction fail. The result is the value and the rest of the stream.
\<close>

definition stream_read :: "string \<Rightarrow> ('v::len word \<times> string) option" where
  "stream_read s =
     (let neg = (s \<noteq> [] \<and> hd s = CHR ''-'');
          s = (if s \<noteq> [] \<and> (hd s = CHR ''-'' \<or> hd s = CHR ''+'') then tl s else s);
          ds = takeWhile (is_digit 10) s in
      if ds = [] \<or> digits_value 10 ds \<ge> 2 ^ LENGTH('v) then None
      else Some (if neg then - word_of_nat (digits_value 10 ds) else word_of_nat (digits_value 10 ds),
                 dropWhile (is_digit 10) s))"

definition stream_print :: "'v::len word \<Rightarrow> string" where
  "stream_print v = print_number 10 (unat v)"

section \<open>Model\<close>

type_synonym 'v memory_region = "(u64 \<Rightarrow> 'v option) option"

record 'v evaluator =
  dictionary :: "string \<rightharpoonup> 'v"
  assigned :: "(string \<rightharpoonup> bool) option"
  stack :: "string list"

datatype 'v PopResult = POP_RESULT_FAIL | POP_RESULT_VALUE 'v | POP_RESULT_IDENTIFIER string

text \<open>
  The first argument says whether \<open>value\<close> is not null. A negative literal is negated through
  the pointer in any case.
\<close>

definition PopValueOrIdentifier ::
    "bool \<Rightarrow> 'v::len word evaluator \<Rightarrow> ('v word PopResult \<times> 'v word evaluator) option" where
  "PopValueOrIdentifier value_given ev =
     (case stack ev of
        [] \<Rightarrow> Some (POP_RESULT_FAIL, ev)
      | token # rest \<Rightarrow>
          let ev = ev\<lparr>stack := rest\<rparr>;
              negative = (token \<noteq> [] \<and> hd token = CHR ''-'');
              s = (if negative then tl token else token) in
          (case stream_read s of
             Some (literal, []) \<Rightarrow>
               if negative then
                 (if value_given then Some (POP_RESULT_VALUE (- literal), ev) else None)
               else Some (POP_RESULT_VALUE literal, ev)
           | _ \<Rightarrow> Some (POP_RESULT_IDENTIFIER token, ev)))"

definition PopValue :: "'v::len word evaluator \<Rightarrow> ('v word option \<times> 'v word evaluator) option" where
  "PopValue ev = do {
     (result, ev) \<leftarrow> PopValueOrIdentifier True ev;
     (case result of
        POP_RESULT_FAIL \<Rightarrow> Some (None, ev)
      | POP_RESULT_VALUE literal \<Rightarrow> Some (Some literal, ev)
      | POP_RESULT_IDENTIFIER token \<Rightarrow> Some (dictionary ev token, ev)) }"

definition PopValues :: "'v::len word evaluator \<Rightarrow> (('v word \<times> 'v word) option \<times> 'v word evaluator) option" where
  "PopValues ev = do {
     (value2, ev) \<leftarrow> PopValue ev;
     (case value2 of
        None \<Rightarrow> Some (None, ev)
      | Some value2 \<Rightarrow> do {
          (value1, ev) \<leftarrow> PopValue ev;
          (case value1 of
             None \<Rightarrow> Some (None, ev)
           | Some value1 \<Rightarrow> Some (Some (value1, value2), ev)) }) }"

definition PushValue :: "'v::len word \<Rightarrow> 'v word evaluator \<Rightarrow> 'v word evaluator" where
  "PushValue value ev = ev\<lparr>stack := stream_print value # stack ev\<rparr>"

datatype BinaryOperation =
    BINARY_OP_ADD | BINARY_OP_SUBTRACT | BINARY_OP_MULTIPLY | BINARY_OP_DIVIDE_QUOTIENT
  | BINARY_OP_DIVIDE_MODULUS | BINARY_OP_ALIGN

definition binary_operation :: "string \<Rightarrow> BinaryOperation option" where
  "binary_operation token =
     (if token = ''+'' then Some BINARY_OP_ADD
      else if token = ''-'' then Some BINARY_OP_SUBTRACT
      else if token = ''*'' then Some BINARY_OP_MULTIPLY
      else if token = ''/'' then Some BINARY_OP_DIVIDE_QUOTIENT
      else if token = ''%'' then Some BINARY_OP_DIVIDE_MODULUS
      else if token = ''@'' then Some BINARY_OP_ALIGN
      else None)"

fun perform :: "BinaryOperation \<Rightarrow> 'v::len word \<Rightarrow> 'v word \<Rightarrow> 'v word option" where
  "perform BINARY_OP_ADD x y = Some (x + y)"
| "perform BINARY_OP_SUBTRACT x y = Some (x - y)"
| "perform BINARY_OP_MULTIPLY x y = Some (x * y)"
| "perform BINARY_OP_DIVIDE_QUOTIENT x y = (if y = 0 then None else Some (x div y))"
| "perform BINARY_OP_DIVIDE_MODULUS x y = (if y = 0 then None else Some (x mod y))"
| "perform BINARY_OP_ALIGN x y = Some (x AND ((- 1) XOR (y - 1)))"

definition EvaluateToken ::
    "'v::len word memory_region \<Rightarrow> string \<Rightarrow> 'v word evaluator \<Rightarrow> (bool \<times> 'v word evaluator) option" where
  "EvaluateToken memory token ev =
     (case binary_operation token of
        Some operation \<Rightarrow> do {
          (operands, ev) \<leftarrow> PopValues ev;
          (case operands of
             None \<Rightarrow> Some (False, ev)
           | Some (operand1, operand2) \<Rightarrow> do {
               result \<leftarrow> perform operation operand1 operand2;
               Some (True, PushValue result ev) }) }
      | None \<Rightarrow>
          if token = ''^'' then
            (case memory of
               None \<Rightarrow> Some (False, ev)
             | Some GetMemoryAtAddress \<Rightarrow> do {
                 (address, ev) \<leftarrow> PopValue ev;
                 (case address of
                    None \<Rightarrow> Some (False, ev)
                  | Some address \<Rightarrow>
                      (case GetMemoryAtAddress (ucast address) of
                         None \<Rightarrow> Some (False, ev)
                       | Some value' \<Rightarrow> Some (True, PushValue value' ev))) })
          else if token = ''='' then do {
            (value', ev) \<leftarrow> PopValue ev;
            (case value' of
               None \<Rightarrow> Some (False, ev)
             | Some value' \<Rightarrow> do {
                 (result, ev) \<leftarrow> PopValueOrIdentifier False ev;
                 (case result of
                    POP_RESULT_IDENTIFIER identifier \<Rightarrow>
                      if identifier = [] \<or> hd identifier \<noteq> CHR ''$'' then Some (False, ev)
                      else Some (True, ev\<lparr>dictionary := (dictionary ev)(identifier \<mapsto> value'),
                                           assigned := map_option (\<lambda>a. a(identifier \<mapsto> True)) (assigned ev)\<rparr>)
                  | _ \<Rightarrow> Some (False, ev)) }) }
          else Some (True, ev\<lparr>stack := token # stack ev\<rparr>))"

text \<open>The loop over the tokens; \<open>=$x\<close> stands for \<open>=\<close> followed by \<open>$x\<close>.\<close>

fun evaluate_tokens ::
    "'v::len word memory_region \<Rightarrow> string list \<Rightarrow> 'v word evaluator \<Rightarrow> (bool \<times> 'v word evaluator) option" where
  "evaluate_tokens memory [] ev = Some (True, ev)"
| "evaluate_tokens memory (token # tokens) ev =
     (if length token > 1 \<and> hd token = CHR ''='' then do {
        (ok, ev) \<leftarrow> EvaluateToken memory ''='' ev;
        if \<not> ok then Some (False, ev) else do {
          (ok, ev) \<leftarrow> EvaluateToken memory (tl token) ev;
          if \<not> ok then Some (False, ev) else evaluate_tokens memory tokens ev } }
      else do {
        (ok, ev) \<leftarrow> EvaluateToken memory token ev;
        if \<not> ok then Some (False, ev) else evaluate_tokens memory tokens ev })"

definition EvaluateInternal ::
    "'v::len word memory_region \<Rightarrow> string \<Rightarrow> 'v word evaluator \<Rightarrow> (bool \<times> 'v word evaluator) option" where
  "EvaluateInternal memory expression ev = evaluate_tokens memory (tokens_of stream_space expression) ev"

text \<open>The destructor of \<open>AutoStackClearer\<close> empties the stack on every return.\<close>

definition Evaluate ::
    "'v::len word memory_region \<Rightarrow> string \<Rightarrow> 'v word evaluator \<Rightarrow> (bool \<times> 'v word evaluator) option" where
  "Evaluate memory expression ev = do {
     (ok, ev) \<leftarrow> EvaluateInternal memory expression ev;
     Some (ok \<and> stack ev = [], ev\<lparr>stack := []\<rparr>) }"

definition EvaluateForValue ::
    "'v::len word memory_region \<Rightarrow> string \<Rightarrow> 'v word evaluator \<Rightarrow> ('v word option \<times> 'v word evaluator) option" where
  "EvaluateForValue memory expression ev = do {
     (ok, ev) \<leftarrow> EvaluateInternal memory expression (ev\<lparr>assigned := None\<rparr>);
     if \<not> ok \<or> length (stack ev) \<noteq> 1 then Some (None, ev\<lparr>stack := []\<rparr>)
     else do {
       (result, ev) \<leftarrow> PopValue ev;
       Some (result, ev\<lparr>stack := []\<rparr>) } }"

section \<open>Expressions\<close>

text \<open>The language of the expressions, its meaning and its postfix form.\<close>

datatype expr = Lit nat | Var string | Bin BinaryOperation expr expr | Deref expr

fun op_token :: "BinaryOperation \<Rightarrow> string" where
  "op_token BINARY_OP_ADD = ''+''"
| "op_token BINARY_OP_SUBTRACT = ''-''"
| "op_token BINARY_OP_MULTIPLY = ''*''"
| "op_token BINARY_OP_DIVIDE_QUOTIENT = ''/''"
| "op_token BINARY_OP_DIVIDE_MODULUS = ''%''"
| "op_token BINARY_OP_ALIGN = ''@''"

fun postfix :: "expr \<Rightarrow> string list" where
  "postfix (Lit n) = [print_number 10 n]"
| "postfix (Var x) = [x]"
| "postfix (Bin f a b) = postfix a @ postfix b @ [op_token f]"
| "postfix (Deref a) = postfix a @ [''^'']"

fun meaning :: "'v::len word memory_region \<Rightarrow> (string \<rightharpoonup> 'v word) \<Rightarrow> expr \<Rightarrow> 'v word option" where
  "meaning memory d (Lit n) = Some (word_of_nat n)"
| "meaning memory d (Var x) = d x"
| "meaning memory d (Bin f a b) = do { x \<leftarrow> meaning memory d a; y \<leftarrow> meaning memory d b; perform f x y }"
| "meaning memory d (Deref a) = do { get \<leftarrow> memory; x \<leftarrow> meaning memory d a; get (ucast x) }"

text \<open>Names that the evaluator takes for a name: letters, \<open>$\<close> or \<open>.\<close> in front, no white space.\<close>

definition name_ok :: "string \<Rightarrow> bool" where
  "name_ok x \<longleftrightarrow> is_word stream_space x \<and> (hd x \<in> {CHR ''$'', CHR ''.''} \<or> 65 \<le> (of_char (hd x) :: nat) \<and> (of_char (hd x) :: nat) \<le> 90 \<or>
     97 \<le> (of_char (hd x) :: nat) \<and> (of_char (hd x) :: nat) \<le> 122)"

fun expr_ok :: "nat \<Rightarrow> expr \<Rightarrow> bool" where
  "expr_ok w (Lit n) \<longleftrightarrow> n < 2 ^ w"
| "expr_ok w (Var x) \<longleftrightarrow> name_ok x"
| "expr_ok w (Bin f a b) \<longleftrightarrow> expr_ok w a \<and> expr_ok w b"
| "expr_ok w (Deref a) \<longleftrightarrow> expr_ok w a"

text \<open>The token on the stack stands for a value.\<close>

definition denotes :: "(string \<rightharpoonup> 'v::len word) \<Rightarrow> string \<Rightarrow> 'v word \<Rightarrow> bool" where
  "denotes d t v \<longleftrightarrow> (\<forall>ev r. dictionary ev = d \<longrightarrow>
     PopValue (ev\<lparr>stack := t # r\<rparr>) = Some (Some v, ev\<lparr>stack := r\<rparr>))"

lemma stream_read_print:
  assumes "n < 2 ^ LENGTH('v::len)"
  shows "stream_read (print_number 10 n) = Some (word_of_nat n :: 'v word, [])"
    and "print_number 10 n \<noteq> []" and "hd (print_number 10 n) \<noteq> CHR ''-''" and "hd (print_number 10 n) \<noteq> CHR ''=''"
proof -
  let ?p = "print_number 10 n"
  have v: "digits_value 10 ?p = n" "?p \<noteq> []" "\<forall>c\<in>set ?p. is_digit 10 c" using print_number_value [of 10 n] by auto
  then obtain c cs where p: "?p = c # cs" "is_digit 10 c" by (cases ?p) auto
  have c: "c \<noteq> CHR ''-''" "c \<noteq> CHR ''+''" "c \<noteq> CHR ''=''"
    using p(2) by (auto simp: is_digit_def digit_value_def)
  have t: "takeWhile (is_digit 10) ?p = ?p" "dropWhile (is_digit 10) ?p = []" using v(3) by auto
  show "stream_read ?p = Some (word_of_nat n :: 'v word, [])"
    using c p t v assms by (simp add: stream_read_def Let_def del: takeWhile_eq_all_conv dropWhile_eq_Nil_conv)
  show "?p \<noteq> []" "hd ?p \<noteq> CHR ''-''" "hd ?p \<noteq> CHR ''=''" using p c by auto
qed

lemma denotes_number: "n < 2 ^ LENGTH('v::len) \<Longrightarrow> denotes d (print_number 10 n) (word_of_nat n :: 'v word)"
  using stream_read_print [of n, where 'v = 'v]
  by (simp add: denotes_def PopValue_def PopValueOrIdentifier_def Let_def)

lemma denotes_print: "denotes d (stream_print v) v"
proof -
  have "unat v < 2 ^ LENGTH('a)" by (rule unsigned_less)
  from denotes_number [OF this, of d] show ?thesis by (simp add: stream_print_def)
qed

lemma name_plain:
  assumes "name_ok x"
  shows "x \<noteq> []" and "hd x \<noteq> CHR ''-''" and "hd x \<noteq> CHR ''=''" and "hd x \<noteq> CHR ''+''" and "\<not> is_digit 10 (hd x)"
    and "binary_operation x = None" and "x \<noteq> ''^''" and "x \<noteq> ''=''"
proof -
  obtain c cs where x: "x = c # cs" using assms by (cases x) (auto simp: name_ok_def is_word_def)
  let ?n = "of_char c :: nat"
  have n: "?n = 36 \<or> ?n = 46 \<or> 65 \<le> ?n \<and> ?n \<le> 90 \<or> 97 \<le> ?n \<and> ?n \<le> 122"
    using assms x by (auto simp: name_ok_def)
  have ne: "c \<noteq> d" if "(of_char d :: nat) \<in> {37, 42, 43, 45, 47, 61, 64, 94}" for d using n that by auto
  have c: "c \<noteq> CHR ''-''" "c \<noteq> CHR ''=''" "c \<noteq> CHR ''+''" "c \<noteq> CHR ''*''" "c \<noteq> CHR ''/''" "c \<noteq> CHR ''%''"
    "c \<noteq> CHR ''@''" "c \<noteq> CHR ''^''" by (rule ne; simp)+
  have "\<not> is_digit 10 c" using n by (auto simp: is_digit_def digit_value_def Let_def)
  with x c show "x \<noteq> []" "hd x \<noteq> CHR ''-''" "hd x \<noteq> CHR ''=''" "hd x \<noteq> CHR ''+''" "\<not> is_digit 10 (hd x)"
    "binary_operation x = None" "x \<noteq> ''^''" "x \<noteq> ''=''" by (simp_all add: binary_operation_def)
qed

lemma stream_read_name: "name_ok x \<Longrightarrow> stream_read x = None"
  using name_plain [of x] by (cases x) (auto simp: stream_read_def)

lemma pop_name:
  assumes "name_ok x"
  shows "PopValueOrIdentifier b (ev\<lparr>stack := x # r\<rparr>) = Some (POP_RESULT_IDENTIFIER x, ev\<lparr>stack := r\<rparr>)"
  using name_plain(1,2) [OF assms] by (simp add: PopValueOrIdentifier_def Let_def stream_read_name [OF assms])

lemma denotes_name: "name_ok x \<Longrightarrow> d x = Some v \<Longrightarrow> denotes d x v"
  by (simp add: denotes_def PopValue_def pop_name)

lemma evaluate_operator:
  assumes "denotes (dictionary ev) s x" and "denotes (dictionary ev) t y" and "perform f x y = Some z"
  shows "EvaluateToken memory (op_token f) (ev\<lparr>stack := t # s # r\<rparr>) = Some (True, ev\<lparr>stack := stream_print z # r\<rparr>)"
proof -
  have "binary_operation (op_token f) = Some f" by (cases f) (simp_all add: binary_operation_def)
  moreover have "PopValues (ev\<lparr>stack := t # s # r\<rparr>) = Some (Some (x, y), ev\<lparr>stack := r\<rparr>)"
    using assms(1,2) by (simp add: PopValues_def denotes_def)
  ultimately show ?thesis using assms(3) by (simp add: EvaluateToken_def PushValue_def)
qed

lemma evaluate_deref:
  assumes "denotes (dictionary ev) t x" and "memory = Some get" and "get (ucast x) = Some y"
  shows "EvaluateToken memory ''^'' (ev\<lparr>stack := t # r\<rparr>) = Some (True, ev\<lparr>stack := stream_print y # r\<rparr>)"
  using assms by (simp add: EvaluateToken_def binary_operation_def denotes_def PushValue_def)

lemma evaluate_plain:
  assumes "binary_operation t = None" "t \<noteq> ''^''" "t \<noteq> ''=''" "t \<noteq> []" "hd t \<noteq> CHR ''=''"
  shows "evaluate_tokens memory (t # ts) ev = evaluate_tokens memory ts (ev\<lparr>stack := t # stack ev\<rparr>)"
  using assms by (simp add: EvaluateToken_def)

lemma number_plain:
  "binary_operation (print_number 10 n) = None" "print_number 10 n \<noteq> ''^''" "print_number 10 n \<noteq> ''=''"
proof -
  have "\<forall>c\<in>set (print_number 10 n). is_digit 10 c" using print_number_value [of 10 n] by simp
  then have "print_number 10 n \<noteq> [c]" if "\<not> is_digit 10 c" for c using that by (cases "print_number 10 n") auto
  then show "binary_operation (print_number 10 n) = None" "print_number 10 n \<noteq> ''^''" "print_number 10 n \<noteq> ''=''"
    by (auto simp: binary_operation_def is_digit_def digit_value_def)
qed

lemma evaluate_expression:
  fixes ev :: "'v::len word evaluator"
  assumes "expr_ok LENGTH('v) e" and "meaning memory (dictionary ev) e = Some v"
  shows "\<exists>t. evaluate_tokens memory (postfix e @ ts) ev = evaluate_tokens memory ts (ev\<lparr>stack := t # stack ev\<rparr>) \<and>
    denotes (dictionary ev) t v"
  using assms
proof (induction e arbitrary: ts ev v)
  case (Lit n)
  then show ?case
    using denotes_number [of n "dictionary ev"] number_plain [of n] stream_read_print(2,4) [of n, where 'v = 'v]
    by (intro exI [of _ "print_number 10 n"]) (simp del: evaluate_tokens.simps add: evaluate_plain)
next
  case (Var x)
  then show ?case
    using denotes_name [of x "dictionary ev" v] name_plain [of x]
    by (intro exI [of _ x]) (simp del: evaluate_tokens.simps add: evaluate_plain)
next
  case (Bin f a b)
  then obtain x y where xy: "meaning memory (dictionary ev) a = Some x" "meaning memory (dictionary ev) b = Some y"
      "perform f x y = Some v" by (auto simp: bind_eq_Some_conv)
  obtain s where s: "evaluate_tokens memory (postfix a @ postfix b @ op_token f # ts) ev =
      evaluate_tokens memory (postfix b @ op_token f # ts) (ev\<lparr>stack := s # stack ev\<rparr>)" "denotes (dictionary ev) s x"
    using Bin.IH(1) [of ev x "postfix b @ op_token f # ts"] Bin.prems(1) xy(1) by auto
  obtain t where t: "evaluate_tokens memory (postfix b @ op_token f # ts) (ev\<lparr>stack := s # stack ev\<rparr>) =
      evaluate_tokens memory (op_token f # ts) (ev\<lparr>stack := t # s # stack ev\<rparr>)" "denotes (dictionary ev) t y"
    using Bin.IH(2) [of "ev\<lparr>stack := s # stack ev\<rparr>" y "op_token f # ts"] Bin.prems(1) xy(2) by auto
  have "length (op_token f) = 1" by (cases f) simp_all
  with evaluate_operator [OF s(2) t(2) xy(3), of memory "stack ev"] s(1) t(1)
  show ?case by (intro exI [of _ "stream_print v"]) (simp add: denotes_print)
next
  case (Deref a)
  then obtain get x where x: "memory = Some get" "meaning memory (dictionary ev) a = Some x" "get (ucast x) = Some v"
    by (auto simp: bind_eq_Some_conv)
  obtain t where t: "evaluate_tokens memory (postfix a @ ''^'' # ts) ev =
      evaluate_tokens memory (''^'' # ts) (ev\<lparr>stack := t # stack ev\<rparr>)" "denotes (dictionary ev) t x"
    using Deref.IH [of ev x "''^'' # ts"] Deref.prems(1) x(2) by auto
  from evaluate_deref [OF t(2) x(1,3), of "stack ev"] t(1)
  show ?case by (intro exI [of _ "stream_print v"]) (simp add: denotes_print)
qed

text \<open>Sequences of assignments to variables, the form of a Windows program string.\<close>

fun run :: "'v::len word memory_region \<Rightarrow> (string \<rightharpoonup> 'v word) \<Rightarrow> (string \<times> expr) list \<Rightarrow> (string \<rightharpoonup> 'v word) option" where
  "run memory d [] = Some d"
| "run memory d ((x, e) # p) = do { v \<leftarrow> meaning memory d e; run memory (d(x \<mapsto> v)) p }"

fun mark :: "string list \<Rightarrow> (string \<rightharpoonup> bool) \<Rightarrow> (string \<rightharpoonup> bool)" where
  "mark [] a = a"
| "mark (x # xs) a = mark xs (a(x \<mapsto> True))"

definition assignments :: "(string \<times> expr) list \<Rightarrow> string list" where
  "assignments p = concat (map (\<lambda>(x, e). x # postfix e @ [''='']) p)"

definition program_ok :: "nat \<Rightarrow> (string \<times> expr) list \<Rightarrow> bool" where
  "program_ok w p \<longleftrightarrow> (\<forall>(x, e)\<in>set p. name_ok x \<and> hd x = CHR ''$'' \<and> expr_ok w e)"

lemma evaluate_assignment:
  fixes ev :: "'v::len word evaluator"
  assumes "name_ok x" and "hd x = CHR ''$''" and "expr_ok LENGTH('v) e" and "meaning memory (dictionary ev) e = Some v"
  shows "evaluate_tokens memory (x # postfix e @ ''='' # ts) ev =
    evaluate_tokens memory ts (ev\<lparr>dictionary := (dictionary ev)(x \<mapsto> v),
      assigned := map_option (\<lambda>a. a(x \<mapsto> True)) (assigned ev)\<rparr>)"
proof -
  have push: "evaluate_tokens memory (x # postfix e @ ''='' # ts) ev =
      evaluate_tokens memory (postfix e @ ''='' # ts) (ev\<lparr>stack := x # stack ev\<rparr>)"
    using name_plain [OF assms(1)] by (intro evaluate_plain) auto
  obtain t where t: "evaluate_tokens memory (postfix e @ ''='' # ts) (ev\<lparr>stack := x # stack ev\<rparr>) =
      evaluate_tokens memory (''='' # ts) (ev\<lparr>stack := t # x # stack ev\<rparr>)" "denotes (dictionary ev) t v"
    using evaluate_expression [of e memory "ev\<lparr>stack := x # stack ev\<rparr>" v "''='' # ts"] assms(3,4) by auto
  have "PopValue (ev\<lparr>stack := t # x # stack ev\<rparr>) = Some (Some v, ev\<lparr>stack := x # stack ev\<rparr>)"
    using t(2) by (simp add: denotes_def)
  moreover have "PopValueOrIdentifier False (ev\<lparr>stack := x # stack ev\<rparr>) =
      Some (POP_RESULT_IDENTIFIER x, ev\<lparr>stack := stack ev\<rparr>)" by (rule pop_name [OF assms(1)])
  ultimately have "EvaluateToken memory ''='' (ev\<lparr>stack := t # x # stack ev\<rparr>) =
      Some (True, ev\<lparr>dictionary := (dictionary ev)(x \<mapsto> v), assigned := map_option (\<lambda>a. a(x \<mapsto> True)) (assigned ev)\<rparr>)"
    using name_plain(1) [OF assms(1)] assms(2) by (simp add: EvaluateToken_def binary_operation_def)
  with push t(1) show ?thesis by simp
qed

lemma evaluate_program:
  fixes ev :: "'v::len word evaluator"
  assumes "program_ok LENGTH('v) p" and "run memory (dictionary ev) p = Some d"
  shows "evaluate_tokens memory (assignments p) ev = Some (True, ev\<lparr>dictionary := d,
    assigned := map_option (mark (map fst p)) (assigned ev)\<rparr>)"
  using assms
proof (induction p arbitrary: ev)
  case Nil
  then show ?case by (cases ev; cases "assigned ev") (simp_all add: assignments_def)
next
  case (Cons q p)
  obtain x e where q: "q = (x, e)" by fastforce
  with Cons.prems obtain v where v: "meaning memory (dictionary ev) e = Some v"
      "run memory ((dictionary ev)(x \<mapsto> v)) p = Some d" by (auto simp: bind_eq_Some_conv)
  have ok: "name_ok x" "hd x = CHR ''$''" "expr_ok LENGTH('v) e" "program_ok LENGTH('v) p"
    using Cons.prems(1) q by (auto simp: program_ok_def)
  let ?ev = "ev\<lparr>dictionary := (dictionary ev)(x \<mapsto> v), assigned := map_option (\<lambda>a. a(x \<mapsto> True)) (assigned ev)\<rparr>"
  have "evaluate_tokens memory (assignments (q # p)) ev = evaluate_tokens memory (assignments p) ?ev"
    using evaluate_assignment [OF ok(1-3) v(1), of "assignments p"] q by (simp add: assignments_def)
  also have "\<dots> = Some (True, ?ev\<lparr>dictionary := d,
      assigned := map_option (mark (map fst p)) (assigned ?ev)\<rparr>)"
    by (rule Cons.IH [OF ok(4)]) (use v(2) in \<open>simp add: fun_upd_def\<close>)
  finally show ?case using q by (cases "assigned ev") simp_all
qed

text \<open>The tokens of the text are the tokens it was joined from.\<close>

definition unwords :: "string list \<Rightarrow> string" where
  "unwords ts = join_words (CHR '' '') ts"

lemma tokens_of_unwords:
  assumes "\<forall>t\<in>set ts. is_word stream_space t" shows "tokens_of stream_space (unwords ts) = ts"
  using assms
proof (induction ts)
  case Nil
  then show ?case by (simp add: unwords_def join_words_def tokens_of.simps strtok_r_def)
next
  case (Cons t ts)
  have "strtok_r stream_space (unwords (t # ts)) = (Some t, unwords ts)"
    using strtok_r_word [of stream_space t "CHR '' ''" "unwords ts"] Cons.prems by (simp add: unwords_def join_words_def)
  with Cons show ?case by (simp add: tokens_of.simps [of _ "unwords (t # ts)"])
qed

lemma name_word: "name_ok x \<Longrightarrow> is_word stream_space x"
  by (simp only: name_ok_def)

lemma postfix_words: "expr_ok w e \<Longrightarrow> \<forall>t\<in>set (postfix e). is_word stream_space t"
proof (induction e)
  case (Lit n)
  have "print_number 10 n \<noteq> []" "\<forall>c\<in>set (print_number 10 n). is_digit 10 c" using print_number_value [of 10 n] by auto
  moreover have "c \<notin> set stream_space" if "is_digit 10 c" for c
    using is_digit_plain(1) [OF that] by (auto simp: isspace_def)
  ultimately show ?case by (auto simp: is_word_def)
next
  case (Bin f a b)
  have "is_word stream_space (op_token f)" by (cases f) (simp_all add: is_word_def)
  with Bin show ?case by auto
qed (simp_all add: name_word, simp add: is_word_def)

lemma assignments_words: "program_ok w p \<Longrightarrow> \<forall>t\<in>set (assignments p). is_word stream_space t"
proof
  fix t assume "program_ok w p" "t \<in> set (assignments p)"
  then obtain x e where "(x, e) \<in> set p" "name_ok x" "expr_ok w e" "t = x \<or> t \<in> set (postfix e) \<or> t = ''=''"
    by (auto simp: assignments_def program_ok_def)
  moreover have "is_word stream_space ''=''" by (simp add: is_word_def)
  ultimately show "is_word stream_space t" using postfix_words [of w e] name_word [of x] by blast
qed

lemma EvaluateForValue_postfix:
  fixes ev :: "'v::len word evaluator"
  assumes "expr_ok LENGTH('v) e" and "meaning memory (dictionary ev) e = Some v" and "stack ev = []"
  shows "EvaluateForValue memory (unwords (postfix e)) ev = Some (Some v, ev\<lparr>assigned := None\<rparr>)"
proof -
  obtain t where "evaluate_tokens memory (postfix e @ []) (ev\<lparr>assigned := None\<rparr>) =
      evaluate_tokens memory [] (ev\<lparr>assigned := None, stack := [t]\<rparr>)" "denotes (dictionary ev) t v"
    using evaluate_expression [of e memory "ev\<lparr>assigned := None\<rparr>" v "[]"] assms by auto
  then show ?thesis
    using tokens_of_unwords [OF postfix_words [OF assms(1)]] assms(3)
    by (simp add: EvaluateForValue_def EvaluateInternal_def denotes_def)
qed

section \<open>Properties\<close>

text \<open>
  C27: \<open>Evaluate\<close> runs a program string as the sequence of its assignments: when every
  expression has a value (its variables are defined, the memory it reads is there, no
  division by zero), the call succeeds, the dictionary is the one the assignments lead to,
  exactly the assigned variables are reported in \<open>assigned\<close>, and the stack is empty.
\<close>

theorem Evaluate_program:
  fixes ev :: "'v::len word evaluator"
  assumes "program_ok LENGTH('v) p" and "run memory (dictionary ev) p = Some d" and "stack ev = []"
  shows "Evaluate memory (unwords (assignments p)) ev = Some (True, ev\<lparr>dictionary := d,
    assigned := map_option (mark (map fst p)) (assigned ev)\<rparr>)"
  using evaluate_program [OF assms(1,2)] assms(3) tokens_of_unwords [OF assignments_words [OF assms(1)]]
  by (simp add: Evaluate_def EvaluateInternal_def)

theorem Evaluate_program_witness:
  "Evaluate None ''$T0 ebp 4 + = '' \<lparr>dictionary = [''ebp'' \<mapsto> (16::u32)], assigned = None, stack = []\<rparr> =
   Some (True, \<lparr>dictionary = [''ebp'' \<mapsto> 16, ''$T0'' \<mapsto> 20], assigned = None, stack = []\<rparr>)"
proof -
  let ?p = "[(''$T0'', Bin BINARY_OP_ADD (Var ''ebp'') (Lit 4))]"
  let ?ev = "\<lparr>dictionary = [''ebp'' \<mapsto> (16::u32)], assigned = None, stack = []\<rparr>"
  have ok: "program_ok LENGTH(32) ?p" by (simp add: program_ok_def name_ok_def is_word_def)
  have run: "run None (dictionary ?ev) ?p = Some [''ebp'' \<mapsto> 16, ''$T0'' \<mapsto> 20]" by simp
  have str: "unwords (assignments ?p) = ''$T0 ebp 4 + = ''"
    by code_simp
  from Evaluate_program [OF ok run] str show ?thesis by simp
qed

text \<open>
  \<open>EvaluateForValue\<close> computes the value of an expression, with the wrap-around of the
  word width, and leaves the dictionary unchanged.
\<close>

theorem EvaluateForValue_expression:
  fixes ev :: "'v::len word evaluator"
  assumes "expr_ok LENGTH('v) e" and "meaning memory (dictionary ev) e = Some v" and "stack ev = []"
  shows "EvaluateForValue memory (unwords (postfix e)) ev = Some (Some v, ev\<lparr>assigned := None\<rparr>)"
  by (rule EvaluateForValue_postfix [OF assms])

theorem EvaluateForValue_expression_witness:
  "EvaluateForValue (Some (\<lambda>a. if a = 24 then Some 7 else None)) ''esp 8 + ^ ''
     \<lparr>dictionary = [''esp'' \<mapsto> (16::u32)], assigned = None, stack = []\<rparr> =
   Some (Some 7, \<lparr>dictionary = [''esp'' \<mapsto> 16], assigned = None, stack = []\<rparr>)"
proof -
  let ?e = "Deref (Bin BINARY_OP_ADD (Var ''esp'') (Lit 8))"
  let ?ev = "\<lparr>dictionary = [''esp'' \<mapsto> (16::u32)], assigned = None, stack = []\<rparr>"
  have ok: "expr_ok LENGTH(32) ?e" by (simp add: name_ok_def is_word_def)
  have val: "meaning (Some (\<lambda>a. if a = 24 then Some 7 else None)) (dictionary ?ev) ?e = Some 7" by simp
  have str: "unwords (postfix ?e) = ''esp 8 + ^ ''"
    by code_simp
  from EvaluateForValue_expression [OF ok val] str show ?thesis by simp
qed

text \<open>
  C28: an assignment whose target is a negative number is undefined: \<open>EvaluateToken\<close> asks for
  an identifier without giving room for a value, and \<open>PopValueOrIdentifier\<close> negates the
  literal through the null pointer. So is a division by zero.
\<close>

theorem EvaluateToken_undefined:
  fixes ev :: "'v::len word evaluator"
  assumes "denotes (dictionary ev) t v" and "n < 2 ^ LENGTH('v)" and "denotes (dictionary ev) s 0"
    and "denotes (dictionary ev) u w"
  shows "EvaluateToken memory ''='' (ev\<lparr>stack := t # (CHR ''-'' # print_number 10 n) # r\<rparr>) = None \<and>
    EvaluateToken memory ''/'' (ev\<lparr>stack := s # u # r\<rparr>) = None \<and>
    EvaluateToken memory ''%'' (ev\<lparr>stack := s # u # r\<rparr>) = None"
  using assms stream_read_print(1) [OF assms(2)]
  by (simp add: EvaluateToken_def binary_operation_def PopValues_def denotes_def PopValueOrIdentifier_def Let_def)

theorem EvaluateToken_undefined_witness:
  "EvaluateToken None ''='' (\<lparr>dictionary = Map.empty, assigned = None,
     stack = [stream_print (3::u32), CHR ''-'' # print_number 10 5]\<rparr> :: u32 evaluator) = None"
  using EvaluateToken_undefined [of "\<lparr>dictionary = Map.empty, assigned = None, stack = []\<rparr>"
      "stream_print (3::u32)" "3::u32" 5 "stream_print (0::u32)" "stream_print (0::u32)" 0 None "[]"]
  by (simp add: denotes_print)

end
