(* ===== verification/CFI_Frame_Info.thy ===== *)
theory CFI_Frame_Info
  imports Postfix_Evaluator Std_Map "HOL-Library.List_Lexorder" "HOL-Library.Char_ord"
begin

text \<open>
  \<open>CFIFrameInfo\<close>, \<open>CFIRuleParser\<close>, \<open>CFIFrameInfoParseHandler\<close> and \<open>SimpleCFIWalker\<close>
  (processor/cfi_frame_info.h, cfi_frame_info.cc, cfi_frame_info-inl.h). A rule is the text
  of a postfix expression; a \<open>map<string, string>\<close> is ordered like \<open>std::string\<close>, by the
  unsigned values of the characters, which is the order of the library's lists of characters.
  A register value map that is only looked up is a partial function. As in the evaluator the
  outer \<^const>\<open>None\<close> of a result is undefined behaviour.
\<close>

section \<open>Rules\<close>

record CFIFrameInfo =
  cfa_rule :: string
  ra_rule :: string
  register_rules :: "(string, string) std_map"

definition CFIFrameInfo_new :: CFIFrameInfo where
  "CFIFrameInfo_new = \<lparr>cfa_rule = [], ra_rule = [], register_rules = []\<rparr>"

definition SetCFARule :: "string \<Rightarrow> CFIFrameInfo \<Rightarrow> CFIFrameInfo" where
  "SetCFARule expression info = info\<lparr>cfa_rule := expression\<rparr>"

definition SetRARule :: "string \<Rightarrow> CFIFrameInfo \<Rightarrow> CFIFrameInfo" where
  "SetRARule expression info = info\<lparr>ra_rule := expression\<rparr>"

definition SetRegisterRule :: "string \<Rightarrow> string \<Rightarrow> CFIFrameInfo \<Rightarrow> CFIFrameInfo" where
  "SetRegisterRule register_name expression info =
     info\<lparr>register_rules := std_assign register_name expression (register_rules info)\<rparr>"

text \<open>\<open>working = registers\<close> before every evaluation: each rule starts from the callee's registers.\<close>

definition evaluate_rule ::
    "'v::len word memory_region \<Rightarrow> (string \<rightharpoonup> 'v word) \<Rightarrow> string \<Rightarrow> 'v word option option" where
  "evaluate_rule memory working rule =
     map_option fst (EvaluateForValue memory rule \<lparr>dictionary = working, assigned = None, stack = []\<rparr>)"

fun register_rules_loop ::
    "'v::len word memory_region \<Rightarrow> (string \<rightharpoonup> 'v word) \<Rightarrow> (string \<times> string) list \<Rightarrow>
     (string \<rightharpoonup> 'v word) \<Rightarrow> (string \<rightharpoonup> 'v word) option option" where
  "register_rules_loop memory working [] caller_registers = Some (Some caller_registers)"
| "register_rules_loop memory working ((name, rule) # rules) caller_registers = do {
     value' \<leftarrow> evaluate_rule memory working rule;
     (case value' of
        None \<Rightarrow> Some None
      | Some value' \<Rightarrow> register_rules_loop memory working rules (caller_registers(name \<mapsto> value'))) }"

definition FindCallerRegs ::
    "CFIFrameInfo \<Rightarrow> (string \<rightharpoonup> 'v::len word) \<Rightarrow> 'v word memory_region \<Rightarrow> (string \<rightharpoonup> 'v word) option option" where
  "FindCallerRegs info registers memory =
     (if cfa_rule info = [] \<or> ra_rule info = [] then Some None
      else do {
        cfa \<leftarrow> evaluate_rule memory registers (cfa_rule info);
        (case cfa of
           None \<Rightarrow> Some None
         | Some cfa \<Rightarrow> do {
             let working = registers(''.cfa'' \<mapsto> cfa);
             ra \<leftarrow> evaluate_rule memory working (ra_rule info);
             (case ra of
                None \<Rightarrow> Some None
              | Some ra \<Rightarrow> do {
                  found \<leftarrow> register_rules_loop memory working (register_rules info) Map.empty;
                  (case found of
                     None \<Rightarrow> Some None
                   | Some caller_registers \<Rightarrow>
                       Some (Some (caller_registers(''.ra'' \<mapsto> ra, ''.cfa'' \<mapsto> cfa)))) }) }) })"

fun serialize_rules :: "string \<Rightarrow> (string \<times> string) list \<Rightarrow> string" where
  "serialize_rules stream [] = stream"
| "serialize_rules stream ((name, rule) # rules) =
     serialize_rules ((if stream \<noteq> [] then stream @ '' '' else stream) @ name @ '': '' @ rule) rules"

definition CFIFrameInfo_Serialize :: "CFIFrameInfo \<Rightarrow> string" where
  "CFIFrameInfo_Serialize info =
     (let stream = (if cfa_rule info \<noteq> [] then ''.cfa: '' @ cfa_rule info else []);
          stream = (if ra_rule info \<noteq> []
                    then (if stream \<noteq> [] then stream @ '' '' else stream) @ ''.ra: '' @ ra_rule info
                    else stream)
      in serialize_rules stream (register_rules info))"

section \<open>The rule parser\<close>

definition token_breaks :: string where
  "token_breaks = [CHR '' '', CHR 0x09, CHR 0x0D, CHR 0x0A]"

text \<open>\<open>Report\<close> with the handler \<open>CFIFrameInfoParseHandler\<close>.\<close>

definition Report :: "string \<Rightarrow> string \<Rightarrow> CFIFrameInfo \<Rightarrow> bool \<times> CFIFrameInfo" where
  "Report name expression info =
     (if name = [] \<or> expression = [] then (False, info)
      else if name = ''.cfa'' then (True, SetCFARule expression info)
      else if name = ''.ra'' then (True, SetRARule expression info)
      else (True, SetRegisterRule name expression info))"

fun parse_rules :: "string list \<Rightarrow> string \<Rightarrow> string \<Rightarrow> CFIFrameInfo \<Rightarrow> bool \<times> CFIFrameInfo" where
  "parse_rules [] name expression info = Report name expression info"
| "parse_rules (token # tokens) name expression info =
     (if length token \<ge> 1 \<and> last token = CHR '':'' then
        (if length token < 2 then (False, info)
         else if name \<noteq> [] \<or> expression \<noteq> [] then
           (case Report name expression info of (ok, info) \<Rightarrow>
            if \<not> ok then (False, info) else parse_rules tokens (butlast token) [] info)
         else parse_rules tokens (butlast token) [] info)
      else parse_rules tokens name
             ((if expression \<noteq> [] then expression @ '' '' else expression) @ token) info)"

definition CFIRuleParser_Parse :: "string \<Rightarrow> CFIFrameInfo \<Rightarrow> bool \<times> CFIFrameInfo" where
  "CFIRuleParser_Parse rule_set info =
     parse_rules (tokens_of token_breaks (vector_string (StringToVector rule_set))) [] [] info"

definition ParseCFIRuleSet :: "string \<Rightarrow> CFIFrameInfo \<Rightarrow> bool \<times> CFIFrameInfo" where
  "ParseCFIRuleSet rule_set frame_info = CFIRuleParser_Parse rule_set frame_info"

section \<open>The walker\<close>

text \<open>
  A pointer to a member of the raw context is its selector and its update; \<open>'c\<close> is the raw
  context. The context filled with \<open>0xda\<close> by \<open>memset\<close> is a parameter.
\<close>

record ('c, 'v) RegisterSet =
  reg_name :: string
  alternate_name :: "string option"
  callee_saves :: bool
  validity_flag :: u32
  context_get :: "'c \<Rightarrow> 'v"
  context_set :: "'v \<Rightarrow> 'c \<Rightarrow> 'c"

fun callee_registers_of :: "('c, 'v) RegisterSet list \<Rightarrow> 'c \<Rightarrow> u32 \<Rightarrow> (string \<rightharpoonup> 'v) \<Rightarrow> (string \<rightharpoonup> 'v)" where
  "callee_registers_of [] callee_context callee_validity m = m"
| "callee_registers_of (r # rs) callee_context callee_validity m =
     callee_registers_of rs callee_context callee_validity
       (if callee_validity AND validity_flag r \<noteq> 0 then m(reg_name r \<mapsto> context_get r callee_context) else m)"

definition caller_value :: "('c, 'v) RegisterSet \<Rightarrow> 'c \<Rightarrow> u32 \<Rightarrow> (string \<rightharpoonup> 'v) \<Rightarrow> 'v option" where
  "caller_value r callee_context callee_validity caller_registers =
     (case caller_registers (reg_name r) of
        Some v \<Rightarrow> Some v
      | None \<Rightarrow>
          (case Option.bind (alternate_name r) caller_registers of
             Some v \<Rightarrow> Some v
           | None \<Rightarrow>
               if callee_saves r \<and> callee_validity AND validity_flag r \<noteq> 0
               then Some (context_get r callee_context) else None))"

fun fill_caller_context ::
    "('c, 'v) RegisterSet list \<Rightarrow> 'c \<Rightarrow> u32 \<Rightarrow> (string \<rightharpoonup> 'v) \<Rightarrow> 'c \<times> u32 \<Rightarrow> 'c \<times> u32" where
  "fill_caller_context [] callee_context callee_validity caller_registers acc = acc"
| "fill_caller_context (r # rs) callee_context callee_validity caller_registers (caller_context, caller_validity) =
     fill_caller_context rs callee_context callee_validity caller_registers
       (case caller_value r callee_context callee_validity caller_registers of
          Some v \<Rightarrow> (context_set r v caller_context, caller_validity OR validity_flag r)
        | None \<Rightarrow> (caller_context, caller_validity))"

definition FindCallerRegisters ::
    "('c, 'v::len word) RegisterSet list \<Rightarrow> 'c \<Rightarrow> 'v word memory_region \<Rightarrow> CFIFrameInfo \<Rightarrow> 'c \<Rightarrow> u32 \<Rightarrow>
     ('c \<times> u32) option option" where
  "FindCallerRegisters register_map filled_da memory cfi_frame_info callee_context callee_validity = do {
     found \<leftarrow> FindCallerRegs cfi_frame_info
       (callee_registers_of register_map callee_context callee_validity Map.empty) memory;
     (case found of
        None \<Rightarrow> Some None
      | Some caller_registers \<Rightarrow>
          Some (Some (fill_caller_context register_map callee_context callee_validity caller_registers
            (filled_da, 0)))) }"

section \<open>Finding the caller's registers\<close>

lemma register_rules_loop_found:
  assumes "distinct (map fst rules)"
  shows "register_rules_loop memory w rules m = Some (Some out) \<longleftrightarrow>
    (\<forall>p\<in>set rules. \<exists>v. evaluate_rule memory w (snd p) = Some (Some v)) \<and>
    out = (\<lambda>n. case map_of rules n of None \<Rightarrow> m n | Some r \<Rightarrow> the (evaluate_rule memory w r))"
  using assms
proof (induction rules arbitrary: m)
  case Nil
  then show ?case by (auto simp: fun_eq_iff)
next
  case (Cons p rules)
  obtain n r where p: "p = (n, r)" by fastforce
  have n: "map_of rules n = None" using Cons.prems p by (auto simp: map_of_eq_None_iff)
  show ?case
  proof (cases "\<exists>v. evaluate_rule memory w r = Some (Some v)")
    case True
    then obtain v where v: "evaluate_rule memory w r = Some (Some v)" by blast
    have "(\<lambda>k. case map_of rules k of None \<Rightarrow> (m(n \<mapsto> v)) k | Some r \<Rightarrow> the (evaluate_rule memory w r)) =
        (\<lambda>k. case map_of (p # rules) k of None \<Rightarrow> m k | Some r \<Rightarrow> the (evaluate_rule memory w r))"
      using p n v by (auto simp: fun_eq_iff split: option.splits)
    with Cons.IH [of "m(n \<mapsto> v)"] Cons.prems p v show ?thesis by (simp add: fun_upd_def)
  next
    case False
    then have "evaluate_rule memory w r = None \<or> evaluate_rule memory w r = Some None"
      by (metis not_Some_eq)
    with False p show ?thesis by auto
  qed
qed

text \<open>
  C18: \<open>FindCallerRegs\<close> succeeds exactly when there are rules for the CFA and for the return
  address and every rule has a value; the CFA is computed from the callee's registers, every
  other rule from these and the CFA, no rule sees the result of another, and the result holds
  the value of each rule and the two pseudo registers, nothing else.
\<close>

theorem FindCallerRegs_correct:
  assumes "std_map_inv (register_rules info)"
  shows "FindCallerRegs info registers memory = Some (Some out) \<longleftrightarrow>
    cfa_rule info \<noteq> [] \<and> ra_rule info \<noteq> [] \<and>
    (\<exists>cfa ra. evaluate_rule memory registers (cfa_rule info) = Some (Some cfa) \<and>
       evaluate_rule memory (registers(''.cfa'' \<mapsto> cfa)) (ra_rule info) = Some (Some ra) \<and>
       (\<forall>p\<in>set (register_rules info). \<exists>v. evaluate_rule memory (registers(''.cfa'' \<mapsto> cfa)) (snd p) = Some (Some v)) \<and>
       out = (\<lambda>n. if n = ''.cfa'' then Some cfa else if n = ''.ra'' then Some ra
         else case map_of (register_rules info) n of None \<Rightarrow> None
              | Some r \<Rightarrow> the (evaluate_rule memory (registers(''.cfa'' \<mapsto> cfa)) r)))"
    (is "?L \<longleftrightarrow> ?R")
proof -
  note loop = register_rules_loop_found [OF std_map_inv_distinct [OF assms], of memory _ Map.empty]
  let ?out = "\<lambda>cfa ra n. if n = ''.cfa'' then Some cfa else if n = ''.ra'' then Some ra
    else case map_of (register_rules info) n of None \<Rightarrow> None
         | Some r \<Rightarrow> the (evaluate_rule memory (registers(''.cfa'' \<mapsto> cfa)) r)"
  have upd: "m(''.ra'' \<mapsto> ra, ''.cfa'' \<mapsto> cfa) =
      (\<lambda>n. if n = ''.cfa'' then Some cfa else if n = ''.ra'' then Some ra else m n)" for m cfa ra
    by (simp add: fun_eq_iff)
  show ?thesis
  proof
    assume ?L
    then obtain cfa ra m where "cfa_rule info \<noteq> []" "ra_rule info \<noteq> []"
        "evaluate_rule memory registers (cfa_rule info) = Some (Some cfa)"
        "evaluate_rule memory (registers(''.cfa'' \<mapsto> cfa)) (ra_rule info) = Some (Some ra)"
        "register_rules_loop memory (registers(''.cfa'' \<mapsto> cfa)) (register_rules info) Map.empty = Some (Some m)"
        "out = m(''.ra'' \<mapsto> ra, ''.cfa'' \<mapsto> cfa)"
      unfolding FindCallerRegs_def Let_def
      by (auto split: if_splits option.splits simp: bind_eq_Some_conv)
    then show ?R unfolding upd loop by auto
  next
    assume ?R
    then obtain cfa ra where "cfa_rule info \<noteq> []" "ra_rule info \<noteq> []"
        "evaluate_rule memory registers (cfa_rule info) = Some (Some cfa)"
        "evaluate_rule memory (registers(''.cfa'' \<mapsto> cfa)) (ra_rule info) = Some (Some ra)" and
      rest: "\<forall>p\<in>set (register_rules info). \<exists>v. evaluate_rule memory (registers(''.cfa'' \<mapsto> cfa)) (snd p) = Some (Some v)"
        "out = ?out cfa ra" by blast
    moreover have "register_rules_loop memory (registers(''.cfa'' \<mapsto> cfa)) (register_rules info) Map.empty =
        Some (Some (\<lambda>n. case map_of (register_rules info) n of None \<Rightarrow> None
          | Some r \<Rightarrow> the (evaluate_rule memory (registers(''.cfa'' \<mapsto> cfa)) r)))"
      unfolding loop using rest(1) by (auto simp: fun_eq_iff split: option.splits)
    ultimately show ?L by (simp add: FindCallerRegs_def Let_def upd)
  qed
qed

lemma evaluate_rule_postfix:
  fixes v :: "'v::len word"
  assumes "expr_ok LENGTH('v) e" and "meaning memory w e = Some v"
  shows "evaluate_rule memory w (unwords (postfix e)) = Some (Some v)"
  using EvaluateForValue_postfix [of e memory "\<lparr>dictionary = w, assigned = None, stack = []\<rparr>" v] assms
  by (simp add: evaluate_rule_def)

definition example_rules :: CFIFrameInfo where
  "example_rules = \<lparr>cfa_rule = unwords (postfix (Bin BINARY_OP_ADD (Var ''esp'') (Lit 4))),
     ra_rule = unwords (postfix (Deref (Bin BINARY_OP_SUBTRACT (Var ''.cfa'') (Lit 4)))), register_rules = []\<rparr>"

theorem FindCallerRegs_correct_witness:
  "\<exists>out. FindCallerRegs example_rules [''esp'' \<mapsto> (16::u32)] (Some (\<lambda>a. if a = 16 then Some 99 else None)) =
     Some (Some out) \<and> out ''.ra'' = Some 99"
proof -
  let ?mem = "Some (\<lambda>a. if a = 16 then Some (99::u32) else None)"
  have inv: "std_map_inv (register_rules example_rules)" by (simp add: example_rules_def)
  have ne: "cfa_rule example_rules \<noteq> []" "ra_rule example_rules \<noteq> []"
    by (simp_all add: example_rules_def unwords_def join_words_def)
  have "evaluate_rule ?mem [''esp'' \<mapsto> (16::u32)] (cfa_rule example_rules) = Some (Some 20)"
    unfolding example_rules_def CFIFrameInfo.simps
    by (rule evaluate_rule_postfix) (simp_all add: name_ok_def is_word_def)
  moreover have "evaluate_rule ?mem [''esp'' \<mapsto> 16, ''.cfa'' \<mapsto> (20::u32)] (ra_rule example_rules) = Some (Some 99)"
    unfolding example_rules_def CFIFrameInfo.simps
    by (rule evaluate_rule_postfix) (simp_all add: name_ok_def is_word_def)
  ultimately show ?thesis
    using FindCallerRegs_correct [OF inv, of "[''esp'' \<mapsto> (16::u32)]" ?mem] ne by (simp add: example_rules_def)
qed

section \<open>Parsing what was serialized\<close>

fun spaced :: "string list \<Rightarrow> string" where
  "spaced [] = []"
| "spaced [w] = w"
| "spaced (w # ws) = w @ '' '' @ spaced ws"

lemma spaced_Cons: "ws \<noteq> [] \<Longrightarrow> spaced (w # ws) = w @ '' '' @ spaced ws"
  by (cases ws) simp_all

lemma spaced_append: "xs \<noteq> [] \<Longrightarrow> ys \<noteq> [] \<Longrightarrow> spaced (xs @ ys) = spaced xs @ '' '' @ spaced ys"
  by (induction xs rule: spaced.induct) (simp_all add: spaced_Cons)

lemma tokens_of_spaced:
  assumes "\<forall>w\<in>set ws. is_word token_breaks w" shows "tokens_of token_breaks (spaced ws) = ws"
  using assms
proof (induction ws rule: spaced.induct)
  case 1
  then show ?case by (simp add: tokens_of.simps strtok_r_def)
next
  case (2 w)
  then show ?case by (simp add: tokens_of.simps [of _ w] strtok_r_last) (simp add: tokens_of.simps strtok_r_def)
next
  case (3 w v ws)
  have "strtok_r token_breaks (spaced (w # v # ws)) = (Some w, spaced (v # ws))"
    using strtok_r_word [of token_breaks w "CHR '' ''" "spaced (v # ws)"] 3 by (simp add: token_breaks_def)
  then show ?case by (subst tokens_of.simps) (use 3 in simp)
qed

text \<open>Rules in the form the parser produces: words separated by one space, none ends in a colon.\<close>

definition rule_words :: "string \<Rightarrow> string list" where
  "rule_words rule = tokens_of token_breaks rule"

definition rule_ok :: "string \<Rightarrow> bool" where
  "rule_ok rule \<longleftrightarrow> rule = spaced (rule_words rule) \<and> rule_words rule \<noteq> [] \<and>
     (\<forall>w\<in>set (rule_words rule). is_word token_breaks w \<and> last w \<noteq> CHR '':'' \<and> CHR 0x00 \<notin> set w)"

definition register_ok :: "string \<Rightarrow> bool" where
  "register_ok name \<longleftrightarrow> is_word token_breaks name \<and> CHR 0x00 \<notin> set name"

fun rules_tokens :: "(string \<times> string) list \<Rightarrow> string list" where
  "rules_tokens [] = []"
| "rules_tokens ((name, rule) # rules) = (name @ '':'') # rule_words rule @ rules_tokens rules"

lemma parse_words:
  assumes "\<forall>w\<in>set ws. is_word token_breaks w \<and> last w \<noteq> CHR '':''" and "ws \<noteq> []"
  shows "parse_rules (ws @ ts) name expression info =
    parse_rules ts name ((if expression \<noteq> [] then expression @ '' '' else []) @ spaced ws) info"
  using assms
proof (induction ws arbitrary: expression rule: spaced.induct)
  case (2 w)
  then show ?case by (simp add: is_word_def)
next
  case (3 w v ws)
  let ?e = "(if expression \<noteq> [] then expression @ '' '' else []) @ w"
  have w: "w \<noteq> []" "last w \<noteq> CHR '':''" using 3(2) by (auto simp: is_word_def)
  have "parse_rules ((w # v # ws) @ ts) name expression info = parse_rules ((v # ws) @ ts) name ?e info"
    using w by simp
  also have "\<dots> = parse_rules ts name ((if ?e \<noteq> [] then ?e @ '' '' else []) @ spaced (v # ws)) info"
    using 3 by (intro 3(1)) auto
  finally show ?case using w by simp
qed simp

text \<open>A list of rules is reported rule by rule, each when the next one begins.\<close>

fun report_all :: "(string \<times> string) list \<Rightarrow> CFIFrameInfo \<Rightarrow> CFIFrameInfo" where
  "report_all [] info = info"
| "report_all ((name, rule) # rules) info = report_all rules (snd (Report name rule info))"

lemma Report_True: "name \<noteq> [] \<Longrightarrow> rule \<noteq> [] \<Longrightarrow> fst (Report name rule info)"
  by (simp add: Report_def)

lemma rule_ok_nonempty: "rule_ok rule \<Longrightarrow> rule \<noteq> []"
proof
  assume ok: "rule_ok rule" and "rule = []"
  then have "rule_words rule = []" by (simp add: rule_words_def tokens_of.simps strtok_r_def)
  with ok show False by (simp add: rule_ok_def)
qed

lemma parse_rules_tokens:
  assumes "\<forall>p\<in>set ((name, rule) # rules). register_ok (fst p) \<and> rule_ok (snd p)"
  shows "parse_rules (rules_tokens rules) name rule info = (True, report_all ((name, rule) # rules) info)"
  using assms
proof (induction rules arbitrary: name rule info)
  case Nil
  then have "name \<noteq> []" "rule \<noteq> []" using rule_ok_nonempty by (auto simp: register_ok_def is_word_def)
  with Report_True [of name rule info] show ?case by (cases "Report name rule info") simp
next
  case (Cons q rules)
  obtain n r where q: "q = (n, r)" by fastforce
  have ne: "name \<noteq> []" "rule \<noteq> []" "n \<noteq> []" using Cons.prems q rule_ok_nonempty by (auto simp: register_ok_def is_word_def)
  have ws: "\<forall>w\<in>set (rule_words r). is_word token_breaks w \<and> last w \<noteq> CHR '':''" "rule_words r \<noteq> []"
      "spaced (rule_words r) = r" using Cons.prems q by (auto simp: rule_ok_def)
  obtain info' where i: "Report name rule info = (True, info')"
    using Report_True [of name rule info] ne by (cases "Report name rule info") auto
  have "parse_rules (rules_tokens (q # rules)) name rule info = parse_rules (rule_words r @ rules_tokens rules) n [] info'"
    using q ne i by (cases n) auto
  also have "\<dots> = parse_rules (rules_tokens rules) n r info'" using parse_words [OF ws(1,2), of "rules_tokens rules" n "[]"] ws(3) by simp
  also have "\<dots> = (True, report_all ((n, r) # rules) info')" using Cons q by (intro Cons.IH) auto
  finally show ?case using q i by simp
qed

definition all_rules :: "CFIFrameInfo \<Rightarrow> (string \<times> string) list" where
  "all_rules info = (if cfa_rule info = [] then [] else [(''.cfa'', cfa_rule info)]) @
     (if ra_rule info = [] then [] else [(''.ra'', ra_rule info)]) @ register_rules info"

definition cfi_ok :: "CFIFrameInfo \<Rightarrow> bool" where
  "cfi_ok info \<longleftrightarrow> std_map_inv (register_rules info) \<and> all_rules info \<noteq> [] \<and>
     (\<forall>p\<in>set (all_rules info). register_ok (fst p) \<and> rule_ok (snd p)) \<and>
     (\<forall>p\<in>set (register_rules info). fst p \<noteq> ''.cfa'' \<and> fst p \<noteq> ''.ra'')"

lemma rules_tokens_append: "rules_tokens (xs @ ys) = rules_tokens xs @ rules_tokens ys"
  by (induction xs rule: rules_tokens.induct) simp_all

lemma serialize_rules_spaced:
  assumes "\<forall>p\<in>set rules. rule_ok (snd p)" and "\<forall>p\<in>set done. rule_ok (snd p)"
  shows "serialize_rules (spaced (rules_tokens done)) rules = spaced (rules_tokens (done @ rules))"
  using assms
proof (induction rules arbitrary: "done")
  case (Cons p rules)
  obtain n r where p: "p = (n, r)" by fastforce
  have r: "r = spaced (rule_words r)" "rule_words r \<noteq> []" using Cons.prems(1) p by (auto simp: rule_ok_def)
  have one: "spaced (rules_tokens [p]) = n @ '': '' @ r" using r p by (simp add: spaced_Cons)
  have "(if spaced (rules_tokens done) \<noteq> [] then spaced (rules_tokens done) @ '' '' else spaced (rules_tokens done)) @
      n @ '': '' @ r = spaced (rules_tokens (done @ [p]))"
  proof (cases "done")
    case Nil
    then show ?thesis using one by simp
  next
    case (Cons q qs)
    obtain a b where q: "q = (a, b)" by fastforce
    have "rules_tokens done \<noteq> []" "rules_tokens [p] \<noteq> []" using Cons q p by simp_all
    moreover have "spaced (rules_tokens done) \<noteq> []"
      using Cons q by (cases "rule_words b @ rules_tokens qs") (simp_all add: spaced_Cons)
    ultimately show ?thesis using one by (simp add: rules_tokens_append spaced_append del: rules_tokens.simps)
  qed
  with Cons.IH [of "done @ [p]"] Cons.prems p show ?case by simp
qed simp

lemma Serialize_spaced:
  assumes "\<forall>p\<in>set (all_rules info). rule_ok (snd p)"
  shows "CFIFrameInfo_Serialize info = spaced (rules_tokens (all_rules info))"
proof -
  have split: "CFIFrameInfo_Serialize info = serialize_rules [] (all_rules info)"
    by (simp add: CFIFrameInfo_Serialize_def all_rules_def Let_def)
  show ?thesis unfolding split using serialize_rules_spaced [OF assms, of "[]"] by simp
qed

lemma report_registers:
  assumes "std_map_inv (done @ rules)" and "\<forall>p\<in>set rules. fst p \<noteq> ''.cfa'' \<and> fst p \<noteq> ''.ra'' \<and> fst p \<noteq> [] \<and> snd p \<noteq> []"
    and "register_rules info = done"
  shows "report_all rules info = info\<lparr>register_rules := done @ rules\<rparr>"
  using assms
proof (induction rules arbitrary: "done" info)
  case Nil
  then show ?case by (cases info) simp
next
  case (Cons p rules)
  obtain n r where p: "p = (n, r)" by fastforce
  have "std_assign n r done = done @ [p]"
  proof -
    have "\<forall>q\<in>set done. fst q < n" using Cons.prems(1) p by auto
    then show ?thesis using p by (induction "done") auto
  qed
  then have "snd (Report n r info) = info\<lparr>register_rules := done @ [p]\<rparr>"
    using Cons.prems p by (simp add: Report_def SetRegisterRule_def)
  moreover have "report_all rules (info\<lparr>register_rules := done @ [p]\<rparr>) =
      info\<lparr>register_rules := done @ [p]\<rparr>\<lparr>register_rules := (done @ [p]) @ rules\<rparr>"
    using Cons.prems by (intro Cons.IH) auto
  ultimately show ?case using p by simp
qed

lemma report_all_append: "report_all (xs @ ys) info = report_all ys (report_all xs info)"
  by (induction xs info rule: report_all.induct) simp_all

lemma report_all_rules:
  assumes "cfi_ok info" shows "report_all (all_rules info) CFIFrameInfo_new = info"
proof -
  let ?regs = "register_rules info"
  have ne: "\<forall>p\<in>set ?regs. fst p \<noteq> ''.cfa'' \<and> fst p \<noteq> ''.ra'' \<and> fst p \<noteq> [] \<and> snd p \<noteq> []"
    using assms rule_ok_nonempty by (auto simp: cfi_ok_def all_rules_def register_ok_def is_word_def)
  let ?i = "\<lparr>cfa_rule = cfa_rule info, ra_rule = ra_rule info, register_rules = []\<rparr>"
  have head: "report_all ((if cfa_rule info = [] then [] else [(''.cfa'', cfa_rule info)]) @
     (if ra_rule info = [] then [] else [(''.ra'', ra_rule info)])) CFIFrameInfo_new = ?i"
    by (simp add: CFIFrameInfo_new_def Report_def SetCFARule_def SetRARule_def)
  have "report_all ?regs ?i = ?i\<lparr>register_rules := [] @ ?regs\<rparr>"
    using assms ne by (intro report_registers) (auto simp: cfi_ok_def)
  then show ?thesis
    unfolding all_rules_def append_assoc [symmetric] report_all_append [of _ ?regs] head by (cases info) simp
qed

text \<open>
  C29: the rules a \<open>CFIFrameInfo\<close> holds, written by \<open>Serialize\<close> and parsed by
  \<open>CFIRuleParser\<close> into an empty one, give the same \<open>CFIFrameInfo\<close>.
\<close>

theorem CFI_Serialize_Parse:
  assumes "cfi_ok info"
  shows "ParseCFIRuleSet (CFIFrameInfo_Serialize info) CFIFrameInfo_new = (True, info)"
proof -
  let ?rs = "all_rules info"
  have ok: "\<forall>p\<in>set ?rs. register_ok (fst p) \<and> rule_ok (snd p)" "?rs \<noteq> []" using assms by (auto simp: cfi_ok_def)
  then obtain n r rs where rs: "?rs = (n, r) # rs" by (cases ?rs) auto
  have words: "\<forall>w\<in>set (rules_tokens rs). is_word token_breaks w \<and> CHR 0x00 \<notin> set w"
    if "\<forall>p\<in>set rs. register_ok (fst p) \<and> rule_ok (snd p)" for rs
    using that
  proof (induction rs rule: rules_tokens.induct)
    case (2 name rule rules)
    have "is_word token_breaks (name @ '':'')" "CHR 0x00 \<notin> set (name @ '':'')"
      using 2(2) by (auto simp: register_ok_def is_word_def token_breaks_def)
    moreover have "\<forall>w\<in>set (rule_words rule). is_word token_breaks w \<and> CHR 0x00 \<notin> set w"
      using 2(2) by (simp add: rule_ok_def)
    ultimately show ?case using 2 by (simp add: ball_Un)
  qed simp
  have ser: "CFIFrameInfo_Serialize info = spaced (rules_tokens ?rs)" using ok(1) by (intro Serialize_spaced) auto
  have nul: "CHR 0x00 \<notin> set (spaced ws)" if "\<forall>w\<in>set ws. CHR 0x00 \<notin> set w" for ws
    using that by (induction ws rule: spaced.induct) auto
  have "vector_string (StringToVector (spaced (rules_tokens ?rs))) = spaced (rules_tokens ?rs)"
    using words [OF ok(1)] by (intro vector_string_StringToVector nul) simp
  then have "ParseCFIRuleSet (CFIFrameInfo_Serialize info) CFIFrameInfo_new =
      parse_rules (rules_tokens ?rs) [] [] CFIFrameInfo_new"
    using tokens_of_spaced words [OF ok(1)] by (simp add: ParseCFIRuleSet_def CFIRuleParser_Parse_def ser)
  also have "\<dots> = parse_rules (rule_words r @ rules_tokens rs) n [] CFIFrameInfo_new"
    using rs ok(1) by (cases n) (auto simp: register_ok_def is_word_def)
  also have "\<dots> = parse_rules (rules_tokens rs) n r CFIFrameInfo_new"
    using parse_words [of "rule_words r" "rules_tokens rs" n "[]"] ok(1) rs by (auto simp: rule_ok_def)
  also have "\<dots> = (True, report_all ?rs CFIFrameInfo_new)" using ok(1) rs by (simp add: parse_rules_tokens)
  finally show ?thesis by (simp add: report_all_rules [OF assms])
qed

theorem CFI_Serialize_Parse_witness:
  "ParseCFIRuleSet ''.cfa: $esp 4 + $ebx: .cfa 8 - ^'' CFIFrameInfo_new =
     (True, \<lparr>cfa_rule = ''$esp 4 +'', ra_rule = [], register_rules = [(''$ebx'', ''.cfa 8 - ^'')]\<rparr>)"
proof -
  let ?info = "\<lparr>cfa_rule = ''$esp 4 +'', ra_rule = [], register_rules = [(''$ebx'', ''.cfa 8 - ^'')]\<rparr>"
  have w: "rule_words ''$esp 4 +'' = [''$esp'', ''4'', ''+'']" "rule_words ''.cfa 8 - ^'' = [''.cfa'', ''8'', ''-'', ''^'']"
    by code_simp+
  have ok: "cfi_ok ?info"
    by (simp add: cfi_ok_def all_rules_def register_ok_def rule_ok_def w is_word_def token_breaks_def)
  have ser: "CFIFrameInfo_Serialize ?info = ''.cfa: $esp 4 + $ebx: .cfa 8 - ^''" by code_simp
  from CFI_Serialize_Parse [OF ok] ser show ?thesis by simp
qed

section \<open>The walker's registers\<close>

text \<open>What the walker relies on: the registers are different members with different flags.\<close>

definition independent :: "('c, 'v) RegisterSet \<Rightarrow> ('c, 'v) RegisterSet \<Rightarrow> bool" where
  "independent r s \<longleftrightarrow> (\<forall>v c. context_get r (context_set s v c) = context_get r c \<and>
     context_get s (context_set r v c) = context_get s c) \<and> validity_flag r AND validity_flag s = 0"

locale register_file =
  fixes regs :: "('c, 'v) RegisterSet list"
  assumes get_set: "r \<in> set regs \<Longrightarrow> context_get r (context_set r v c) = v"
    and flag_set: "r \<in> set regs \<Longrightarrow> validity_flag r \<noteq> 0"
    and independent_registers: "sorted_wrt independent regs"
begin

lemma fill_frame:
  assumes "\<forall>s\<in>set rs. independent r s" and "fill_caller_context rs cc cv m (c, w) = (c', w')"
  shows "context_get r c' = context_get r c \<and> w' AND validity_flag r = w AND validity_flag r"
  using assms
proof (induction rs arbitrary: c w)
  case (Cons s rs)
  have ind: "context_get r (context_set s v x) = context_get r x" "validity_flag s AND validity_flag r = 0" for v x
    using Cons.prems(1) by (auto simp: independent_def and.commute)
  have "(w OR validity_flag s) AND validity_flag r = w AND validity_flag r"
    using ind(2) by (simp add: bit.conj_disj_distrib2)
  with Cons ind(1) show ?case by (cases "caller_value s cc cv m") auto
qed auto

lemma fill_registers:
  assumes "r \<in> set rs" and "set rs \<subseteq> set regs" and "sorted_wrt independent rs" and "w AND validity_flag r = 0"
    and "fill_caller_context rs cc cv m (c, w) = (c', w')"
  shows "case caller_value r cc cv m of
      Some x \<Rightarrow> context_get r c' = x \<and> w' AND validity_flag r \<noteq> 0
    | None \<Rightarrow> context_get r c' = context_get r c \<and> w' AND validity_flag r = 0"
  using assms
proof (induction rs arbitrary: c w)
  case (Cons s rs)
  obtain c1 w1 where step: "(case caller_value s cc cv m of
      Some v \<Rightarrow> (context_set s v c, w OR validity_flag s) | None \<Rightarrow> (c, w)) = (c1, w1)" by fastforce
  then have rest: "fill_caller_context rs cc cv m (c1, w1) = (c', w')" using Cons.prems(5) by simp
  show ?case
  proof (cases "r = s")
    case True
    have "\<forall>q\<in>set rs. independent r q" using Cons.prems(3) True by simp
    from fill_frame [OF this rest]
    have f: "context_get r c' = context_get r c1" "w' AND validity_flag r = w1 AND validity_flag r" by auto
    have "r \<in> set regs" using Cons.prems(2) True by simp
    note laws = get_set [OF this] flag_set [OF this]
    have "(w OR validity_flag r) AND validity_flag r = validity_flag r"
      using Cons.prems(4) by (simp add: bit.conj_disj_distrib2)
    with f laws step True Cons.prems(4) show ?thesis by (cases "caller_value r cc cv m") auto
  next
    case False
    then have r: "r \<in> set rs" using Cons.prems(1) by simp
    then have ind: "context_get r (context_set s v x) = context_get r x" "validity_flag s AND validity_flag r = 0" for v x
      using Cons.prems(3) by (auto simp: independent_def)
    then have w1: "w1 AND validity_flag r = 0" and c1: "context_get r c1 = context_get r c"
      using step Cons.prems(4) by (auto simp: bit.conj_disj_distrib2 split: option.splits)
    have "case caller_value r cc cv m of
      Some x \<Rightarrow> context_get r c' = x \<and> w' AND validity_flag r \<noteq> 0
    | None \<Rightarrow> context_get r c' = context_get r c1 \<and> w' AND validity_flag r = 0"
      using Cons.prems r w1 rest by (intro Cons.IH) auto
    with c1 show ?thesis by (simp split: option.splits)
  qed
qed simp

lemma recovered_registers:
  assumes "r \<in> set regs" and "fill_caller_context regs cc cv m (c, 0) = (c', w')"
  shows "case caller_value r cc cv m of
      Some x \<Rightarrow> context_get r c' = x \<and> w' AND validity_flag r \<noteq> 0
    | None \<Rightarrow> context_get r c' = context_get r c \<and> w' AND validity_flag r = 0"
  using fill_registers [OF assms(1) subset_refl independent_registers _ assms(2)] by simp

end

end
