(* ===== verification/Range_Lists.thy ===== *)
theory Range_Lists
  imports Range_Map "HOL-Library.Monad_Syntax"
begin

text \<open>
  Ranges stored one after the other into a \<open>RangeMap\<close> that keeps its ranges exclusive: code that
  fills a map from a list of disjoint ranges makes the map that finds, for every address, the
  range of the list that holds it.
\<close>

definition holds :: "u64 \<Rightarrow> u64 \<Rightarrow> u64 \<Rightarrow> bool" where
  "holds b s a \<longleftrightarrow> b \<le> a \<and> a \<le> b + (s - 1)"

definition valid_range :: "u64 \<Rightarrow> u64 \<Rightarrow> bool" where
  "valid_range b s \<longleftrightarrow> s \<noteq> 0 \<and> b \<le> b + (s - 1)"

definition disjoint_ranges :: "(u64 \<times> u64) list \<Rightarrow> bool" where
  "disjoint_ranges rs \<longleftrightarrow> list_all (\<lambda>(b, s). valid_range b s) rs \<and>
     sorted_wrt (\<lambda>(b, s) (b', s'). b + (s - 1) < b' \<or> b' + (s' - 1) < b) rs"

fun store_ranges :: "(u64 \<times> u64 \<times> 'e) list \<Rightarrow> 'e RangeMap \<Rightarrow> 'e RangeMap option" where
  "store_ranges [] m = Some m"
| "store_ranges ((b, s, e) # rs) m = do {
     (m, _) \<leftarrow> RangeMap_StoreRange m b s e;
     store_ranges rs m }"

abbreviation bounds_of :: "(u64 \<times> u64 \<times> 'e) list \<Rightarrow> (u64 \<times> u64) list" where
  "bounds_of rs \<equiv> map (\<lambda>(b, s, e). (b, s)) rs"

lemma disjoint_ranges_Nil [simp]: "disjoint_ranges []"
  by (simp add: disjoint_ranges_def)

lemma disjoint_ranges_Cons:
  assumes "disjoint_ranges ((b, s) # rs)"
  shows "valid_range b s" and "disjoint_ranges rs" and "(b', s') \<in> set rs \<Longrightarrow> \<not> (holds b s a \<and> holds b' s' a)"
  using assms by (auto simp: disjoint_ranges_def holds_def)

lemma store_ranges_defined:
  "range_map_inv m \<Longrightarrow> \<exists>m'. store_ranges rs m = Some m' \<and> range_map_inv m' \<and> merge_strategy m' = merge_strategy m"
proof (induction rs arbitrary: m)
  case (Cons r rs)
  obtain b s e where r: "r = (b, s, e)" by (cases r)
  obtain m1 ok where "RangeMap_StoreRange m b s e = Some (m1, ok)" "range_map_inv m1" "merge_strategy m1 = merge_strategy m"
    using StoreRange_defined [OF Cons.prems, of b s e] by blast
  with Cons.IH [of m1] show ?case by (auto simp: r)
qed simp

lemma store_ranges_lookup:
  assumes "range_map_inv m" and "merge_strategy m = kExclusiveRanges" and "disjoint_ranges (bounds_of rs)"
    and "\<forall>(b, s, e)\<in>set rs. \<forall>a. holds b s a \<longrightarrow> RangeMap_RetrieveRange m a = None"
    and "store_ranges rs m = Some m'"
  shows "RangeMap_RetrieveRange m' a =
    (case List.find (\<lambda>(b, s, e). holds b s a) rs of
       Some (b, s, e) \<Rightarrow> Some (e, b, 0, s) | None \<Rightarrow> RangeMap_RetrieveRange m a)"
  using assms
proof (induction rs arbitrary: m)
  case (Cons r rs)
  obtain b s e where r: "r = (b, s, e)" by (cases r)
  obtain m1 ok where m1: "RangeMap_StoreRange m b s e = Some (m1, ok)" "range_map_inv m1"
    "merge_strategy m1 = kExclusiveRanges"
    using StoreRange_defined [OF Cons.prems(1), of b s e] Cons.prems(2) by auto
  note look = exclusive_StoreRange_lookup [OF Cons.prems(1,2) m1(1)]
  have dis: "valid_range b s" "disjoint_ranges (bounds_of rs)"
    and apart: "(b', s') \<in> set (bounds_of rs) \<Longrightarrow> \<not> (holds b s a \<and> holds b' s' a)" for b' s' a
    using disjoint_ranges_Cons [of b s "bounds_of rs"] Cons.prems(3) by (auto simp: r)
  have ok: ok using look [of 0] Cons.prems(4) dis(1) by (auto simp: r valid_range_def holds_def)
  have look: "RangeMap_RetrieveRange m1 x = (if holds b s x then Some (e, b, 0, s) else RangeMap_RetrieveRange m x)" for x
    using look [of x] ok by (simp add: holds_def)
  have free: "\<forall>(b', s', e')\<in>set rs. \<forall>a. holds b' s' a \<longrightarrow> RangeMap_RetrieveRange m1 a = None"
    using Cons.prems(4) apart by (force simp: look)
  have rest: "store_ranges rs m1 = Some m'" using Cons.prems(5) m1(1) by (simp add: r)
  have none: "List.find (\<lambda>(b, s, e). holds b s a) rs = None" if "holds b s a"
    using apart that by (force simp: find_None_iff)
  show ?case
    using Cons.IH [OF m1(2,3) dis(2) free rest] none by (auto simp: r look split: option.splits)
qed simp

lemma store_ranges_new:
  assumes "disjoint_ranges (bounds_of rs)"
  obtains m where "store_ranges rs RangeMap_new = Some m" "range_map_inv m" "merge_strategy m = kExclusiveRanges"
    "\<And>a. RangeMap_RetrieveRange m a =
       map_option (\<lambda>(b, s, e). (e, b, 0, s)) (List.find (\<lambda>(b, s, e). holds b s a) rs)"
proof -
  have new: "merge_strategy (RangeMap_new :: 'a RangeMap) = kExclusiveRanges"
    "RangeMap_RetrieveRange (RangeMap_new :: 'a RangeMap) a = None" for a
    by (simp_all add: RangeMap_new_def RangeMap_RetrieveRange_def lower_bound_def)
  obtain m where m: "store_ranges rs RangeMap_new = Some m" "range_map_inv m" "merge_strategy m = kExclusiveRanges"
    using store_ranges_defined [OF range_map_inv_new, of rs] new(1) by auto
  have "RangeMap_RetrieveRange m a = map_option (\<lambda>(b, s, e). (e, b, 0, s)) (List.find (\<lambda>(b, s, e). holds b s a) rs)" for a
    using store_ranges_lookup [OF range_map_inv_new new(1) assms _ m(1)] by (simp add: new(2) split: option.splits)
  with m that show thesis by blast
qed

lemma find_holds:
  assumes "disjoint_ranges (bounds_of rs)" and "(b, s, e) \<in> set rs" and "holds b s a"
  shows "List.find (\<lambda>(b, s, e). holds b s a) rs = Some (b, s, e)"
  using assms
proof (induction rs)
  case (Cons r rs)
  obtain b' s' e' where r: "r = (b', s', e')" by (cases r)
  show ?case
  proof (cases "r = (b, s, e)")
    case False
    then have "(b, s, e) \<in> set rs" using Cons.prems(2) by auto
    moreover from this have "\<not> holds b' s' a"
      using disjoint_ranges_Cons(3) [of b' s' "bounds_of rs" b s a] Cons.prems(1,3) by (force simp: r)
    ultimately show ?thesis
      using Cons disjoint_ranges_Cons(2) [of b' s' "bounds_of rs"] by (simp add: r)
  qed (use Cons.prems(3) in simp)
qed simp

end
