(* ===== verification/Code_Modules.thy ===== *)
theory Code_Modules
  imports Resolver_Types Range_Lists
begin

text \<open>
  \<open>BasicCodeModule\<close> (processor/basic_code_module.h) and \<open>BasicCodeModules\<close>
  (processor/basic_code_modules.cc): the code modules of a process, keyed by their address
  ranges. The constructor takes any \<open>CodeModules\<close>; what it reads of it is its main module and
  the list of its modules by index. The modules are not changed once stored, so a
  \<open>linked_ptr\<close> to one is a value.
\<close>

section \<open>Model\<close>

record CodeModule =
  base_address :: u64
  module_size :: u64
  shrink_down_delta :: u64
  code_file :: string
  module_identifier :: string
  debug_file :: string
  debug_identifier :: string
  version :: string
  is_unloaded :: bool

definition CodeModule_new ::
    "u64 \<Rightarrow> u64 \<Rightarrow> string \<Rightarrow> string \<Rightarrow> string \<Rightarrow> string \<Rightarrow> string \<Rightarrow> bool \<Rightarrow> CodeModule" where
  "CodeModule_new base' size' file identifier dfile didentifier version' unloaded =
     \<lparr>base_address = base', module_size = size', shrink_down_delta = 0, code_file = file,
      module_identifier = identifier, debug_file = dfile, debug_identifier = didentifier,
      version = version', is_unloaded = unloaded\<rparr>"

definition SetShrinkDownDelta :: "u64 \<Rightarrow> CodeModule \<Rightarrow> CodeModule" where
  "SetShrinkDownDelta d m = m\<lparr>shrink_down_delta := d\<rparr>"

record BasicCodeModules =
  main_address :: u64
  modules_map :: "CodeModule RangeMap"
  shrunk_range_modules :: "CodeModule list"

text \<open>The two loops of the constructor.\<close>

fun store_modules :: "CodeModule list \<Rightarrow> CodeModule RangeMap \<Rightarrow> CodeModule RangeMap option" where
  "store_modules [] m = Some m"
| "store_modules (c # cs) m = do {
     (m, _) \<leftarrow> RangeMap_StoreRange m (base_address c) (module_size c) c;
     store_modules cs m }"

fun report_shrunk :: "CodeModule list \<Rightarrow> CodeModule RangeMap \<Rightarrow> CodeModule list" where
  "report_shrunk [] m = []"
| "report_shrunk (c # cs) m =
     (case RangeMap_RetrieveRange m (base_address c + module_size c - 1) of
        Some (found, _, d, _) \<Rightarrow>
          if d > 0 then SetShrinkDownDelta d found # report_shrunk cs m else report_shrunk cs m
      | None \<Rightarrow> report_shrunk cs m)"

definition BasicCodeModules_new ::
    "CodeModule option \<Rightarrow> CodeModule list \<Rightarrow> MergeRangeStrategy \<Rightarrow> BasicCodeModules option" where
  "BasicCodeModules_new main_module that_modules strategy = do {
     let main_address' = (case main_module of Some c \<Rightarrow> base_address c | None \<Rightarrow> 0);
     m \<leftarrow> store_modules that_modules (SetMergeStrategy RangeMap_new strategy);
     Some \<lparr>main_address = main_address', modules_map = m,
           shrunk_range_modules = report_shrunk that_modules m\<rparr> }"

definition module_count :: "BasicCodeModules \<Rightarrow> nat" where
  "module_count ms = RangeMap_GetCount (modules_map ms)"

definition GetModuleForAddress :: "BasicCodeModules \<Rightarrow> u64 \<Rightarrow> CodeModule option" where
  "GetModuleForAddress ms address = map_option fst (RangeMap_RetrieveRange (modules_map ms) address)"

definition GetMainModule :: "BasicCodeModules \<Rightarrow> CodeModule option" where
  "GetMainModule ms = GetModuleForAddress ms (main_address ms)"

definition GetModuleAtSequence :: "BasicCodeModules \<Rightarrow> nat \<Rightarrow> CodeModule option" where
  "GetModuleAtSequence ms sequence = map_option fst (RangeMap_RetrieveRangeAtIndex (modules_map ms) sequence)"

definition GetModuleAtIndex :: "BasicCodeModules \<Rightarrow> nat \<Rightarrow> CodeModule option" where
  "GetModuleAtIndex ms index = GetModuleAtSequence ms index"

definition modules_by_index :: "BasicCodeModules \<Rightarrow> CodeModule list" where
  "modules_by_index ms = map (\<lambda>i. the (GetModuleAtIndex ms i)) [0..<module_count ms]"

definition CodeModules_Copy :: "BasicCodeModules \<Rightarrow> BasicCodeModules option" where
  "CodeModules_Copy ms =
     BasicCodeModules_new (GetMainModule ms) (modules_by_index ms) (merge_strategy (modules_map ms))"

section \<open>Lookups\<close>

definition module_holds :: "CodeModule \<Rightarrow> u64 \<Rightarrow> bool" where
  "module_holds c a \<longleftrightarrow> base_address c \<le> a \<and> a \<le> base_address c + (module_size c - 1)"

definition module_valid :: "CodeModule \<Rightarrow> bool" where
  "module_valid c \<longleftrightarrow> module_size c \<noteq> 0 \<and> base_address c \<le> base_address c + (module_size c - 1)"

definition disjoint_modules :: "CodeModule list \<Rightarrow> bool" where
  "disjoint_modules cs \<longleftrightarrow> list_all module_valid cs \<and>
     sorted_wrt (\<lambda>c d. \<forall>a. \<not> (module_holds c a \<and> module_holds d a)) cs"

lemma SetMergeStrategy_simps [simp]:
  "merge_strategy (SetMergeStrategy m s) = s" "rm_map (SetMergeStrategy m s) = rm_map m"
  "range_map_inv (SetMergeStrategy m s) = range_map_inv m"
  by (simp_all add: SetMergeStrategy_def range_map_inv_def)

abbreviation module_range :: "CodeModule \<Rightarrow> u64 \<times> u64 \<times> CodeModule" where
  "module_range c \<equiv> (base_address c, module_size c, c)"

lemma store_modules_ranges: "store_modules cs m = store_ranges (map module_range cs) m"
  by (induction cs arbitrary: m) simp_all

lemmas store_modules_defined = store_ranges_defined [of _ "map module_range cs" for cs, folded store_modules_ranges]

lemma disjoint_modules_ranges: "disjoint_modules cs \<Longrightarrow> disjoint_ranges (bounds_of (map module_range cs))"
proof (induction cs)
  case (Cons c cs)
  have "base_address c + (module_size c - 1) < base_address d \<or> base_address d + (module_size d - 1) < base_address c"
    if "d \<in> set cs" for d
  proof -
    have "\<not> (module_holds c a \<and> module_holds d a)" for a using Cons.prems that by (auto simp: disjoint_modules_def)
    moreover have "module_valid c" "module_valid d"
      using Cons.prems that by (auto simp: disjoint_modules_def list_all_iff)
    ultimately show ?thesis
      by (meson leI module_holds_def module_valid_def linear order_refl)
  qed
  with Cons show ?case
    by (auto simp: disjoint_modules_def disjoint_ranges_def module_valid_def valid_range_def)
qed simp

lemma find_module_range:
  "List.find (\<lambda>(b, s, e). holds b s a) (map module_range cs) = map_option module_range (List.find (\<lambda>c. module_holds c a) cs)"
  by (induction cs) (auto simp: module_holds_def holds_def)

lemma store_modules_lookup:
  assumes "range_map_inv m" and "merge_strategy m = kExclusiveRanges" and "disjoint_modules cs"
    and "\<forall>c\<in>set cs. \<forall>a. module_holds c a \<longrightarrow> RangeMap_RetrieveRange m a = None"
    and "store_modules cs m = Some m'"
  shows "map_option fst (RangeMap_RetrieveRange m' a) =
    (case List.find (\<lambda>c. module_holds c a) cs of
       Some c \<Rightarrow> Some c | None \<Rightarrow> map_option fst (RangeMap_RetrieveRange m a))"
proof -
  have free: "\<forall>(b, s, e)\<in>set (map module_range cs). \<forall>a. holds b s a \<longrightarrow> RangeMap_RetrieveRange m a = None"
    using assms(4) by (auto simp: holds_def module_holds_def)
  show ?thesis
    using store_ranges_lookup [OF assms(1,2) disjoint_modules_ranges [OF assms(3)] free] assms(5)
    by (auto simp: store_modules_ranges find_module_range split: option.splits)
qed

text \<open>With disjoint ranges a module is stored with its own range.\<close>

definition own_range :: "u64 \<times> CodeModule Range \<Rightarrow> bool" where
  "own_range p \<longleftrightarrow> base (snd p) = base_address (entry (snd p)) \<and>
     fst p = base_address (entry (snd p)) + (module_size (entry (snd p)) - 1) \<and>
     module_size (entry (snd p)) \<noteq> 0 \<and> delta (snd p) = 0"

lemma store_modules_own:
  assumes "range_map_inv m" and "merge_strategy m = kExclusiveRanges" and "list_all own_range (rm_map m)"
    and "store_modules cs m = Some m'"
  shows "list_all own_range (rm_map m')"
  using assms
proof (induction cs arbitrary: m)
  case (Cons c cs)
  obtain m1 ok where m1: "RangeMap_StoreRange m (base_address c) (module_size c) c = Some (m1, ok)" "range_map_inv m1"
    "merge_strategy m1 = kExclusiveRanges"
    using StoreRange_defined [OF Cons.prems(1), of "base_address c" "module_size c" c] Cons.prems(2) by auto
  have "list_all own_range (rm_map m1)"
    using StoreRange_spec(1) [OF Cons.prems(1) m1(1)] Cons.prems(2,3)
    by (auto simp: store_spec_def store_exclusive_def Let_def list_all_iff own_range_def)
  from Cons.IH [OF m1(2,3) this] Cons.prems(4) m1(1) show ?case by simp
qed simp

lemma modules_by_index_entries: "modules_by_index ms = map (\<lambda>p. entry (snd p)) (rm_map (modules_map ms))"
proof (rule nth_equalityI)
  fix i assume "i < length (modules_by_index ms)"
  then have "i < length (rm_map (modules_map ms))"
    by (simp add: modules_by_index_def module_count_def RangeMap_GetCount_def)
  then show "modules_by_index ms ! i = map (\<lambda>p. entry (snd p)) (rm_map (modules_map ms)) ! i"
    by (simp add: modules_by_index_def module_count_def RangeMap_GetCount_def GetModuleAtIndex_def
        GetModuleAtSequence_def RangeMap_RetrieveRangeAtIndex_def range_outputs_def split: prod.splits)
qed (simp add: modules_by_index_def module_count_def RangeMap_GetCount_def)

lemma own_ranges_disjoint:
  assumes "ranges_inv rs" and "list_all own_range rs"
  shows "disjoint_modules (map (\<lambda>p. entry (snd p)) rs)"
  using assms
proof (induction rs)
  case (Cons p rs)
  then have "disjoint_modules (map (\<lambda>p. entry (snd p)) rs)" by simp
  moreover have "module_valid (entry (snd p))"
    using Cons.prems by (auto simp: own_range_def range_ok_def module_valid_def)
  moreover have "\<not> (module_holds (entry (snd p)) a \<and> module_holds (entry (snd q)) a)" if "q \<in> set rs" for q a
    using Cons.prems that
    by (auto simp: own_range_def module_holds_def range_before_def list_all_iff)
  ultimately show ?case by (auto simp: disjoint_modules_def)
qed (simp add: disjoint_modules_def)

lemma find_own:
  assumes "list_all own_range rs"
  shows "List.find (\<lambda>c. module_holds c a) (map (\<lambda>p. entry (snd p)) rs) =
    map_option (\<lambda>p. entry (snd p)) (List.find (covers a) rs)"
  using assms by (induction rs) (auto simp: own_range_def covers_def module_holds_def)

lemma new_modules_lookup:
  assumes "disjoint_modules cs"
  shows "\<exists>ms. BasicCodeModules_new main cs kExclusiveRanges = Some ms \<and>
    (\<forall>a. GetModuleForAddress ms a = List.find (\<lambda>c. module_holds c a) cs) \<and>
    range_map_inv (modules_map ms) \<and> merge_strategy (modules_map ms) = kExclusiveRanges \<and>
    list_all own_range (rm_map (modules_map ms))"
proof -
  let ?m = "SetMergeStrategy RangeMap_new kExclusiveRanges :: CodeModule RangeMap"
  have none: "RangeMap_RetrieveRange ?m a = None" for a
    by (simp add: RetrieveRange_find) (simp add: RangeMap_new_def)
  have empty: "rm_map ?m = []" by (simp add: RangeMap_new_def)
  obtain m where m: "store_modules cs ?m = Some m" "range_map_inv m" "merge_strategy m = kExclusiveRanges"
    using store_modules_defined [of ?m cs] by auto
  have "map_option fst (RangeMap_RetrieveRange m a) = List.find (\<lambda>c. module_holds c a) cs" for a
    using store_modules_lookup [OF _ _ assms _ m(1), of a] by (simp add: none split: option.splits)
  moreover have "list_all own_range (rm_map m)" using store_modules_own [OF _ _ _ m(1)] empty by simp
  ultimately show ?thesis using m by (simp add: BasicCodeModules_new_def GetModuleForAddress_def)
qed

text \<open>
  C30: the modules of a process with disjoint, nonempty ranges. \<open>BasicCodeModules\<close> stores them
  all, \<open>GetModuleForAddress\<close> finds for every address the module whose range holds it, if there
  is one, and \<open>Copy\<close> gives an object that answers every such question in the same way.
\<close>

theorem BasicCodeModules_lookup:
  assumes "disjoint_modules cs"
  shows "\<exists>ms ms'. BasicCodeModules_new main cs kExclusiveRanges = Some ms \<and> CodeModules_Copy ms = Some ms' \<and>
    (\<forall>a. GetModuleForAddress ms a = List.find (\<lambda>c. module_holds c a) cs \<and>
         GetModuleForAddress ms' a = GetModuleForAddress ms a)"
proof -
  obtain ms where ms: "BasicCodeModules_new main cs kExclusiveRanges = Some ms"
    "\<forall>a. GetModuleForAddress ms a = List.find (\<lambda>c. module_holds c a) cs"
    "range_map_inv (modules_map ms)" "merge_strategy (modules_map ms) = kExclusiveRanges"
    "list_all own_range (rm_map (modules_map ms))"
    using new_modules_lookup [OF assms] by blast
  have "disjoint_modules (modules_by_index ms)"
    using own_ranges_disjoint [OF _ ms(5)] ms(3) by (simp add: modules_by_index_entries range_map_inv_def)
  from new_modules_lookup [OF this, of "GetMainModule ms"] obtain ms' where
    ms': "CodeModules_Copy ms = Some ms'"
    "\<forall>a. GetModuleForAddress ms' a = List.find (\<lambda>c. module_holds c a) (modules_by_index ms)"
    by (auto simp: CodeModules_Copy_def ms(4))
  have "List.find (\<lambda>c. module_holds c a) (modules_by_index ms) = GetModuleForAddress ms a" for a
    using find_own [OF ms(5), of a]
    by (simp add: modules_by_index_entries GetModuleForAddress_def RetrieveRange_find [OF ms(3)]
        range_outputs_def option.map_comp comp_def case_prod_beta')
  with ms ms' show ?thesis by auto
qed

theorem BasicCodeModules_lookup_witness:
  "\<exists>ms. BasicCodeModules_new None
      [CodeModule_new 4096 4096 ''a'' [] [] [] [] False, CodeModule_new 65536 4096 ''b'' [] [] [] [] False]
      kExclusiveRanges = Some ms \<and> map_option code_file (GetModuleForAddress ms 66000) = Some ''b''"
proof -
  let ?cs = "[CodeModule_new 4096 4096 ''a'' [] [] [] [] False, CodeModule_new 65536 4096 ''b'' [] [] [] [] False]"
  have "\<not> (a \<le> 8191 \<and> 65536 \<le> a)" for a :: u64 using order_trans [of 65536 a 8191] by auto
  then have "disjoint_modules ?cs"
    by (simp add: disjoint_modules_def module_valid_def module_holds_def CodeModule_new_def) blast
  from BasicCodeModules_lookup [OF this, of None] show ?thesis
    by (auto simp: module_holds_def CodeModule_new_def)
qed

end
