(* ===== verification/Basic_Resolver.thy ===== *)
theory Basic_Resolver
  imports Symbol_Parse CFI_Frame_Info Address_Map Contained_Range_Map Code_Modules
begin

text \<open>
  \<open>BasicSourceLineResolver::Module\<close> (processor/basic_source_line_resolver.cc,
  basic_source_line_resolver_types.h): the tables of one module, loaded from the text of a
  symbol file, and the lookups the stack walker makes in them.

  A \<open>Function\<close> is shared: lines are added to it after it has been stored in the map of
  functions. The functions live in a list, \<open>function_heap\<close>, and a \<open>linked_ptr\<close> to one is a
  position in it. The other objects do not change once stored and are values. The outer
  \<^const>\<open>None\<close> of a result is undefined behaviour, a read behind the end of the buffer.
  Messages are not modelled, so the line numbers that only they use are left out.
\<close>

section \<open>Model\<close>

record Module =
  mod_name :: string
  files :: "(int, string) std_map"
  module_functions :: "nat RangeMap"
  function_heap :: "Function list"
  public_symbols :: "PublicSymbol linked_ptr AddressMap"
  is_corrupt :: bool
  windows_frame_info :: "WindowsFrameInfo linked_ptr ContainedRangeMap list"
  cfi_initial_rules :: "string RangeMap"
  cfi_delta_rules :: "(MemAddr, string) std_map"

definition Module_new :: "string \<Rightarrow> Module" where
  "Module_new name = \<lparr>mod_name = name, files = [], module_functions = RangeMap_new, function_heap = [],
     public_symbols = AddressMap_new, is_corrupt = False,
     windows_frame_info = replicate 5 (ContainedRangeMap_new None),
     cfi_initial_rules = RangeMap_new, cfi_delta_rules = []\<rparr>"

definition kMaxErrorsBeforeBailing :: int where
  "kMaxErrorsBeforeBailing = 100"

definition Module_ParseFile :: "string \<Rightarrow> Module \<Rightarrow> Module \<times> bool" where
  "Module_ParseFile file_line m =
     (case ParseFile file_line of
        None \<Rightarrow> (m, False)
      | Some (index, filename) \<Rightarrow>
          (m\<lparr>files := std_insert (sint (long_to_int index)) filename (files m)\<rparr>, True))"

definition Module_ParseFunction :: "string \<Rightarrow> Function option" where
  "Module_ParseFunction function_line =
     map_option (\<lambda>(is_multiple, address, size', stack_param_size, name).
       Function_new name address size' (long_to_int stack_param_size) is_multiple) (ParseFunction function_line)"

definition Module_ParseLine :: "string \<Rightarrow> Line option" where
  "Module_ParseLine line_line =
     map_option (\<lambda>(address, size', line_no, source_file).
       \<lparr>line_address = address, line_size = size', source_file_id = long_to_int source_file,
        line_number = long_to_int line_no\<rparr>) (ParseLine line_line)"

definition Module_ParsePublicSymbol :: "string \<Rightarrow> Module \<Rightarrow> Module \<times> bool" where
  "Module_ParsePublicSymbol public_line m =
     (case ParsePublicSymbol public_line of
        None \<Rightarrow> (m, False)
      | Some (is_multiple, address, stack_param_size, name) \<Rightarrow>
          if address = 0 then (m, True)
          else
            let symbol = \<lparr>pub_name = name, pub_address = address,
                  pub_parameter_size = long_to_int stack_param_size, pub_is_multiple = is_multiple\<rparr> in
            (case AddressMap_Store (public_symbols m) address (Some symbol) of
               (symbols, ok) \<Rightarrow> (m\<lparr>public_symbols := symbols\<rparr>, ok)))"

definition ParseCFIFrameInfo :: "string \<Rightarrow> Module \<Rightarrow> (Module \<times> bool) option" where
  "ParseCFIFrameInfo stack_info_line m =
     (case strtok_r kWhitespace stack_info_line of
        (None, _) \<Rightarrow> Some (m, False)
      | (Some init_or_address, cursor) \<Rightarrow>
          if init_or_address = ''INIT'' then
            (case strtok_r kWhitespace cursor of
               (None, _) \<Rightarrow> Some (m, False)
             | (Some address_field, cursor) \<Rightarrow>
            (case strtok_r kWhitespace cursor of
               (None, _) \<Rightarrow> Some (m, False)
             | (Some size_field, cursor) \<Rightarrow>
            (case strtok_r line_end cursor of
               (None, _) \<Rightarrow> Some (m, False)
             | (Some initial_rules, _) \<Rightarrow> do {
                 (rules, _) \<leftarrow> RangeMap_StoreRange (cfi_initial_rules m)
                   (fst (strtoul 16 address_field)) (fst (strtoul 16 size_field)) initial_rules;
                 Some (m\<lparr>cfi_initial_rules := rules\<rparr>, True) })))
          else
            (case strtok_r line_end cursor of
               (None, _) \<Rightarrow> Some (m, False)
             | (Some delta_rules, _) \<Rightarrow>
                 Some (m\<lparr>cfi_delta_rules :=
                   std_assign (fst (strtoul 16 init_or_address)) delta_rules (cfi_delta_rules m)\<rparr>, True)))"

text \<open>
  The platform of a \<open>STACK\<close> record and what \<open>stack_info_line\<close> points to behind it: the text
  behind the separator, or, when the line ends there, what follows the terminator of the line
  in the buffer. \<open>behind\<close> is \<^const>\<open>None\<close> when that is outside of it.
\<close>

definition stack_platform :: "string \<Rightarrow> string" where
  "stack_platform line = takeWhile (\<lambda>c. c \<notin> set kWhitespace) (dropWhile (\<lambda>c. c = CHR '' '') (drop 6 line))"

definition stack_bare :: "string \<Rightarrow> bool" where
  "stack_bare line \<longleftrightarrow> dropWhile (\<lambda>c. c \<notin> set kWhitespace) (dropWhile (\<lambda>c. c = CHR '' '') (drop 6 line)) = []"

definition stack_argument :: "string \<Rightarrow> string option \<Rightarrow> string option" where
  "stack_argument line behind =
     (if stack_bare line then behind
      else Some (tl (dropWhile (\<lambda>c. c \<notin> set kWhitespace) (dropWhile (\<lambda>c. c = CHR '' '') (drop 6 line)))))"

definition ParseStackInfo :: "string \<Rightarrow> string option \<Rightarrow> Module \<Rightarrow> (Module \<times> bool) option" where
  "ParseStackInfo line behind m =
     (if stack_platform line = ''WIN'' then do {
        stack_info_line \<leftarrow> stack_argument line behind;
        (case ParseFromString stack_info_line of
           None \<Rightarrow> Some (m, False)
         | Some (stack_frame_info, type, rva, code_size) \<Rightarrow>
             Some (m\<lparr>windows_frame_info := (windows_frame_info m)[nat type :=
               fst (crm_StoreRange (windows_frame_info m ! nat type) rva code_size (Some stack_frame_info))]\<rparr>, True)) }
      else if stack_platform line = ''CFI'' then do {
        stack_info_line \<leftarrow> stack_argument line behind;
        ParseCFIFrameInfo stack_info_line m }
      else Some (m, False))"

text \<open>
  What \<open>strtok_r\<close> leaves of the text behind a line: unchanged, unless \<open>ParseCFIFrameInfo\<close>
  has been run on it and has cut it behind its first token.
\<close>

definition text_behind :: "string \<Rightarrow> string \<Rightarrow> string" where
  "text_behind line rest =
     (if starts_with ''STACK '' line \<and> stack_platform line = ''CFI'' \<and> stack_bare line
      then takeWhile (\<lambda>c. c \<in> set kWhitespace) rest @
           takeWhile (\<lambda>c. c \<notin> set kWhitespace) (dropWhile (\<lambda>c. c \<in> set kWhitespace) rest)
      else rest)"

text \<open>One round of the loop: the module, the current function and the number of errors.\<close>

definition process_line ::
    "string \<Rightarrow> string option \<Rightarrow> Module \<times> nat option \<times> int \<Rightarrow> (Module \<times> nat option \<times> int) option" where
  "process_line buffer behind state = (case state of (m, cur_func, num_errors) \<Rightarrow>
     if starts_with ''FILE '' buffer then
       (case Module_ParseFile buffer m of (m, ok) \<Rightarrow>
        Some (m, cur_func, if ok then num_errors else num_errors + 1))
     else if starts_with ''STACK '' buffer then do {
       (m, ok) \<leftarrow> ParseStackInfo buffer behind m;
       Some (m, cur_func, if ok then num_errors else num_errors + 1) }
     else if starts_with ''FUNC '' buffer then
       (case Module_ParseFunction buffer of
          None \<Rightarrow> Some (m, None, num_errors + 1)
        | Some func \<Rightarrow> do {
            let ptr = length (function_heap m);
            (funcs, _) \<leftarrow> RangeMap_StoreRange (module_functions m) (func_address func) (func_size func) ptr;
            Some (m\<lparr>function_heap := function_heap m @ [func], module_functions := funcs\<rparr>, Some ptr, num_errors) })
     else if starts_with ''PUBLIC '' buffer then
       (case Module_ParsePublicSymbol buffer m of (m, ok) \<Rightarrow>
        Some (m, None, if ok then num_errors else num_errors + 1))
     else if starts_with ''MODULE '' buffer then Some (m, cur_func, num_errors)
     else if starts_with ''INFO '' buffer then Some (m, cur_func, num_errors)
     else
       (case cur_func of
          None \<Rightarrow> Some (m, cur_func, num_errors + 1)
        | Some ptr \<Rightarrow>
            (case Module_ParseLine buffer of
               None \<Rightarrow> Some (m, cur_func, num_errors + 1)
             | Some line \<Rightarrow> do {
                 let func = function_heap m ! ptr;
                 (lines', _) \<leftarrow> RangeMap_StoreRange (func_lines func) (line_address line) (line_size line) (Some line);
                 Some (m\<lparr>function_heap := (function_heap m)[ptr := func\<lparr>func_lines := lines'\<rparr>]\<rparr>,
                       cur_func, num_errors) })))"

lemma text_behind_length: "length (text_behind line rest) \<le> length rest"
proof -
  let ?P = "\<lambda>c. c \<in> set kWhitespace"
  have "length rest = length (takeWhile ?P rest) + length (dropWhile ?P rest)"
    by (metis length_append takeWhile_dropWhile_id)
  moreover have "length (takeWhile (\<lambda>c. \<not> ?P c) (dropWhile ?P rest)) \<le> length (dropWhile ?P rest)"
    by (rule length_takeWhile_le)
  ultimately show ?thesis by (simp add: text_behind_def)
qed

text \<open>
  A line that ends in a separator is followed by the rest of the text, the last line by the
  terminator and, when there is one more in the buffer, by an empty text.
\<close>

definition ended_line :: "string \<Rightarrow> bool" where
  "ended_line save_ptr \<longleftrightarrow>
     dropWhile (\<lambda>c. c \<notin> set line_end) (dropWhile (\<lambda>c. c \<in> set line_end) save_ptr) \<noteq> []"

function load_loop ::
    "bool \<Rightarrow> string \<Rightarrow> Module \<times> nat option \<times> int \<Rightarrow> (Module \<times> nat option \<times> int) option" where
  "load_loop more_terminators save_ptr state =
     (case strtok_r line_end save_ptr of
        (None, _) \<Rightarrow> Some state
      | (Some buffer, rest) \<Rightarrow>
          let behind = (if ended_line save_ptr then Some rest
                        else if more_terminators then Some [] else None) in
          do {
            state \<leftarrow> process_line buffer behind state;
            if snd (snd state) > kMaxErrorsBeforeBailing then Some state
            else load_loop more_terminators (text_behind buffer rest) state })"
  by pat_completeness auto
termination
  by (relation "measure (\<lambda>(_, s, _). length s)")
    (auto dest!: strtok_r_shorter [OF sym] intro: le_less_trans [OF text_behind_length])

declare load_loop.simps [simp del]

definition LoadMapFromMemory :: "Module \<Rightarrow> string \<Rightarrow> (Module \<times> bool) option" where
  "LoadMapFromMemory m memory_buffer =
     (if memory_buffer = [] then Some (m, True)
      else
        let memory_buffer = butlast memory_buffer @ [CHR 0x00];
            symbol_data = rev (dropWhile (\<lambda>c. c = CHR 0x00) (rev memory_buffer));
            has_null_terminator_in_the_middle = (CHR 0x00 \<in> set symbol_data);
            symbol_data = map (\<lambda>c. if c = CHR 0x00 then CHR ''_'' else c) symbol_data;
            num_errors = (if has_null_terminator_in_the_middle then 1 else 0) in
        do {
          (m, _, num_errors) \<leftarrow> load_loop (length memory_buffer \<ge> length symbol_data + 2) symbol_data
            (m, None, num_errors);
          Some (m\<lparr>is_corrupt := (num_errors > 0)\<rparr>, True) })"

section \<open>Lookups\<close>

text \<open>
  \<open>StackFrame\<close> (google_breakpad/processor/stack_frame.h); the CPU-specific frames extend it. A
  lookup dereferences the module of the frame and is undefined without one.
\<close>

datatype FrameTrust = FRAME_TRUST_NONE | FRAME_TRUST_SCAN | FRAME_TRUST_CFI_SCAN | FRAME_TRUST_FP
  | FRAME_TRUST_CFI | FRAME_TRUST_PREWALKED | FRAME_TRUST_CONTEXT

record StackFrame =
  instruction :: MemAddr
  frame_module :: "CodeModule option"
  function_name :: string
  function_base :: MemAddr
  source_file_name :: string
  source_line :: int32
  source_line_base :: MemAddr
  trust :: FrameTrust

definition StackFrame_new :: StackFrame where
  "StackFrame_new = \<lparr>instruction = 0, frame_module = None, function_name = [], function_base = 0,
     source_file_name = [], source_line = 0, source_line_base = 0, trust = FRAME_TRUST_NONE\<rparr>"

definition LookupAddress :: "Module \<Rightarrow> 'a StackFrame_scheme \<Rightarrow> 'a StackFrame_scheme option" where
  "LookupAddress m frame = (case frame_module frame of None \<Rightarrow> None | Some code_module \<Rightarrow>
      let module_base = base_address code_module;
          address = instruction frame - module_base;
          nearest = RangeMap_RetrieveNearestRange (module_functions m) address in
      case nearest of
        Some (ptr, func_base, _, function_size) \<Rightarrow>
          if address \<ge> func_base \<and> address - func_base < function_size then
            let func = function_heap m ! ptr;
                frame = frame\<lparr>function_name := func_name func, function_base := module_base + func_base\<rparr> in
            (case RangeMap_RetrieveRange (func_lines func) address of
               None \<Rightarrow> Some frame
             | Some (None, _, _, _) \<Rightarrow> None
             | Some (Some line, line_base, _, _) \<Rightarrow>
                 let frame = (case std_find (files m) (sint (source_file_id line)) of
                                None \<Rightarrow> frame
                              | Some name \<Rightarrow> frame\<lparr>source_file_name := name\<rparr>)
                 in Some (frame\<lparr>source_line := line_number line,
                                source_line_base := module_base + line_base\<rparr>))
          else
            (case AddressMap_Retrieve (public_symbols m) address of
               Some (symbol, public_address) \<Rightarrow>
                 if public_address > func_base then
                   (case symbol of None \<Rightarrow> None
                    | Some public_symbol \<Rightarrow>
                        Some (frame\<lparr>function_name := pub_name public_symbol,
                                    function_base := module_base + public_address\<rparr>))
                 else Some frame
             | None \<Rightarrow> Some frame)
      | None \<Rightarrow>
          (case AddressMap_Retrieve (public_symbols m) address of
             Some (symbol, public_address) \<Rightarrow>
               (case symbol of None \<Rightarrow> None
                | Some public_symbol \<Rightarrow>
                    Some (frame\<lparr>function_name := pub_name public_symbol,
                                function_base := module_base + public_address\<rparr>))
           | None \<Rightarrow> Some frame))"

text \<open>
  The result of the search for a \<open>PUBLIC\<close> symbol at the end of \<open>FindWindowsFrameInfo\<close> is
  written to an object that is then dropped, so it has no effect.
\<close>

definition FindWindowsFrameInfo ::
    "Module \<Rightarrow> 'a StackFrame_scheme \<Rightarrow> WindowsFrameInfo option option" where
  "FindWindowsFrameInfo m frame = (case frame_module frame of None \<Rightarrow> None | Some code_module \<Rightarrow>
      let address = instruction frame - base_address code_module;
          result = WindowsFrameInfo_default;
          frame_data = crm_RetrieveRange (windows_frame_info m ! 4) address;
          frame_info = (if frame_data \<noteq> None then frame_data
                        else crm_RetrieveRange (windows_frame_info m ! 0) address) in
      case frame_info of
        Some None \<Rightarrow> None
      | Some (Some info) \<Rightarrow> Some (Some (WindowsFrameInfo_CopyFrom result info))
      | None \<Rightarrow>
          (case RangeMap_RetrieveNearestRange (module_functions m) address of
             Some (ptr, func_base, _, function_size) \<Rightarrow>
               if address \<ge> func_base \<and> address - func_base < function_size then
                 Some (Some (result\<lparr>parameter_size := func_parameter_size (function_heap m ! ptr),
                                    wfi_valid := wfi_valid result OR VALID_PARAMETER_SIZE\<rparr>))
               else Some None
           | None \<Rightarrow> Some None))"

fun apply_delta_rules :: "(MemAddr \<times> string) list \<Rightarrow> MemAddr \<Rightarrow> CFIFrameInfo \<Rightarrow> CFIFrameInfo" where
  "apply_delta_rules [] address rules = rules"
| "apply_delta_rules ((a, rule_set) # deltas) address rules =
     (if a \<le> address then apply_delta_rules deltas address (snd (ParseCFIRuleSet rule_set rules)) else rules)"

definition FindCFIFrameInfo :: "Module \<Rightarrow> 'a StackFrame_scheme \<Rightarrow> CFIFrameInfo option option" where
  "FindCFIFrameInfo m frame = (case frame_module frame of None \<Rightarrow> None | Some code_module \<Rightarrow>
      let address = instruction frame - base_address code_module in
      Some (case RangeMap_RetrieveRange (cfi_initial_rules m) address of
        None \<Rightarrow> None
      | Some (initial_rules, initial_base, _, _) \<Rightarrow>
          (case ParseCFIRuleSet initial_rules CFIFrameInfo_new of (ok, rules) \<Rightarrow>
           if \<not> ok then None
           else Some (apply_delta_rules
             (drop (lower_bound (cfi_delta_rules m) initial_base) (cfi_delta_rules m)) address rules))))"

section \<open>Invariant\<close>

text \<open>
  Every table satisfies its own invariant, holds no null pointer, and the functions in the
  map are objects of the heap.
\<close>

definition function_ok :: "Function \<Rightarrow> bool" where
  "function_ok f \<longleftrightarrow> exclusive_table (\<lambda>line. line \<noteq> None) (func_lines f)"

definition wfi_ok :: "WindowsFrameInfo linked_ptr ContainedRangeMap \<Rightarrow> bool" where
  "wfi_ok c \<longleftrightarrow> crm_inv c \<and> (\<forall>(low, high, info)\<in>crm_ranges c. info \<noteq> None)"

definition symbols_ok :: "PublicSymbol linked_ptr AddressMap \<Rightarrow> bool" where
  "symbols_ok symbols \<longleftrightarrow> address_map_inv symbols \<and> (\<forall>(a, symbol)\<in>set (am_map symbols). symbol \<noteq> None)"

definition module_inv :: "Module \<Rightarrow> bool" where
  "module_inv m \<longleftrightarrow>
     std_map_inv (files m) \<and>
     exclusive_table (\<lambda>ptr. ptr < length (function_heap m)) (module_functions m) \<and>
     list_all function_ok (function_heap m) \<and>
     symbols_ok (public_symbols m) \<and>
     length (windows_frame_info m) = 5 \<and> list_all wfi_ok (windows_frame_info m) \<and>
     range_map_inv (cfi_initial_rules m) \<and> std_map_inv (cfi_delta_rules m)"

lemma crm_ranges_new: "crm_inv (ContainedRangeMap_new e)" "crm_ranges (ContainedRangeMap_new e) = {}"
  by (simp_all add: ContainedRangeMap_new_def crm_inv_kids crm_ranges.simps [of "ContainedRangeMap _ _ None"])

lemma module_inv_new [simp]: "module_inv (Module_new name)"
  by (simp add: module_inv_def Module_new_def symbols_ok_def wfi_ok_def crm_ranges_new list_all_iff)
    (simp add: AddressMap_new_def)

lemma module_inv_ParseFile: "module_inv m \<Longrightarrow> module_inv (fst (Module_ParseFile l m))"
  by (auto simp: Module_ParseFile_def module_inv_def split: option.splits prod.splits)

lemma set_std_insert: "set (std_insert k v m) \<subseteq> insert (k, v) (set m)"
  by (induction k v m rule: std_insert.induct) auto

lemma symbols_ok_Store:
  assumes "symbols_ok symbols" and "AddressMap_Store symbols a (Some s) = (symbols', ok)"
  shows "symbols_ok symbols'"
proof -
  have "address_map_inv symbols'"
    using assms address_map_inv_Store [of symbols a "Some s"] by (simp add: symbols_ok_def)
  moreover have "set (am_map symbols') \<subseteq> insert (a, Some s) (set (am_map symbols))"
    using assms(2) set_std_insert [of a "Some s" "am_map symbols"]
    by (auto simp: AddressMap_Store_def split: if_splits)
  ultimately show ?thesis using assms(1) by (auto simp: symbols_ok_def)
qed

lemma module_inv_ParsePublicSymbol:
  assumes "module_inv m" shows "module_inv (fst (Module_ParsePublicSymbol l m))"
proof -
  have "module_inv (m\<lparr>public_symbols := symbols\<rparr>)"
    if "AddressMap_Store (public_symbols m) a (Some s) = (symbols, ok)" for a s symbols ok
    using assms symbols_ok_Store [OF _ that] by (simp add: module_inv_def)
  with assms show ?thesis
    by (simp add: Module_ParsePublicSymbol_def Let_def split: option.splits prod.splits)
qed

lemma ParseFromString_type:
  "ParseFromString str = Some (info, type, rva, code_size) \<Longrightarrow> 0 \<le> type \<and> type < 5"
  by (auto simp: ParseFromString_def Let_def split: prod.splits if_splits)

lemma wfi_ok_StoreRange: "wfi_ok c \<Longrightarrow> wfi_ok (fst (crm_StoreRange c b s (Some info)))"
  using crm_StoreRange_contract [of c b s "Some info"]
  by (cases "crm_StoreRange c b s (Some info)") (auto simp: wfi_ok_def)

lemma ParseCFIFrameInfo_inv:
  assumes "module_inv m"
  shows "\<exists>m' ok. ParseCFIFrameInfo l m = Some (m', ok) \<and> module_inv m' \<and>
           function_heap m' = function_heap m"
proof -
  have store: "\<exists>m' ok. RangeMap_StoreRange (cfi_initial_rules m) b s e = Some (m', ok) \<and> range_map_inv m'" for b s e
    using StoreRange_defined [of "cfi_initial_rules m" b s e] assms by (auto simp: module_inv_def)
  have init: "\<exists>m' ok. (do { (rules, _) \<leftarrow> RangeMap_StoreRange (cfi_initial_rules m) b s e;
      Some (m\<lparr>cfi_initial_rules := rules\<rparr>, True) }) = Some (m', ok) \<and> module_inv m' \<and>
      function_heap m' = function_heap m" for b s e
    using store [of b s e] assms by (auto simp: module_inv_def)
  have delta: "module_inv (m\<lparr>cfi_delta_rules := std_assign k v (cfi_delta_rules m)\<rparr>)" for k v
    using assms by (auto simp: module_inv_def)
  show ?thesis
    using init delta assms by (auto simp: ParseCFIFrameInfo_def split: option.splits prod.splits)
qed

text \<open>
  A line \<open>STACK CFI\<close> or \<open>STACK WIN\<close> without any field, and a text whose last line is such a
  line and is not ended. \<open>ParseStackInfo\<close> steps over the terminator of the line, so that behind
  such a text it reads what follows the terminator of the buffer.
\<close>

definition bare_stack :: "string \<Rightarrow> bool" where
  "bare_stack line \<longleftrightarrow> starts_with ''STACK '' line \<and> stack_bare line \<and>
     (stack_platform line = ''WIN'' \<or> stack_platform line = ''CFI'')"

definition last_line :: "string \<Rightarrow> string" where
  "last_line s = rev (takeWhile (\<lambda>c. c \<notin> set line_end) (rev s))"

definition dangling :: "string \<Rightarrow> bool" where
  "dangling s \<longleftrightarrow> bare_stack (last_line s)"

lemma bare_stack_chars:
  assumes "bare_stack l"
  shows "hd l = CHR ''S''" and "CHR '' '' \<in> set l" and "set l \<subseteq> set ''STACK WINCFI''"
proof -
  have "take 6 l = ''STACK ''" using assms by (simp add: bare_stack_def starts_with_def eval_nat_numeral)
  moreover have "dropWhile (\<lambda>c. c = CHR '' '') (drop 6 l) = stack_platform l"
    using assms takeWhile_dropWhile_id [of "\<lambda>c. c \<notin> set kWhitespace" "dropWhile (\<lambda>c. c = CHR '' '') (drop 6 l)"]
    by (simp only: bare_stack_def stack_bare_def stack_platform_def append_Nil2)
  ultimately have "l = ''STACK '' @ takeWhile (\<lambda>c. c = CHR '' '') (drop 6 l) @ stack_platform l"
    using takeWhile_dropWhile_id [of "\<lambda>c. c = CHR '' ''" "drop 6 l"] append_take_drop_id [of 6 l] by metis
  moreover have "set (takeWhile (\<lambda>c. c = CHR '' '') (drop 6 l)) \<subseteq> {CHR '' ''}" by (auto dest: set_takeWhileD)
  moreover have "set (stack_platform l) \<subseteq> set ''WINCFI''" using assms by (auto simp: bare_stack_def)
  ultimately obtain sp p where l: "l = ''STACK '' @ sp @ p" "set sp \<subseteq> {CHR '' ''}" "set p \<subseteq> set ''WINCFI''"
    by (rule that)
  from l(1) show "hd l = CHR ''S''" "CHR '' '' \<in> set l" by simp_all
  have chars: "set ''STACK '' \<subseteq> set ''STACK WINCFI''" "{CHR '' ''} \<subseteq> set ''STACK WINCFI''"
    "set ''WINCFI'' \<subseteq> set ''STACK WINCFI''" by simp_all
  have "set ''STACK '' \<union> (set sp \<union> set p) \<subseteq> set ''STACK WINCFI''"
    by (rule Un_least [OF chars(1) Un_least [OF subset_trans [OF l(2) chars(2)] subset_trans [OF l(3) chars(3)]]])
  then show "set l \<subseteq> set ''STACK WINCFI''" by (simp only: l(1) set_append)
qed

lemma bare_stack_Nil [simp]: "\<not> bare_stack []"
  by (simp add: bare_stack_def starts_with_def)

lemma dangling_Nil [simp]: "\<not> dangling []"
  by (simp add: dangling_def last_line_def)

lemma last_line_append: "\<forall>c\<in>set b. c \<notin> set line_end \<Longrightarrow> last_line (a @ b) = last_line a @ b"
  by (simp add: last_line_def takeWhile_append)

lemma last_line_ended: "c \<in> set line_end \<Longrightarrow> last_line (a @ c # b) = last_line b"
  by (induction b rule: rev_induct) (auto simp: last_line_def)

lemma last_line_chars: "set (last_line s) \<subseteq> set s"
  by (auto simp: last_line_def dest: set_takeWhileD)

text \<open>What \<open>strtok_r\<close> takes off the text: separators, the line and the separator behind it.\<close>

lemma strtok_line:
  assumes "strtok_r line_end s = (Some l, rest)"
  shows "\<exists>skipped. set skipped \<subseteq> set line_end \<and> is_word line_end l \<and>
    (if ended_line s then \<exists>c\<in>set line_end. s = skipped @ l @ c # rest else s = skipped @ l \<and> rest = [])"
proof -
  define skipped where "skipped = takeWhile (\<lambda>c. c \<in> set line_end) s"
  define t where "t = dropWhile (\<lambda>c. c \<in> set line_end) s"
  define u where "u = dropWhile (\<lambda>c. c \<notin> set line_end) t"
  have s: "s = skipped @ t" by (simp only: skipped_def t_def takeWhile_dropWhile_id)
  have t: "t \<noteq> []" and l: "l = takeWhile (\<lambda>c. c \<notin> set line_end) t" and rest: "rest = drop 1 u"
    using assms by (auto simp: strtok_r_def Let_def t_def u_def split: if_splits)
  have tu: "t = l @ u" by (simp only: l u_def takeWhile_dropWhile_id)
  have ended: "ended_line s \<longleftrightarrow> u \<noteq> []" by (simp add: ended_line_def u_def t_def)
  have "set skipped \<subseteq> set line_end" by (auto simp: skipped_def dest: set_takeWhileD)
  moreover have "hd t \<notin> set line_end" using t hd_dropWhile [of _ s] unfolding t_def by blast
  then have "is_word line_end l"
    using t by (cases t) (auto simp: is_word_def l dest: set_takeWhileD)
  moreover have "\<exists>c\<in>set line_end. s = skipped @ l @ c # rest" if "u \<noteq> []"
  proof
    show "hd u \<in> set line_end" using that hd_dropWhile [of "\<lambda>c. c \<notin> set line_end" t] unfolding u_def by blast
    show "s = skipped @ l @ hd u # rest" by (subst s, subst tu) (simp add: rest that drop_Suc)
  qed
  moreover have "s = skipped @ l \<and> rest = []" if "u = []"
    using that rest by (subst s, subst tu) simp
  ultimately show ?thesis using ended by auto
qed

lemma last_line_rest:
  assumes "strtok_r line_end s = (Some l, rest)"
  shows "if ended_line s then last_line rest = last_line s else rest = [] \<and> last_line s = l"
proof -
  obtain skipped where sk: "set skipped \<subseteq> set line_end" "is_word line_end l"
    "if ended_line s then \<exists>c\<in>set line_end. s = skipped @ l @ c # rest else s = skipped @ l \<and> rest = []"
    using strtok_line [OF assms] by blast
  have none: "last_line skipped = []"
    using sk(1) by (cases skipped rule: rev_cases) (auto simp: last_line_def)
  have ended: "last_line (skipped @ l @ c # rest) = last_line rest" if "c \<in> set line_end" for c
    by (rule last_line_ended [OF that, of "skipped @ l" rest, simplified append_assoc])
  have last: "last_line (skipped @ l) = last_line skipped @ l"
    by (rule last_line_append [OF conjunct2 [OF sk(2) [unfolded is_word_def]]])
  show ?thesis
  proof (cases "ended_line s")
    case True
    then obtain c where "c \<in> set line_end" "s = skipped @ l @ c # rest" using sk(3) by auto
    with ended True show ?thesis by simp
  next
    case False
    then have "s = skipped @ l" "rest = []" using sk(3) by simp_all
    with last none False show ?thesis by simp
  qed
qed

lemma dangling_text_behind:
  assumes "\<not> dangling rest" shows "\<not> dangling (text_behind line rest)"
proof
  assume d: "dangling (text_behind line rest)"
  let ?ws = "takeWhile (\<lambda>c. c \<in> set kWhitespace) rest"
  let ?word = "takeWhile (\<lambda>c. c \<notin> set kWhitespace) (dropWhile (\<lambda>c. c \<in> set kWhitespace) rest)"
  have cut: "bare_stack (last_line (?ws @ ?word))"
    using d assms by (auto simp: text_behind_def dangling_def split: if_splits)
  have word: "\<forall>c\<in>set ?word. c \<notin> set kWhitespace" and ws: "\<forall>c\<in>set ?ws. c \<in> set kWhitespace"
    by (blast dest: set_takeWhileD)+
  have "set line_end \<subseteq> set kWhitespace" by (simp add: set_kWhitespace)
  with word have "last_line (?ws @ ?word) = last_line ?ws @ ?word" by (intro last_line_append) blast
  with cut have bare: "bare_stack (last_line ?ws @ ?word)" by (simp only:)
  show False
  proof (cases "last_line ?ws")
    case Nil
    then have "CHR '' '' \<in> set ?word" using bare_stack_chars(2) [OF bare] by (simp only: append_Nil)
    then have "CHR '' '' \<notin> set kWhitespace" using word by blast
    then show False by (simp add: set_kWhitespace)
  next
    case (Cons c cs)
    then have "c \<in> set ?ws" using last_line_chars [of ?ws] by auto
    then have "c \<in> set kWhitespace" using ws by blast
    moreover have "c = CHR ''S''" using bare_stack_chars(1) [OF bare] Cons by simp
    ultimately show False by (simp add: set_kWhitespace)
  qed
qed

lemma ParseStackInfo_inv:
  assumes "module_inv m" and "starts_with ''STACK '' l" and "behind \<noteq> None \<or> \<not> bare_stack l"
  shows "\<exists>m' ok. ParseStackInfo l behind m = Some (m', ok) \<and> module_inv m' \<and>
           function_heap m' = function_heap m"
proof -
  have arg: "\<exists>s. stack_argument l behind = Some s" if "stack_platform l = ''WIN'' \<or> stack_platform l = ''CFI''"
    using assms(2,3) that by (cases "stack_bare l") (auto simp: stack_argument_def bare_stack_def)
  have "module_inv (m\<lparr>windows_frame_info := (windows_frame_info m)[nat type :=
          fst (crm_StoreRange (windows_frame_info m ! nat type) rva size' (Some info))]\<rparr>)"
    if "ParseFromString s = Some (info, type, rva, size')" for s info type rva size'
  proof -
    have "nat type < 5" using ParseFromString_type [OF that] by linarith
    then have "wfi_ok (windows_frame_info m ! nat type)"
      using assms(1) by (auto simp: module_inv_def list_all_length)
    from wfi_ok_StoreRange [OF this, of rva size' info] assms(1) show ?thesis
      by (auto simp: module_inv_def list_all_iff dest: set_update_subset_insert [THEN subsetD])
  qed
  with ParseCFIFrameInfo_inv [OF assms(1)] assms(1) arg show ?thesis
    by (fastforce simp: ParseStackInfo_def split: option.splits)
qed

text \<open>The current function of the loop is an object of the heap.\<close>

definition load_inv :: "Module \<times> nat option \<times> int \<Rightarrow> bool" where
  "load_inv state \<longleftrightarrow> (case state of (m, cur_func, num_errors) \<Rightarrow>
     module_inv m \<and> (\<forall>ptr. cur_func = Some ptr \<longrightarrow> ptr < length (function_heap m)))"

lemma ParseFile_heap [simp]: "function_heap (fst (Module_ParseFile l m)) = function_heap m"
  by (simp add: Module_ParseFile_def split: option.splits prod.splits)

lemma store_function_inv:
  assumes "module_inv m" and "function_ok func"
  shows "\<exists>funcs ok. RangeMap_StoreRange (module_functions m) b s (length (function_heap m)) = Some (funcs, ok) \<and>
    module_inv (m\<lparr>function_heap := function_heap m @ [func], module_functions := funcs\<rparr>)"
proof -
  let ?n = "length (function_heap m)"
  have "exclusive_table (\<lambda>ptr. ptr < Suc ?n) (module_functions m)"
    using assms(1) by (auto simp: module_inv_def elim: exclusive_table_mono)
  from exclusive_table_StoreRange [OF this, of ?n b s] obtain funcs ok where
    "RangeMap_StoreRange (module_functions m) b s ?n = Some (funcs, ok)"
    "exclusive_table (\<lambda>ptr. ptr < Suc ?n) funcs" by auto
  with assms show ?thesis by (auto simp: module_inv_def)
qed

lemma store_line_inv:
  assumes "module_inv m" and "ptr < length (function_heap m)"
  defines "func \<equiv> function_heap m ! ptr"
  shows "\<exists>lines' ok. RangeMap_StoreRange (func_lines func) b s (Some line) = Some (lines', ok) \<and>
    module_inv (m\<lparr>function_heap := (function_heap m)[ptr := func\<lparr>func_lines := lines'\<rparr>]\<rparr>)"
proof -
  have "function_ok func" using assms by (simp add: module_inv_def list_all_length)
  then obtain lines' ok where st: "RangeMap_StoreRange (func_lines func) b s (Some line) = Some (lines', ok)"
    and "exclusive_table (\<lambda>line. line \<noteq> None) lines'"
    using exclusive_table_StoreRange [of "\<lambda>line. line \<noteq> None" "func_lines func" "Some line" b s]
    by (auto simp: function_ok_def)
  then have "function_ok (func\<lparr>func_lines := lines'\<rparr>)" by (simp add: function_ok_def)
  then have "list_all function_ok ((function_heap m)[ptr := func\<lparr>func_lines := lines'\<rparr>])"
    using assms(1) by (auto simp: module_inv_def list_all_iff dest: set_update_subset_insert [THEN subsetD])
  with st assms(1) show ?thesis by (auto simp: module_inv_def)
qed

lemma ParsePublicSymbol_load_inv:
  "module_inv m \<Longrightarrow> Module_ParsePublicSymbol l m = (m', ok) \<Longrightarrow> module_inv m'"
  using module_inv_ParsePublicSymbol [of m l] by simp

lemma ParseFile_load_inv:
  "module_inv m \<Longrightarrow> Module_ParseFile l m = (m', ok) \<Longrightarrow> module_inv m' \<and> function_heap m' = function_heap m"
  using module_inv_ParseFile [of m l] ParseFile_heap [of l m] by simp

lemma function_ok_parsed: "Module_ParseFunction l = Some func \<Longrightarrow> function_ok func"
  by (auto simp: Module_ParseFunction_def Function_new_def function_ok_def)

text \<open>One round keeps the invariant; it is undefined at most for a \<open>STACK\<close> line that ends the buffer.\<close>

lemma process_line_inv:
  assumes "load_inv state" and "behind \<noteq> None \<or> \<not> bare_stack l"
  shows "\<exists>state'. process_line l behind state = Some state' \<and> load_inv state'"
proof -
  obtain m cur_func n where [simp]: "state = (m, cur_func, n)" by (cases state)
  have inv: "module_inv m" and cur: "\<And>ptr. cur_func = Some ptr \<Longrightarrow> ptr < length (function_heap m)"
    using assms(1) by (simp_all add: load_inv_def)
  consider (file_line) "starts_with ''FILE '' l" | (stack_line) "\<not> starts_with ''FILE '' l" "starts_with ''STACK '' l"
    | (func_line) "\<not> starts_with ''FILE '' l" "\<not> starts_with ''STACK '' l" "starts_with ''FUNC '' l"
    | (other) "\<not> starts_with ''FILE '' l" "\<not> starts_with ''STACK '' l" "\<not> starts_with ''FUNC '' l" by blast
  then show ?thesis
  proof cases
    case file_line
    then show ?thesis using ParseFile_load_inv [OF inv] inv cur
      by (cases "Module_ParseFile l m") (auto simp: process_line_def load_inv_def)
  next
    case stack_line
    then show ?thesis using ParseStackInfo_inv [OF inv _ assms(2)] inv cur
      by (auto simp: process_line_def load_inv_def)
  next
    case func_line
    show ?thesis
    proof (cases "Module_ParseFunction l")
      case None
      with func_line inv show ?thesis by (simp add: process_line_def load_inv_def)
    next
      case (Some f)
      from store_function_inv [OF inv function_ok_parsed [OF Some], of "func_address f" "func_size f"] func_line Some
      show ?thesis by (auto simp: process_line_def load_inv_def)
    qed
  next
    case other
    show ?thesis
    proof (cases "starts_with ''PUBLIC '' l \<or> starts_with ''MODULE '' l \<or> starts_with ''INFO '' l")
      case True
      with other inv cur ParsePublicSymbol_load_inv [OF inv, of l] show ?thesis
        by (cases "Module_ParsePublicSymbol l m") (auto simp: process_line_def load_inv_def)
    next
      case False
      note l = other False
      show ?thesis
      proof (cases "cur_func = None \<or> Module_ParseLine l = None")
        case True
        with l inv cur show ?thesis by (auto simp: process_line_def load_inv_def split: option.splits)
      next
        case False
        then obtain ptr line where c: "cur_func = Some ptr" "Module_ParseLine l = Some line" by auto
        from store_line_inv [OF inv cur [OF c(1)], of "line_address line" "line_size line" line] l c cur [OF c(1)]
        show ?thesis by (auto simp: process_line_def load_inv_def)
      qed
    qed
  qed
qed

text \<open>
  The loop returns when there is a second terminator behind the text, and also without one
  unless the text ends in a \<open>STACK\<close> line that has no fields.
\<close>

lemma load_loop_inv:
  assumes "load_inv state" and "more_terminators \<or> \<not> dangling s"
  shows "\<exists>state'. load_loop more_terminators s state = Some state' \<and> load_inv state'"
  using assms
proof (induction more_terminators s state rule: load_loop.induct)
  case (1 more_terminators s state)
  show ?case
  proof (cases "fst (strtok_r line_end s)")
    case None
    then obtain rest where "strtok_r line_end s = (None, rest)" by (metis prod.collapse)
    with 1(2) show ?thesis by (subst load_loop.simps) simp
  next
    case (Some l)
    then obtain rest where tok: "strtok_r line_end s = (Some l, rest)" by (metis prod.collapse)
    let ?behind = "if ended_line s then Some rest else if more_terminators then Some [] else None"
    have last: "if ended_line s then last_line rest = last_line s else rest = [] \<and> last_line s = l"
      by (rule last_line_rest [OF tok])
    then have behind: "?behind \<noteq> None \<or> \<not> bare_stack l" using 1(3) by (auto simp: dangling_def split: if_splits)
    have more: "more_terminators \<or> \<not> dangling (text_behind l rest)"
      using last 1(3) dangling_text_behind [of rest l] dangling_Nil
      by (cases "ended_line s") (auto simp: dangling_def simp del: dangling_Nil)
    obtain state' where state': "process_line l ?behind state = Some state'" "load_inv state'"
      using process_line_inv [OF 1(2) behind] by blast
    show ?thesis
    proof (cases "snd (snd state') > kMaxErrorsBeforeBailing")
      case True
      with state' tok show ?thesis by (subst load_loop.simps) simp
    next
      case False
      from 1(1) [OF tok [symmetric] refl refl state'(1) False state'(2) more] state'(1) tok False
      show ?thesis by (subst load_loop.simps) simp
    qed
  qed
qed

end
