(* ===== verification/Symbol_File.thy ===== *)
theory Symbol_File
  imports Basic_Resolver
begin

text \<open>
  What a symbol file means. A file is a list of records as the dumpers write them; its meaning
  is the module obtained by applying the records one by one, without any text. The theorems
  show that \<open>BasicSourceLineResolver::Module::LoadMapFromMemory\<close> returns on every buffer and
  that it computes this meaning from the text, and what the lookups answer in a module.
\<close>

section \<open>Records\<close>

datatype symbol_record =
    FileRecord nat string
  | FuncRecord bool nat nat nat string
  | LineRecord nat nat nat nat
  | PublicRecord bool nat nat string
  | CfiInitRecord nat nat string
  | CfiDeltaRecord nat string
  | ModuleRecord string
  | InfoRecord string

fun record_text :: "symbol_record \<Rightarrow> string" where
  "record_text (FileRecord index filename) = print_file index filename"
| "record_text (FuncRecord is_multiple address size' param name) = print_function is_multiple address size' param name"
| "record_text (LineRecord address size' line file) = print_line address size' line file"
| "record_text (PublicRecord is_multiple address param name) = print_public is_multiple address param name"
| "record_text (CfiInitRecord address size' rules) =
     ''STACK CFI '' @ join_words (CHR '' '') [''INIT'', hex address, hex size'] @ rules"
| "record_text (CfiDeltaRecord address rules) =
     ''STACK CFI '' @ join_words (CHR '' '') [hex address] @ rules"
| "record_text (ModuleRecord info) = ''MODULE '' @ info"
| "record_text (InfoRecord info) = ''INFO '' @ info"

fun record_ok :: "symbol_record \<Rightarrow> bool" where
  "record_ok (FileRecord index filename) \<longleftrightarrow> index < 2 ^ 31 \<and> is_word line_end filename"
| "record_ok (FuncRecord is_multiple address size' param name) \<longleftrightarrow>
     address < 2 ^ 64 - 1 \<and> size' < 2 ^ 64 - 1 \<and> param < 2 ^ 31 \<and> is_word line_end name"
| "record_ok (LineRecord address size' line file) \<longleftrightarrow>
     address < 2 ^ 64 - 1 \<and> size' < 2 ^ 64 - 1 \<and> line < 2 ^ 31 \<and> file < 2 ^ 31"
| "record_ok (PublicRecord is_multiple address param name) \<longleftrightarrow>
     address < 2 ^ 64 - 1 \<and> param < 2 ^ 31 \<and> is_word line_end name"
| "record_ok (CfiInitRecord address size' rules) \<longleftrightarrow>
     address < 2 ^ 64 \<and> size' < 2 ^ 64 \<and> is_word line_end rules"
| "record_ok (CfiDeltaRecord address rules) \<longleftrightarrow> address < 2 ^ 64 \<and> is_word line_end rules"
| "record_ok (ModuleRecord info) \<longleftrightarrow> CHR 0x0D \<notin> set info \<and> CHR 0x0A \<notin> set info"
| "record_ok (InfoRecord info) \<longleftrightarrow> CHR 0x0D \<notin> set info \<and> CHR 0x0A \<notin> set info"

text \<open>The meaning of a record; \<^const>\<open>None\<close> for a record that is an error where it stands.\<close>

fun apply_record :: "symbol_record \<Rightarrow> Module \<times> nat option \<Rightarrow> (Module \<times> nat option) option" where
  "apply_record (FileRecord index filename) (m, cur) =
     Some (m\<lparr>files := std_insert (int index) filename (files m)\<rparr>, cur)"
| "apply_record (FuncRecord is_multiple address size' param name) (m, cur) = do {
     (funcs, _) \<leftarrow> RangeMap_StoreRange (module_functions m) (word_of_nat address) (word_of_nat size')
       (length (function_heap m));
     Some (m\<lparr>function_heap := function_heap m @
             [Function_new name (word_of_nat address) (word_of_nat size') (word_of_nat param) is_multiple],
             module_functions := funcs\<rparr>, Some (length (function_heap m))) }"
| "apply_record (LineRecord address size' line file) (m, cur) = do {
     ptr \<leftarrow> cur;
     let func = function_heap m ! ptr;
     (lines', _) \<leftarrow> RangeMap_StoreRange (func_lines func) (word_of_nat address) (word_of_nat size')
       (Some \<lparr>line_address = word_of_nat address, line_size = word_of_nat size',
              source_file_id = word_of_nat file, line_number = word_of_nat line\<rparr>);
     Some (m\<lparr>function_heap := (function_heap m)[ptr := func\<lparr>func_lines := lines'\<rparr>]\<rparr>, cur) }"
| "apply_record (PublicRecord is_multiple address param name) (m, cur) =
     (if address = 0 then Some (m, None)
      else case AddressMap_Store (public_symbols m) (word_of_nat address)
                  (Some \<lparr>pub_name = name, pub_address = word_of_nat address,
                         pub_parameter_size = word_of_nat param, pub_is_multiple = is_multiple\<rparr>) of
             (symbols, ok) \<Rightarrow> if ok then Some (m\<lparr>public_symbols := symbols\<rparr>, None) else None)"
| "apply_record (CfiInitRecord address size' rules) (m, cur) = do {
     (table, _) \<leftarrow> RangeMap_StoreRange (cfi_initial_rules m) (word_of_nat address) (word_of_nat size') rules;
     Some (m\<lparr>cfi_initial_rules := table\<rparr>, cur) }"
| "apply_record (CfiDeltaRecord address rules) (m, cur) =
     Some (m\<lparr>cfi_delta_rules := std_assign (word_of_nat address) rules (cfi_delta_rules m)\<rparr>, cur)"
| "apply_record (ModuleRecord info) (m, cur) = Some (m, cur)"
| "apply_record (InfoRecord info) (m, cur) = Some (m, cur)"

fun apply_records :: "symbol_record list \<Rightarrow> Module \<times> nat option \<Rightarrow> (Module \<times> nat option) option" where
  "apply_records [] state = Some state"
| "apply_records (r # rs) state = Option.bind (apply_record r state) (apply_records rs)"

definition symbol_text :: "symbol_record list \<Rightarrow> string" where
  "symbol_text rs = concat (map (\<lambda>r. record_text r @ [CHR 0x0A]) rs)"

section \<open>One record\<close>

lemma starts_with_append [simp]: "starts_with p (p @ s)"
  by (simp add: starts_with_def)

lemma starts_with_Cons: "starts_with (c # p) s \<longleftrightarrow> (case s of [] \<Rightarrow> False | x # xs \<Rightarrow> x = c \<and> starts_with p xs)"
  by (cases s) (auto simp: starts_with_def)

lemma starts_with_Nil [simp]: "starts_with [] s"
  by (simp add: starts_with_def)

lemma sint_of_nat: "n < 2 ^ 31 \<Longrightarrow> sint (word_of_nat n :: int32) = int n"
  by (simp add: signed_of_nat signed_take_bit_int_eq_self)

lemma long_to_int_nat: "long_to_int (int n) = word_of_nat n"
  by (simp add: long_to_int_def)

lemma hex_first: "hd (hex n) \<notin> {CHR ''F'', CHR ''S'', CHR ''P'', CHR ''M'', CHR ''I''}"
proof -
  have "\<forall>c\<in>set (hex n). \<exists>d<16. c = digit_char d"
  proof (induction n rule: less_induct)
    case (less n)
    show ?case
    proof (cases "n < 16")
      case False
      then have "n div 16 < n" by simp
      from less [OF this] False show ?thesis
        by (subst print_number.simps) (auto intro: exI [of _ "n mod 16"])
    qed (auto simp: print_number.simps)
  qed
  moreover have "hex n \<noteq> []" using print_number_value [of 16 n] by simp
  ultimately obtain d where "d \<in> set [0..<16]" "hd (hex n) = digit_char d" by fastforce
  moreover have "\<forall>d\<in>set [0..<16]. digit_char d \<notin> {CHR ''F'', CHR ''S'', CHR ''P'', CHR ''M'', CHR ''I''}"
    by code_simp
  ultimately show ?thesis by metis
qed

lemma strtoull_hex:
  assumes "n < 2 ^ 64" shows "fst (strtoul 16 (hex n)) = word_of_nat n"
  using assms by (simp add: strtoul_def)

lemmas record_prefixes = print_file_def print_function_def print_public_def starts_with_Cons

lemma line_word: "is_word line_end w \<longleftrightarrow> w \<noteq> [] \<and> CHR 0x0D \<notin> set w \<and> CHR 0x0A \<notin> set w"
  by (auto simp: is_word_def)

lemma number_line [simp]: "CHR 0x0D \<notin> set (hex n)" "CHR 0x0A \<notin> set (hex n)"
    "CHR 0x0D \<notin> set (dec n)" "CHR 0x0A \<notin> set (dec n)" "hex n \<noteq> []" "dec n \<noteq> []"
  using number_word(3,4) [of n] by (simp_all add: line_word)

lemma record_word: "record_ok r \<Longrightarrow> is_word line_end (record_text r)"
  by (cases r)
    (simp_all add: line_word join_words_def print_file_def print_function_def print_line_def print_public_def)

lemma not_stack [simp]: "text_behind l rest = rest" if "\<not> starts_with ''STACK '' l \<or> \<not> stack_bare l"
  using that by (auto simp: text_behind_def)

lemma process_file:
  assumes "record_ok (FileRecord i name)"
  shows "process_line (record_text (FileRecord i name)) behind (m, cur, n) =
    Some (m\<lparr>files := std_insert (int i) name (files m)\<rparr>, cur, n)"
proof -
  have "ParseFile (print_file i name) = Some (int i, name)"
    using ParsePublicSymbol_ParseFile_print [of 0 0 name i name] assms by (simp add: LONG_MAX_def)
  with assms show ?thesis
    by (simp add: process_line_def Module_ParseFile_def print_file_def starts_with_Cons long_to_int_nat sint_of_nat)
qed

lemma process_function:
  assumes "record_ok (FuncRecord b a s p name)" and "apply_record (FuncRecord b a s p name) (m, cur) = Some (m', cur')"
  shows "process_line (record_text (FuncRecord b a s p name)) behind (m, cur, n) = Some (m', cur', n)"
proof -
  have "Module_ParseFunction (print_function b a s p name) =
      Some (Function_new name (word_of_nat a) (word_of_nat s) (word_of_nat p) b)"
    using ParseFunction_print [of a s p name b] assms(1)
    by (simp add: LONG_MAX_def Module_ParseFunction_def long_to_int_nat)
  with assms show ?thesis
    by (auto simp: process_line_def print_function_def starts_with_Cons Function_new_def split: bind_splits)
qed

lemma process_source_line:
  assumes "record_ok (LineRecord a s l f)" and "apply_record (LineRecord a s l f) (m, cur) = Some (m', cur')"
  shows "process_line (record_text (LineRecord a s l f)) behind (m, cur, n) = Some (m', cur', n)"
proof -
  have "Module_ParseLine (print_line a s l f) = Some \<lparr>line_address = word_of_nat a, line_size = word_of_nat s,
      source_file_id = word_of_nat f, line_number = word_of_nat l\<rparr>"
    using ParseLine_print [of a s l f] assms(1) by (simp add: LONG_MAX_def Module_ParseLine_def long_to_int_nat)
  moreover obtain c cs where "print_line a s l f = c # cs" "c \<notin> {CHR ''F'', CHR ''S'', CHR ''P'', CHR ''M'', CHR ''I''}"
    using hex_first [of a] number_line(5) [of a] by (cases "hex a") (simp_all add: print_line_def join_words_def)
  ultimately show ?thesis using assms(2)
    by (auto simp: process_line_def starts_with_Cons Let_def split: bind_splits option.splits)
qed

lemma process_public:
  assumes "record_ok (PublicRecord b a p name)" and "apply_record (PublicRecord b a p name) (m, cur) = Some (m', cur')"
  shows "process_line (record_text (PublicRecord b a p name)) behind (m, cur, n) = Some (m', cur', n)"
proof -
  have "ParsePublicSymbol (print_public b a p name) = Some (b, word_of_nat a, int p, name)"
    using ParsePublicSymbol_ParseFile_print [of a p name 0 name b] assms(1) by (simp add: LONG_MAX_def)
  moreover have "(word_of_nat a :: u64) = 0 \<longleftrightarrow> a = 0"
    using assms(1) by (auto simp: word_of_nat_eq_0_iff dest!: dvd_imp_le)
  ultimately show ?thesis using assms(2)
    by (auto simp: process_line_def print_public_def starts_with_Cons Module_ParsePublicSymbol_def long_to_int_nat
        split: if_splits prod.splits)
qed

lemma cfi_line:
  assumes "hd arg \<noteq> CHR '' ''" and "l = ''STACK CFI '' @ arg"
  shows "\<not> stack_bare l" and "process_line l behind (m, cur, n) = (do {
    (m', ok) \<leftarrow> ParseCFIFrameInfo arg m; Some (m', cur, if ok then n else n + 1) })"
proof -
  have platform: "stack_platform l = ''CFI''" "stack_argument l behind = Some arg" and bare: "\<not> stack_bare l"
    using assms by (auto simp: stack_platform_def stack_argument_def stack_bare_def kWhitespace_def)
  then show "\<not> stack_bare l" and "process_line l behind (m, cur, n) = (do {
    (m', ok) \<leftarrow> ParseCFIFrameInfo arg m; Some (m', cur, if ok then n else n + 1) })"
    using assms(2) by (simp_all add: process_line_def ParseStackInfo_def starts_with_Cons)
qed

lemma hex_argument: "hd (hex a @ s) \<noteq> CHR '' ''" "hex a \<noteq> ''INIT''"
  using number_word(1) [of a] hex_first [of a] by (cases "hex a"; auto simp: is_word_def kWhitespace_def)+

lemma process_cfi_init:
  assumes "record_ok (CfiInitRecord a s rules)" and "apply_record (CfiInitRecord a s rules) (m, cur) = Some (m', cur')"
  shows "process_line (record_text (CfiInitRecord a s rules)) behind (m, cur, n) = Some (m', cur', n)"
proof -
  let ?arg = "''INIT'' @ CHR '' '' # (hex a @ CHR '' '' # (hex s @ CHR '' '' # rules))"
  have text': "record_text (CfiInitRecord a s rules) = ''STACK CFI '' @ ?arg" by (simp add: join_words_def)
  have w: "is_word kWhitespace ''INIT''" "CHR '' '' \<in> set kWhitespace" by (simp_all add: is_word_def kWhitespace_def)
  have "ParseCFIFrameInfo ?arg m = (do {
      (table, _) \<leftarrow> RangeMap_StoreRange (cfi_initial_rules m) (word_of_nat a) (word_of_nat s) rules;
      Some (m\<lparr>cfi_initial_rules := table\<rparr>, True) })"
    using assms(1) unfolding ParseCFIFrameInfo_def strtok_r_word [OF w]
    by (simp add: strtok_r_word [OF number_word(1) w(2)] strtok_r_last strtoull_hex)
  with cfi_line(2) [OF _ text'] assms(2) show ?thesis unfolding text'
    by (auto split: bind_splits)
qed

lemma process_cfi_delta:
  assumes "record_ok (CfiDeltaRecord a rules)" and "apply_record (CfiDeltaRecord a rules) (m, cur) = Some (m', cur')"
  shows "process_line (record_text (CfiDeltaRecord a rules)) behind (m, cur, n) = Some (m', cur', n)"
proof -
  let ?arg = "hex a @ CHR '' '' # rules"
  have text': "record_text (CfiDeltaRecord a rules) = ''STACK CFI '' @ ?arg" by (simp add: join_words_def)
  have w: "CHR '' '' \<in> set kWhitespace" by (simp add: kWhitespace_def)
  have "ParseCFIFrameInfo ?arg m =
      Some (m\<lparr>cfi_delta_rules := std_assign (word_of_nat a) rules (cfi_delta_rules m)\<rparr>, True)"
    using assms(1) hex_argument(2) [of a] unfolding ParseCFIFrameInfo_def strtok_r_word [OF number_word(1) w]
    by (simp add: strtok_r_last strtoull_hex)
  with cfi_line(2) [OF hex_argument(1) text'] assms(2) show ?thesis unfolding text' by simp
qed

lemma process_record:
  assumes "record_ok r" and "apply_record r (m, cur) = Some (m', cur')"
  shows "process_line (record_text r) behind (m, cur, n) = Some (m', cur', n)"
proof (cases r)
  case (FileRecord i name)
  with assms process_file [of i name behind m cur n] show ?thesis by simp
next
  case (ModuleRecord info)
  with assms show ?thesis by (simp add: process_line_def starts_with_Cons)
next
  case (InfoRecord info)
  with assms show ?thesis by (simp add: process_line_def starts_with_Cons)
next
  case (FuncRecord b a s p name)
  show ?thesis using assms unfolding FuncRecord by (rule process_function)
next
  case (LineRecord a s l f)
  show ?thesis using assms unfolding LineRecord by (rule process_source_line)
next
  case (PublicRecord b a p name)
  show ?thesis using assms unfolding PublicRecord by (rule process_public)
next
  case (CfiInitRecord a s rules)
  show ?thesis using assms unfolding CfiInitRecord by (rule process_cfi_init)
next
  case (CfiDeltaRecord a rules)
  show ?thesis using assms unfolding CfiDeltaRecord by (rule process_cfi_delta)
qed

lemma record_keeps_rest: "text_behind (record_text r) rest = rest"
proof (cases r)
  case (LineRecord a s l f)
  then show ?thesis using hex_first [of a] number_line(5) [of a]
    by (cases "hex a") (simp_all add: print_line_def join_words_def starts_with_Cons)
next
  case (CfiInitRecord a s rules)
  then show ?thesis using cfi_line(1) [OF _ refl, of "''INIT '' @ hex a @ CHR '' '' # (hex s @ CHR '' '' # rules)"]
    by (simp add: join_words_def)
next
  case (CfiDeltaRecord a rules)
  then show ?thesis using cfi_line(1) [OF hex_argument(1) refl, of a "CHR '' '' # rules"]
    by (simp add: join_words_def)
qed (simp_all add: print_file_def print_function_def print_public_def starts_with_Cons)

section \<open>Whole files\<close>

lemma load_loop_records:
  assumes "\<forall>r\<in>set rs. record_ok r" and "apply_records rs (m, cur) = Some (m', cur')"
  shows "load_loop spare (symbol_text rs) (m, cur, 0) = Some (m', cur', 0)"
  using assms
proof (induction rs arbitrary: m cur)
  case Nil
  then show ?case by (subst load_loop.simps) (simp add: symbol_text_def strtok_r_def)
next
  case (Cons r rs)
  then obtain m1 cur1 where r: "apply_record r (m, cur) = Some (m1, cur1)" "apply_records rs (m1, cur1) = Some (m', cur')"
    by (auto simp: bind_eq_Some_conv)
  have "symbol_text (r # rs) = record_text r @ CHR 0x0A # symbol_text rs" by (simp add: symbol_text_def)
  then have tok: "strtok_r line_end (symbol_text (r # rs)) = (Some (record_text r), symbol_text rs)"
    using strtok_r_word [OF record_word [of r], of "CHR 0x0A" "symbol_text rs"] Cons.prems(1) by simp
  have step: "process_line (record_text r) behind (m, cur, 0) = Some (m1, cur1, 0)" for behind
    using process_record [OF _ r(1)] Cons.prems(1) by simp
  show ?case using Cons.IH [OF _ r(2)] Cons.prems(1)
    by (subst load_loop.simps) (simp add: tok step record_keeps_rest kMaxErrorsBeforeBailing_def)
qed

text \<open>
  The names in the records hold no \<open>NUL\<close>; then the buffer is the text with its terminator.
\<close>

lemma symbol_data_of_buffer:
  assumes "CHR 0x00 \<notin> set s"
  shows "LoadMapFromMemory m (s @ [c]) = (do {
    (m, _, num_errors) \<leftarrow> load_loop False s (m, None, 0);
    Some (m\<lparr>is_corrupt := (num_errors > 0)\<rparr>, True) })"
proof -
  have "dropWhile (\<lambda>c. c = CHR 0x00) (rev s) = rev s"
    using assms by (cases s rule: rev_cases) auto
  moreover have "map (\<lambda>c. if c = CHR 0x00 then CHR ''_'' else c) s = s" using assms(1) by (auto intro: map_idI)
  ultimately show ?thesis using assms by (simp add: LoadMapFromMemory_def)
qed

lemma LoadMap_records:
  assumes "\<forall>r\<in>set rs. record_ok r" and "apply_records rs (m, None) = Some (m', cur)"
    and "CHR 0x00 \<notin> set (symbol_text rs)" and "rs \<noteq> []"
  shows "LoadMapFromMemory m (symbol_text rs @ [CHR 0x00]) = Some (m'\<lparr>is_corrupt := False\<rparr>, True)"
  using symbol_data_of_buffer [OF assms(3)] load_loop_records [OF assms(1,2)] by simp

text \<open>
  C5: the loader computes the meaning of a symbol file. For every list of well-formed records
  whose application is without errors (no line outside of a function, no duplicate
  \<open>PUBLIC\<close> address), \<open>LoadMapFromMemory\<close> on the text of the records returns true and leaves
  exactly the module that the records describe, marked as not corrupt.
\<close>

theorem LoadMapFromMemory_records:
  assumes "\<forall>r\<in>set rs. record_ok r" and "apply_records rs (m, None) = Some (m', cur)"
    and "CHR 0x00 \<notin> set (symbol_text rs)" and "rs \<noteq> []"
  shows "LoadMapFromMemory m (symbol_text rs @ [CHR 0x00]) = Some (m'\<lparr>is_corrupt := False\<rparr>, True)"
  by (rule LoadMap_records [OF assms])

theorem LoadMapFromMemory_records_witness:
  "\<exists>m' cur. apply_records [FileRecord 3 ''a.cc'', FuncRecord False 4096 16 0 ''main'', LineRecord 4096 8 7 3]
       (Module_new ''x'', None) = Some (m', cur) \<and>
     LoadMapFromMemory (Module_new ''x'')
       (symbol_text [FileRecord 3 ''a.cc'', FuncRecord False 4096 16 0 ''main'', LineRecord 4096 8 7 3] @ [CHR 0x00]) =
     Some (m'\<lparr>is_corrupt := False\<rparr>, True)"
proof -
  let ?rs = "[FileRecord 3 ''a.cc'', FuncRecord False 4096 16 0 ''main'', LineRecord 4096 8 7 3]"
  have ok: "\<forall>r\<in>set ?rs. record_ok r" by (simp add: is_word_def)
  obtain t k where t: "RangeMap_StoreRange RangeMap_new 4096 16 (0::nat) = Some (t, k)"
    using StoreRange_defined [OF range_map_inv_new, where b = 4096 and s = 16 and e = "0::nat"] by blast
  obtain u k' where u: "RangeMap_StoreRange RangeMap_new 4096 8 (Some \<lparr>line_address = 4096, line_size = 8,
      source_file_id = 3, line_number = 7\<rparr>) = Some (u, k')"
    using StoreRange_defined [OF range_map_inv_new, where b = 4096 and s = 8 and e = "Some \<lparr>line_address = 4096,
      line_size = 8, source_file_id = 3, line_number = 7\<rparr>"] by blast
  obtain m' cur where m': "apply_records ?rs (Module_new ''x'', None) = Some (m', cur)"
    using t u by (simp add: Module_new_def Function_new_def)
  have "CHR 0x00 \<notin> set (symbol_text ?rs)" by code_simp
  from LoadMapFromMemory_records [OF ok m' this] m' show ?thesis by (intro exI conjI) simp_all
qed

text \<open>
  The loader overwrites the last byte of the buffer with a terminator, ignores the terminators
  before it and replaces those inside of the text. None of this makes a text that does not end
  in a bare \<open>STACK\<close> line end in one.
\<close>

lemma dangling_without_nul:
  assumes "dangling (map (\<lambda>c. if c = CHR 0x00 then CHR ''_'' else c) s)"
  shows "dangling s"
proof -
  let ?f = "\<lambda>c. if c = CHR 0x00 then CHR ''_'' else c"
  have line: "last_line (map ?f s) = map ?f (last_line s)"
  proof -
    have "takeWhile (\<lambda>c. c \<notin> set line_end) (map ?f t) = map ?f (takeWhile (\<lambda>c. c \<notin> set line_end) t)" for t
      by (induction t) auto
    then show ?thesis by (simp only: last_line_def rev_map)
  qed
  have "CHR ''_'' \<notin> set (map ?f (last_line s))"
    using bare_stack_chars(3) [of "last_line (map ?f s)"] assms unfolding dangling_def line by auto
  then have "map ?f (last_line s) = last_line s" by (intro map_idI) auto
  with assms show ?thesis by (simp only: dangling_def line)
qed

lemma LoadMap_defined:
  assumes "module_inv m" and "\<not> dangling text"
  shows "\<exists>m'. LoadMapFromMemory m (text @ [c]) = Some (m', True) \<and> module_inv m'"
proof -
  define data where "data = rev (dropWhile (\<lambda>c. c = CHR 0x00) (rev text))"
  define symbols where "symbols = map (\<lambda>c. if c = CHR 0x00 then CHR ''_'' else c) data"
  have len: "length symbols = length data" by (simp add: symbols_def)
  let ?more = "length (text @ [CHR 0x00]) \<ge> length data + 2"
  have b: "rev (dropWhile (\<lambda>c. c = CHR 0x00) (rev (text @ [CHR 0x00]))) = data" by (simp add: data_def)
  have "?more \<or> data = text"
  proof (cases "takeWhile (\<lambda>c. c = CHR 0x00) (rev text)")
    case Nil
    then have "dropWhile (\<lambda>c. c = CHR 0x00) (rev text) = rev text"
      using takeWhile_dropWhile_id [of "\<lambda>c. c = CHR 0x00" "rev text"] by simp
    then show ?thesis by (simp add: data_def)
  next
    case (Cons a as)
    have "length text = length (takeWhile (\<lambda>c. c = CHR 0x00) (rev text)) + length data"
      by (simp only: data_def length_rev flip: length_append) simp
    with Cons show ?thesis by simp
  qed
  then have "?more \<or> \<not> dangling symbols" using dangling_without_nul [of data] assms(2) by (auto simp: symbols_def)
  moreover have "load_inv (m, None, if CHR 0x00 \<in> set data then 1 else 0)" using assms by (simp add: load_inv_def)
  ultimately obtain m' cur n where "load_loop ?more symbols (m, None, if CHR 0x00 \<in> set data then 1 else 0) =
      Some (m', cur, n)" "load_inv (m', cur, n)" using load_loop_inv by (metis prod_cases3)
  then have "LoadMapFromMemory m (text @ [c]) = Some (m'\<lparr>is_corrupt := (n > 0)\<rparr>, True)" "module_inv m'"
    unfolding LoadMapFromMemory_def butlast_snoc b Let_def symbols_def [symmetric]
    by (simp_all add: load_inv_def len split del: if_split)
  then show ?thesis by (simp add: module_inv_def)
qed

text \<open>
  C25: the loader returns on every text, followed by one byte, as the symbol suppliers pass it,
  that does not end in a \<open>STACK CFI\<close> or \<open>STACK WIN\<close> line without fields and without a line
  end (behind which it would read outside of the buffer); it returns true and keeps the module
  well formed: every table is ordered and disjoint, and no table holds a null pointer or a
  function that does not exist.
\<close>

theorem LoadMapFromMemory_total:
  assumes "module_inv m" and "\<not> dangling text"
  shows "\<exists>m'. LoadMapFromMemory m (text @ [c]) = Some (m', True) \<and> module_inv m'"
  by (rule LoadMap_defined [OF assms])

theorem LoadMapFromMemory_total_witness:
  "\<exists>m'. LoadMapFromMemory (Module_new ''x'') (''FUNC zz'' @ CHR 0x00 # CHR 0x0A # ''STACK CFI 10'' @ [CHR 0x00]) =
     Some (m', True) \<and> module_inv m'"
proof -
  have "\<not> dangling (''FUNC zz'' @ CHR 0x00 # CHR 0x0A # ''STACK CFI 10'')" by code_simp
  from LoadMapFromMemory_total [OF module_inv_new this, of "''x''" "CHR 0x00"] show ?thesis by simp
qed

section \<open>Lookups\<close>

lemma nearest_below:
  assumes "exclusive_table P t" and "RangeMap_RetrieveNearestRange t a = Some (e, b, d, s)"
  shows "pa > b \<longleftrightarrow> (\<forall>p\<in>set (rm_map t). base (snd p) \<le> a \<longrightarrow> base (snd p) < pa)"
proof -
  let ?ps = "filter (\<lambda>p. base (snd p) \<le> a) (rm_map t)"
  have inv: "ranges_inv (rm_map t)" using assms(1) by (simp add: exclusive_table_def range_map_inv_def)
  have ps: "?ps \<noteq> []" "b = base (snd (last ?ps))"
    using assms(2) RetrieveRange_via_nearest [of t a] inv last_range_from_eq [OF refl, of "rm_map t" a]
    by (auto simp: range_map_inv_def range_outputs_def split: if_splits prod.splits)
  obtain xs y where xy: "?ps = xs @ [y]" using ps(1) by (cases ?ps rule: rev_cases) auto
  have "ranges_inv ?ps" using inv by (rule ranges_inv_filter)
  then have "ranges_inv (xs @ [y])" by (simp only: xy)
  then have "base (snd x) \<le> base (snd y)" if "x \<in> set xs" for x
    using that ranges_inv_ok [of xs x] by (auto simp: range_before_def range_ok_def)
  then have "pa > b \<longleftrightarrow> (\<forall>p\<in>set ?ps. base (snd p) < pa)" using ps(2) xy by fastforce
  then show ?thesis by auto
qed

lemma nearest_none:
  assumes "range_map_inv t" and "RangeMap_RetrieveNearestRange t a = None"
  shows "\<forall>p\<in>set (rm_map t). \<not> base (snd p) \<le> a"
  using assms(2) RetrieveRange_via_nearest [OF assms(1), of a] last_range_from_eq [OF refl, of "rm_map t" a]
  by (auto simp: filter_empty_conv split: if_splits)

lemma symbol_not_null:
  assumes "module_inv m" and "AddressMap_Retrieve (public_symbols m) a = Some (symbol, k)"
  shows "symbol \<noteq> None"
proof -
  have ok: "symbols_ok (public_symbols m)" using assms(1) by (simp add: module_inv_def)
  then have "std_find (am_map (public_symbols m)) k = Some symbol"
    using assms(2) AddressMap_Retrieve_iff [of "public_symbols m" a symbol k] by (auto simp: symbols_ok_def)
  then have "(k, symbol) \<in> set (am_map (public_symbols m))" by (simp add: std_find_map_of map_of_SomeD)
  with ok show ?thesis by (auto simp: symbols_ok_def)
qed

lemma line_not_null:
  assumes "module_inv m" and "RangeMap_RetrieveNearestRange (module_functions m) a = Some (ptr, b, d, s)"
    and "RangeMap_RetrieveRange (func_lines (function_heap m ! ptr)) a' = Some (line, out)"
  shows "line \<noteq> None"
proof -
  have "ptr < length (function_heap m)"
    using RetrieveNearestRange_entry [OF _ assms(2)] assms(1) by (auto simp: module_inv_def)
  then have "function_ok (function_heap m ! ptr)" using assms(1) by (simp add: module_inv_def list_all_length)
  with RetrieveRange_entry [of "\<lambda>line. line \<noteq> None" "func_lines (function_heap m ! ptr)" a' line] assms(3)
  show ?thesis by (cases out) (auto simp: function_ok_def)
qed

lemma LookupAddress_lemma:
  fixes frame :: "'a StackFrame_scheme"
  assumes "module_inv m" and "frame_module frame = Some code_module"
  defines "module_base \<equiv> base_address code_module"
  defines "a \<equiv> instruction frame - module_base"
  shows "\<exists>frame'. LookupAddress m frame = Some frame' \<and>
    (case RangeMap_RetrieveRange (module_functions m) a of
       Some (ptr, func_base, _, _) \<Rightarrow>
         function_name frame' = func_name (function_heap m ! ptr) \<and>
         function_base frame' = module_base + func_base \<and>
         (case RangeMap_RetrieveRange (func_lines (function_heap m ! ptr)) a of
            Some (line, line_base, _, _) \<Rightarrow>
              line \<noteq> None \<and> source_line frame' = line_number (the line) \<and>
              source_line_base frame' = module_base + line_base \<and>
              (case std_find (files m) (sint (source_file_id (the line))) of
                 Some name \<Rightarrow> source_file_name frame' = name
               | None \<Rightarrow> source_file_name frame' = source_file_name frame)
          | None \<Rightarrow> source_line frame' = source_line frame \<and> source_file_name frame' = source_file_name frame)
     | None \<Rightarrow>
         (case AddressMap_Retrieve (public_symbols m) a of
            Some (symbol, public_address) \<Rightarrow>
              symbol \<noteq> None \<and>
              frame' = (if \<forall>p\<in>set (rm_map (module_functions m)). base (snd p) \<le> a \<longrightarrow> base (snd p) < public_address
                        then frame\<lparr>function_name := pub_name (the symbol),
                                   function_base := module_base + public_address\<rparr>
                        else frame)
          | None \<Rightarrow> frame' = frame))"
proof -
  let ?t = "module_functions m" and ?pub = "AddressMap_Retrieve (public_symbols m) a"
  have tab: "exclusive_table (\<lambda>ptr. ptr < length (function_heap m)) ?t" using assms(1) by (simp add: module_inv_def)
  note inv = exclusive_table_inv [OF tab]
  note via = conjunct2 [OF RetrieveRange_via_nearest [OF inv, of a]]
  note symbol = symbol_not_null [OF assms(1), of a]
  show ?thesis
  proof (cases "RangeMap_RetrieveNearestRange ?t a")
    case None
    note vacuous = nearest_none [OF inv None]
    show ?thesis using None vacuous symbol
      by (cases ?pub) (auto simp: LookupAddress_def assms(2) via simp flip: module_base_def a_def)
  next
    case (Some out)
    obtain ptr fb d fs where out: "out = (ptr, fb, d, fs)" by (cases out)
    note near = Some [unfolded out]
    note line = line_not_null [OF assms(1) near, of a]
    show ?thesis
    proof (cases "fb \<le> a \<and> a - fb < fs")
      case True
      show ?thesis
      proof (cases "RangeMap_RetrieveRange (func_lines (function_heap m ! ptr)) a")
        case None
        with True near show ?thesis by (auto simp: LookupAddress_def assms(2) via simp flip: module_base_def a_def)
      next
        case (Some found)
        then obtain l lb rest where "found = (Some l, lb, rest)" using line by (cases found) auto
        with Some True near show ?thesis
          by (cases "std_find (files m) (sint (source_file_id l))")
            (auto simp: LookupAddress_def assms(2) via simp flip: module_base_def a_def split: prod.splits)
      qed
    next
      case False
      then show ?thesis using near symbol nearest_below [OF tab near]
        by (cases ?pub) (auto simp: LookupAddress_def assms(2) via Let_def simp flip: module_base_def a_def)
    qed
  qed
qed

text \<open>
  C7: \<open>LookupAddress\<close> in a well-formed module never dereferences a null pointer. An address
  inside a function gets that function's name and base, and the line (and the name of its
  file) whose range holds the address, if there is one. Outside of all functions it gets the
  nearest \<open>PUBLIC\<close> symbol at or below it, but only when no function begins at or above that
  symbol; otherwise the frame is unchanged.
\<close>

theorem LookupAddress_correct:
  fixes frame :: "'a StackFrame_scheme"
  assumes "module_inv m" and "frame_module frame = Some code_module"
  defines "module_base \<equiv> base_address code_module"
  defines "a \<equiv> instruction frame - module_base"
  shows "\<exists>frame'. LookupAddress m frame = Some frame' \<and>
    (case RangeMap_RetrieveRange (module_functions m) a of
       Some (ptr, func_base, _, _) \<Rightarrow>
         function_name frame' = func_name (function_heap m ! ptr) \<and>
         function_base frame' = module_base + func_base \<and>
         (case RangeMap_RetrieveRange (func_lines (function_heap m ! ptr)) a of
            Some (line, line_base, _, _) \<Rightarrow>
              line \<noteq> None \<and> source_line frame' = line_number (the line) \<and>
              source_line_base frame' = module_base + line_base \<and>
              (case std_find (files m) (sint (source_file_id (the line))) of
                 Some name \<Rightarrow> source_file_name frame' = name
               | None \<Rightarrow> source_file_name frame' = source_file_name frame)
          | None \<Rightarrow> source_line frame' = source_line frame \<and> source_file_name frame' = source_file_name frame)
     | None \<Rightarrow>
         (case AddressMap_Retrieve (public_symbols m) a of
            Some (symbol, public_address) \<Rightarrow>
              symbol \<noteq> None \<and>
              frame' = (if \<forall>p\<in>set (rm_map (module_functions m)). base (snd p) \<le> a \<longrightarrow> base (snd p) < public_address
                        then frame\<lparr>function_name := pub_name (the symbol),
                                   function_base := module_base + public_address\<rparr>
                        else frame)
          | None \<Rightarrow> frame' = frame))"
  unfolding a_def module_base_def by (rule LookupAddress_lemma [OF assms(1,2)])

definition example_module :: Module where
  "example_module = (Module_new ''x'')
     \<lparr>files := [(3, ''a.cc'')],
      function_heap := [\<lparr>func_name = ''main'', func_address = 4096, func_size = 16, func_parameter_size = 0,
        func_is_multiple = False, func_lines = \<lparr>merge_strategy = kExclusiveRanges, rm_map =
          [(4103, \<lparr>base = 4096, delta = 0, entry = Some \<lparr>line_address = 4096, line_size = 8, source_file_id = 3,
             line_number = 7\<rparr>\<rparr>)]\<rparr>\<rparr>],
      module_functions := \<lparr>merge_strategy = kExclusiveRanges, rm_map = [(4111, \<lparr>base = 4096, delta = 0, entry = 0\<rparr>)]\<rparr>,
      cfi_initial_rules := \<lparr>merge_strategy = kExclusiveRanges,
        rm_map = [(4111, \<lparr>base = 4096, delta = 0, entry = ''.cfa: $esp 4 +''\<rparr>)]\<rparr>,
      cfi_delta_rules := [(4088, ''.cfa: $ebx''), (4100, ''.cfa: $esp 8 +''), (4104, ''.cfa: $ebp'')]\<rparr>"

definition example_frame :: StackFrame where
  "example_frame = StackFrame_new\<lparr>instruction := 69636,
     frame_module := Some (CodeModule_new 65536 8192 ''x'' [] [] [] [] False)\<rparr>"

lemma example_frame_simps:
  "frame_module example_frame = Some (CodeModule_new 65536 8192 ''x'' [] [] [] [] False)"
  "instruction example_frame - base_address (CodeModule_new 65536 8192 ''x'' [] [] [] [] False) = 4100"
  by (simp_all add: example_frame_def CodeModule_new_def)

lemma example_module_inv: "module_inv example_module"
  using module_inv_new [of "''x''"]
  by (simp add: module_inv_def example_module_def function_ok_def exclusive_table_def range_map_inv_def range_ok_def)

theorem LookupAddress_correct_witness:
  "\<exists>frame'. LookupAddress example_module example_frame = Some frame' \<and> function_name frame' = ''main'' \<and>
     source_line frame' = 7 \<and> source_file_name frame' = ''a.cc''"
proof -
  have "RangeMap_RetrieveRange (module_functions example_module) 4100 = Some (0, 4096, 0, 16)"
    "RangeMap_RetrieveRange (func_lines (function_heap example_module ! 0)) 4100 =
       Some (Some \<lparr>line_address = 4096, line_size = 8, source_file_id = 3, line_number = 7\<rparr>, 4096, 0, 8)"
    by code_simp+
  moreover have "func_name (function_heap example_module ! 0) = ''main''" "files example_module = [(3, ''a.cc'')]"
    by (simp_all add: example_module_def)
  ultimately show ?thesis using LookupAddress_correct [OF example_module_inv example_frame_simps(1)]
    by (auto simp: example_frame_simps(2))
qed

section \<open>Call frame information\<close>

lemma apply_delta_rules_foldl:
  assumes "std_map_inv ds"
  shows "apply_delta_rules ds a rules =
    foldl (\<lambda>rules d. snd (ParseCFIRuleSet (snd d) rules)) rules (filter (\<lambda>d. fst d \<le> a) ds)"
  using assms
proof (induction ds arbitrary: rules)
  case (Cons d ds)
  obtain k t where d: "d = (k, t)" by fastforce
  have "filter (\<lambda>d. fst d \<le> a) ds = []" if "\<not> k \<le> a"
    using that Cons.prems d by (fastforce simp: filter_empty_conv)
  with Cons d show ?case by auto
qed simp

lemma drop_lower_bound:
  assumes "std_map_inv ds" shows "drop (lower_bound ds k) ds = filter (\<lambda>d. k \<le> fst d) ds"
  using assms
proof (induction ds)
  case (Cons d ds)
  have "filter (\<lambda>d. k \<le> fst d) (d # ds) = d # ds" if "k \<le> fst d"
    using that Cons.prems by (cases d) (force intro!: filter_True)
  with Cons show ?case by (cases d) (auto simp: lower_bound_def not_less)
qed (simp add: lower_bound_def)

text \<open>
  C14: \<open>FindCFIFrameInfo\<close> returns rules exactly when the address is in the range of a
  \<open>STACK CFI INIT\<close> record whose rule set parses; the rules are those of that record, changed
  by every delta record between the start of the range and the address, in the order of their
  addresses and by no other.
\<close>

theorem FindCFIFrameInfo_correct:
  fixes frame :: "'a StackFrame_scheme"
  assumes "module_inv m" and "frame_module frame = Some code_module"
  defines "a \<equiv> instruction frame - base_address code_module"
  shows "FindCFIFrameInfo m frame = Some
    (case RangeMap_RetrieveRange (cfi_initial_rules m) a of
       None \<Rightarrow> None
     | Some (initial_rules, b, _, _) \<Rightarrow>
         (case ParseCFIRuleSet initial_rules CFIFrameInfo_new of (ok, rules) \<Rightarrow>
            if ok then
              Some (foldl (\<lambda>rules d. snd (ParseCFIRuleSet (snd d) rules)) rules
                     (filter (\<lambda>d. b \<le> fst d \<and> fst d \<le> a) (cfi_delta_rules m)))
            else None))"
proof -
  have ds: "std_map_inv (cfi_delta_rules m)" using assms(1) by (simp add: module_inv_def)
  have "std_map_inv (filter (\<lambda>d. b \<le> fst d) (cfi_delta_rules m))" for b
    using ds by (simp add: std_map_inv_def sorted_wrt_map sorted_wrt_filter)
  then show ?thesis
    by (auto simp: FindCFIFrameInfo_def assms(2) Let_def a_def drop_lower_bound [OF ds] apply_delta_rules_foldl
        conj_commute split: option.splits prod.splits)
qed

theorem FindCFIFrameInfo_correct_witness:
  "FindCFIFrameInfo example_module example_frame =
     Some (Some (snd (ParseCFIRuleSet ''.cfa: $esp 8 +'' (snd (ParseCFIRuleSet ''.cfa: $esp 4 +'' CFIFrameInfo_new)))))"
proof -
  have "RangeMap_RetrieveRange (cfi_initial_rules example_module) 4100 = Some (''.cfa: $esp 4 +'', 4096, 0, 16)"
    "fst (ParseCFIRuleSet ''.cfa: $esp 4 +'' CFIFrameInfo_new)" by code_simp+
  moreover have "filter (\<lambda>d. 4096 \<le> fst d \<and> fst d \<le> 4100) (cfi_delta_rules example_module) = [(4100, ''.cfa: $esp 8 +'')]"
    by (simp add: example_module_def)
  ultimately show ?thesis using FindCFIFrameInfo_correct [OF example_module_inv example_frame_simps(1)]
    by (auto simp: example_frame_simps(2) split: prod.splits)
qed

section \<open>A record without its fields\<close>

text \<open>The text of some lines, each of them ended.\<close>

definition unlines :: "string list \<Rightarrow> string" where
  "unlines ls = concat (map (\<lambda>l. l @ [CHR 0x0A]) ls)"

lemma unlines_simps [simp]: "unlines [] = []" "unlines (l # ls) = l @ CHR 0x0A # unlines ls"
  by (simp_all add: unlines_def)

text \<open>A line with fields does not look behind its end, and the text behind it stays as it is.\<close>

lemma process_line_behind: "\<not> bare_stack l \<Longrightarrow> process_line l b state = process_line l b' state"
  by (auto simp: process_line_def bare_stack_def ParseStackInfo_def stack_argument_def split: prod.splits)

lemma text_behind_id: "\<not> bare_stack l \<Longrightarrow> text_behind l rest = rest"
  by (auto simp: text_behind_def bare_stack_def)

lemma load_loop_line:
  assumes "is_word line_end l"
  shows "load_loop spare (l @ CHR 0x0A # rest) state = (do {
    state \<leftarrow> process_line l (Some rest) state;
    if snd (snd state) > kMaxErrorsBeforeBailing then Some state else load_loop spare (text_behind l rest) state })"
proof -
  have tok: "strtok_r line_end (l @ CHR 0x0A # rest) = (Some l, rest)" by (rule strtok_r_word [OF assms]) simp
  have skip: "dropWhile (\<lambda>c. c \<in> set line_end) (l @ CHR 0x0A # rest) = l @ CHR 0x0A # rest"
    using assms by (cases l) (auto simp: is_word_def)
  have "CHR 0x0A \<in> set line_end" by simp
  then have "dropWhile (\<lambda>c. c \<notin> set line_end) (l @ CHR 0x0A # rest) \<noteq> []" unfolding dropWhile_eq_Nil_conv by auto
  then have "ended_line (l @ CHR 0x0A # rest)" by (simp only: ended_line_def skip not_False_eq_True)
  with tok show ?thesis by (subst load_loop.simps) simp
qed

lemma load_loop_Nil: "load_loop spare [] state = Some state"
  by (subst load_loop.simps) (simp add: strtok_r_def)

lemma load_loop_lines:
  assumes "\<forall>l\<in>set ls. is_word line_end l \<and> \<not> bare_stack l"
    and "load_loop spare (unlines ls) state = Some state'" and "snd (snd state') \<le> kMaxErrorsBeforeBailing"
  shows "load_loop spare' (unlines ls @ s) state = load_loop spare' s state'"
  using assms
proof (induction ls arbitrary: state)
  case Nil
  then show ?case by (simp add: load_loop_Nil)
next
  case (Cons l ls)
  have l: "is_word line_end l" "\<not> bare_stack l" using Cons.prems(1) by simp_all
  note step = load_loop_line [OF l(1)] text_behind_id [OF l(2)]
  from Cons.prems(2) obtain st where st: "process_line l (Some (unlines ls)) state = Some st"
    by (auto simp: step split: bind_splits)
  then have "process_line l (Some (unlines ls @ s)) state = Some st" using process_line_behind [OF l(2)] by metis
  moreover from Cons.prems(2,3) st have "\<not> snd (snd st) > kMaxErrorsBeforeBailing"
    "load_loop spare (unlines ls) st = Some state'" by (auto simp: step split: if_splits)
  ultimately show ?case using Cons.IH [of st] Cons.prems by (simp add: step)
qed

text \<open>
  What is left of the text behind a bare \<open>STACK CFI\<close> line: white space and at most one word.
  No line of it is a record, so the loader counts an error for each of them.
\<close>

definition one_word :: "string \<Rightarrow> bool" where
  "one_word s \<longleftrightarrow> (\<forall>c\<in>set (dropWhile (\<lambda>c. c \<in> set kWhitespace) s). c \<notin> set kWhitespace)"

lemma one_word_append: "one_word (a @ b) \<Longrightarrow> one_word a \<and> one_word b"
proof -
  let ?P = "\<lambda>c. c \<in> set kWhitespace"
  assume w: "one_word (a @ b)"
  show ?thesis
  proof (cases "\<forall>c\<in>set a. ?P c")
    case True
    then have "dropWhile ?P (a @ b) = dropWhile ?P b" "dropWhile ?P a = []"
      by (simp_all only: dropWhile_append2 dropWhile_eq_Nil_conv)
    with w show ?thesis by (simp only: one_word_def list.set ball_empty)
  next
    case False
    then obtain c where "c \<in> set a" "\<not> ?P c" by blast
    then have "dropWhile ?P (a @ b) = dropWhile ?P a @ b" by (rule dropWhile_append1)
    with w have "(\<forall>c\<in>set (dropWhile ?P a). \<not> ?P c) \<and> (\<forall>c\<in>set b. \<not> ?P c)"
      by (simp only: one_word_def set_append ball_Un)
    moreover have "set (dropWhile ?P b) \<subseteq> set b" by (blast dest: set_dropWhileD)
    ultimately show ?thesis unfolding one_word_def by blast
  qed
qed

lemma one_word_keyword:
  assumes "one_word l" and "k \<notin> set kWhitespace"
  shows "\<not> starts_with (k # ks @ '' '') l"
proof
  assume "starts_with (k # ks @ '' '') l"
  then obtain r where l: "l = k # (ks @ CHR '' '' # r)"
    using append_take_drop_id [of "length (k # ks @ '' '')" l]
    unfolding starts_with_def by (metis append_Cons append_Nil append_assoc)
  have "dropWhile (\<lambda>c. c \<in> set kWhitespace) l = l" using assms(2) by (simp add: l)
  moreover have "CHR '' '' \<in> set l" by (simp add: l)
  ultimately have "CHR '' '' \<notin> set kWhitespace" using assms(1) unfolding one_word_def by metis
  then show False by (simp add: set_kWhitespace)
qed

lemma one_word_ParseLine:
  assumes "one_word l" shows "Module_ParseLine l = None"
proof -
  let ?d = "dropWhile (\<lambda>c. c \<in> set kWhitespace) l"
  have "dropWhile (\<lambda>c. c \<notin> set kWhitespace) ?d = []"
    using assms unfolding one_word_def dropWhile_eq_Nil_conv by blast
  then have "snd (strtok_r kWhitespace l) = []" unfolding strtok_r_def Let_def
    by (cases "?d = []") (simp_all only: simp_thms if_True if_False snd_conv drop_Nil)
  then have "words_of kWhitespace (Suc 2) l = None"
    by (cases "strtok_r kWhitespace l") (simp add: numeral_2_eq_2 strtok_r_def [of _ "[]"] split: option.splits)
  then have "Tokenize l kWhitespace (int 2 + 2) \<noteq> (fst (Tokenize l kWhitespace 4), True)"
    by (simp only: Tokenize_words) simp
  then have "\<not> snd (Tokenize l kWhitespace 4)" by (cases "Tokenize l kWhitespace 4") simp
  then show ?thesis by (simp add: Module_ParseLine_def ParseLine_def case_prod_beta')
qed

lemma one_word_process:
  assumes "one_word l" shows "process_line l behind (m, cur, n) = Some (m, cur, n + 1)"
proof -
  have k: "\<not> starts_with ''FILE '' l" "\<not> starts_with ''STACK '' l" "\<not> starts_with ''FUNC '' l"
    "\<not> starts_with ''PUBLIC '' l" "\<not> starts_with ''MODULE '' l" "\<not> starts_with ''INFO '' l"
    using one_word_keyword [OF assms, of "CHR ''F''" "''ILE''"] one_word_keyword [OF assms, of "CHR ''S''" "''TACK''"]
      one_word_keyword [OF assms, of "CHR ''F''" "''UNC''"] one_word_keyword [OF assms, of "CHR ''P''" "''UBLIC''"]
      one_word_keyword [OF assms, of "CHR ''M''" "''ODULE''"] one_word_keyword [OF assms, of "CHR ''I''" "''NFO''"]
    by (simp_all add: set_kWhitespace)
  show ?thesis by (cases cur) (simp_all add: process_line_def k one_word_ParseLine [OF assms])
qed

lemma load_loop_one_word:
  assumes "one_word s"
  shows "\<exists>n'. load_loop spare s (m, cur, n) = Some (m, cur, n') \<and> n \<le> n' \<and> (set s \<subseteq> set line_end \<or> n < n')"
  using assms
proof (induction "length s" arbitrary: s n rule: less_induct)
  case less
  show ?case
  proof (cases "fst (strtok_r line_end s)")
    case None
    then obtain rest where tok: "strtok_r line_end s = (None, rest)" by (metis prod.collapse)
    then have "dropWhile (\<lambda>c. c \<in> set line_end) s = []" by (simp add: strtok_r_def Let_def split: if_splits)
    then have "set s \<subseteq> set line_end" unfolding dropWhile_eq_Nil_conv by blast
    moreover have "load_loop spare s (m, cur, n) = Some (m, cur, n)" using tok by (subst load_loop.simps) simp
    ultimately show ?thesis by blast
  next
    case (Some l)
    then obtain rest where tok: "strtok_r line_end s = (Some l, rest)" by (metis prod.collapse)
    obtain skipped where "if ended_line s then \<exists>c\<in>set line_end. s = skipped @ l @ c # rest else s = skipped @ l \<and> rest = []"
      using strtok_line [OF tok] by blast
    then obtain e where "s = skipped @ l @ e @ rest" by (cases "ended_line s") (auto intro: that [of "[_]"] that [of "[]"])
    then have words: "one_word l" "one_word rest" using less.prems one_word_append by metis+
    have "\<not> starts_with ''STACK '' l"
      using one_word_keyword [OF words(1), of "CHR ''S''" "''TACK''"] by (simp add: set_kWhitespace)
    then have behind: "text_behind l rest = rest" by (simp add: text_behind_def)
    from less.hyps [OF strtok_r_shorter [OF tok] words(2), of "n + 1"]
    show ?thesis
      using tok behind by (subst load_loop.simps) (auto simp: one_word_process [OF words(1)])
  qed
qed

lemma ParseCFIFrameInfo_only:
  assumes "ParseCFIFrameInfo s m = Some (m', ok)"
  shows "\<exists>initial delta. m' = m\<lparr>cfi_initial_rules := initial, cfi_delta_rules := delta\<rparr>"
    and "fst (strtok_r kWhitespace s) = None \<Longrightarrow> \<not> ok"
proof -
  have "m'\<lparr>cfi_initial_rules := a, cfi_delta_rules := b\<rparr> = m\<lparr>cfi_initial_rules := a, cfi_delta_rules := b\<rparr>" for b a
    using assms by (simp only: ParseCFIFrameInfo_def) (auto split: option.splits prod.splits if_splits bind_splits)
  from this [of "cfi_delta_rules m'" "cfi_initial_rules m'"]
  have "m' = m\<lparr>cfi_initial_rules := cfi_initial_rules m', cfi_delta_rules := cfi_delta_rules m'\<rparr>" by simp
  then show "\<exists>initial delta. m' = m\<lparr>cfi_initial_rules := initial, cfi_delta_rules := delta\<rparr>" by blast
  show "\<not> ok" if "fst (strtok_r kWhitespace s) = None"
    using assms that by (cases "strtok_r kWhitespace s") (simp add: ParseCFIFrameInfo_def)
qed

lemma bare_stack_word:
  assumes "bare_stack l" shows "is_word line_end l" and "\<not> starts_with ''FILE '' l"
proof -
  have "set ''STACK WINCFI'' \<inter> set line_end = {}" by simp
  then show "is_word line_end l" using bare_stack_chars(3) [OF assms] assms unfolding is_word_def by fastforce
  show "\<not> starts_with ''FILE '' l"
    using bare_stack_chars(1) [OF assms] by (cases l) (auto simp: starts_with_def)
qed

lemma bare_stack_behind:
  assumes "bare_stack l" and "stack_platform l = ''CFI''"
  shows "one_word (text_behind l rest)"
    and "fst (strtok_r kWhitespace rest) = None \<or> \<not> set (text_behind l rest) \<subseteq> set line_end"
proof -
  let ?P = "\<lambda>c. c \<in> set kWhitespace"
  let ?word = "takeWhile (\<lambda>c. \<not> ?P c) (dropWhile ?P rest)"
  have behind: "text_behind l rest = takeWhile ?P rest @ ?word"
    using assms by (simp add: text_behind_def bare_stack_def)
  have word: "\<forall>c\<in>set ?word. \<not> ?P c" by (blast dest: set_takeWhileD)
  have "dropWhile ?P (takeWhile ?P rest @ w) = dropWhile ?P w" for w by (induction rest) auto
  moreover have "set (dropWhile ?P ?word) \<subseteq> set ?word" by (blast dest: set_dropWhileD)
  ultimately show "one_word (text_behind l rest)" using word unfolding one_word_def behind by (metis subsetD)
  show "fst (strtok_r kWhitespace rest) = None \<or> \<not> set (text_behind l rest) \<subseteq> set line_end"
  proof (cases "dropWhile ?P rest")
    case Nil
    then show ?thesis by (simp add: strtok_r_def)
  next
    case (Cons c cs)
    then have "\<not> ?P c" using hd_dropWhile [of ?P rest] by simp
    then have "c \<in> set ?word" by (simp add: Cons)
    moreover have "c \<notin> set line_end" using \<open>\<not> ?P c\<close> by (simp add: set_kWhitespace)
    ultimately show ?thesis unfolding behind by auto
  qed
qed

lemma process_line_errors: "process_line l b (m, cur, n) = Some (m', cur', n') \<Longrightarrow> n \<le> n'"
  by (auto simp: process_line_def Let_def split: prod.splits if_splits bind_splits option.splits)

lemma load_loop_errors:
  "load_loop spare s state = Some state' \<Longrightarrow> snd (snd state) \<le> snd (snd state')"
proof (induction spare s state rule: load_loop.induct)
  case (1 spare s state)
  obtain tok rest where tok: "strtok_r line_end s = (tok, rest)" by fastforce
  show ?case
  proof (cases tok)
    case None
    with 1(2) tok show ?thesis by (subst (asm) load_loop.simps) simp
  next
    case (Some l)
    let ?behind = "if ended_line s then Some rest else if spare then Some [] else None"
    from 1(2) tok Some obtain st where st: "process_line l ?behind state = Some st"
      by (subst (asm) load_loop.simps) (auto simp: Let_def split: bind_splits)
    have le: "snd (snd state) \<le> snd (snd st)"
      using st process_line_errors by (metis prod.collapse)
    show ?thesis
    proof (cases "snd (snd st) > kMaxErrorsBeforeBailing")
      case True
      with 1(2) tok Some st le show ?thesis by (subst (asm) load_loop.simps) simp
    next
      case False
      with 1(2) tok Some st have "load_loop spare (text_behind l rest) st = Some state'"
        by (subst (asm) load_loop.simps) simp
      from 1(1) [OF tok [symmetric, unfolded Some] refl refl st False this] le show ?thesis by simp
    qed
  qed
qed

lemma unlines_not_dangling: "\<not> dangling (unlines ls)"
proof (cases ls rule: rev_cases)
  case (snoc xs x)
  then have "unlines ls = (unlines xs @ x) @ CHR 0x0A # []" by (simp add: unlines_def)
  then have "last_line (unlines ls) = last_line []" by (simp only: last_line_ended [of "CHR 0x0A"] list.set_intros)
  then show ?thesis by (simp add: dangling_def last_line_def)
qed simp

lemma load_bare_cfi:
  assumes "module_inv m" and "bare_stack l" and "stack_platform l = ''CFI''" and "n = 0"
  shows "\<exists>initial delta cur' n'. load_loop spare (l @ CHR 0x0A # rest) (m, cur, n) =
    Some (m\<lparr>cfi_initial_rules := initial, cfi_delta_rules := delta\<rparr>, cur', n') \<and> 0 < n'"
proof -
  obtain m1 ok where m1: "ParseCFIFrameInfo rest m = Some (m1, ok)"
    using ParseCFIFrameInfo_inv [OF assms(1)] by blast
  let ?e = "if ok then 0 else 1 :: int"
  have "process_line l (Some rest) (m, cur, n) = Some (m1, cur, ?e)"
    using assms m1 bare_stack_word(2) [OF assms(2)]
    by (simp add: process_line_def bare_stack_def ParseStackInfo_def stack_argument_def)
  then have step: "load_loop spare (l @ CHR 0x0A # rest) (m, cur, n) = load_loop spare (text_behind l rest) (m1, cur, ?e)"
    by (simp add: load_loop_line [OF bare_stack_word(1) [OF assms(2)]] kMaxErrorsBeforeBailing_def)
  obtain n' where n': "load_loop spare (text_behind l rest) (m1, cur, ?e) = Some (m1, cur, n')" "?e \<le> n'"
    "set (text_behind l rest) \<subseteq> set line_end \<or> ?e < n'"
    using load_loop_one_word [OF bare_stack_behind(1) [OF assms(2,3)]] by blast
  have "0 < n'" using n'(2,3) bare_stack_behind(2) [OF assms(2,3), of rest] ParseCFIFrameInfo_only(2) [OF m1]
    by (cases ok) auto
  moreover obtain initial delta where "m1 = m\<lparr>cfi_initial_rules := initial, cfi_delta_rules := delta\<rparr>"
    using ParseCFIFrameInfo_only(1) [OF m1] by blast
  ultimately show ?thesis using step n'(1) by (metis (no_types, lifting))
qed

lemma load_bare_end:
  assumes "bare_stack l" shows "load_loop False l (m, cur, n) = None"
proof -
  have l: "is_word line_end l" by (rule bare_stack_word [OF assms])
  have tok: "strtok_r line_end l = (Some l, [])" by (rule strtok_r_last [OF l])
  have "\<not> ended_line l" using l by (cases l) (auto simp: ended_line_def is_word_def)
  with tok show ?thesis
    using assms bare_stack_word(2) [OF assms] by (subst load_loop.simps)
      (auto simp: process_line_def bare_stack_def ParseStackInfo_def stack_argument_def)
qed

text \<open>
  C26: a \<open>STACK\<close> line without fields, at any place of a file. Let the lines before it load
  without an error and give the module \<open>m'\<close>. \<open>ParseStackInfo\<close> steps over the terminator of the
  line. At the end of the buffer this reads outside of it. In the middle of a file \<open>STACK CFI\<close>
  takes what follows for its fields and cuts it behind the first word: whatever the rest of the
  file holds, no function, line, file, public symbol or \<open>STACK WIN\<close> record of it is loaded, and
  the loader still returns true.
\<close>

theorem bare_stack_line:
  assumes "module_inv m" and "\<forall>l\<in>set ls. is_word line_end l \<and> \<not> bare_stack l"
    and "CHR 0x00 \<notin> set (unlines ls)" and "CHR 0x00 \<notin> set rest"
    and "LoadMapFromMemory m (unlines ls @ [CHR 0x00]) = Some (m', True)" and "\<not> is_corrupt m'"
    and "bare_stack l"
  shows "LoadMapFromMemory m (unlines ls @ l @ [CHR 0x00]) = None \<and>
    (stack_platform l = ''CFI'' \<longrightarrow> (\<exists>initial delta.
      LoadMapFromMemory m (unlines ls @ l @ CHR 0x0A # rest @ [CHR 0x00]) =
      Some (m'\<lparr>cfi_initial_rules := initial, cfi_delta_rules := delta, is_corrupt := True\<rparr>, True)))"
proof
  obtain m0 cur n where load: "load_loop False (unlines ls) (m, None, 0) = Some (m0, cur, n)"
    and m': "m' = m0\<lparr>is_corrupt := (n > 0)\<rparr>"
    using assms(5) symbol_data_of_buffer [OF assms(3), of m "CHR 0x00"] by (auto split: bind_splits)
  have n: "n = 0" using m' assms(6) load_loop_errors [OF load] by auto
  have inv: "module_inv m0"
    using load_loop_inv [of "(m, None, 0)" False "unlines ls"] load unlines_not_dangling assms(1)
    by (auto simp: load_inv_def)
  have nul: "CHR 0x00 \<notin> set l" using bare_stack_chars(3) [OF assms(7)] by auto
  have split: "load_loop False (unlines ls @ s) (m, None, 0) = load_loop False s (m0, cur, n)" for s
    by (rule load_loop_lines [OF assms(2) load]) (simp add: n kMaxErrorsBeforeBailing_def)
  show "LoadMapFromMemory m (unlines ls @ l @ [CHR 0x00]) = None"
    using symbol_data_of_buffer [of "unlines ls @ l" m "CHR 0x00"] assms(3) nul split [of l] load_bare_end [OF assms(7)]
    by simp
  show "stack_platform l = ''CFI'' \<longrightarrow> (\<exists>initial delta.
      LoadMapFromMemory m (unlines ls @ l @ CHR 0x0A # rest @ [CHR 0x00]) =
      Some (m'\<lparr>cfi_initial_rules := initial, cfi_delta_rules := delta, is_corrupt := True\<rparr>, True))"
  proof
    assume cfi: "stack_platform l = ''CFI''"
    obtain initial delta cur' n' where "load_loop False (l @ CHR 0x0A # rest) (m0, cur, n) =
        Some (m0\<lparr>cfi_initial_rules := initial, cfi_delta_rules := delta\<rparr>, cur', n')" "0 < n'"
      using load_bare_cfi [OF inv assms(7) cfi n] by blast
    then have "LoadMapFromMemory m (unlines ls @ l @ CHR 0x0A # rest @ [CHR 0x00]) =
        Some (m'\<lparr>cfi_initial_rules := initial, cfi_delta_rules := delta, is_corrupt := True\<rparr>, True)"
      using symbol_data_of_buffer [of "unlines ls @ l @ CHR 0x0A # rest" m "CHR 0x00"] assms(3,4) nul
        split [of "l @ CHR 0x0A # rest"] by (simp add: m')
    then show "\<exists>initial delta. LoadMapFromMemory m (unlines ls @ l @ CHR 0x0A # rest @ [CHR 0x00]) =
        Some (m'\<lparr>cfi_initial_rules := initial, cfi_delta_rules := delta, is_corrupt := True\<rparr>, True)" by blast
  qed
qed

theorem bare_stack_line_witness:
  "\<exists>m' initial delta. LoadMapFromMemory (Module_new ''x'') (unlines [''FILE 1 a.cc''] @ [CHR 0x00]) = Some (m', True) \<and>
    files m' = [(1, ''a.cc'')] \<and>
    LoadMapFromMemory (Module_new ''x'') (unlines [''FILE 1 a.cc''] @ ''STACK CFI'' @ [CHR 0x00]) = None \<and>
    LoadMapFromMemory (Module_new ''x'')
      (unlines [''FILE 1 a.cc''] @ ''STACK CFI'' @ CHR 0x0A # (''FILE 2 b.cc'' @ CHR 0x0A # ''FUNC 20 10 0 g'') @ [CHR 0x00]) =
    Some (m'\<lparr>cfi_initial_rules := initial, cfi_delta_rules := delta, is_corrupt := True\<rparr>, True)"
proof -
  let ?m' = "Module_new ''x''\<lparr>files := [(1, ''a.cc'')], is_corrupt := False\<rparr>"
  have lines: "\<forall>l\<in>set [''FILE 1 a.cc'']. is_word line_end l \<and> \<not> bare_stack l"
    by (simp add: is_word_def bare_stack_def starts_with_def)
  have bare: "bare_stack ''STACK CFI''" "stack_platform ''STACK CFI'' = ''CFI''"
    by (simp_all add: bare_stack_def starts_with_def stack_bare_def stack_platform_def kWhitespace_def)
  have nul: "CHR 0x00 \<notin> set (unlines [''FILE 1 a.cc''])" "CHR 0x00 \<notin> set (''FILE 2 b.cc'' @ CHR 0x0A # ''FUNC 20 10 0 g'')"
    by simp_all
  have load: "LoadMapFromMemory (Module_new ''x'') (unlines [''FILE 1 a.cc''] @ [CHR 0x00]) = Some (?m', True)"
    by code_simp
  show ?thesis
    using bare_stack_line [OF module_inv_new lines nul load _ bare(1)] bare(2) load by (intro exI [of _ ?m']) simp
qed

end
