(* ===== verification/Frame_Symbolizer.thy ===== *)
theory Frame_Symbolizer
  imports Symbol_File
begin

text \<open>
  \<open>SourceLineResolverBase\<close> (processor/source_line_resolver_base.cc) with the modules of
  \<open>BasicSourceLineResolver\<close>, and \<open>StackFrameSymbolizer\<close> (processor/stack_frame_symbolizer.cc),
  which fetches the symbols of a module the first time a frame needs them.

  A \<open>SymbolSupplier\<close> is a function of the module and the system; reading a file is a function
  from its name to its contents. \<open>BasicSourceLineResolver\<close> deletes the buffers after loading,
  so \<open>memory_buffers_\<close> stays empty. \<^const>\<open>None\<close> as the whole result is undefined behaviour
  of \<open>LoadMapFromMemory\<close>.
\<close>

section \<open>Resolver\<close>

record SourceLineResolver =
  loaded_modules :: "string \<rightharpoonup> Module"
  corrupt_modules :: "string set"

definition SourceLineResolver_new :: SourceLineResolver where
  "SourceLineResolver_new = \<lparr>loaded_modules = Map.empty, corrupt_modules = {}\<rparr>"

text \<open>\<open>CompareString\<close> compares the C strings of the keys.\<close>

definition module_key :: "CodeModule \<Rightarrow> string" where
  "module_key c = vector_string (StringToVector (code_file c))"

definition HasModule :: "SourceLineResolver \<Rightarrow> CodeModule option \<Rightarrow> bool" where
  "HasModule r module = (case module of None \<Rightarrow> False | Some c \<Rightarrow> loaded_modules r (module_key c) \<noteq> None)"

definition IsModuleCorrupt :: "SourceLineResolver \<Rightarrow> CodeModule option \<Rightarrow> bool" where
  "IsModuleCorrupt r module = (case module of None \<Rightarrow> False | Some c \<Rightarrow> module_key c \<in> corrupt_modules r)"

definition LoadModuleUsingMemoryBuffer ::
    "SourceLineResolver \<Rightarrow> CodeModule option \<Rightarrow> string \<Rightarrow> (SourceLineResolver \<times> bool) option" where
  "LoadModuleUsingMemoryBuffer r module memory_buffer =
     (case module of
        None \<Rightarrow> Some (r, False)
      | Some c \<Rightarrow>
          if loaded_modules r (module_key c) \<noteq> None then Some (r, False)
          else do {
            (basic_module, ok) \<leftarrow> LoadMapFromMemory (Module_new (code_file c)) memory_buffer;
            if \<not> ok \<and> \<not> is_corrupt basic_module then None
            else
              let r = r\<lparr>loaded_modules := (loaded_modules r)(module_key c \<mapsto> basic_module)\<rparr>;
                  r = (if is_corrupt basic_module
                       then r\<lparr>corrupt_modules := insert (module_key c) (corrupt_modules r)\<rparr> else r)
              in Some (r, True) })"

definition LoadModuleUsingMapBuffer ::
    "SourceLineResolver \<Rightarrow> CodeModule option \<Rightarrow> string \<Rightarrow> (SourceLineResolver \<times> bool) option" where
  "LoadModuleUsingMapBuffer r module map_buffer =
     (case module of
        None \<Rightarrow> Some (r, False)
      | Some c \<Rightarrow>
          if loaded_modules r (module_key c) \<noteq> None then Some (r, False)
          else LoadModuleUsingMemoryBuffer r module (map_buffer @ [CHR 0x00]))"

definition ReadSymbolFile :: "(string \<Rightarrow> string option) \<Rightarrow> string \<Rightarrow> string option" where
  "ReadSymbolFile read_file map_file = map_option (\<lambda>contents. contents @ [CHR 0x00]) (read_file map_file)"

definition LoadModule ::
    "(string \<Rightarrow> string option) \<Rightarrow> SourceLineResolver \<Rightarrow> CodeModule option \<Rightarrow> string \<Rightarrow>
     (SourceLineResolver \<times> bool) option" where
  "LoadModule read_file r module map_file =
     (case module of
        None \<Rightarrow> Some (r, False)
      | Some c \<Rightarrow>
          if loaded_modules r (module_key c) \<noteq> None then Some (r, False)
          else (case ReadSymbolFile read_file map_file of
                  None \<Rightarrow> Some (r, False)
                | Some memory_buffer \<Rightarrow> LoadModuleUsingMemoryBuffer r module memory_buffer))"

definition UnloadModule :: "SourceLineResolver \<Rightarrow> CodeModule option \<Rightarrow> SourceLineResolver" where
  "UnloadModule r module =
     (case module of
        None \<Rightarrow> r
      | Some c \<Rightarrow>
          if loaded_modules r (module_key c) \<noteq> None
          then r\<lparr>corrupt_modules := corrupt_modules r - {module_key c},
                 loaded_modules := (loaded_modules r)(module_key c := None)\<rparr>
          else r)"

definition Resolver_FillSourceLineInfo ::
    "SourceLineResolver \<Rightarrow> 'a StackFrame_scheme \<Rightarrow> 'a StackFrame_scheme option" where
  "Resolver_FillSourceLineInfo r frame =
     (case frame_module frame of
        None \<Rightarrow> Some frame
      | Some c \<Rightarrow> (case loaded_modules r (module_key c) of
                    None \<Rightarrow> Some frame
                  | Some m \<Rightarrow> LookupAddress m frame))"

definition Resolver_FindWindowsFrameInfo ::
    "SourceLineResolver \<Rightarrow> 'a StackFrame_scheme \<Rightarrow> WindowsFrameInfo option option" where
  "Resolver_FindWindowsFrameInfo r frame =
     (case frame_module frame of
        None \<Rightarrow> Some None
      | Some c \<Rightarrow> (case loaded_modules r (module_key c) of
                    None \<Rightarrow> Some None
                  | Some m \<Rightarrow> FindWindowsFrameInfo m frame))"

definition Resolver_FindCFIFrameInfo ::
    "SourceLineResolver \<Rightarrow> 'a StackFrame_scheme \<Rightarrow> CFIFrameInfo option option" where
  "Resolver_FindCFIFrameInfo r frame =
     (case frame_module frame of
        None \<Rightarrow> Some None
      | Some c \<Rightarrow> (case loaded_modules r (module_key c) of
                    None \<Rightarrow> Some None
                  | Some m \<Rightarrow> FindCFIFrameInfo m frame))"

section \<open>Symbolizer\<close>

record SystemInfo =
  os :: string
  os_short :: string
  os_version :: string
  cpu :: string
  cpu_info :: string
  cpu_count :: int
  gl_version :: string
  gl_vendor :: string
  gl_renderer :: string

datatype SymbolResult = FOUND string | NOT_FOUND | INTERRUPT

datatype SymbolizerResult = kNoError | kError | kInterrupt | kWarningCorruptSymbols

record StackFrameSymbolizer =
  supplier :: "(CodeModule \<Rightarrow> SystemInfo option \<Rightarrow> SymbolResult) option"
  resolver :: "SourceLineResolver option"
  no_symbol_modules :: "string set"

definition StackFrameSymbolizer_new ::
    "(CodeModule \<Rightarrow> SystemInfo option \<Rightarrow> SymbolResult) option \<Rightarrow> SourceLineResolver option \<Rightarrow> StackFrameSymbolizer" where
  "StackFrameSymbolizer_new supplier' resolver' = \<lparr>supplier = supplier', resolver = resolver', no_symbol_modules = {}\<rparr>"

definition find_module :: "BasicCodeModules option \<Rightarrow> u64 \<Rightarrow> CodeModule option" where
  "find_module modules address = (case modules of None \<Rightarrow> None | Some ms \<Rightarrow> GetModuleForAddress ms address)"

text \<open>The result, the frame and the symbolizer after the call.\<close>

definition fill_loaded ::
    "StackFrameSymbolizer \<Rightarrow> SourceLineResolver \<Rightarrow> 'a StackFrame_scheme \<Rightarrow>
     (SymbolizerResult \<times> 'a StackFrame_scheme \<times> StackFrameSymbolizer) option" where
  "fill_loaded s r frame = do {
     frame \<leftarrow> Resolver_FillSourceLineInfo r frame;
     Some (if IsModuleCorrupt r (frame_module frame) then kWarningCorruptSymbols else kNoError,
           frame, s\<lparr>resolver := Some r\<rparr>) }"

definition FillSourceLineInfo ::
    "StackFrameSymbolizer \<Rightarrow> BasicCodeModules option \<Rightarrow> BasicCodeModules option \<Rightarrow> SystemInfo option \<Rightarrow>
     'a StackFrame_scheme \<Rightarrow> (SymbolizerResult \<times> 'a StackFrame_scheme \<times> StackFrameSymbolizer) option" where
  "FillSourceLineInfo s modules unloaded_modules system_info frame =
     (let module = find_module modules (instruction frame);
          module = (if module = None then find_module unloaded_modules (instruction frame) else module) in
      case module of
        None \<Rightarrow> Some (kError, frame, s)
      | Some c \<Rightarrow>
          let frame = frame\<lparr>frame_module := Some c\<rparr> in
          (case resolver s of
             None \<Rightarrow> Some (kError, frame, s)
           | Some r \<Rightarrow>
               if code_file c \<in> no_symbol_modules s then Some (kError, frame, s)
               else if HasModule r (Some c) then fill_loaded s r frame
               else (case supplier s of
                  None \<Rightarrow> Some (kError, frame, s)
                | Some get \<Rightarrow>
                    (case get c system_info of
                       FOUND symbol_data \<Rightarrow> do {
                         (r, load_success) \<leftarrow> LoadModuleUsingMemoryBuffer r (Some c) symbol_data;
                         if load_success then fill_loaded s r frame
                         else Some (kError, frame,
                                s\<lparr>resolver := Some r, no_symbol_modules := insert (code_file c) (no_symbol_modules s)\<rparr>) }
                     | NOT_FOUND \<Rightarrow>
                         Some (kError, frame, s\<lparr>no_symbol_modules := insert (code_file c) (no_symbol_modules s)\<rparr>)
                     | INTERRUPT \<Rightarrow> Some (kInterrupt, frame, s)))))"

definition Symbolizer_FindWindowsFrameInfo ::
    "StackFrameSymbolizer \<Rightarrow> 'a StackFrame_scheme \<Rightarrow> WindowsFrameInfo option option" where
  "Symbolizer_FindWindowsFrameInfo s frame =
     (case resolver s of None \<Rightarrow> Some None | Some r \<Rightarrow> Resolver_FindWindowsFrameInfo r frame)"

definition Symbolizer_FindCFIFrameInfo ::
    "StackFrameSymbolizer \<Rightarrow> 'a StackFrame_scheme \<Rightarrow> CFIFrameInfo option option" where
  "Symbolizer_FindCFIFrameInfo s frame =
     (case resolver s of None \<Rightarrow> Some None | Some r \<Rightarrow> Resolver_FindCFIFrameInfo r frame)"

definition Symbolizer_Reset :: "StackFrameSymbolizer \<Rightarrow> StackFrameSymbolizer" where
  "Symbolizer_Reset s = s\<lparr>no_symbol_modules := {}\<rparr>"

definition HasImplementation :: "StackFrameSymbolizer \<Rightarrow> bool" where
  "HasImplementation s \<longleftrightarrow> resolver s \<noteq> None \<and> supplier s \<noteq> None"

section \<open>Invariant\<close>

definition resolver_inv :: "SourceLineResolver \<Rightarrow> bool" where
  "resolver_inv r \<longleftrightarrow> (\<forall>k m. loaded_modules r k = Some m \<longrightarrow> module_inv m) \<and>
     corrupt_modules r = {k. \<exists>m. loaded_modules r k = Some m \<and> is_corrupt m}"

text \<open>
  A buffer as a supplier hands it out is a text and its terminator. The loader may be run on it
  when the text does not end, without a line end, in a \<open>STACK CFI\<close> or \<open>STACK WIN\<close> line that has
  no fields: behind such a line it reads outside of the buffer.
\<close>

definition loadable :: "string \<Rightarrow> bool" where
  "loadable buffer \<longleftrightarrow> \<not> dangling (butlast buffer)"

lemma resolver_inv_new: "resolver_inv SourceLineResolver_new"
  by (simp add: resolver_inv_def SourceLineResolver_new_def)

lemma LoadMapFromMemory_loadable:
  assumes "loadable buffer"
  shows "\<exists>m. LoadMapFromMemory (Module_new name) buffer = Some (m, True) \<and> module_inv m"
proof (cases buffer rule: rev_cases)
  case Nil
  then show ?thesis by (simp add: LoadMapFromMemory_def)
next
  case (snoc t c)
  then show ?thesis using assms LoadMap_defined [OF module_inv_new, of t name c] by (simp add: loadable_def)
qed

lemma load_fresh:
  assumes "loaded_modules r (module_key c) = None" and "LoadMapFromMemory (Module_new (code_file c)) buffer = Some (m, True)"
  shows "LoadModuleUsingMemoryBuffer r (Some c) buffer =
    Some (r\<lparr>loaded_modules := (loaded_modules r)(module_key c \<mapsto> m),
            corrupt_modules := (if is_corrupt m then insert (module_key c) (corrupt_modules r) else corrupt_modules r)\<rparr>, True)"
  using assms by (simp add: LoadModuleUsingMemoryBuffer_def)

lemma load_resolver_inv:
  assumes "resolver_inv r" and "loadable buffer"
  shows "\<exists>r' ok. LoadModuleUsingMemoryBuffer r (Some c) buffer = Some (r', ok) \<and> resolver_inv r' \<and>
    loaded_modules r' (module_key c) \<noteq> None \<and> (\<forall>k. k \<noteq> module_key c \<longrightarrow> loaded_modules r' k = loaded_modules r k) \<and>
    (ok \<longleftrightarrow> loaded_modules r (module_key c) = None)"
proof (cases "loaded_modules r (module_key c)")
  case None
  obtain m where m: "LoadMapFromMemory (Module_new (code_file c)) buffer = Some (m, True)" "module_inv m"
    using LoadMapFromMemory_loadable [OF assms(2)] by blast
  have "{k. \<exists>m'. ((loaded_modules r)(module_key c \<mapsto> m)) k = Some m' \<and> is_corrupt m'} =
      (if is_corrupt m then insert (module_key c) (corrupt_modules r) else corrupt_modules r)"
    using assms(1) None by (auto simp: resolver_inv_def)
  with assms(1) m(2) None show ?thesis
    unfolding load_fresh [OF None m(1)] by (auto simp: resolver_inv_def)
next
  case (Some m)
  with assms(1) show ?thesis by (auto simp: LoadModuleUsingMemoryBuffer_def)
qed

text \<open>
  C32: loading and unloading. On a well-formed resolver, loading a module that is not there
  from a text and its terminator (the text not ending in a \<open>STACK\<close> line without fields and
  without a line end) succeeds, makes it available, leaves every other module as it was and records it as corrupt
  exactly when its symbol file had errors; loading it twice is refused; unloading it gives the
  resolver back as it was.
\<close>

theorem LoadModule_UnloadModule:
  assumes "resolver_inv r" and "loadable buffer" and "\<not> HasModule r (Some c)"
  shows "\<exists>r'. LoadModuleUsingMemoryBuffer r (Some c) buffer = Some (r', True) \<and> resolver_inv r' \<and>
    HasModule r' (Some c) \<and> (\<forall>d. module_key d \<noteq> module_key c \<longrightarrow> HasModule r' (Some d) = HasModule r (Some d)) \<and>
    (\<forall>m. loaded_modules r' (module_key c) = Some m \<longrightarrow> IsModuleCorrupt r' (Some c) = is_corrupt m) \<and>
    LoadModuleUsingMemoryBuffer r' (Some c) buffer = Some (r', False) \<and>
    UnloadModule r' (Some c) = r"
proof -
  have none: "loaded_modules r (module_key c) = None" using assms(3) by (simp add: HasModule_def)
  obtain m where m: "LoadMapFromMemory (Module_new (code_file c)) buffer = Some (m, True)"
    using LoadMapFromMemory_loadable [OF assms(2)] by blast
  note load = load_fresh [OF none m]
  have notin: "module_key c \<notin> corrupt_modules r" using assms(1) none by (simp add: resolver_inv_def)
  have unload: "(loaded_modules r)(module_key c := None) = loaded_modules r" using none by auto
  obtain r' where r': "LoadModuleUsingMemoryBuffer r (Some c) buffer = Some (r', True)" "resolver_inv r'"
    using load_resolver_inv [OF assms(1,2), of c] none by auto
  with load have eq: "r' = r\<lparr>loaded_modules := (loaded_modules r)(module_key c \<mapsto> m),
      corrupt_modules := (if is_corrupt m then insert (module_key c) (corrupt_modules r) else corrupt_modules r)\<rparr>"
    by simp
  have "HasModule r' (Some d) = HasModule r (Some d)" if "module_key d \<noteq> module_key c" for d
    using that by (simp add: eq HasModule_def)
  moreover have "UnloadModule r' (Some c) = r" using notin unload by (simp add: eq UnloadModule_def)
  ultimately show ?thesis using r' notin
    by (auto simp: eq HasModule_def IsModuleCorrupt_def LoadModuleUsingMemoryBuffer_def)
qed

definition example_module_c :: CodeModule where
  "example_module_c = CodeModule_new 65536 8192 ''x'' [] [] [] [] False"

definition example_symbols :: string where
  "example_symbols = ''PUBLIC 10 0 f'' @ [CHR 0x0A, CHR 0x00]"

lemma example_symbols_loadable: "loadable example_symbols"
  by code_simp

theorem LoadModule_UnloadModule_witness:
  "\<exists>r'. LoadModuleUsingMemoryBuffer SourceLineResolver_new (Some example_module_c) example_symbols = Some (r', True) \<and>
     HasModule r' (Some example_module_c) \<and> UnloadModule r' (Some example_module_c) = SourceLineResolver_new"
proof -
  have "\<not> HasModule SourceLineResolver_new (Some example_module_c)"
    by (simp add: HasModule_def SourceLineResolver_new_def)
  from LoadModule_UnloadModule [OF resolver_inv_new example_symbols_loadable this] show ?thesis by blast
qed

section \<open>Symbolizer\<close>

text \<open>
  A symbolizer is well formed when its resolver is and its supplier never hands out a symbol
  file that ends in a \<open>STACK\<close> line without fields and without a line end.
\<close>

definition symbolizer_inv :: "StackFrameSymbolizer \<Rightarrow> bool" where
  "symbolizer_inv s \<longleftrightarrow> (\<forall>r. resolver s = Some r \<longrightarrow> resolver_inv r) \<and>
     (\<forall>get c info d. supplier s = Some get \<longrightarrow> get c info = FOUND d \<longrightarrow> loadable d)"

text \<open>What a lookup and the symbolizer leave of a frame as it is.\<close>

definition same_frame :: "'a StackFrame_scheme \<Rightarrow> 'a StackFrame_scheme \<Rightarrow> bool" where
  "same_frame f f' \<longleftrightarrow> instruction f' = instruction f \<and> trust f' = trust f \<and> StackFrame.more f' = StackFrame.more f"

lemma LookupAddress_keeps:
  "LookupAddress m frame = Some frame' \<Longrightarrow> same_frame frame frame' \<and> frame_module frame' = frame_module frame"
  by (auto simp: LookupAddress_def Let_def same_frame_def split: option.splits if_splits prod.splits)

lemma LookupAddress_defined:
  assumes "module_inv m" and "frame_module frame = Some c"
  shows "\<exists>frame'. LookupAddress m frame = Some frame'"
  using LookupAddress_lemma [OF assms] by blast

lemma fill_loaded_defined:
  assumes "resolver_inv r" and "frame_module frame = Some c"
  shows "\<exists>frame'. Resolver_FillSourceLineInfo r frame = Some frame' \<and> same_frame frame frame' \<and> frame_module frame' = Some c"
proof (cases "loaded_modules r (module_key c)")
  case None
  with assms(2) show ?thesis by (simp add: Resolver_FillSourceLineInfo_def same_frame_def)
next
  case (Some m)
  with assms LookupAddress_defined [of m frame c] obtain frame' where "LookupAddress m frame = Some frame'"
    by (auto simp: resolver_inv_def)
  with LookupAddress_keeps [OF this] Some assms(2) show ?thesis by (auto simp: Resolver_FillSourceLineInfo_def)
qed

lemma fill_loaded_result:
  assumes "resolver_inv r" and "frame_module frame = Some c"
  shows "\<exists>frame'. fill_loaded s r frame =
      Some (if IsModuleCorrupt r (Some c) then kWarningCorruptSymbols else kNoError, frame', s\<lparr>resolver := Some r\<rparr>) \<and>
    same_frame frame frame' \<and> frame_module frame' = Some c"
  using fill_loaded_defined [OF assms] by (auto simp: fill_loaded_def)

lemma FillSourceLineInfo_defined:
  assumes "symbolizer_inv s"
  shows "\<exists>res frame' s'. FillSourceLineInfo s modules unloaded info frame = Some (res, frame', s') \<and>
    symbolizer_inv s' \<and> supplier s' = supplier s \<and> same_frame frame frame'"
proof -
  let ?c = "if find_module modules (instruction frame) = None then find_module unloaded (instruction frame)
            else find_module modules (instruction frame)"
  show ?thesis
  proof (cases "?c = None \<or> resolver s = None")
    case True
    with assms show ?thesis
      by (cases ?c) (auto simp: FillSourceLineInfo_def Let_def same_frame_def)
  next
    case False
    then obtain c r where c: "?c = Some c" and r: "resolver s = Some r" by auto
    have inv: "resolver_inv r" using assms r by (simp add: symbolizer_inv_def)
    let ?f = "frame\<lparr>frame_module := Some c\<rparr>"
    have same: "same_frame frame f" if "same_frame ?f f" for f using that by (simp add: same_frame_def)
    have self: "same_frame frame ?f" by (simp add: same_frame_def)
    have loaded: "\<exists>res frame' s'. fill_loaded s r' ?f = Some (res, frame', s') \<and> symbolizer_inv s' \<and>
        supplier s' = supplier s \<and> same_frame frame frame'" if "resolver_inv r'" for r'
      using fill_loaded_result [OF that, of ?f c s] same assms that by (auto simp: symbolizer_inv_def)
    note fill = FillSourceLineInfo_def [of s modules unloaded info frame, unfolded Let_def c r option.case]
    consider (known) "code_file c \<in> no_symbol_modules s \<or> HasModule r (Some c)"
      | (unknown) "code_file c \<notin> no_symbol_modules s" "\<not> HasModule r (Some c)" by blast
    then show ?thesis
    proof cases
      case known
      with loaded [OF inv] assms self show ?thesis unfolding fill by auto
    next
      case unknown
      show ?thesis
      proof (cases "supplier s")
        case None
        with unknown assms self show ?thesis unfolding fill by simp
      next
        case (Some get)
        show ?thesis
        proof (cases "get c info")
          case (FOUND d)
          then have "loadable d" using assms Some by (auto simp: symbolizer_inv_def)
          from load_resolver_inv [OF inv this, of c] obtain r' ok where
            r': "LoadModuleUsingMemoryBuffer r (Some c) d = Some (r', ok)" "resolver_inv r'" "ok"
            using unknown(2) by (auto simp: HasModule_def)
          with loaded [OF r'(2)] unknown Some FOUND show ?thesis unfolding fill by simp
        qed (use unknown Some assms self in \<open>auto simp: fill symbolizer_inv_def\<close>)
      qed
    qed
  qed
qed

text \<open>
  C31: \<open>FillSourceLineInfo\<close> always returns on a well-formed symbolizer, one whose supplier hands
  out no symbol file that ends in a \<open>STACK\<close> line without fields and without a line end, and
  keeps it well formed; of the frame it changes only the module and the symbol information.
\<close>

theorem FillSourceLineInfo_total:
  assumes "symbolizer_inv s"
  shows "\<exists>res frame' s'. FillSourceLineInfo s modules unloaded info frame = Some (res, frame', s') \<and>
    symbolizer_inv s' \<and> supplier s' = supplier s \<and> instruction frame' = instruction frame \<and>
    trust frame' = trust frame \<and> StackFrame.more frame' = StackFrame.more frame"
  using FillSourceLineInfo_defined [OF assms, of modules unloaded info frame] by (simp add: same_frame_def)

lemma FillSourceLineInfo_interrupt:
  assumes "FillSourceLineInfo s modules unloaded info frame = Some (kInterrupt, frame', s')"
  shows "\<exists>get c. supplier s = Some get \<and> get c info = INTERRUPT"
  using assms by (auto simp: FillSourceLineInfo_def Let_def fill_loaded_def bind_eq_Some_conv
    split: option.splits if_splits SymbolResult.splits)

lemma fill_again:
  assumes "fill_loaded s r frame = Some (res, frame', s')"
  shows "s' = s\<lparr>resolver := Some r\<rparr>"
  using assms by (auto simp: fill_loaded_def bind_eq_Some_conv split: if_splits)

lemma load_success:
  assumes "LoadModuleUsingMemoryBuffer r (Some c) d = Some (r', ok)" and "\<not> HasModule r (Some c)"
  shows "ok \<and> HasModule r' (Some c)"
  using assms by (auto simp: LoadModuleUsingMemoryBuffer_def HasModule_def Let_def bind_eq_Some_conv split: if_splits)

text \<open>
  C16: the supplier is asked at most once for a module. After a call that was not interrupted,
  a second call for the same frame returns the same result and the same frame and changes
  nothing, even when the supplier would now answer differently.
\<close>

theorem FillSourceLineInfo_once:
  assumes "FillSourceLineInfo s modules unloaded info frame = Some (res, frame', s')" and "res \<noteq> kInterrupt"
    and "supplier s \<noteq> None"
  shows "FillSourceLineInfo (s'\<lparr>supplier := Some get'\<rparr>) modules unloaded info frame =
    Some (res, frame', s'\<lparr>supplier := Some get'\<rparr>)"
proof -
  let ?c = "if find_module modules (instruction frame) = None then find_module unloaded (instruction frame)
            else find_module modules (instruction frame)"
  note def = FillSourceLineInfo_def [of _ modules unloaded info frame, unfolded Let_def]
  show ?thesis
  proof (cases "?c = None \<or> resolver s = None")
    case True
    with assms(1) show ?thesis unfolding def by (cases ?c) auto
  next
    case False
    then obtain c r get where c: "?c = Some c" and r: "resolver s = Some r" and get: "supplier s = Some get"
      using assms(3) by auto
    let ?f = "frame\<lparr>frame_module := Some c\<rparr>"
    note def = def [unfolded c option.case]
    have again: "FillSourceLineInfo (s'\<lparr>supplier := Some get'\<rparr>) modules unloaded info frame =
        Some (res, frame', s'\<lparr>supplier := Some get'\<rparr>)"
      if "fill_loaded s r' ?f = Some (res, frame', s')" "code_file c \<notin> no_symbol_modules s" "HasModule r' (Some c)" for r'
      using that fill_again [OF that(1)]
      unfolding def by (auto simp: fill_loaded_def bind_eq_Some_conv)
    show ?thesis
    proof (cases "code_file c \<in> no_symbol_modules s \<or> HasModule r (Some c)")
      case True
      with assms(1) r again show ?thesis unfolding def by (auto split: if_splits)
    next
      case unknown: False
      show ?thesis
      proof (cases "get c info")
        case (FOUND d)
        obtain r' where r': "LoadModuleUsingMemoryBuffer r (Some c) d = Some (r', True)" "HasModule r' (Some c)"
          using assms(1) unknown r get FOUND load_success [of r c d] unfolding def by (auto simp: bind_eq_Some_conv)
        then have "fill_loaded s r' ?f = Some (res, frame', s')"
          using assms(1) unknown r get FOUND unfolding def by simp
        with again r'(2) unknown show ?thesis by blast
      next
        case NOT_FOUND
        with assms(1) unknown r get show ?thesis unfolding def by auto
      next
        case INTERRUPT
        with assms(1,2) unknown r get show ?thesis unfolding def by auto
      qed
    qed
  qed
qed

definition example_info :: SystemInfo where
  "example_info = \<lparr>os = [], os_short = ''linux'', os_version = [], cpu = ''amd64'', cpu_info = [], cpu_count = 0,
     gl_version = [], gl_vendor = [], gl_renderer = []\<rparr>"

definition example_symbolizer :: StackFrameSymbolizer where
  "example_symbolizer = StackFrameSymbolizer_new
     (Some (\<lambda>c info. if code_file c = ''x'' then FOUND example_symbols else NOT_FOUND)) (Some SourceLineResolver_new)"

lemma example_symbolizer_inv: "symbolizer_inv example_symbolizer"
  using example_symbols_loadable
  by (auto simp: example_symbolizer_def symbolizer_inv_def StackFrameSymbolizer_new_def resolver_inv_new split: if_splits)

definition example_modules :: BasicCodeModules where
  "example_modules = \<lparr>main_address = 65536, modules_map = \<lparr>merge_strategy = kExclusiveRanges,
     rm_map = [(73727, \<lparr>base = 65536, delta = 0, entry = example_module_c\<rparr>)]\<rparr>, shrunk_range_modules = []\<rparr>"

lemma example_modules_find:
  "65536 \<le> a \<Longrightarrow> a \<le> 73727 \<Longrightarrow> find_module (Some example_modules) a = Some example_module_c"
proof -
  assume a: "65536 \<le> a" "a \<le> 73727"
  have inv: "range_map_inv (modules_map example_modules)"
    by (simp add: example_modules_def range_map_inv_def range_ok_def)
  from a show ?thesis
    by (simp add: find_module_def GetModuleForAddress_def RetrieveRange_find [OF inv])
      (simp add: example_modules_def covers_def range_outputs_def)
qed

lemma example_modules_none: "73727 < a \<Longrightarrow> find_module (Some example_modules) a = None"
proof -
  assume a: "73727 < a"
  have inv: "range_map_inv (modules_map example_modules)"
    by (simp add: example_modules_def range_map_inv_def range_ok_def)
  from a show ?thesis
    by (simp add: find_module_def GetModuleForAddress_def RetrieveRange_find [OF inv])
      (simp add: example_modules_def covers_def not_le)
qed

text \<open>The module of the example, its symbols and a frame in it, before and after the symbols are found.\<close>

definition example_public :: Module where
  "example_public = Module_new ''x''\<lparr>public_symbols := \<lparr>am_map = [(16, Some \<lparr>pub_name = ''f'', pub_address = 16,
     pub_parameter_size = 0, pub_is_multiple = False\<rparr>)]\<rparr>\<rparr>"

lemma example_load: "LoadMapFromMemory (Module_new ''x'') example_symbols = Some (example_public, True)"
proof -
  let ?rs = "[PublicRecord False 16 0 ''f'']"
  have "symbol_text ?rs @ [CHR 0x00] = example_symbols" by code_simp
  moreover have "CHR 0x00 \<notin> set (symbol_text ?rs)" by code_simp
  moreover have "\<forall>r\<in>set ?rs. record_ok r" by (simp add: is_word_def)
  moreover have "apply_records ?rs (Module_new ''x'', None) = Some (example_public, None)"
    by (simp add: example_public_def Module_new_def AddressMap_new_def AddressMap_Store_def)
  moreover have "example_public\<lparr>is_corrupt := False\<rparr> = example_public" by (simp add: example_public_def Module_new_def)
  ultimately show ?thesis using LoadMap_records [of ?rs "Module_new ''x''" example_public None] by simp
qed

lemma example_lookup:
  fixes frame :: "'a StackFrame_scheme"
  assumes "65552 \<le> instruction frame"
  shows "LookupAddress example_public (frame\<lparr>frame_module := Some example_module_c\<rparr>) =
     Some (frame\<lparr>frame_module := Some example_module_c, function_name := ''f'', function_base := 65552\<rparr>)"
proof -
  have "16 \<le> instruction frame - 65536" using assms by (simp add: word_le_nat_alt unat_sub)
  then have "AddressMap_Retrieve (public_symbols example_public) (instruction frame - 65536) =
      Some (Some \<lparr>pub_name = ''f'', pub_address = 16, pub_parameter_size = 0, pub_is_multiple = False\<rparr>, 16)"
    by (simp add: example_public_def AddressMap_Retrieve_def upper_bound_def)
  moreover have "RangeMap_RetrieveNearestRange (module_functions example_public) a = None" for a
    by (simp add: example_public_def Module_new_def RangeMap_new_def RangeMap_RetrieveNearestRange_def
      RangeMap_RetrieveRange_def Let_def lower_bound_def upper_bound_def)
  ultimately show ?thesis by (simp add: LookupAddress_def example_module_c_def CodeModule_new_def)
qed

lemma example_fill:
  fixes frame :: "'a StackFrame_scheme"
  assumes "65552 \<le> instruction frame" and "instruction frame \<le> 73727"
  shows "\<exists>s'. FillSourceLineInfo example_symbolizer (Some example_modules) unloaded info frame =
     Some (kNoError, frame\<lparr>frame_module := Some example_module_c, function_name := ''f'', function_base := 65552\<rparr>, s')"
proof -
  have "(65536 :: u64) \<le> 65552" by simp
  then have c: "find_module (Some example_modules) (instruction frame) = Some example_module_c"
    using assms by (intro example_modules_find) (rule order_trans)
  have name: "code_file example_module_c = ''x''" by (simp add: example_module_c_def CodeModule_new_def)
  have "loaded_modules SourceLineResolver_new (module_key example_module_c) = None"
    by (simp add: SourceLineResolver_new_def)
  note load = load_fresh [OF this, of example_symbols example_public, unfolded name, OF example_load]
  have "\<not> is_corrupt example_public" by (simp add: example_public_def Module_new_def)
  moreover have "\<not> HasModule SourceLineResolver_new (Some example_module_c)" "corrupt_modules SourceLineResolver_new = {}"
    by (simp_all add: HasModule_def SourceLineResolver_new_def)
  ultimately show ?thesis
    by (simp add: FillSourceLineInfo_def Let_def c name example_symbolizer_def StackFrameSymbolizer_new_def load
      fill_loaded_def Resolver_FillSourceLineInfo_def example_lookup [OF assms(1)] IsModuleCorrupt_def)
qed

lemma example_frame_inside: "65552 \<le> instruction example_frame" "instruction example_frame \<le> 73727"
  by (simp_all add: example_frame_def)

theorem FillSourceLineInfo_total_witness:
  "\<exists>res frame' s'. FillSourceLineInfo example_symbolizer (Some example_modules) None (Some example_info) example_frame =
     Some (res, frame', s') \<and> symbolizer_inv s' \<and> instruction frame' = 69636 \<and> function_name frame' = ''f''"
  using FillSourceLineInfo_total [OF example_symbolizer_inv, of "Some example_modules" None "Some example_info" example_frame]
    example_fill [OF example_frame_inside, of None "Some example_info"] by (auto simp: example_frame_def)

theorem FillSourceLineInfo_once_witness:
  "\<exists>s'. FillSourceLineInfo (s'\<lparr>supplier := Some (\<lambda>c info. INTERRUPT)\<rparr>) (Some example_modules) None
       (Some example_info) example_frame =
     Some (kNoError, example_frame\<lparr>frame_module := Some example_module_c, function_name := ''f'',
       function_base := 65552\<rparr>, s'\<lparr>supplier := Some (\<lambda>c info. INTERRUPT)\<rparr>)"
proof -
  have "supplier example_symbolizer \<noteq> None" by (simp add: example_symbolizer_def StackFrameSymbolizer_new_def)
  then show ?thesis
    using example_fill [OF example_frame_inside, of None "Some example_info"] FillSourceLineInfo_once by blast
qed

end
