(* ===== verification/Fast_Resolver.thy ===== *)
theory Fast_Resolver
  imports Static_Range_Maps Frame_Symbolizer
begin

text \<open>
  The fast source line resolver. \<open>ModuleSerializer\<close> (processor/module_serializer.cc) writes the
  tables of a loaded module to one block of bytes; \<open>FastSourceLineResolver::Module\<close>
  (processor/fast_source_line_resolver.cc, fast_source_line_resolver_types.h) lays static maps
  over such a block and answers the same questions from there.

  An access outside the block, or through a null pointer, is \<^const>\<open>None\<close>. The serializer object
  keeps the sizes of the maps from the call of \<open>SizeOf\<close> to the call of \<open>Write\<close>; they are a list
  passed from one to the other.
\<close>

section \<open>Model of the serializer\<close>

definition int_serializer :: "int SimpleSerializer" where
  "int_serializer = \<lparr>SizeOf = (\<lambda>_. 4), Write = (\<lambda>i. put (put_int i))\<rparr>"

definition char_serializer :: "byte SimpleSerializer" where
  "char_serializer = \<lparr>SizeOf = (\<lambda>_. 1), Write = (\<lambda>c. put [c])\<rparr>"

text \<open>The map of functions with its pointers followed.\<close>

definition function_table :: "Module \<Rightarrow> Function linked_ptr RangeMap" where
  "function_table m = \<lparr>merge_strategy = merge_strategy (module_functions m),
     rm_map = map (\<lambda>(high, r). (high, \<lparr>base = base r, delta = delta r, entry = Some (function_heap m ! entry r)\<rparr>))
       (rm_map (module_functions m))\<rparr>"

definition kNumberMaps :: nat where "kNumberMaps = 5 + 5"

definition map_sizes :: "Module \<Rightarrow> u32 list" where
  "map_sizes m = map word_of_nat
     ([StdMap_SizeOf int_serializer string_serializer (files m),
       RangeMap_SizeOf Function_ptr_serializer (function_table m),
       AddressMap_SizeOf PublicSymbol_ptr_serializer (public_symbols m)] @
      map (\<lambda>i. ContainedRangeMap_SizeOf WindowsFrameInfo_ptr_serializer (windows_frame_info m ! i)) [0..<5] @
      [RangeMap_SizeOf string_serializer (cfi_initial_rules m),
       StdMap_SizeOf u64_serializer string_serializer (cfi_delta_rules m)])"

definition ModuleSerializer_SizeOf :: "Module \<Rightarrow> u32 list \<times> nat" where
  "ModuleSerializer_SizeOf m =
     (let sizes = map_sizes m in
      (sizes, SizeOf bool_serializer (is_corrupt m) + kNumberMaps * 4 + sum_list (map unat sizes)
        + SizeOf char_serializer 0))"

fun write_all :: "('a \<Rightarrow> mem \<Rightarrow> mem option) \<Rightarrow> 'a list \<Rightarrow> mem \<Rightarrow> mem option" where
  "write_all w [] dest = Some dest"
| "write_all w (x # xs) dest = do { dest \<leftarrow> w x dest; write_all w xs dest }"

definition ModuleSerializer_Write :: "u32 list \<Rightarrow> Module \<Rightarrow> mem \<Rightarrow> mem option" where
  "ModuleSerializer_Write sizes m dest = do {
     dest \<leftarrow> Write bool_serializer (is_corrupt m) dest;
     dest \<leftarrow> put (concat (map put_u32 sizes)) dest;
     dest \<leftarrow> StdMap_Write int_serializer string_serializer 4 (files m) dest;
     dest \<leftarrow> RangeMap_Write Function_ptr_serializer (function_table m) dest;
     dest \<leftarrow> AddressMap_Write PublicSymbol_ptr_serializer (public_symbols m) dest;
     dest \<leftarrow> write_all (\<lambda>i. ContainedRangeMap_Write WindowsFrameInfo_ptr_serializer (windows_frame_info m ! i))
       [0..<5] dest;
     dest \<leftarrow> RangeMap_Write string_serializer (cfi_initial_rules m) dest;
     dest \<leftarrow> StdMap_Write u64_serializer string_serializer 8 (cfi_delta_rules m) dest;
     Write char_serializer 0 dest }"

definition ModuleSerializer_Serialize :: "(nat \<Rightarrow> byte list) \<Rightarrow> Module \<Rightarrow> (byte list \<times> u32) option" where
  "ModuleSerializer_Serialize fresh m =
     (case ModuleSerializer_SizeOf m of (sizes, size') \<Rightarrow>
      do {
        let size_to_alloc = (word_of_nat size' :: u32);
        (buf, _) \<leftarrow> ModuleSerializer_Write sizes m (fresh (unat size_to_alloc), Some 0);
        Some (buf, size_to_alloc) })"

text \<open>The inner \<^const>\<open>None\<close> is the null pointer returned when the text cannot be loaded.\<close>

definition SerializeSymbolFileData ::
    "(nat \<Rightarrow> byte list) \<Rightarrow> string \<Rightarrow> (byte list \<times> u32) option option" where
  "SerializeSymbolFileData fresh symbol_data = do {
     (module, ok) \<leftarrow> LoadMapFromMemory (Module_new ''no name'') (symbol_data @ [CHR 0x00]);
     if ok then map_option Some (ModuleSerializer_Serialize fresh module) else Some None }"

section \<open>Model of the fast module\<close>

record FastFunction =
  fast_func_name :: string
  fast_func_address :: MemAddr
  fast_func_size :: MemAddr
  fast_func_parameter_size :: int32
  fast_func_lines :: StaticMap

definition fast_Line_CopyFrom :: "byte list option \<Rightarrow> Line option" where
  "fast_Line_CopyFrom ptr = do {
     raw \<leftarrow> ptr;
     address \<leftarrow> get_u64 raw;
     size' \<leftarrow> get_u64 (drop 8 raw);
     file_id \<leftarrow> get_u32 (drop (2 * 8) raw);
     line \<leftarrow> get_u32 (drop (2 * 8 + 4) raw);
     Some \<lparr>line_address = address, line_size = size', source_file_id = file_id, line_number = line\<rparr> }"

definition fast_Function_CopyFrom :: "byte list option \<Rightarrow> FastFunction option" where
  "fast_Function_CopyFrom ptr = do {
     raw \<leftarrow> ptr;
     name \<leftarrow> c_str raw;
     let name_size = length name + 1;
     address \<leftarrow> get_u64 (drop name_size raw);
     size' \<leftarrow> get_u64 (drop (name_size + 8) raw);
     parameter_size' \<leftarrow> get_u32 (drop (name_size + 2 * 8) raw);
     lines' \<leftarrow> StaticMap_new (drop (name_size + 2 * 8 + 4) raw);
     Some \<lparr>fast_func_name = name, fast_func_address = address, fast_func_size = size',
           fast_func_parameter_size = parameter_size', fast_func_lines = lines'\<rparr> }"

text \<open>\<open>is_multiple\<close> is not in the bytes and keeps the value of the default constructor.\<close>

definition fast_PublicSymbol_CopyFrom :: "byte list option \<Rightarrow> PublicSymbol option" where
  "fast_PublicSymbol_CopyFrom ptr = do {
     raw \<leftarrow> ptr;
     name \<leftarrow> c_str raw;
     let name_size = length name + 1;
     address \<leftarrow> get_u64 (drop name_size raw);
     parameter_size' \<leftarrow> get_u32 (drop (name_size + 8) raw);
     Some \<lparr>pub_name = name, pub_address = address, pub_parameter_size = parameter_size', pub_is_multiple = False\<rparr> }"

record FastModule =
  fast_name :: string
  fast_files :: StaticMap
  fast_functions :: StaticMap
  fast_public_symbols :: StaticMap
  fast_is_corrupt :: bool
  fast_windows_frame_info :: "StaticContainedRangeMap list"
  fast_cfi_initial_rules :: StaticMap
  fast_cfi_delta_rules :: StaticMap

definition StaticContainedRangeMap_default :: StaticContainedRangeMap where
  "StaticContainedRangeMap_default =
     \<lparr>sc_base = 0, sc_entry_size = 0, sc_entry_ptr = None, sc_map = StaticMap_default\<rparr>"

definition FastModule_new :: "string \<Rightarrow> FastModule" where
  "FastModule_new name =
     \<lparr>fast_name = name, fast_files = StaticMap_default, fast_functions = StaticMap_default,
      fast_public_symbols = StaticMap_default, fast_is_corrupt = False,
      fast_windows_frame_info = replicate 5 StaticContainedRangeMap_default,
      fast_cfi_initial_rules = StaticMap_default, fast_cfi_delta_rules = StaticMap_default\<rparr>"

text \<open>The array \<open>offsets\<close>; its elements are \<open>unsigned int\<close>.\<close>

fun map_offsets :: "byte list \<Rightarrow> u32 \<Rightarrow> nat \<Rightarrow> nat \<Rightarrow> u32 list option" where
  "map_offsets mem_buffer offset i 0 = Some []"
| "map_offsets mem_buffer offset i (Suc n) = do {
     offsets \<leftarrow> (if n = 0 then Some []
       else do {
         size' \<leftarrow> get_u32 (drop (4 * i) mem_buffer);
         map_offsets mem_buffer (offset + size') (i + 1) n });
     Some (offset # offsets) }"

definition pointer_at :: "byte list \<Rightarrow> u32 \<Rightarrow> byte list option" where
  "pointer_at p offset = (if unat offset \<le> length p then Some (drop (unat offset) p) else None)"

fun options :: "'a option list \<Rightarrow> 'a list option" where
  "options [] = Some []"
| "options (x # xs) = do { x \<leftarrow> x; xs \<leftarrow> options xs; Some (x # xs) }"

definition fast_LoadMapFromMemory :: "FastModule \<Rightarrow> byte list option \<Rightarrow> (FastModule \<times> bool) option" where
  "fast_LoadMapFromMemory m memory_buffer =
     (case memory_buffer of
        None \<Rightarrow> Some (m, False)
      | Some memory_buffer \<Rightarrow> do {
          (corrupt, mem_buffer) \<leftarrow> bool_Read memory_buffer;
          offsets \<leftarrow> map_offsets mem_buffer (word_of_nat (kNumberMaps * 4)) 0 kNumberMaps;
          let map_at = (\<lambda>map_id. pointer_at mem_buffer (offsets ! map_id));
          files' \<leftarrow> map_at 0 \<bind> StaticMap_new;
          functions' \<leftarrow> map_at 1 \<bind> StaticMap_new;
          symbols' \<leftarrow> map_at 2 \<bind> StaticMap_new;
          infos' \<leftarrow> options (map (\<lambda>i. map_at (3 + i) \<bind> StaticContainedRangeMap_new) [0..<5]);
          initial' \<leftarrow> map_at 8 \<bind> StaticMap_new;
          delta' \<leftarrow> map_at 9 \<bind> StaticMap_new;
          Some (m\<lparr>fast_files := files', fast_functions := functions', fast_public_symbols := symbols',
                  fast_is_corrupt := corrupt, fast_windows_frame_info := infos',
                  fast_cfi_initial_rules := initial', fast_cfi_delta_rules := delta'\<rparr>, True) })"

text \<open>\<open>files_.find\<close> is called twice for a file that is found.\<close>

definition fast_file_name :: "FastModule \<Rightarrow> int \<Rightarrow> string option option" where
  "fast_file_name m file_id = do {
     it \<leftarrow> StaticMap_find int_key (fast_files m) file_id;
     end' \<leftarrow> StaticMap_end (fast_files m);
     if it_equal it end' then Some None
     else do {
       it \<leftarrow> StaticMap_find int_key (fast_files m) file_id;
       value' \<leftarrow> GetValueRawPtr it;
       name \<leftarrow> value' \<bind> c_str;
       Some (Some name) } }"

text \<open>
  The search for a \<open>PUBLIC\<close> symbol after the nearest function has been looked up, in
  \<open>LookupAddress\<close> and in \<open>FindWindowsFrameInfo\<close>.
\<close>

definition fast_public_symbol ::
    "FastModule \<Rightarrow> (byte list option \<times> u64 \<times> u64) option \<Rightarrow> MemAddr \<Rightarrow> (PublicSymbol \<times> MemAddr) option option" where
  "fast_public_symbol m nearest address = do {
     found \<leftarrow> StaticAddressMap_Retrieve (fast_public_symbols m) address;
     (case found of
        None \<Rightarrow> Some None
      | Some (symbol_ptr, public_address) \<Rightarrow>
          if (case nearest of None \<Rightarrow> True
              | Some (func_ptr, func_base, _) \<Rightarrow> func_ptr = None \<or> public_address > func_base)
          then do {
            public_symbol \<leftarrow> fast_PublicSymbol_CopyFrom symbol_ptr;
            Some (Some (public_symbol, public_address)) }
          else Some None) }"

definition fast_LookupAddress :: "FastModule \<Rightarrow> 'a StackFrame_scheme \<Rightarrow> 'a StackFrame_scheme option" where
  "fast_LookupAddress m frame = (case frame_module frame of None \<Rightarrow> None | Some code_module \<Rightarrow> do {
     let module_base = base_address code_module;
     let address = instruction frame - module_base;
     nearest \<leftarrow> StaticRangeMap_RetrieveNearestRange (fast_functions m) address;
     if (case nearest of None \<Rightarrow> False
         | Some (_, func_base, function_size) \<Rightarrow> address \<ge> func_base \<and> address - func_base < function_size)
     then (case the nearest of (func_ptr, func_base, _) \<Rightarrow> do {
       func \<leftarrow> fast_Function_CopyFrom func_ptr;
       let frame = frame\<lparr>function_name := fast_func_name func, function_base := module_base + func_base\<rparr>;
       found \<leftarrow> StaticRangeMap_RetrieveRange (fast_func_lines func) address;
       (case found of
          None \<Rightarrow> Some frame
        | Some (line_ptr, line_base, _) \<Rightarrow> do {
            line \<leftarrow> fast_Line_CopyFrom line_ptr;
            name \<leftarrow> fast_file_name m (sint (source_file_id line));
            let frame = (case name of None \<Rightarrow> frame | Some name \<Rightarrow> frame\<lparr>source_file_name := name\<rparr>);
            Some (frame\<lparr>source_line := line_number line, source_line_base := module_base + line_base\<rparr>) }) })
     else do {
       found \<leftarrow> fast_public_symbol m nearest address;
       Some (case found of
          None \<Rightarrow> frame
        | Some (public_symbol, public_address) \<Rightarrow>
            frame\<lparr>function_name := pub_name public_symbol, function_base := module_base + public_address\<rparr>) } })"

definition CopyWFI :: "byte list option \<Rightarrow> WindowsFrameInfo option" where
  "CopyWFI ptr = do {
     raw \<leftarrow> ptr;
     type \<leftarrow> get_u32 raw;
     let para_uint32 = drop (2 * 4) raw;
     prolog \<leftarrow> get_u32 para_uint32;
     epilog \<leftarrow> get_u32 (drop (1 * 4) para_uint32);
     parameter \<leftarrow> get_u32 (drop (2 * 4) para_uint32);
     saved \<leftarrow> get_u32 (drop (3 * 4) para_uint32);
     local \<leftarrow> get_u32 (drop (4 * 4) para_uint32);
     max' \<leftarrow> get_u32 (drop (5 * 4) para_uint32);
     (allocates, program_ptr) \<leftarrow> bool_Read (drop (6 * 4) para_uint32);
     program \<leftarrow> c_str program_ptr;
     Some (WindowsFrameInfo_new (stack_info_of (sint type)) prolog epilog parameter saved local max'
       (if allocates then 1 else 0) program) }"

definition fast_FindWindowsFrameInfo ::
    "FastModule \<Rightarrow> 'a StackFrame_scheme \<Rightarrow> WindowsFrameInfo option option" where
  "fast_FindWindowsFrameInfo m frame = (case frame_module frame of None \<Rightarrow> None | Some code_module \<Rightarrow> do {
     let address = instruction frame - base_address code_module;
     let result = WindowsFrameInfo_default;
     frame_data \<leftarrow> StaticContainedRangeMap_RetrieveRange (fast_windows_frame_info m ! 4) address;
     frame_info \<leftarrow> (if frame_data \<noteq> None then Some frame_data
       else StaticContainedRangeMap_RetrieveRange (fast_windows_frame_info m ! 0) address);
     (case frame_info of
        Some info_ptr \<Rightarrow> do {
          info \<leftarrow> CopyWFI info_ptr;
          Some (Some (WindowsFrameInfo_CopyFrom result info)) }
      | None \<Rightarrow> do {
          nearest \<leftarrow> StaticRangeMap_RetrieveNearestRange (fast_functions m) address;
          if (case nearest of None \<Rightarrow> False
              | Some (_, func_base, function_size) \<Rightarrow> address \<ge> func_base \<and> address - func_base < function_size)
          then do {
            func \<leftarrow> fast_Function_CopyFrom (fst (the nearest));
            Some (Some (result\<lparr>parameter_size := fast_func_parameter_size func,
                               wfi_valid := wfi_valid result OR VALID_PARAMETER_SIZE\<rparr>)) }
          else do {
            _ \<leftarrow> fast_public_symbol m nearest address;
            Some None } }) })"

text \<open>The loop over the deltas moves an iterator over the static map.\<close>

partial_function (option) fast_apply_deltas ::
    "StaticMap \<Rightarrow> MemAddr \<Rightarrow> StaticMapIterator \<Rightarrow> CFIFrameInfo \<Rightarrow> CFIFrameInfo option" where
  "fast_apply_deltas deltas address delta' rules = do {
     end' \<leftarrow> StaticMap_end deltas;
     if it_equal delta' end' then Some rules
     else do {
       key \<leftarrow> GetKey u64_key delta';
       if key \<le> address then do {
         value' \<leftarrow> GetValueRawPtr delta';
         rule_set \<leftarrow> value' \<bind> c_str;
         fast_apply_deltas deltas address (snd (it_post_incr delta')) (snd (ParseCFIRuleSet rule_set rules)) }
       else Some rules } }"

definition fast_FindCFIFrameInfo :: "FastModule \<Rightarrow> 'a StackFrame_scheme \<Rightarrow> CFIFrameInfo option option" where
  "fast_FindCFIFrameInfo m frame = (case frame_module frame of None \<Rightarrow> None | Some code_module \<Rightarrow> do {
     let address = instruction frame - base_address code_module;
     found \<leftarrow> StaticRangeMap_RetrieveRange (fast_cfi_initial_rules m) address;
     (case found of
        None \<Rightarrow> Some None
      | Some (initial_rules, initial_base, _) \<Rightarrow> do {
          rule_set \<leftarrow> initial_rules \<bind> c_str;
          (case ParseCFIRuleSet rule_set CFIFrameInfo_new of (ok, rules) \<Rightarrow>
           if \<not> ok then Some None
           else do {
             delta' \<leftarrow> StaticMap_lower_bound u64_key (fast_cfi_delta_rules m) initial_base;
             rules \<leftarrow> fast_apply_deltas (fast_cfi_delta_rules m) address delta' rules;
             Some (Some rules) }) }) })"

section \<open>The bytes of a module\<close>

abbreviation "text_bytes s \<equiv> string_bytes s @ [0]"

definition module_maps :: "Module \<Rightarrow> byte list list" where
  "module_maps m =
     [map_bytes put_int (\<lambda>s. text_bytes s) 4 (files m),
      map_bytes put_u64 (range_bytes (case_option [] Function_bytes)) 8 (rm_map (function_table m)),
      map_bytes put_u64 (case_option [] PublicSymbol_bytes) 8 (am_map (public_symbols m))] @
     map (\<lambda>i. crm_bytes (case_option [] WindowsFrameInfo_bytes) (windows_frame_info m ! i)) [0..<5] @
     [map_bytes put_u64 (range_bytes (\<lambda>s. text_bytes s)) 8 (rm_map (cfi_initial_rules m)),
      map_bytes put_u64 (\<lambda>s. text_bytes s) 8 (cfi_delta_rules m)]"

definition size_table :: "byte list list \<Rightarrow> byte list" where
  "size_table bs = concat (map (\<lambda>b. put_u32 (word_of_nat (length b))) bs)"

definition module_bytes :: "Module \<Rightarrow> byte list" where
  "module_bytes m = bool_bytes (is_corrupt m) @ size_table (module_maps m) @ concat (module_maps m) @ [0]"

text \<open>What the text of the tables has to satisfy to be found again: no string holds a NUL.\<close>

abbreviation "info_text_ok \<equiv> pred_option (\<lambda>w. no_nul (program_string w) \<and> wfi_valid w = VALID_ALL)"

definition module_text_ok :: "Module \<Rightarrow> bool" where
  "module_text_ok m \<longleftrightarrow>
     (\<forall>p\<in>set (files m). - (2 ^ 31) \<le> fst p \<and> fst p < 2 ^ 31 \<and> no_nul (snd p)) \<and>
     (\<forall>f\<in>set (function_heap m). no_nul (func_name f)) \<and>
     (\<forall>p\<in>set (am_map (public_symbols m)). pred_option (\<lambda>s. no_nul (pub_name s)) (snd p)) \<and>
     list_all (crm_all info_text_ok) (windows_frame_info m) \<and>
     (\<forall>p\<in>set (rm_map (cfi_initial_rules m)). no_nul (entry (snd p))) \<and>
     (\<forall>p\<in>set (cfi_delta_rules m). no_nul (snd p))"

definition module_fits :: "Module \<Rightarrow> bool" where
  "module_fits m \<longleftrightarrow> module_text_ok m \<and> length (module_bytes m) < 2 ^ 32"

lemma length_size_table [simp]: "length (size_table bs) = 4 * length bs"
  by (induction bs) (simp_all add: size_table_def)

lemma length_module_maps [simp]: "length (module_maps m) = 10"
  by (simp add: module_maps_def)

lemma length_concat_le: "b \<in> set bs \<Longrightarrow> length b \<le> length (concat bs)"
  by (induction bs) auto

lemma module_map_fits:
  assumes "module_fits m" and "b \<in> set (module_maps m)" shows "length b < 2 ^ 32"
  using assms length_concat_le [OF assms(2)] by (simp add: module_fits_def module_bytes_def)

text \<open>The values of a serialized map are no longer than the map.\<close>

lemma map_bytes_value_le:
  "p \<in> set m \<Longrightarrow> length (ev (snd p)) \<le> length (map_bytes ek ev n m)"
  using length_concat_le [of "ev (snd p)" "map (\<lambda>p. ev (snd p)) m"] by (simp add: map_bytes_def)

lemma function_table_entry:
  assumes "module_inv m" and "p \<in> set (rm_map (function_table m))"
  obtains f where "f \<in> set (function_heap m)" "entry (snd p) = Some f"
proof -
  obtain q where q: "q \<in> set (rm_map (module_functions m))" "entry (snd p) = Some (function_heap m ! entry (snd q))"
    using assms(2) by (auto simp: function_table_def)
  moreover have "entry (snd q) < length (function_heap m)"
    using assms(1) q(1) by (auto simp: module_inv_def exclusive_table_def)
  ultimately show ?thesis using that [of "function_heap m ! entry (snd q)"] by simp
qed

lemma functions_fit:
  assumes "module_inv m" and "module_fits m" and "p \<in> set (rm_map (function_table m))"
  shows "pred_option Function_fits (entry (snd p))"
proof -
  obtain f where f: "f \<in> set (function_heap m)" "entry (snd p) = Some f"
    using function_table_entry [OF assms(1,3)] .
  have "length (range_bytes (case_option [] Function_bytes) (snd p)) < 2 ^ 32"
    using map_bytes_value_le [OF assms(3), of "range_bytes (case_option [] Function_bytes)" put_u64 8]
      module_map_fits [OF assms(2), of "map_bytes put_u64 (range_bytes (case_option [] Function_bytes)) 8 (rm_map (function_table m))"]
    by (simp add: module_maps_def)
  with f assms(2) show ?thesis by (simp add: Function_fits_def range_bytes_def module_fits_def module_text_ok_def)
qed

lemma crm_all_fits:
  assumes "crm_all P c" and "length (crm_bytes enc c) < n"
  shows "crm_all (\<lambda>x. P x \<and> length (enc x) < n) c"
  using assms
proof (induction c rule: measure_induct_rule [of size])
  case (less c)
  have "length (enc (crm_entry c)) < n" using less.prems(2) by (simp add: crm_bytes.simps [of enc c])
  moreover have "crm_all (\<lambda>x. P x \<and> length (enc x) < n) (snd p)" if "p \<in> set (crm_kids c)" for p
    using that less.prems crm_kid_bytes_le [OF that, of enc]
    by (intro less.IH size_kid) (auto simp: crm_all.simps [of P c])
  ultimately show ?case using less.prems(1) by (simp add: crm_all.simps [of _ c])
qed

lemma crm_all_mono:
  assumes "crm_all P c" and "\<And>x. P x \<Longrightarrow> Q x" shows "crm_all Q c"
  using assms(1)
proof (induction c rule: measure_induct_rule [of size])
  case (less c)
  have "crm_all Q (snd p)" if "p \<in> set (crm_kids c)" for p
    using that less.prems by (intro less.IH size_kid) (auto simp: crm_all.simps [of P c])
  with less.prems assms(2) show ?case by (simp add: crm_all.simps [of P c] crm_all.simps [of Q c])
qed

abbreviation "info_fits w \<equiv> no_nul (program_string w) \<and> length (program_string w) + 34 < 2 ^ 32"

lemma infos_fit:
  assumes "module_inv m" and "module_fits m" and "i < 5"
  shows "crm_all (pred_option info_fits) (windows_frame_info m ! i)"
proof -
  let ?enc = "case_option [] WindowsFrameInfo_bytes" and ?c = "windows_frame_info m ! i"
  have "crm_all info_text_ok ?c"
    using assms by (auto simp: module_fits_def module_text_ok_def module_inv_def list_all_length)
  moreover have "length (crm_bytes ?enc ?c) < 2 ^ 32"
    using assms(3) by (intro module_map_fits [OF assms(2)]) (auto simp: module_maps_def)
  ultimately have "crm_all (\<lambda>x. info_text_ok x \<and> length (?enc x) < 2 ^ 32) ?c" by (rule crm_all_fits)
  then show ?thesis
    by (rule crm_all_mono) (auto simp: WindowsFrameInfo_bytes_def bool_bytes_def split: option.splits)
qed

section \<open>Serializing\<close>

interpretation int_ser: serializer int_serializer put_int "\<lambda>_. True"
  by unfold_locales (auto simp: int_serializer_def put_int_def intro: puts_put)

interpretation char_ser: serializer char_serializer "\<lambda>c. [c]" "\<lambda>_. True"
  by unfold_locales (auto simp: char_serializer_def intro: puts_put)

lemma files_contract:
  assumes "\<forall>p\<in>set fs. no_nul (snd p)"
  shows "puts (StdMap_Write int_serializer string_serializer 4 fs) (map_bytes put_int (\<lambda>s. text_bytes s) 4 fs)"
    and "length (map_bytes put_int (\<lambda>s. text_bytes s) 4 fs) = StdMap_SizeOf int_serializer string_serializer fs"
proof -
  have "puts (write_map (Write int_serializer) (Write string_serializer) 4 fs) (map_bytes put_int (\<lambda>s. text_bytes s) 4 fs)"
    using assms int_ser.write_enc string_ser.write_enc by (intro write_map_puts) (auto simp: put_int_def)
  then show "puts (StdMap_Write int_serializer string_serializer 4 fs) (map_bytes put_int (\<lambda>s. text_bytes s) 4 fs)"
    by (simp add: puts_def StdMap_Write_def)
  have "length (concat (map (\<lambda>p. put_int (fst p)) fs)) = 4 * length fs"
    by (rule length_concat_const) (simp add: put_int_def)
  moreover have "length (concat (map (\<lambda>p. text_bytes (snd p)) fs)) + 4 * length fs =
      (\<Sum>p\<leftarrow>fs. 4 + (length (snd p) + 1))"
    by (induction fs) auto
  ultimately show "length (map_bytes put_int (\<lambda>s. text_bytes s) 4 fs) = StdMap_SizeOf int_serializer string_serializer fs"
    by (simp add: map_bytes_def StdMap_SizeOf_def int_serializer_def string_serializer_def case_prod_beta')
qed

lemma puts_write_all:
  "\<forall>x\<in>set xs. puts (w x) (f x) \<Longrightarrow> puts (write_all w xs) (concat (map f xs))"
proof (induction xs)
  case Nil
  then show ?case by (simp add: puts_def)
next
  case (Cons x xs)
  then have "puts (\<lambda>dest. w x dest \<bind> write_all w xs) (f x @ concat (map f xs))"
    by (intro puts_seq) auto
  then show ?case by (simp add: puts_def)
qed

lemma module_contract:
  assumes "module_inv m" and "module_fits m"
  shows "map_sizes m = map (\<lambda>b. word_of_nat (length b)) (module_maps m)"
    and "puts (ModuleSerializer_Write (map_sizes m) m) (module_bytes m)"
proof -
  have ok: "\<forall>p\<in>set (files m). no_nul (snd p)" "\<forall>p\<in>set (cfi_delta_rules m). no_nul (snd p)"
    "\<forall>p\<in>set (rm_map (cfi_initial_rules m)). no_nul (entry (snd p))"
    "\<forall>p\<in>set (am_map (public_symbols m)). pred_option (\<lambda>s. no_nul (pub_name s)) (snd p)"
    using assms(2) by (auto simp: module_fits_def module_text_ok_def)
  have fs: "\<forall>p\<in>set (rm_map (function_table m)). pred_option Function_fits (entry (snd p))"
    using functions_fit [OF assms] by blast
  note wfi = infos_fit [OF assms]
  show sizes: "map_sizes m = map (\<lambda>b. word_of_nat (length b)) (module_maps m)"
    using wfi_linked_ser.contained_size [OF wfi]
    by (simp add: map_sizes_def module_maps_def files_contract [OF ok(1)] string_ser.std_map_contract [OF ok(2)]
        string_ser.range_map_contract [OF ok(3)] public_linked_ser.std_map_contract [OF ok(4)] AddressMap_SizeOf_def
        function_linked_ser.range_map_contract [OF fs] upt_rec)
  have table: "concat (map put_u32 (map_sizes m)) = size_table (module_maps m)"
    by (simp add: sizes size_table_def o_def)
  have infos: "puts (write_all (\<lambda>i. ContainedRangeMap_Write WindowsFrameInfo_ptr_serializer (windows_frame_info m ! i)) [0..<5])
      (concat (map (\<lambda>i. crm_bytes (case_option [] WindowsFrameInfo_bytes) (windows_frame_info m ! i)) [0..<5]))"
    using wfi_linked_ser.contained_write [OF wfi] by (intro puts_write_all) auto
  have pub: "puts (AddressMap_Write PublicSymbol_ptr_serializer (public_symbols m))
      (map_bytes put_u64 (case_option [] PublicSymbol_bytes) 8 (am_map (public_symbols m)))"
    using public_linked_ser.std_map_contract(1) [OF ok(4)] by (simp add: puts_def AddressMap_Write_def)
  have bytes: "module_bytes m = bool_bytes (is_corrupt m) @ size_table (module_maps m) @
      map_bytes put_int (\<lambda>s. text_bytes s) 4 (files m) @
      map_bytes put_u64 (range_bytes (case_option [] Function_bytes)) 8 (rm_map (function_table m)) @
      map_bytes put_u64 (case_option [] PublicSymbol_bytes) 8 (am_map (public_symbols m)) @
      concat (map (\<lambda>i. crm_bytes (case_option [] WindowsFrameInfo_bytes) (windows_frame_info m ! i)) [0..<5]) @
      map_bytes put_u64 (range_bytes (\<lambda>s. text_bytes s)) 8 (rm_map (cfi_initial_rules m)) @
      map_bytes put_u64 (\<lambda>s. text_bytes s) 8 (cfi_delta_rules m) @ [0]"
    by (simp add: module_bytes_def module_maps_def)
  show "puts (ModuleSerializer_Write (map_sizes m) m) (module_bytes m)"
    unfolding ModuleSerializer_Write_def bytes table
    by (intro puts_seq bool_ser.write_enc char_ser.write_enc puts_put infos pub files_contract ok
        string_ser.std_map_contract string_ser.range_map_contract function_linked_ser.range_map_contract fs TrueI)
qed

lemma module_SizeOf:
  assumes "module_inv m" and "module_fits m"
  shows "ModuleSerializer_SizeOf m = (map_sizes m, length (module_bytes m))"
proof -
  have "unat (word_of_nat (length b) :: u32) = length b" if "b \<in> set (module_maps m)" for b
    using module_map_fits [OF assms(2) that] by (rule unat_word_of_nat_u32)
  then have "sum_list (map unat (map_sizes m)) = sum_list (map length (module_maps m))"
    unfolding module_contract(1) [OF assms] by (simp add: o_def cong: map_cong)
  then show ?thesis
    by (simp add: ModuleSerializer_SizeOf_def Let_def kNumberMaps_def bool_serializer_def char_serializer_def
        module_bytes_def bool_bytes_def length_concat)
qed

lemma module_Serialize:
  assumes "module_inv m" and "module_fits m" and "\<And>n. length (fresh n) = n"
  shows "ModuleSerializer_Serialize fresh m = Some (module_bytes m, word_of_nat (length (module_bytes m)))"
proof -
  let ?n = "length (module_bytes m)"
  have n: "unat (word_of_nat ?n :: u32) = ?n" using assms(2) by (intro unat_word_of_nat_u32) (simp add: module_fits_def)
  have "ModuleSerializer_Write (map_sizes m) m (fresh ?n, Some 0) = Some (module_bytes m, Some ?n)"
    using putsD [OF module_contract(2) [OF assms(1,2)] assms(3), of "[]" "[]"] by simp
  then show ?thesis by (simp add: ModuleSerializer_Serialize_def module_SizeOf [OF assms(1,2)] n Let_def)
qed

section \<open>Loading\<close>

lemma map_offsets_sizes:
  assumes "\<And>j. j < i + n \<Longrightarrow> get_u32 (drop (4 * j) mem_buffer) = Some (size_of j)"
  shows "map_offsets mem_buffer offset i n =
    Some (map (\<lambda>k. offset + sum_list (map size_of [i..<i + k])) [0..<n])"
  using assms
proof (induction n arbitrary: offset i)
  case (Suc n)
  have "map_offsets mem_buffer (offset + size_of i) (i + 1) n =
      Some (map (\<lambda>k. offset + size_of i + sum_list (map size_of [i + 1..<i + 1 + k])) [0..<n])"
    using Suc.prems by (intro Suc.IH) simp
  moreover have "[0..<Suc n] = 0 # map Suc [0..<n]" by (simp add: upt_conv_Cons map_Suc_upt del: upt_Suc)
  moreover have "sum_list (map size_of [i..<i + Suc k]) = size_of i + sum_list (map size_of [i + 1..<i + 1 + k])" for k
    by (simp add: upt_conv_Cons del: upt_Suc)
  ultimately show ?case using Suc.prems by (cases n) (simp_all add: o_def add.assoc del: upt_Suc)
qed simp

lemma drop_concat_nth:
  "k < length bs \<Longrightarrow> drop (sum_list (map length (take k bs))) (concat bs @ rest) = bs ! k @ concat (drop (Suc k) bs) @ rest"
proof (induction bs arbitrary: k)
  case (Cons b bs)
  then show ?case by (cases k) simp_all
qed simp

lemma sum_take_le: "sum_list (map length (take k bs)) \<le> length (concat bs)"
  by (induction bs arbitrary: k) (auto simp: take_Cons split: nat.splits)

lemma word_of_nat_sum: "sum_list (map (\<lambda>b. word_of_nat (f b) :: u32) xs) = word_of_nat (sum_list (map f xs))"
  by (induction xs) simp_all

text \<open>The table of sizes leads to each of the blocks behind it.\<close>

lemma size_table_offsets:
  fixes bs :: "byte list list" and rest :: "byte list"
  assumes "length bs = kNumberMaps" and "4 * length bs + length (concat bs) < 2 ^ 32"
  defines "mem_buffer \<equiv> size_table bs @ concat bs @ rest"
  shows "\<exists>offsets. map_offsets mem_buffer (word_of_nat (kNumberMaps * 4)) 0 kNumberMaps = Some offsets \<and>
    (\<forall>k<kNumberMaps. pointer_at mem_buffer (offsets ! k) = Some (bs ! k @ concat (drop (Suc k) bs) @ rest))"
proof -
  let ?s = "\<lambda>j. word_of_nat (length (bs ! j)) :: u32"
  let ?os = "map (\<lambda>k. word_of_nat (kNumberMaps * 4) + sum_list (map ?s [0..<0 + k])) [0..<kNumberMaps]"
  have "get_u32 (drop (4 * j) mem_buffer) = Some (?s j)" if "j < 0 + kNumberMaps" for j
    using load_nth_offset [of j "map (\<lambda>b. word_of_nat (length b)) bs" "concat bs @ rest"] that assms(1)
    by (simp add: mem_buffer_def size_table_def o_def)
  then have os: "map_offsets mem_buffer (word_of_nat (kNumberMaps * 4)) 0 kNumberMaps = Some ?os"
    by (rule map_offsets_sizes)
  have "pointer_at mem_buffer (?os ! k) = Some (bs ! k @ concat (drop (Suc k) bs) @ rest)" if k: "k < kNumberMaps" for k
  proof -
    have take: "map (\<lambda>j. bs ! j) [0..<k] = take k bs"
      using k assms(1) by (intro nth_equalityI) auto
    let ?off = "4 * length bs + sum_list (map length (take k bs))"
    have "sum_list (map ?s [0..<k]) = word_of_nat (sum_list (map length (take k bs)))"
      unfolding take [symmetric] by (simp add: word_of_nat_sum o_def)
    then have nth: "?os ! k = word_of_nat ?off" using k assms(1) by (simp add: mult.commute)
    have le: "?off \<le> 4 * length bs + length (concat bs)" using sum_take_le by simp
    then have u: "unat (word_of_nat ?off :: u32) = ?off" using assms(2) by (intro unat_word_of_nat_u32) simp
    have "drop ?off mem_buffer = drop (sum_list (map length (take k bs))) (concat bs @ rest)"
      by (simp add: mem_buffer_def)
    also have "\<dots> = bs ! k @ concat (drop (Suc k) bs) @ rest" using k assms(1) by (intro drop_concat_nth) simp
    finally show ?thesis unfolding pointer_at_def nth u using le by (simp add: mem_buffer_def)
  qed
  with os show ?thesis by blast
qed

text \<open>The tables of the fast module lie over the bytes of the tables of the basic module.\<close>

definition fast_of :: "Module \<Rightarrow> FastModule \<Rightarrow> bool" where
  "fast_of m fm \<longleftrightarrow>
     fast_is_corrupt fm = is_corrupt m \<and>
     (\<exists>rest. serialized_map put_int (\<lambda>s. text_bytes s) 4 (files m) rest (fast_files fm)) \<and>
     (\<exists>rest. serialized_u64 (range_bytes (case_option [] Function_bytes)) (rm_map (function_table m)) rest
        (fast_functions fm)) \<and>
     (\<exists>rest. serialized_u64 (case_option [] PublicSymbol_bytes) (am_map (public_symbols m)) rest
        (fast_public_symbols fm)) \<and>
     (\<forall>i<5. serialized_crm (case_option [] WindowsFrameInfo_bytes) (windows_frame_info m ! i)
        (fast_windows_frame_info fm ! i)) \<and>
     (\<exists>rest. serialized_u64 (range_bytes (\<lambda>s. text_bytes s)) (rm_map (cfi_initial_rules m)) rest
        (fast_cfi_initial_rules fm)) \<and>
     (\<exists>rest. serialized_u64 (\<lambda>s. text_bytes s) (cfi_delta_rules m) rest (fast_cfi_delta_rules fm))"

lemma options_Some: "\<forall>i<length xs. xs ! i \<noteq> None \<Longrightarrow> options xs = Some (map the xs)"
proof (induction xs)
  case (Cons x xs)
  have "x \<noteq> None" using Cons.prems by (metis length_Cons nth_Cons_0 zero_less_Suc)
  moreover have "\<forall>i<length xs. xs ! i \<noteq> None" using Cons.prems by (metis Suc_less_eq length_Cons nth_Cons_Suc)
  ultimately show ?case using Cons.IH by auto
qed simp

lemma fast_Load:
  assumes "module_fits m"
  shows "\<exists>fm. fast_LoadMapFromMemory (FastModule_new name) (Some (module_bytes m @ rest)) = Some (fm, True) \<and>
    fast_of m fm \<and> fast_name fm = name"
proof -
  let ?bs = "module_maps m" and ?r = "[0] @ rest"
  define mem_buffer where "mem_buffer = size_table ?bs @ concat ?bs @ ?r"
  have n: "length ?bs = kNumberMaps" by (simp add: kNumberMaps_def)
  have len: "4 * length ?bs + length (concat ?bs) < 2 ^ 32"
    using assms by (simp add: module_fits_def module_bytes_def)
  have read: "bool_Read (module_bytes m @ rest) = Some (is_corrupt m, mem_buffer)"
    by (simp add: bool_Read_def module_bytes_def bool_bytes_def mem_buffer_def)
  obtain offsets where os: "map_offsets mem_buffer (word_of_nat (kNumberMaps * 4)) 0 kNumberMaps = Some offsets"
    and at: "\<forall>k<kNumberMaps. pointer_at mem_buffer (offsets ! k) = Some (?bs ! k @ concat (drop (Suc k) ?bs) @ ?r)"
    using size_table_offsets [OF n len, of ?r] by (auto simp: mem_buffer_def)
  define rest_of where "rest_of k = concat (drop (Suc k) ?bs) @ ?r" for k
  note at = at [folded rest_of_def, rule_format]
  have fits: "length (?bs ! k) < 2 ^ 32" if "k < 10" for k
    using that by (intro module_map_fits [OF assms]) simp
  have nth: "?bs ! 0 = map_bytes put_int (\<lambda>s. text_bytes s) 4 (files m)"
    "?bs ! 1 = map_bytes put_u64 (range_bytes (case_option [] Function_bytes)) 8 (rm_map (function_table m))"
    "?bs ! 2 = map_bytes put_u64 (case_option [] PublicSymbol_bytes) 8 (am_map (public_symbols m))"
    "?bs ! 8 = map_bytes put_u64 (range_bytes (\<lambda>s. text_bytes s)) 8 (rm_map (cfi_initial_rules m))"
    "?bs ! 9 = map_bytes put_u64 (\<lambda>s. text_bytes s) 8 (cfi_delta_rules m)"
    by (simp_all add: module_maps_def nth_append)
  have info_nth: "?bs ! (3 + i) = crm_bytes (case_option [] WindowsFrameInfo_bytes) (windows_frame_info m ! i)" if "i < 5" for i
    using that by (simp add: module_maps_def nth_append)
  obtain s0 s1 s2 s8 s9 where s: "StaticMap_new (?bs ! 0 @ rest_of 0) = Some s0" "StaticMap_new (?bs ! 1 @ rest_of 1) = Some s1"
    "StaticMap_new (?bs ! 2 @ rest_of 2) = Some s2" "StaticMap_new (?bs ! 8 @ rest_of 8) = Some s8"
    "StaticMap_new (?bs ! 9 @ rest_of 9) = Some s9"
    unfolding nth using StaticMap_new_serialized by meson
  have infos: "\<exists>sc. pointer_at mem_buffer (offsets ! (3 + i)) \<bind> StaticContainedRangeMap_new = Some sc \<and>
      serialized_crm (case_option [] WindowsFrameInfo_bytes) (windows_frame_info m ! i) sc" if i: "i < 5" for i
  proof -
    have l: "length (crm_bytes (case_option [] WindowsFrameInfo_bytes) (windows_frame_info m ! i)) < 2 ^ 32"
      using fits [of "3 + i"] i info_nth [OF i] by simp
    then obtain sc where "StaticContainedRangeMap_new (?bs ! (3 + i) @ rest_of (3 + i)) = Some sc"
      unfolding info_nth [OF i] using static_contained_new [OF l, of "rest_of (3 + i)"] by blast
    with l show ?thesis using at [of "3 + i"] i info_nth [OF i] by (auto simp: serialized_crm_def kNumberMaps_def)
  qed
  define scs where "scs = map (\<lambda>i. the (pointer_at mem_buffer (offsets ! (3 + i)) \<bind> StaticContainedRangeMap_new)) [0..<5]"
  have opts: "options (map (\<lambda>i. pointer_at mem_buffer (offsets ! (3 + i)) \<bind> StaticContainedRangeMap_new) [0..<5]) = Some scs"
    unfolding scs_def using infos by (subst options_Some) fastforce+
  have scs: "serialized_crm (case_option [] WindowsFrameInfo_bytes) (windows_frame_info m ! i) (scs ! i)" if "i < 5" for i
    using infos [OF that] that by (auto simp: scs_def)
  let ?fm = "(FastModule_new name)\<lparr>fast_files := s0, fast_functions := s1, fast_public_symbols := s2,
    fast_is_corrupt := is_corrupt m, fast_windows_frame_info := scs, fast_cfi_initial_rules := s8, fast_cfi_delta_rules := s9\<rparr>"
  have "fast_LoadMapFromMemory (FastModule_new name) (Some (module_bytes m @ rest)) = Some (?fm, True)"
    unfolding fast_LoadMapFromMemory_def option.case read bind.bind_lunit prod.case os Let_def opts
    using at [of 0] at [of 1] at [of 2] at [of 8] at [of 9] s by (simp add: kNumberMaps_def)
  moreover have "fast_of m ?fm"
    using s fits [of 0] fits [of 1] fits [of 2] fits [of 8] fits [of 9] scs
    unfolding nth fast_of_def serialized_map_def by auto
  ultimately show ?thesis by (intro exI [of _ ?fm]) (simp add: FastModule_new_def)
qed

section \<open>Lookups\<close>

text \<open>Following the pointers of the map of functions.\<close>

lemma function_table_search:
  shows "lower_bound (rm_map (function_table m)) a = lower_bound (rm_map (module_functions m)) a"
    and "upper_bound (rm_map (function_table m)) a = upper_bound (rm_map (module_functions m)) a"
    and "length (rm_map (function_table m)) = length (rm_map (module_functions m))"
  by (simp_all add: function_table_def lower_bound_def upper_bound_def takeWhile_map o_def case_prod_beta')

lemma function_table_nth:
  "i < length (rm_map (module_functions m)) \<Longrightarrow>
   range_outputs (rm_map (function_table m) ! i) =
     map_prod (\<lambda>ptr. Some (function_heap m ! ptr)) id (range_outputs (rm_map (module_functions m) ! i)) \<and>
   base (snd (rm_map (function_table m) ! i)) = base (snd (rm_map (module_functions m) ! i))"
  by (simp add: function_table_def range_outputs_def case_prod_beta')

lemma function_table_inv:
  assumes "module_inv m" shows "range_map_inv (function_table m)"
proof -
  have "range_map_inv (module_functions m)" using assms by (simp add: module_inv_def exclusive_table_def)
  then show ?thesis
    by (auto simp: range_map_inv_def ranges_inv_def function_table_def sorted_wrt_map list_all_iff range_ok_def
        range_before_def case_prod_beta' elim: sorted_wrt_mono_rel [rotated])
qed

lemma function_table_nearest:
  assumes "module_inv m"
  shows "RangeMap_RetrieveNearestRange (function_table m) a =
    map_option (map_prod (\<lambda>ptr. Some (function_heap m ! ptr)) id) (RangeMap_RetrieveNearestRange (module_functions m) a)"
proof -
  let ?rs = "rm_map (module_functions m)"
  have inv: "std_map_inv ?rs"
    using assms ranges_inv_std by (auto simp: module_inv_def exclusive_table_def range_map_inv_def)
  have "RangeMap_RetrieveRange (function_table m) a =
      map_option (map_prod (\<lambda>ptr. Some (function_heap m ! ptr)) id) (RangeMap_RetrieveRange (module_functions m) a)"
    using function_table_nth lower_bound_less [of ?rs a]
    by (simp add: RangeMap_RetrieveRange_def function_table_search Let_def)
  moreover have "upper_bound ?rs a - 1 < length ?rs" if "upper_bound ?rs a \<noteq> 0"
    using that std_index.ub_bound [OF inv, of a] by simp
  ultimately show ?thesis
    using function_table_nth [of "upper_bound ?rs a - 1" m]
    by (simp add: RangeMap_RetrieveNearestRange_def function_table_search Let_def split: option.splits)
qed

section \<open>Reading records back\<close>

lemma fast_Line_bytes: "fast_Line_CopyFrom (Some (Line_bytes l @ rest)) = Some l"
  by (simp add: fast_Line_CopyFrom_def Line_bytes_def)

lemma fast_PublicSymbol_bytes:
  "no_nul (pub_name p) \<Longrightarrow>
   fast_PublicSymbol_CopyFrom (Some (PublicSymbol_bytes p @ rest)) = Some (p\<lparr>pub_is_multiple := False\<rparr>)"
  by (simp add: fast_PublicSymbol_CopyFrom_def PublicSymbol_bytes_def)

lemma fast_Function_bytes:
  assumes "Function_fits f"
  shows "\<exists>ff rest'. fast_Function_CopyFrom (Some (Function_bytes f @ rest)) = Some ff \<and>
    fast_func_name ff = func_name f \<and> fast_func_parameter_size ff = func_parameter_size f \<and>
    serialized_u64 (range_bytes (case_option [] Line_bytes)) (rm_map (func_lines f)) rest' (fast_func_lines ff)"
proof -
  let ?ls = "map_bytes put_u64 (range_bytes (case_option [] Line_bytes)) 8 (rm_map (func_lines f))"
  obtain sm where sm: "StaticMap_new (?ls @ rest) = Some sm" using StaticMap_new_serialized by blast
  have "length ?ls < 2 ^ 32" using assms by (simp add: Function_fits_def Function_bytes_def)
  then have "serialized_u64 (range_bytes (case_option [] Line_bytes)) (rm_map (func_lines f)) rest sm"
    using sm by (rule serialized_u64I)
  moreover have "no_nul (func_name f)" using assms by (simp add: Function_fits_def)
  ultimately show ?thesis using sm by (auto simp: fast_Function_CopyFrom_def Function_bytes_def)
qed

lemma CopyWFI_bytes:
  assumes "no_nul (program_string w)" and "wfi_valid w = VALID_ALL"
  shows "CopyWFI (Some (WindowsFrameInfo_bytes w @ rest)) = Some w"
proof -
  have "sint (word_of_int (stack_info_code t) :: u32) = stack_info_code t" for t
    by (cases t) simp_all
  with assms show ?thesis
    by (cases w) (simp add: CopyWFI_def WindowsFrameInfo_bytes_def bool_Read_def bool_bytes_def WindowsFrameInfo_new_def)
qed

section \<open>The lookups of the fast module\<close>

lemma fast_nearest:
  assumes "module_inv m" and "module_fits m" and "fast_of m fm"
  obtains (absent) "RangeMap_RetrieveNearestRange (module_functions m) a = None"
      "StaticRangeMap_RetrieveNearestRange (fast_functions fm) a = Some None"
  | (found) ptr b d s rest where "RangeMap_RetrieveNearestRange (module_functions m) a = Some (ptr, b, d, s)"
      "StaticRangeMap_RetrieveNearestRange (fast_functions fm) a =
         Some (Some (Some (Function_bytes (function_heap m ! ptr) @ rest), b, s))"
      "Function_fits (function_heap m ! ptr)" "function_ok (function_heap m ! ptr)"
proof -
  obtain rest where ser: "serialized_u64 (range_bytes (case_option [] Function_bytes)) (rm_map (function_table m)) rest
      (fast_functions fm)" using assms(3) by (auto simp: fast_of_def)
  obtain res where res: "StaticRangeMap_RetrieveNearestRange (fast_functions fm) a = Some res"
    "rel_option (same_range (case_option [] Function_bytes)) (RangeMap_RetrieveNearestRange (function_table m) a) res"
    using static_range_map_nearest [OF ser function_table_inv [OF assms(1)]] by blast
  show thesis
  proof (cases "RangeMap_RetrieveNearestRange (module_functions m) a")
    case None
    with res absent show thesis by (simp add: function_table_nearest [OF assms(1)])
  next
    case (Some out)
    obtain ptr b d s where out: "out = (ptr, b, d, s)" by (cases out)
    have near: "RangeMap_RetrieveNearestRange (function_table m) a = Some (Some (function_heap m ! ptr), b, d, s)"
      by (simp add: function_table_nearest [OF assms(1)] Some out)
    have "exclusive_table (pred_option Function_fits) (function_table m)"
      using assms(1) function_table_inv [OF assms(1)] functions_fit [OF assms(1,2)]
      by (simp add: exclusive_table_def module_inv_def) (simp add: function_table_def)
    from RetrieveNearestRange_entry [OF this near] have fits: "Function_fits (function_heap m ! ptr)" by simp
    have "ptr < length (function_heap m)"
      using RetrieveNearestRange_entry [OF _ Some [unfolded out]] assms(1) by (auto simp: module_inv_def)
    then have "function_ok (function_heap m ! ptr)" using assms(1) by (simp add: module_inv_def list_all_length)
    moreover obtain rest' where "res = Some (Some (Function_bytes (function_heap m ! ptr) @ rest'), b, s)"
      using res(2) unfolding near by (cases res) (auto simp: same_range_def points_to_def)
    ultimately show thesis using found Some out res(1) fits by blast
  qed
qed

lemma fast_public:
  assumes "module_inv m" and "module_fits m" and "fast_of m fm"
  shows "fast_public_symbol fm nearest a = Some (case AddressMap_Retrieve (public_symbols m) a of
     Some (Some symbol, public_address) \<Rightarrow>
       if (case nearest of None \<Rightarrow> True | Some (func_ptr, func_base, _) \<Rightarrow> func_ptr = None \<or> public_address > func_base)
       then Some (symbol\<lparr>pub_is_multiple := False\<rparr>, public_address) else None
   | _ \<Rightarrow> None)"
    and "AddressMap_Retrieve (public_symbols m) a \<noteq> Some (None, k)"
proof -
  obtain rest where ser: "serialized_u64 (case_option [] PublicSymbol_bytes) (am_map (public_symbols m)) rest
      (fast_public_symbols fm)" using assms(3) by (auto simp: fast_of_def)
  have inv: "address_map_inv (public_symbols m)" and some: "\<forall>(a, symbol)\<in>set (am_map (public_symbols m)). symbol \<noteq> None"
    using assms(1) by (auto simp: module_inv_def symbols_ok_def)
  have names: "\<forall>p\<in>set (am_map (public_symbols m)). pred_option (\<lambda>s. no_nul (pub_name s)) (snd p)"
    using assms(2) by (auto simp: module_fits_def module_text_ok_def)
  have std: "std_map_inv (am_map (public_symbols m))" using inv by (simp add: address_map_inv_def)
  have member: "(k, e) \<in> set (am_map (public_symbols m))" if "AddressMap_Retrieve (public_symbols m) a = Some (e, k)" for e k
  proof -
    let ?i = "upper_bound (am_map (public_symbols m)) a - 1"
    have "am_map (public_symbols m) ! ?i = (k, e)" "?i < length (am_map (public_symbols m))"
      using that std_index.ub_bound [OF std, of a]
      by (auto simp: AddressMap_Retrieve_def Let_def split: if_splits prod.splits)
    then show ?thesis by (metis nth_mem)
  qed
  then show "AddressMap_Retrieve (public_symbols m) a \<noteq> Some (None, k)" using some by fast
  obtain res where "StaticAddressMap_Retrieve (fast_public_symbols fm) a = Some res"
    "rel_option (\<lambda>(e, k) (p, k'). points_to (case_option [] PublicSymbol_bytes) e p \<and> k = k')
       (AddressMap_Retrieve (public_symbols m) a) res"
    using static_address_map_retrieve [OF ser inv] by blast
  then show "fast_public_symbol fm nearest a = Some (case AddressMap_Retrieve (public_symbols m) a of
     Some (Some symbol, public_address) \<Rightarrow>
       if (case nearest of None \<Rightarrow> True | Some (func_ptr, func_base, _) \<Rightarrow> func_ptr = None \<or> public_address > func_base)
       then Some (symbol\<lparr>pub_is_multiple := False\<rparr>, public_address) else None
   | _ \<Rightarrow> None)"
    using member some names
    by (cases "AddressMap_Retrieve (public_symbols m) a"; cases res)
      (fastforce simp: fast_public_symbol_def points_to_def fast_PublicSymbol_bytes split: option.splits)+
qed

lemma fast_file:
  assumes "module_inv m" and "module_fits m" and "fast_of m fm" and "- (2 ^ 31) \<le> i" and "i < 2 ^ 31"
  shows "fast_file_name fm i = Some (std_find (files m) i)"
proof -
  obtain rest where ser: "serialized_map put_int (\<lambda>s. text_bytes s) (sizeof_key int_key) (files m) rest (fast_files fm)"
    using assms(3) by (auto simp: fast_of_def int_key_def)
  have inv: "std_map_inv (files m)" using assms(1) by (simp add: module_inv_def)
  have ok: "list_all (\<lambda>i. - (2 ^ 31) \<le> i \<and> i < 2 ^ 31) (map fst (files m))" "\<forall>p\<in>set (files m). no_nul (snd p)"
    using assms(2) by (auto simp: module_fits_def module_text_ok_def list_all_iff)
  note search = int_key.serialized_searches [OF ser inv ok(1)]
  show ?thesis
  proof (cases "std_find (files m) i")
    case None
    then show ?thesis by (simp add: fast_file_name_def search)
  next
    case (Some name)
    let ?l = "lower_bound (files m) i"
    have "(i, name) \<in> set (files m)" using Some inv by (simp add: std_find_in_set)
    then obtain j where j: "j < length (files m)" "files m ! j = (i, name)" by (auto simp: in_set_conv_nth)
    have srt: "sorted_wrt (<) (map fst (files m))" using inv by (simp add: std_map_inv_def)
    have l: "?l = j"
    proof (rule std_index.lb_unique [OF inv])
      show "map fst (files m) ! k < i" if "k < j" for k
        using sorted_wrt_nth_less [OF srt that] j by simp
      show "i \<le> map fst (files m) ! k" if "j \<le> k" "k < length (map fst (files m))" for k
        using sorted_wrt_nth_less [OF srt, of j k] j that by (cases "k = j") auto
    qed (use j in simp)
    have "no_nul name" using ok(2) \<open>(i, name) \<in> set (files m)\<close> by fastforce
    then show ?thesis
      using Some j l int_key.serialized_it_at(2) [OF ser j(1) ok(1)]
      by (simp add: fast_file_name_def search)
  qed
qed

lemma fast_lines:
  assumes "serialized_u64 (range_bytes (case_option [] Line_bytes)) (rm_map (func_lines f)) rest sm" and "function_ok f"
  obtains (absent) "RangeMap_RetrieveRange (func_lines f) a = None" "StaticRangeMap_RetrieveRange sm a = Some None"
  | (found) line b d s rest' where "RangeMap_RetrieveRange (func_lines f) a = Some (Some line, b, d, s)"
      "StaticRangeMap_RetrieveRange sm a = Some (Some (Some (Line_bytes line @ rest'), b, s))"
proof -
  have ex: "exclusive_table (\<lambda>line. line \<noteq> None) (func_lines f)" using assms(2) by (simp add: function_ok_def)
  obtain res where res: "StaticRangeMap_RetrieveRange sm a = Some res"
    "rel_option (same_range (case_option [] Line_bytes)) (RangeMap_RetrieveRange (func_lines f) a) res"
    using static_range_map_retrieve [OF assms(1) exclusive_table_inv [OF ex]] by blast
  show thesis
  proof (cases "RangeMap_RetrieveRange (func_lines f) a")
    case None
    with res absent show thesis by simp
  next
    case (Some out)
    obtain l b d s where out: "out = (l, b, d, s)" by (cases out)
    then have "l \<noteq> None" using RetrieveRange_entry [OF ex] Some by blast
    then obtain line where l: "l = Some line" by blast
    with res(2) Some out obtain rest' where "res = Some (Some (Line_bytes line @ rest'), b, s)"
      by (cases res) (auto simp: same_range_def points_to_def)
    with found res(1) Some out l show thesis by simp
  qed
qed

lemma fast_LookupAddress_eq:
  assumes "module_inv m" and "module_fits m" and "fast_of m fm"
  shows "fast_LookupAddress fm frame = LookupAddress m frame"
proof (cases "frame_module frame")
  case None
  then show ?thesis by (simp add: fast_LookupAddress_def LookupAddress_def)
next
  case (Some c)
  define a where "a = instruction frame - base_address c"
  note public = fast_public [OF assms]
  show ?thesis
  proof (cases rule: fast_nearest [OF assms, of a, case_names absent found])
    case absent
    with Some show ?thesis
      by (auto simp: fast_LookupAddress_def LookupAddress_def Let_def public a_def [symmetric] split: option.splits)
  next
    case (found ptr b d s rest)
    show ?thesis
    proof (cases "b \<le> a \<and> a - b < s")
      case False
      with found(1,2) Some show ?thesis
        by (auto simp: fast_LookupAddress_def LookupAddress_def Let_def public a_def [symmetric] split: option.splits)
    next
      case True
      obtain ff rest' where ff: "fast_Function_CopyFrom (Some (Function_bytes (function_heap m ! ptr) @ rest)) = Some ff"
        "fast_func_name ff = func_name (function_heap m ! ptr)"
        "serialized_u64 (range_bytes (case_option [] Line_bytes)) (rm_map (func_lines (function_heap m ! ptr))) rest'
           (fast_func_lines ff)"
        using fast_Function_bytes [OF found(3)] by blast
      have fid: "fast_file_name fm (sint (x :: u32)) = Some (std_find (files m) (sint x))" for x
        using sint_range_size [of x] by (intro fast_file [OF assms]) (simp_all add: word_size)
      show ?thesis
        by (cases rule: fast_lines [OF ff(3) found(4), of a])
          (use True found(1,2) ff(1,2) Some in \<open>simp_all add: fast_LookupAddress_def LookupAddress_def Let_def
             a_def [symmetric] fast_Line_bytes fid split: option.split\<close>)
    qed
  qed
qed

lemma crm_RetrieveRange_all:
  assumes "crm_all P c" and "crm_RetrieveRange c a = Some e" shows "P e"
  using assms
proof (induction c rule: measure_induct_rule [of size])
  case (less c)
  let ?i = "lower_bound (crm_kids c) a"
  have i: "?i < length (crm_kids c)"
    using less.prems(2) lower_bound_less [of "crm_kids c" a] by (subst (asm) crm_RetrieveRange_kids) (auto simp: Let_def split: if_splits)
  then have kid: "crm_kids c ! ?i \<in> set (crm_kids c)" by simp
  then have all: "crm_all P (snd (crm_kids c ! ?i))" using less.prems(1) by (simp add: crm_all.simps [of P c])
  then have "P (crm_entry (snd (crm_kids c ! ?i)))" by (simp add: crm_all.simps [of P "snd (crm_kids c ! ?i)"])
  moreover have "crm_RetrieveRange (snd (crm_kids c ! ?i)) a = Some e \<or> e = crm_entry (snd (crm_kids c ! ?i))"
    using less.prems(2) by (subst (asm) crm_RetrieveRange_kids) (auto simp: Let_def split: if_splits option.splits)
  ultimately show ?case using less.IH [OF size_kid [OF kid] all] by blast
qed

lemma fast_info:
  assumes "module_inv m" and "module_fits m" and "fast_of m fm" and "i < 5"
  obtains (absent) "crm_RetrieveRange (windows_frame_info m ! i) a = None"
      "StaticContainedRangeMap_RetrieveRange (fast_windows_frame_info fm ! i) a = Some None"
  | (found) w p where "crm_RetrieveRange (windows_frame_info m ! i) a = Some (Some w)"
      "StaticContainedRangeMap_RetrieveRange (fast_windows_frame_info fm ! i) a = Some (Some p)" "CopyWFI p = Some w"
proof -
  let ?c = "windows_frame_info m ! i" and ?enc = "case_option [] WindowsFrameInfo_bytes"
  have wfi: "wfi_ok ?c" using assms(1,4) by (simp add: module_inv_def list_all_length)
  then have inv: "crm_inv ?c" by (simp add: wfi_ok_def)
  have all: "crm_all info_text_ok ?c"
    using assms by (auto simp: module_fits_def module_text_ok_def module_inv_def list_all_length)
  have "serialized_crm ?enc ?c (fast_windows_frame_info fm ! i)" using assms(3,4) by (simp add: fast_of_def)
  from static_contained_retrieve [OF this inv, of a] obtain res where
    res: "StaticContainedRangeMap_RetrieveRange (fast_windows_frame_info fm ! i) a = Some res"
      "rel_option (entry_at ?enc) (crm_RetrieveRange ?c a) res" by blast
  show thesis
  proof (cases "crm_RetrieveRange ?c a")
    case None
    with res absent show thesis by simp
  next
    case (Some e)
    have "e \<noteq> None"
      using RetrieveRange_innermost [OF inv, of a] wfi unfolding Some by (fastforce simp: innermost_def wfi_ok_def)
    then obtain w where e: "e = Some w" by blast
    with crm_RetrieveRange_all [OF all Some] have w: "no_nul (program_string w)" "wfi_valid w = VALID_ALL" by simp_all
    have "WindowsFrameInfo_bytes w \<noteq> []" by (simp add: WindowsFrameInfo_bytes_def)
    with res(2) Some e obtain rest where "res = Some (Some (WindowsFrameInfo_bytes w @ rest))"
      by (cases res) (auto simp: entry_at_def points_to_def)
    with res(1) Some e CopyWFI_bytes [OF w] found show thesis by simp
  qed
qed

lemma fast_FindWindowsFrameInfo_eq:
  assumes "module_inv m" and "module_fits m" and "fast_of m fm"
  shows "fast_FindWindowsFrameInfo fm frame = FindWindowsFrameInfo m frame"
proof (cases "frame_module frame")
  case None
  then show ?thesis by (simp add: fast_FindWindowsFrameInfo_def FindWindowsFrameInfo_def)
next
  case (Some c)
  define a where "a = instruction frame - base_address c"
  have four: "4 < (5 :: nat)" and zero: "0 < (5 :: nat)" by simp_all
  note defs = fast_FindWindowsFrameInfo_def FindWindowsFrameInfo_def Let_def a_def [symmetric]
  show ?thesis
  proof (cases rule: fast_info [OF assms four, of a, case_names absent found])
    case (found w p)
    with Some show ?thesis by (simp add: defs)
  next
    case absent
    note data = absent
    show ?thesis
    proof (cases rule: fast_info [OF assms zero, of a, case_names absent found])
      case (found w p)
      with Some data show ?thesis by (simp add: defs)
    next
      case absent
      show ?thesis
      proof (cases rule: fast_nearest [OF assms, of a, case_names none some])
        case none
        with Some data absent show ?thesis by (simp add: defs fast_public [OF assms])
      next
        case (some ptr b d s rest)
        with Some data absent fast_Function_bytes [OF some(3), of rest] show ?thesis
          by (auto simp: defs fast_public [OF assms])
      qed
    qed
  qed
qed

lemma fast_apply_deltas_eq:
  assumes "serialized_u64 (\<lambda>s. text_bytes s) ds rest sm" and "\<forall>p\<in>set ds. no_nul (snd p)" and "i \<le> length ds"
  shows "fast_apply_deltas sm a (static_it sm i) rules = Some (apply_delta_rules (drop i ds) a rules)"
  using assms(3)
proof (induction "length ds - i" arbitrary: i rules)
  case 0
  then have i: "i = length ds" by simp
  have "StaticMap_end sm = Some (static_it sm (length ds))"
    using u64_iterator [OF assms(1)] u64_fields(2) [OF assms(1)] by (simp add: StaticMap_end_def)
  then show ?case by (subst fast_apply_deltas.simps) (simp add: i)
next
  case (Suc n)
  then have i: "i < length ds" by simp
  obtain k r where kr: "ds ! i = (k, r)" by fastforce
  have nul: "no_nul r" using assms(2) i kr by (metis nth_mem snd_conv)
  have end': "StaticMap_end sm = Some (static_it sm (length ds))"
    using u64_iterator [OF assms(1)] u64_fields(2) [OF assms(1)] by (simp add: StaticMap_end_def)
  have incr: "snd (it_post_incr (static_it sm i)) = static_it sm (Suc i)"
    using u64_fields(1,2) [OF assms(1)] i by (simp add: it_post_incr_def it_incr_def IsValid_def static_it_def)
  have at: "GetKey u64_key (static_it sm i) = Some k"
    "\<exists>t. GetValueRawPtr (static_it sm i) = Some (Some (text_bytes r @ t))"
    using u64_it_at [OF assms(1) i] kr by auto
  have "fast_apply_deltas sm a (static_it sm (Suc i)) rules' = Some (apply_delta_rules (drop (Suc i) ds) a rules')" for rules'
    using Suc.hyps(2) i by (intro Suc.hyps(1)) auto
  moreover have "drop i ds = (k, r) # drop (Suc i) ds" using i kr by (metis Cons_nth_drop_Suc)
  ultimately show ?case
    using at nul incr end' i by (subst fast_apply_deltas.simps) auto
qed

lemma fast_FindCFIFrameInfo_eq:
  assumes "module_inv m" and "module_fits m" and "fast_of m fm"
  shows "fast_FindCFIFrameInfo fm frame = FindCFIFrameInfo m frame"
proof (cases "frame_module frame")
  case None
  then show ?thesis by (simp add: fast_FindCFIFrameInfo_def FindCFIFrameInfo_def)
next
  case (Some c)
  define a where "a = instruction frame - base_address c"
  have inv: "range_map_inv (cfi_initial_rules m)" "std_map_inv (cfi_delta_rules m)" using assms(1) by (auto simp: module_inv_def)
  have ok: "\<forall>p\<in>set (rm_map (cfi_initial_rules m)). no_nul (entry (snd p))" "\<forall>p\<in>set (cfi_delta_rules m). no_nul (snd p)"
    using assms(2) by (auto simp: module_fits_def module_text_ok_def)
  obtain r1 r2 where ser: "serialized_u64 (range_bytes (\<lambda>s. text_bytes s)) (rm_map (cfi_initial_rules m)) r1 (fast_cfi_initial_rules fm)"
    "serialized_u64 (\<lambda>s. text_bytes s) (cfi_delta_rules m) r2 (fast_cfi_delta_rules fm)"
    using assms(3) by (auto simp: fast_of_def)
  obtain res where res: "StaticRangeMap_RetrieveRange (fast_cfi_initial_rules fm) a = Some res"
    "rel_option (same_range (\<lambda>s. text_bytes s)) (RangeMap_RetrieveRange (cfi_initial_rules m) a) res"
    using static_range_map_retrieve [OF ser(1) inv(1)] by blast
  note deltas = fast_apply_deltas_eq [OF ser(2) ok(2)]
  have lb: "lower_bound (cfi_delta_rules m) x \<le> length (cfi_delta_rules m)" for x
    by (simp add: lower_bound_def length_takeWhile_le)
  show ?thesis
  proof (cases "RangeMap_RetrieveRange (cfi_initial_rules m) a")
    case None
    with res Some show ?thesis by (simp add: fast_FindCFIFrameInfo_def FindCFIFrameInfo_def Let_def a_def)
  next
    case out: (Some out)
    obtain r b d s where o: "out = (r, b, d, s)" by (cases out)
    have "no_nul r"
      using out o ok(1) find_SomeD [of "covers a" "rm_map (cfi_initial_rules m)"]
      by (fastforce simp: RetrieveRange_find [OF inv(1)] range_outputs_def)
    moreover obtain t where "res = Some (Some (text_bytes r @ t), b, s)"
      using res(2) out o by (cases res) (auto simp: same_range_def points_to_def)
    ultimately show ?thesis
      using Some res(1) out o deltas [OF lb] u64_searches(1) [OF ser(2) inv(2)]
      by (auto simp: fast_FindCFIFrameInfo_def FindCFIFrameInfo_def Let_def a_def [symmetric] split: prod.splits)
  qed
qed

end
