(* ===== verification/Fast_Symbols.thy ===== *)
theory Fast_Symbols
  imports Fast_Resolver
begin

text \<open>
  The fast resolver in the place of the basic one. \<open>ModuleSerializer\<close> converts the modules of a
  \<open>BasicSourceLineResolver\<close> and loads them into a \<open>FastSourceLineResolver\<close>
  (processor/module_serializer.cc), which keeps the buffers of its modules. The theorems say that
  a symbol file gives the same answers through either resolver.

  What makes the bytes readable again, that no string of a table holds a NUL, is an invariant of
  the loader; it is proved first.
\<close>

section \<open>Model\<close>

record FastSourceLineResolver =
  fast_modules :: "string \<rightharpoonup> FastModule"
  fast_corrupt_modules :: "string set"
  fast_memory_buffers :: "string \<rightharpoonup> byte list"

definition FastSourceLineResolver_new :: FastSourceLineResolver where
  "FastSourceLineResolver_new =
     \<lparr>fast_modules = Map.empty, fast_corrupt_modules = {}, fast_memory_buffers = Map.empty\<rparr>"

definition fast_LoadModuleUsingMemoryBuffer ::
    "FastSourceLineResolver \<Rightarrow> CodeModule option \<Rightarrow> byte list \<Rightarrow> (FastSourceLineResolver \<times> bool) option" where
  "fast_LoadModuleUsingMemoryBuffer r module memory_buffer =
     (case module of
        None \<Rightarrow> Some (r, False)
      | Some c \<Rightarrow>
          if fast_modules r (module_key c) \<noteq> None then Some (r, False)
          else do {
            (fast_module, ok) \<leftarrow> fast_LoadMapFromMemory (FastModule_new (code_file c)) (Some memory_buffer);
            if \<not> ok \<and> \<not> fast_is_corrupt fast_module then None
            else
              let r = r\<lparr>fast_modules := (fast_modules r)(module_key c \<mapsto> fast_module)\<rparr>;
                  r = (if fast_is_corrupt fast_module
                       then r\<lparr>fast_corrupt_modules := insert (module_key c) (fast_corrupt_modules r)\<rparr> else r)
              in Some (r, True) })"

text \<open>\<open>memory_buffers_->insert\<close> keeps a buffer that is already there.\<close>

definition fast_LoadModuleUsingMapBuffer ::
    "FastSourceLineResolver \<Rightarrow> CodeModule option \<Rightarrow> byte list \<Rightarrow> (FastSourceLineResolver \<times> bool) option" where
  "fast_LoadModuleUsingMapBuffer r module map_buffer =
     (case module of
        None \<Rightarrow> Some (r, False)
      | Some c \<Rightarrow>
          if fast_modules r (module_key c) \<noteq> None then Some (r, False)
          else do {
            let memory_buffer = map_buffer @ [0];
            (r, load_result) \<leftarrow> fast_LoadModuleUsingMemoryBuffer r module memory_buffer;
            Some (if load_result \<and> fast_memory_buffers r (module_key c) = None
                  then r\<lparr>fast_memory_buffers := (fast_memory_buffers r)(module_key c \<mapsto> memory_buffer)\<rparr>
                  else r, load_result) })"

definition fast_UnloadModule :: "FastSourceLineResolver \<Rightarrow> CodeModule option \<Rightarrow> FastSourceLineResolver" where
  "fast_UnloadModule r module =
     (case module of
        None \<Rightarrow> r
      | Some c \<Rightarrow>
          let r = (if fast_modules r (module_key c) \<noteq> None
                   then r\<lparr>fast_corrupt_modules := fast_corrupt_modules r - {module_key c},
                          fast_modules := (fast_modules r)(module_key c := None)\<rparr>
                   else r)
          in r\<lparr>fast_memory_buffers := (fast_memory_buffers r)(module_key c := None)\<rparr>)"

definition fast_IsModuleCorrupt :: "FastSourceLineResolver \<Rightarrow> CodeModule option \<Rightarrow> bool" where
  "fast_IsModuleCorrupt r module = (case module of None \<Rightarrow> False | Some c \<Rightarrow> module_key c \<in> fast_corrupt_modules r)"

definition fast_FillSourceLineInfo ::
    "FastSourceLineResolver \<Rightarrow> 'a StackFrame_scheme \<Rightarrow> 'a StackFrame_scheme option" where
  "fast_FillSourceLineInfo r frame =
     (case frame_module frame of
        None \<Rightarrow> Some frame
      | Some c \<Rightarrow> (case fast_modules r (module_key c) of
                    None \<Rightarrow> Some frame
                  | Some m \<Rightarrow> fast_LookupAddress m frame))"

definition fast_Resolver_FindWindowsFrameInfo ::
    "FastSourceLineResolver \<Rightarrow> 'a StackFrame_scheme \<Rightarrow> WindowsFrameInfo option option" where
  "fast_Resolver_FindWindowsFrameInfo r frame =
     (case frame_module frame of
        None \<Rightarrow> Some None
      | Some c \<Rightarrow> (case fast_modules r (module_key c) of
                    None \<Rightarrow> Some None
                  | Some m \<Rightarrow> fast_FindWindowsFrameInfo m frame))"

definition fast_Resolver_FindCFIFrameInfo ::
    "FastSourceLineResolver \<Rightarrow> 'a StackFrame_scheme \<Rightarrow> CFIFrameInfo option option" where
  "fast_Resolver_FindCFIFrameInfo r frame =
     (case frame_module frame of
        None \<Rightarrow> Some None
      | Some c \<Rightarrow> (case fast_modules r (module_key c) of
                    None \<Rightarrow> Some None
                  | Some m \<Rightarrow> fast_FindCFIFrameInfo m frame))"

text \<open>The iterator is the pair of a key and a module.\<close>

definition SerializeModuleAndLoadIntoFastResolver ::
    "(nat \<Rightarrow> byte list) \<Rightarrow> string \<times> Module \<Rightarrow> FastSourceLineResolver \<Rightarrow> (FastSourceLineResolver \<times> bool) option" where
  "SerializeModuleAndLoadIntoFastResolver fresh iter fast_resolver = do {
     (symbol_data, size') \<leftarrow> ModuleSerializer_Serialize fresh (snd iter);
     let code_module = CodeModule_new 0 0 (fst iter) [] [] [] [] False;
     fast_LoadModuleUsingMapBuffer fast_resolver (Some code_module) (take (unat size') symbol_data) }"

text \<open>The map of the basic resolver is the list of its pairs in the order of the iteration.\<close>

fun convert_modules ::
    "(nat \<Rightarrow> byte list) \<Rightarrow> (string \<times> Module) list \<Rightarrow> FastSourceLineResolver \<Rightarrow> FastSourceLineResolver option" where
  "convert_modules fresh [] fast_resolver = Some fast_resolver"
| "convert_modules fresh (iter # iters) fast_resolver = do {
     (fast_resolver, _) \<leftarrow> SerializeModuleAndLoadIntoFastResolver fresh iter fast_resolver;
     convert_modules fresh iters fast_resolver }"

definition ConvertAllModules ::
    "(nat \<Rightarrow> byte list) \<Rightarrow> (string \<times> Module) list option \<Rightarrow> FastSourceLineResolver option \<Rightarrow>
     FastSourceLineResolver option option" where
  "ConvertAllModules fresh basic_resolver fast_resolver =
     (case (basic_resolver, fast_resolver) of
        (Some modules, Some fast) \<Rightarrow> map_option Some (convert_modules fresh modules fast)
      | _ \<Rightarrow> Some fast_resolver)"

definition ConvertOneModule ::
    "(nat \<Rightarrow> byte list) \<Rightarrow> string \<Rightarrow> SourceLineResolver option \<Rightarrow> FastSourceLineResolver option \<Rightarrow>
     (FastSourceLineResolver option \<times> bool) option" where
  "ConvertOneModule fresh moduleid basic_resolver fast_resolver =
     (case (basic_resolver, fast_resolver) of
        (Some basic, Some fast) \<Rightarrow>
          let key = vector_string (StringToVector moduleid) in
          (case loaded_modules basic key of
             None \<Rightarrow> Some (Some fast, False)
           | Some module \<Rightarrow> do {
               (fast, ok) \<leftarrow> SerializeModuleAndLoadIntoFastResolver fresh (key, module) fast;
               Some (Some fast, ok) })
      | _ \<Rightarrow> Some (fast_resolver, False))"

section \<open>The text of a loaded module\<close>

lemma no_nul_iff: "no_nul s \<longleftrightarrow> CHR 0x00 \<notin> set s"
proof -
  have "word_of_nat (of_char c) = (0 :: byte) \<longleftrightarrow> c = CHR 0x00" for c
  proof
    assume "word_of_nat (of_char c) = (0 :: byte)"
    then have "unat (word_of_nat (of_char c) :: byte) = 0" by simp
    then have "(of_char c :: nat) = of_char (CHR 0x00)" by (simp add: unat_of_nat take_bit_eq_mod)
    then show "c = CHR 0x00" by (simp only: of_char_eq_iff)
  qed simp
  then show ?thesis by (auto simp: no_nul_def string_bytes_def image_iff)
qed

text \<open>Tokens consist of characters of the text they are taken from.\<close>

lemma strtok_r_chars:
  assumes "strtok_r separators s = (token, rest)"
  shows "(\<forall>t. token = Some t \<longrightarrow> set t \<subseteq> set s) \<and> set rest \<subseteq> set s"
  using assms by (auto simp: strtok_r_def Let_def split: if_splits dest!: set_takeWhileD in_set_dropD set_dropWhileD)

lemma words_of_chars:
  assumes "words_of separators n s = Some (ws, rest)"
  shows "(\<forall>w\<in>set ws. set w \<subseteq> set s) \<and> set rest \<subseteq> set s"
  using assms
proof (induction n arbitrary: s ws)
  case (Suc n)
  obtain w r where st: "strtok_r separators s = (Some w, r)" and
    "\<exists>ws'. words_of separators n r = Some (ws', rest) \<and> ws = w # ws'"
    using Suc.prems by (auto split: option.splits prod.splits)
  then obtain ws' where ws': "words_of separators n r = Some (ws', rest)" "ws = w # ws'" by blast
  from Suc.IH [OF ws'(1)] strtok_r_chars [OF st] ws'(2) show ?case by (simp, blast)
qed simp

lemma Tokenize_chars:
  assumes "Tokenize line separators (int n + 2) = (tokens, True)"
  shows "\<forall>t\<in>set tokens. set t \<subseteq> set line" and "length tokens = n + 2"
proof -
  obtain ws rest t where w: "words_of separators (Suc n) line = Some (ws, rest)"
    "fst (strtok_r line_end rest) = Some t" "tokens = ws @ [t]"
    using assms unfolding Tokenize_words by blast
  obtain r where "strtok_r line_end rest = (Some t, r)" using w(2) by (metis prod.collapse)
  from strtok_r_chars [OF this] words_of_chars [OF w(1)] w(3)
  show "\<forall>t\<in>set tokens. set t \<subseteq> set line" by auto
  show "length tokens = n + 2" using words_of_length [OF w(1)] w(3) by simp
qed

lemma optional_field_chars:
  assumes "TokenizeWithOptionalField line field separators (int n + 3) = Some tokens"
  shows "\<forall>t\<in>set tokens. set t \<subseteq> set line"
    and "if tokens ! 0 = field then length tokens = n + 3 else length tokens = n + 2"
proof -
  have n: "int n + 3 - 1 = int n + 2" by simp
  note split = assms [unfolded TokenizeWithOptionalField_def n]
  obtain ts where ts: "Tokenize line separators (int n + 2) = (ts, True)"
    using split by (cases "Tokenize line separators (int n + 2)") (auto split: if_splits)
  note chars = Tokenize_chars [OF ts]
  have ne: "ts \<noteq> []" using chars(2) by auto
  show "\<forall>t\<in>set tokens. set t \<subseteq> set line"
    and "if tokens ! 0 = field then length tokens = n + 3 else length tokens = n + 2"
  proof (atomize (full), cases "hd ts = field")
    case False
    with split ts have "tokens = ts" by simp
    with chars ne False show "(\<forall>t\<in>set tokens. set t \<subseteq> set line) \<and>
        (if tokens ! 0 = field then length tokens = n + 3 else length tokens = n + 2)"
      by (simp add: hd_conv_nth)
  next
    case True
    with split ts obtain us where us: "Tokenize (last ts) separators (int 0 + 2) = (us, True)"
        "tokens = butlast ts @ [us ! 0, us ! 1]"
      by (auto split: prod.splits if_splits)
    note chars' = Tokenize_chars [OF us(1)]
    have "set (us ! 0) \<subseteq> set line" "set (us ! 1) \<subseteq> set line"
      using chars chars' ne last_in_set [OF ne] by (force dest!: nth_mem)+
    moreover have "tokens ! 0 = hd ts" using chars(2) us(2) by (cases ts; cases "tl ts") (auto simp: nth_append)
    ultimately show "(\<forall>t\<in>set tokens. set t \<subseteq> set line) \<and>
        (if tokens ! 0 = field then length tokens = n + 3 else length tokens = n + 2)"
      using us(2) chars True in_set_butlastD by fastforce
  qed
qed

lemma ParseFile_text: "ParseFile l = Some (i, name) \<Longrightarrow> set name \<subseteq> set l"
proof -
  assume a: "ParseFile l = Some (i, name)"
  then obtain tokens where t: "Tokenize (drop 5 l) kWhitespace (int 0 + 2) = (tokens, True)" "name = tokens ! 1"
    by (auto simp: ParseFile_def split: prod.splits if_splits)
  with Tokenize_chars [OF t(1)] have "set name \<subseteq> set (drop 5 l)" by simp
  then show ?thesis by (rule order_trans [OF _ set_drop_subset])
qed

lemma ParseFunction_text: "ParseFunction l = Some (mu, a, s, p, name) \<Longrightarrow> set name \<subseteq> set l"
proof -
  assume a: "ParseFunction l = Some (mu, a, s, p, name)"
  then obtain tokens where t: "TokenizeWithOptionalField (drop 5 l) ''m'' kWhitespace (int 2 + 3) = Some tokens"
    by (cases "TokenizeWithOptionalField (drop 5 l) ''m'' kWhitespace 5") (simp_all add: ParseFunction_def)
  from a have "name = tokens ! ((if tokens ! 0 = ''m'' then 1 else 0) + 3)"
    using t by (simp add: ParseFunction_def Let_def case_prod_beta' split: if_splits)
  note t = t this
  have "name \<in> set tokens" using optional_field_chars(2) [OF t(1)] t(2) by (auto split: if_splits)
  then have "set name \<subseteq> set (drop 5 l)" using optional_field_chars(1) [OF t(1)] by blast
  then show ?thesis by (rule order_trans [OF _ set_drop_subset])
qed

lemma ParsePublicSymbol_text: "ParsePublicSymbol l = Some (mu, a, p, name) \<Longrightarrow> set name \<subseteq> set l"
proof -
  assume a: "ParsePublicSymbol l = Some (mu, a, p, name)"
  then obtain tokens where t: "TokenizeWithOptionalField (drop 7 l) ''m'' kWhitespace (int 1 + 3) = Some tokens"
    by (cases "TokenizeWithOptionalField (drop 7 l) ''m'' kWhitespace 4") (simp_all add: ParsePublicSymbol_def)
  from a have "name = tokens ! ((if tokens ! 0 = ''m'' then 1 else 0) + 2)"
    using t by (simp add: ParsePublicSymbol_def Let_def case_prod_beta' split: if_splits)
  note t = t this
  have "name \<in> set tokens" using optional_field_chars(2) [OF t(1)] t(2) by (auto split: if_splits)
  then have "set name \<subseteq> set (drop 7 l)" using optional_field_chars(1) [OF t(1)] by blast
  then show ?thesis by (rule order_trans [OF _ set_drop_subset])
qed

lemma ParseFromString_text:
  assumes "ParseFromString l = Some (info, t, rva, cs)"
  shows "set (program_string info) \<subseteq> set l \<and> wfi_valid info = VALID_ALL"
proof -
  obtain tokens ok where tok: "Tokenize (vector_string (StringToVector l)) kWhitespace 11 = (tokens, ok)" by fastforce
  from assms tok have ok by (simp add: ParseFromString_def split: if_splits)
  with tok have t: "Tokenize (vector_string (StringToVector l)) kWhitespace (int 9 + 2) = (tokens, True)" by simp
  have "program_string info = tokens ! 10 \<or> program_string info = []" "wfi_valid info = VALID_ALL"
    using assms tok \<open>ok\<close>
    by (simp_all add: ParseFromString_def Let_def WindowsFrameInfo_new_def split: if_splits) (auto split: if_splits)
  note t = t this
  have "set (tokens ! 10) \<subseteq> set (vector_string (StringToVector l))"
    using Tokenize_chars [OF t(1)] by simp
  moreover have "set (vector_string (StringToVector l)) \<subseteq> set l"
    by (auto simp: vector_string_def StringToVector_def dest: set_takeWhileD)
  ultimately show ?thesis using t(2,3) by auto
qed

section \<open>The loader keeps the tables readable\<close>

definition text_state :: "Module \<times> nat option \<times> int \<Rightarrow> bool" where
  "text_state state \<longleftrightarrow> load_inv state \<and> module_text_ok (fst state) \<and>
     merge_strategy (cfi_initial_rules (fst state)) = kExclusiveRanges"

lemma crm_all_ranges: "crm_all P c \<longleftrightarrow> P (crm_entry c) \<and> (\<forall>r\<in>crm_ranges c. P (snd (snd r)))"
proof (induction c rule: measure_induct_rule [of size])
  case (less c)
  have "crm_all P (snd p) \<longleftrightarrow> P (crm_entry (snd p)) \<and> (\<forall>r\<in>crm_ranges (snd p). P (snd (snd r)))"
    if "p \<in> set (crm_kids c)" for p by (rule less [OF size_kid [OF that]])
  then have "(\<forall>r\<in>crm_ranges c. P (snd (snd r))) \<longleftrightarrow> (\<forall>p\<in>set (crm_kids c). crm_all P (snd p))"
    by (subst crm_ranges.simps) (simp add: ball_Un)
  then show ?case by (simp add: crm_all.simps [of P c])
qed

lemma crm_StoreRange_root: "crm_entry (fst (crm_StoreRange c b s e)) = crm_entry c"
  by (subst crm_StoreRange.simps) (auto simp: Let_def split: prod.splits option.splits)

lemma text_new: "text_state (Module_new name, None, n)"
proof -
  have "crm_all info_text_ok (ContainedRangeMap_new None)"
    by (simp add: crm_all_ranges crm_ranges_new) (simp add: ContainedRangeMap_new_def)
  then show ?thesis
    by (simp add: text_state_def load_inv_def module_text_ok_def)
      (simp add: Module_new_def RangeMap_new_def AddressMap_new_def list_all_iff)
qed

lemma set_std_assign: "set (std_assign k v m) \<subseteq> insert (k, v) (set m)"
  by (induction k v m rule: std_assign.induct) auto

lemma no_nul_subset: "set t \<subseteq> set s \<Longrightarrow> CHR 0x00 \<notin> set s \<Longrightarrow> no_nul t"
  by (auto simp: no_nul_iff)

lemma sint_u32_range: "- (2 ^ 31) \<le> sint (x :: u32) \<and> sint x < 2 ^ 31"
  using sint_range_size [of x] by (simp add: word_size)

lemma set_tl_subset: "set (tl xs) \<subseteq> set xs"
  by (cases xs) auto

text \<open>Each parser adds only text of its line to the tables.\<close>

lemma text_ParseFile:
  assumes "module_text_ok m" and "CHR 0x00 \<notin> set l" and "Module_ParseFile l m = (m', ok)"
  shows "module_text_ok m'" and "cfi_initial_rules m' = cfi_initial_rules m"
proof -
  have "module_text_ok (m\<lparr>files := std_insert (sint (long_to_int i)) name (files m)\<rparr>)"
    if "ParseFile l = Some (i, name)" for i name
    using assms(1) no_nul_subset [OF ParseFile_text [OF that] assms(2)] sint_u32_range [of "long_to_int i"]
      set_std_insert [of "sint (long_to_int i)" name "files m"]
    by (auto simp: module_text_ok_def)
  with assms(1,3) show "module_text_ok m'" "cfi_initial_rules m' = cfi_initial_rules m"
    by (auto simp: Module_ParseFile_def split: option.splits)
qed

lemma text_ParsePublicSymbol:
  assumes "module_text_ok m" and "CHR 0x00 \<notin> set l" and "Module_ParsePublicSymbol l m = (m', ok)"
  shows "module_text_ok m'" and "cfi_initial_rules m' = cfi_initial_rules m"
proof -
  have "module_text_ok (m\<lparr>public_symbols := symbols\<rparr>)"
    if "ParsePublicSymbol l = Some (mu, a, p, name)" "AddressMap_Store (public_symbols m) a (Some s) = (symbols, k)"
      "pub_name s = name" for mu a p name s symbols k
    using assms(1) that(2,3) no_nul_subset [OF ParsePublicSymbol_text [OF that(1)] assms(2)]
      set_std_insert [of a "Some s" "am_map (public_symbols m)"]
    by (auto simp: module_text_ok_def AddressMap_Store_def split: if_splits)
  with assms(1,3) show "module_text_ok m'" "cfi_initial_rules m' = cfi_initial_rules m"
    by (auto simp: Module_ParsePublicSymbol_def Let_def split: option.splits prod.splits if_splits)
qed

lemma text_ParseFunction:
  assumes "module_text_ok m" and "CHR 0x00 \<notin> set l" and "Module_ParseFunction l = Some func"
  shows "module_text_ok (m\<lparr>function_heap := function_heap m @ [func], module_functions := funcs\<rparr>)"
proof -
  obtain mu a s p name where f: "ParseFunction l = Some (mu, a, s, p, name)" "func_name func = name"
    using assms(3) by (auto simp: Module_ParseFunction_def Function_new_def)
  from no_nul_subset [OF ParseFunction_text [OF f(1)] assms(2)] f(2) assms(1) show ?thesis
    by (auto simp: module_text_ok_def)
qed

lemma text_ParseCFIFrameInfo:
  assumes "module_inv m" and "module_text_ok m" and "merge_strategy (cfi_initial_rules m) = kExclusiveRanges"
    and "CHR 0x00 \<notin> set l" and "ParseCFIFrameInfo l m = Some (m', ok)"
  shows "module_text_ok m' \<and> merge_strategy (cfi_initial_rules m') = kExclusiveRanges"
proof -
  have table: "exclusive_table no_nul (cfi_initial_rules m)"
    using assms(1-3) by (auto simp: exclusive_table_def module_inv_def module_text_ok_def)
  have init: "module_text_ok (m\<lparr>cfi_initial_rules := t\<rparr>) \<and> merge_strategy t = kExclusiveRanges"
    if "RangeMap_StoreRange (cfi_initial_rules m) b s r = Some (t, k)" "no_nul r" for b s r t k
    using exclusive_table_StoreRange [OF table that(2), of b s] that(1) assms(2)
    by (auto simp: exclusive_table_def module_text_ok_def)
  have delta: "module_text_ok (m\<lparr>cfi_delta_rules := std_assign a r (cfi_delta_rules m)\<rparr>)" if "no_nul r" for a r
    using assms(2) that set_std_assign [of a r "cfi_delta_rules m"] by (auto simp: module_text_ok_def)
  obtain t0 c0 where c0: "strtok_r kWhitespace l = (t0, c0)" by fastforce
  obtain t1 c1 where c1: "strtok_r kWhitespace c0 = (t1, c1)" by fastforce
  obtain t2 c2 where c2: "strtok_r kWhitespace c1 = (t2, c2)" by fastforce
  obtain t3 c3 where c3: "strtok_r line_end c2 = (t3, c3)" by fastforce
  obtain t4 c4 where c4: "strtok_r line_end c0 = (t4, c4)" by fastforce
  note chars = strtok_r_chars [OF c0] strtok_r_chars [OF c1] strtok_r_chars [OF c2] strtok_r_chars [OF c3] strtok_r_chars [OF c4]
  have c0_l: "set c0 \<subseteq> set l" using chars(1) by blast
  have c2_l: "set c2 \<subseteq> set l" using chars(2,3) c0_l by blast
  have n3: "no_nul t" if "t3 = Some t" for t
    using chars(4) that assms(4) c2_l by (intro no_nul_subset [of t l]) blast+
  have n4: "no_nul t" if "t4 = Some t" for t
    using chars(5) that assms(4) c0_l by (intro no_nul_subset [of t l]) blast+
  show ?thesis
    using assms(2,3,5) init n3 delta n4
    by (auto simp: ParseCFIFrameInfo_def c0 c1 c2 c3 c4 split: option.splits if_splits bind_splits)
qed

lemma text_ParseStackInfo:
  assumes "module_inv m" and "module_text_ok m" and "merge_strategy (cfi_initial_rules m) = kExclusiveRanges"
    and "CHR 0x00 \<notin> set l" and "\<And>b. behind = Some b \<Longrightarrow> CHR 0x00 \<notin> set b"
    and "ParseStackInfo l behind m = Some (m', ok)"
  shows "module_text_ok m' \<and> merge_strategy (cfi_initial_rules m') = kExclusiveRanges"
proof -
  have arg: "CHR 0x00 \<notin> set s" if "stack_argument l behind = Some s" for s
  proof (cases "stack_bare l")
    case False
    let ?d = "dropWhile (\<lambda>c. c \<notin> set kWhitespace) (dropWhile (\<lambda>c. c = CHR '' '') (drop 6 l))"
    have "set (tl ?d) \<subseteq> set ?d" by (rule set_tl_subset)
    also have "\<dots> \<subseteq> set l" by (auto dest!: set_dropWhileD in_set_dropD)
    finally show ?thesis using False that assms(4) by (auto simp: stack_argument_def)
  qed (use that assms(5) in \<open>simp add: stack_argument_def\<close>)
  have win: "module_text_ok (m\<lparr>windows_frame_info := (windows_frame_info m)[nat type :=
          fst (crm_StoreRange (windows_frame_info m ! nat type) rva size' (Some info))]\<rparr>)"
    if "CHR 0x00 \<notin> set s" "ParseFromString s = Some (info, type, rva, size')" for s info type rva size'
  proof -
    let ?c = "windows_frame_info m ! nat type"
    have "nat type < 5" using ParseFromString_type [OF that(2)] by linarith
    then have c: "crm_inv ?c" "crm_all info_text_ok ?c"
      using assms(1,2) by (auto simp: module_inv_def module_text_ok_def wfi_ok_def list_all_length)
    obtain c' k where c': "crm_StoreRange ?c rva size' (Some info) = (c', k)" by fastforce
    have "info_text_ok (Some info)"
      using ParseFromString_text [OF that(2)] that(1) by (auto intro: no_nul_subset)
    then have "crm_all info_text_ok c'"
      using c(2) crm_StoreRange_contract [OF c(1) c'] crm_StoreRange_root [of ?c rva size' "Some info"] c'
      by (auto simp: crm_all_ranges split: if_splits)
    with assms(2) c' show ?thesis
      by (auto simp: module_text_ok_def list_all_iff dest: set_update_subset_insert [THEN subsetD])
  qed
  show ?thesis
    using assms(2,3,6) arg win text_ParseCFIFrameInfo [OF assms(1-3) arg]
    by (auto simp: ParseStackInfo_def split: if_splits bind_splits option.splits)
qed

lemma process_line_keeps:
  assumes "load_inv state" and "process_line l behind state = Some state'"
  shows "load_inv state'"
proof (cases "behind \<noteq> None \<or> \<not> bare_stack l")
  case True
  from process_line_inv [OF assms(1) this] assms(2) show ?thesis by auto
next
  case False
  then have "bare_stack l" "behind = None" by simp_all
  then have "process_line l behind state = None"
    using bare_stack_word(2) [of l] by (cases state) (auto simp: process_line_def bare_stack_def ParseStackInfo_def stack_argument_def)
  with assms(2) show ?thesis by simp
qed

lemma process_line_text:
  assumes "text_state state" and "CHR 0x00 \<notin> set l" and "\<And>b. behind = Some b \<Longrightarrow> CHR 0x00 \<notin> set b"
    and "process_line l behind state = Some state'"
  shows "text_state state'"
proof -
  obtain m cur n where st: "state = (m, cur, n)" by (cases state)
  have keep: "load_inv state'" using assms(1) process_line_keeps [OF _ assms(4)] by (simp add: text_state_def)
  have ok: "module_inv m" "module_text_ok m" "merge_strategy (cfi_initial_rules m) = kExclusiveRanges"
    and cur: "\<And>ptr. cur = Some ptr \<Longrightarrow> ptr < length (function_heap m)"
    using assms(1) st by (auto simp: text_state_def load_inv_def)
  let ?ok = "module_text_ok (fst state') \<and> merge_strategy (cfi_initial_rules (fst state')) = kExclusiveRanges"
  have line: "module_text_ok (m\<lparr>function_heap := (function_heap m)[ptr := (function_heap m ! ptr)\<lparr>func_lines := ls\<rparr>]\<rparr>)"
    if "ptr < length (function_heap m)" for ptr ls
    using ok(2) that by (auto simp: module_text_ok_def dest!: set_update_subset_insert [THEN subsetD])
  have "?ok" if "starts_with ''FILE '' l"
    using that assms(4) text_ParseFile [OF ok(2) assms(2)] ok(3) st
    by (auto simp: process_line_def split: prod.splits)
  moreover have "?ok" if "\<not> starts_with ''FILE '' l" "starts_with ''STACK '' l"
    using that assms(4) text_ParseStackInfo [OF ok assms(2,3)] st
    by (auto simp: process_line_def split: bind_splits)
  moreover have "?ok" if "\<not> starts_with ''FILE '' l" "\<not> starts_with ''STACK '' l" "starts_with ''FUNC '' l"
    using that assms(4) text_ParseFunction [OF ok(2) assms(2)] ok st
    by (auto simp: process_line_def Let_def split: bind_splits option.splits)
  moreover have "?ok" if "\<not> starts_with ''FILE '' l" "\<not> starts_with ''STACK '' l" "\<not> starts_with ''FUNC '' l"
    using that assms(4) text_ParsePublicSymbol [OF ok(2) assms(2)] ok line cur st
    by (auto simp: process_line_def Let_def split: bind_splits option.splits prod.splits if_splits)
  ultimately show ?thesis using keep unfolding text_state_def by blast
qed

lemma text_behind_chars: "set (text_behind l rest) \<subseteq> set rest"
  by (auto simp: text_behind_def dest: set_takeWhileD set_dropWhileD)

lemma load_loop_text:
  assumes "text_state state" and "CHR 0x00 \<notin> set s" and "load_loop more_terminators s state = Some state'"
  shows "text_state state'"
  using assms
proof (induction more_terminators s state rule: load_loop.induct)
  case (1 more_terminators s state)
  obtain tok rest where tok: "strtok_r line_end s = (tok, rest)" by fastforce
  show ?case
  proof (cases tok)
    case None
    with 1(2,4) tok show ?thesis by (subst (asm) load_loop.simps) simp
  next
    case (Some l)
    let ?behind = "if ended_line s then Some rest else if more_terminators then Some [] else None"
    have chars: "CHR 0x00 \<notin> set l" "CHR 0x00 \<notin> set rest" using strtok_r_chars [OF tok] Some 1(3) by auto
    obtain st where st: "process_line l ?behind state = Some st"
      "if snd (snd st) > kMaxErrorsBeforeBailing then state' = st
       else load_loop more_terminators (text_behind l rest) st = Some state'"
      using 1(4) tok Some by (subst (asm) load_loop.simps) (auto simp: Let_def split: bind_splits if_splits)
    have t: "text_state st"
      by (rule process_line_text [OF 1(2) chars(1) _ st(1)]) (use chars in \<open>auto split: if_splits\<close>)
    have "CHR 0x00 \<notin> set (text_behind l rest)" using text_behind_chars chars(2) by blast
    from 1(1) [OF tok [unfolded Some, symmetric] refl refl st(1) _ t this] t st(2) show ?thesis
      by (auto split: if_splits)
  qed
qed

lemma LoadMap_text:
  assumes "LoadMapFromMemory (Module_new name) buffer = Some (m, ok)"
  shows "module_inv m" and "module_text_ok m"
proof -
  have upd: "module_text_ok (x\<lparr>is_corrupt := b\<rparr>) = module_text_ok x" "module_inv (x\<lparr>is_corrupt := b\<rparr>) = module_inv x" for x b
    by (simp_all add: module_text_ok_def module_inv_def)
  have "text_state (m, None, 0)"
  proof (cases "buffer = []")
    case True
    with assms text_new show ?thesis by (auto simp: LoadMapFromMemory_def)
  next
    case False
    let ?f = "map (\<lambda>c. if c = CHR 0x00 then CHR ''_'' else c)"
    obtain s more n m' cur n' where l: "load_loop more (?f s) (Module_new name, None, n) = Some (m', cur, n')"
      "m = m'\<lparr>is_corrupt := (n' > 0)\<rparr>"
      using assms False by (auto simp: LoadMapFromMemory_def Let_def simp del: map_map split: bind_splits)
    have "CHR 0x00 \<notin> set (?f s)" by auto
    from load_loop_text [OF text_new this l(1)] l(2) show ?thesis by (simp add: text_state_def load_inv_def upd)
  qed
  then show "module_inv m" "module_text_ok m" by (simp_all add: text_state_def load_inv_def)
qed

section \<open>Properties\<close>

definition same_answers :: "FastModule \<Rightarrow> Module \<Rightarrow> 'a StackFrame_scheme \<Rightarrow> bool" where
  "same_answers fm m frame \<longleftrightarrow>
     fast_LookupAddress fm frame = LookupAddress m frame \<and>
     fast_FindWindowsFrameInfo fm frame = FindWindowsFrameInfo m frame \<and>
     fast_FindCFIFrameInfo fm frame = FindCFIFrameInfo m frame"

lemma fast_of_same_answers:
  "module_inv m \<Longrightarrow> module_fits m \<Longrightarrow> fast_of m fm \<Longrightarrow> same_answers fm m frame"
  by (simp add: same_answers_def fast_LookupAddress_eq fast_FindWindowsFrameInfo_eq fast_FindCFIFrameInfo_eq)

text \<open>
  C1: the fast resolver refines the basic one. For every text that \<open>LoadMapFromMemory\<close> loads into
  a module \<open>m\<close>, as long as the serialized module is smaller than 4 GB, \<open>SerializeSymbolFileData\<close>
  writes a block of exactly the computed size; loading this block into a fast module succeeds,
  with the same mark of corruption, and for every frame the fast module gives the same result
  of \<open>LookupAddress\<close>, \<open>FindWindowsFrameInfo\<close> and \<open>FindCFIFrameInfo\<close> as \<open>m\<close>, without ever reading
  outside of the block.
\<close>

theorem SerializeSymbolFileData_lookup:
  assumes "LoadMapFromMemory (Module_new ''no name'') (symbol_data @ [CHR 0x00]) = Some (m, True)"
    and "length (module_bytes m) < 2 ^ 32" and "\<And>n. length (fresh n) = n"
  shows "\<exists>buf fm. SerializeSymbolFileData fresh symbol_data = Some (Some (buf, word_of_nat (length buf))) \<and>
    fast_LoadMapFromMemory (FastModule_new name) (Some buf) = Some (fm, True) \<and>
    fast_is_corrupt fm = is_corrupt m \<and>
    (\<forall>frame :: 'a StackFrame_scheme. same_answers fm m frame)"
proof -
  have inv: "module_inv m" and fits: "module_fits m" using LoadMap_text [OF assms(1)] assms(2) by (auto simp: module_fits_def)
  obtain fm where fm: "fast_LoadMapFromMemory (FastModule_new name) (Some (module_bytes m @ [])) = Some (fm, True)" "fast_of m fm"
    using fast_Load [OF fits, of name "[]"] by blast
  have "SerializeSymbolFileData fresh symbol_data = Some (Some (module_bytes m, word_of_nat (length (module_bytes m))))"
    by (simp add: SerializeSymbolFileData_def assms(1) module_Serialize [OF inv fits assms(3)])
  moreover have "same_answers fm m frame" for frame :: "'a StackFrame_scheme"
    by (rule fast_of_same_answers [OF inv fits fm(2)])
  moreover have "fast_is_corrupt fm = is_corrupt m" using fm(2) by (simp add: fast_of_def)
  ultimately show ?thesis using fm(1) by auto
qed

definition example_records :: "symbol_record list" where
  "example_records = [FileRecord 3 ''a.cc'', PublicRecord False 16 0 ''f'', CfiDeltaRecord 16 ''.cfa: $rsp 8 +'']"

definition example_tables :: Module where
  "example_tables = (Module_new ''no name'')
     \<lparr>files := [(3, ''a.cc'')],
      public_symbols := \<lparr>am_map = [(16, Some \<lparr>pub_name = ''f'', pub_address = 16, pub_parameter_size = 0,
        pub_is_multiple = False\<rparr>)]\<rparr>,
      cfi_delta_rules := [(16, ''.cfa: $rsp 8 +'')]\<rparr>"

lemma example_loaded:
  "LoadMapFromMemory (Module_new ''no name'') (symbol_text example_records @ [CHR 0x00]) = Some (example_tables, True)"
proof -
  have ok: "\<forall>r\<in>set example_records. record_ok r" by (simp add: example_records_def is_word_def)
  have ap: "apply_records example_records (Module_new ''no name'', None) = Some (example_tables, None)"
    by (simp add: example_records_def example_tables_def Module_new_def AddressMap_new_def AddressMap_Store_def)
  have nul: "CHR 0x00 \<notin> set (symbol_text example_records)" by code_simp
  show ?thesis
    unfolding symbol_data_of_buffer [OF nul] load_loop_records [OF ok ap]
    by (simp add: example_tables_def Module_new_def)
qed

lemma example_size: "length (module_bytes example_tables) < 2 ^ 32"
proof -
  have "length (crm_bytes (case_option [] WindowsFrameInfo_bytes) (ContainedRangeMap_new None)) = 16"
    by (simp add: ContainedRangeMap_new_def crm_bytes.simps [of _ "ContainedRangeMap _ _ None"] map_bytes_Nil crm_kids_def)
  then show ?thesis
    by (simp add: module_bytes_def module_maps_def example_tables_def Module_new_def function_table_def RangeMap_new_def
        map_bytes_def bool_bytes_def PublicSymbol_bytes_def put_int_def length_concat upt_rec)
qed

theorem SerializeSymbolFileData_lookup_witness:
  "\<exists>buf fm. SerializeSymbolFileData (\<lambda>n. replicate n 0) (symbol_text example_records) =
       Some (Some (buf, word_of_nat (length buf))) \<and>
     fast_LoadMapFromMemory (FastModule_new ''x'') (Some buf) = Some (fm, True) \<and>
     fast_is_corrupt fm = is_corrupt example_tables \<and>
     (\<forall>frame :: StackFrame. same_answers fm example_tables frame)"
  by (rule SerializeSymbolFileData_lookup [OF example_loaded example_size]) simp

text \<open>What a resolver answers for a frame.\<close>

definition same_resolver :: "FastSourceLineResolver \<Rightarrow> SourceLineResolver \<Rightarrow> 'a StackFrame_scheme \<Rightarrow> bool" where
  "same_resolver fast basic frame \<longleftrightarrow>
     fast_FillSourceLineInfo fast frame = Resolver_FillSourceLineInfo basic frame \<and>
     fast_Resolver_FindWindowsFrameInfo fast frame = Resolver_FindWindowsFrameInfo basic frame \<and>
     fast_Resolver_FindCFIFrameInfo fast frame = Resolver_FindCFIFrameInfo basic frame \<and>
     fast_IsModuleCorrupt fast (frame_module frame) = IsModuleCorrupt basic (frame_module frame)"

lemma module_key_new: "CHR 0x00 \<notin> set k \<Longrightarrow> module_key (CodeModule_new a b k c d e f g) = k"
  by (simp add: module_key_def CodeModule_new_def)

lemma fast_new: "fast_modules FastSourceLineResolver_new k = None" "fast_corrupt_modules FastSourceLineResolver_new = {}"
  by (simp_all add: FastSourceLineResolver_new_def)

lemma convert_one:
  assumes "module_inv m" and "module_fits m" and "\<And>n. length (fresh n) = n" and "CHR 0x00 \<notin> set k"
    and "fast_modules fast k = None"
  shows "\<exists>fm buf. SerializeModuleAndLoadIntoFastResolver fresh (k, m) fast =
      Some (fast\<lparr>fast_modules := (fast_modules fast)(k \<mapsto> fm),
        fast_corrupt_modules := (if is_corrupt m then insert k (fast_corrupt_modules fast) else fast_corrupt_modules fast),
        fast_memory_buffers := buf\<rparr>, True) \<and> fast_of m fm"
proof -
  let ?c = "CodeModule_new 0 0 k [] [] [] [] False"
  have key: "module_key ?c = k" by (rule module_key_new [OF assms(4)])
  obtain fm where fm: "fast_LoadMapFromMemory (FastModule_new (code_file ?c)) (Some (module_bytes m @ [0])) = Some (fm, True)" "fast_of m fm"
    using fast_Load [OF assms(2), of "code_file ?c" "[0]"] by blast
  have n: "unat (word_of_nat (length (module_bytes m)) :: u32) = length (module_bytes m)"
    using assms(2) by (intro unat_word_of_nat_u32) (simp add: module_fits_def)
  have corrupt: "fast_is_corrupt fm = is_corrupt m" using fm(2) by (simp add: fast_of_def)
  let ?b = "module_bytes m @ [0]"
  let ?r = "fast\<lparr>fast_modules := (fast_modules fast)(k \<mapsto> fm),
    fast_corrupt_modules := (if is_corrupt m then insert k (fast_corrupt_modules fast) else fast_corrupt_modules fast)\<rparr>"
  let ?buf = "if fast_memory_buffers fast k = None then (fast_memory_buffers fast)(k \<mapsto> ?b) else fast_memory_buffers fast"
  have load: "fast_LoadModuleUsingMemoryBuffer fast (Some ?c) ?b = Some (?r, True)"
    unfolding fast_LoadModuleUsingMemoryBuffer_def option.case key fm(1) bind.bind_lunit prod.case
    using corrupt assms(5) by (cases "is_corrupt m") (simp_all add: Let_def)
  have "fast_LoadModuleUsingMapBuffer fast (Some ?c) (module_bytes m) = Some (?r\<lparr>fast_memory_buffers := ?buf\<rparr>, True)"
    unfolding fast_LoadModuleUsingMapBuffer_def option.case key Let_def load bind.bind_lunit prod.case
    using assms(5) by simp
  then have "SerializeModuleAndLoadIntoFastResolver fresh (k, m) fast = Some (?r\<lparr>fast_memory_buffers := ?buf\<rparr>, True)"
    by (simp only: SerializeModuleAndLoadIntoFastResolver_def module_Serialize [OF assms(1-3)] snd_conv fst_conv
        bind.bind_lunit prod.case Let_def n take_all order_refl)
  with fm(2) show ?thesis by (intro exI conjI)
qed

lemma convert_all:
  assumes "\<And>n. length (fresh n) = n" and "distinct (map fst mods)"
    and "\<forall>(k, m)\<in>set mods. module_inv m \<and> module_fits m \<and> CHR 0x00 \<notin> set k \<and> fast_modules fast k = None"
  shows "\<exists>fast'. convert_modules fresh mods fast = Some fast' \<and>
    (\<forall>k. (case map_of mods k of None \<Rightarrow> fast_modules fast' k = fast_modules fast k
          | Some m \<Rightarrow> \<exists>fm. fast_modules fast' k = Some fm \<and> fast_of m fm)) \<and>
    fast_corrupt_modules fast' = fast_corrupt_modules fast \<union> {k. \<exists>m. map_of mods k = Some m \<and> is_corrupt m}"
  using assms(2,3)
proof (induction mods arbitrary: fast)
  case (Cons p mods)
  obtain k m where p: "p = (k, m)" by fastforce
  have ok: "module_inv m" "module_fits m" "CHR 0x00 \<notin> set k" "fast_modules fast k = None" using Cons.prems p by auto
  obtain fm buf fast1 where one: "SerializeModuleAndLoadIntoFastResolver fresh (k, m) fast = Some (fast1, True)"
    and fast1: "fast1 = fast\<lparr>fast_modules := (fast_modules fast)(k \<mapsto> fm),
        fast_corrupt_modules := (if is_corrupt m then insert k (fast_corrupt_modules fast) else fast_corrupt_modules fast),
        fast_memory_buffers := buf\<rparr>" and fm: "fast_of m fm"
    using convert_one [OF ok(1,2) assms(1) ok(3,4)] by blast
  have k: "k \<notin> fst ` set mods" using Cons.prems(1) p by simp
  have "\<forall>(j, n)\<in>set mods. module_inv n \<and> module_fits n \<and> CHR 0x00 \<notin> set j \<and> fast_modules fast1 j = None"
    using Cons.prems(2) k by (force simp: fast1)
  then obtain fast' where fast': "convert_modules fresh mods fast1 = Some fast'"
    "\<forall>j. (case map_of mods j of None \<Rightarrow> fast_modules fast' j = fast_modules fast1 j
          | Some n \<Rightarrow> \<exists>fm. fast_modules fast' j = Some fm \<and> fast_of n fm)"
    "fast_corrupt_modules fast' = fast_corrupt_modules fast1 \<union> {j. \<exists>n. map_of mods j = Some n \<and> is_corrupt n}"
    using Cons.IH [of fast1] Cons.prems(1) by auto
  have none: "map_of mods k = None" using k by (simp add: map_of_eq_None_iff)
  have "case map_of (p # mods) j of None \<Rightarrow> fast_modules fast' j = fast_modules fast j
          | Some n \<Rightarrow> \<exists>fm. fast_modules fast' j = Some fm \<and> fast_of n fm" for j
    using fast'(2) [rule_format, of j] none fm p by (auto simp: fast1 split: option.splits if_splits)
  moreover have "fast_corrupt_modules fast' = fast_corrupt_modules fast \<union> {j. \<exists>n. map_of (p # mods) j = Some n \<and> is_corrupt n}"
    using fast'(3) none p by (auto simp: fast1)
  ultimately show ?case using one fast'(1) p by auto
qed simp

text \<open>
  C19: a basic resolver and the fast resolver it is converted into cannot be told apart. Let the
  list \<open>mods\<close> be the table of the basic resolver, every module of it smaller than 4 GB when
  serialized and with readable text, as the loader leaves it. Then \<open>ConvertAllModules\<close> into an
  empty fast resolver returns, and for every frame the two resolvers fill in the same source
  line, find the same Windows and call frame information and agree on which modules are corrupt.
\<close>

theorem ConvertAllModules_equivalent:
  assumes "resolver_inv basic" and "loaded_modules basic = map_of mods" and "distinct (map fst mods)"
    and "\<forall>(k, m)\<in>set mods. module_fits m \<and> CHR 0x00 \<notin> set k" and "\<And>n. length (fresh n) = n"
  shows "\<exists>fast. ConvertAllModules fresh (Some mods) (Some FastSourceLineResolver_new) = Some (Some fast) \<and>
    (\<forall>frame :: 'a StackFrame_scheme. same_resolver fast basic frame)"
proof -
  have inv: "module_inv m" if "(k, m) \<in> set mods" for k m
    using assms(1-3) that by (auto simp: resolver_inv_def)
  have "\<forall>(k, m)\<in>set mods. module_inv m \<and> module_fits m \<and> CHR 0x00 \<notin> set k \<and>
      fast_modules FastSourceLineResolver_new k = None"
    using assms(4) inv by (auto simp: fast_new)
  from convert_all [OF assms(5,3) this, unfolded fast_new Un_empty_left] obtain fast where
    conv: "convert_modules fresh mods FastSourceLineResolver_new = Some fast" and
    mods: "\<And>k. case map_of mods k of None \<Rightarrow> fast_modules fast k = None
          | Some m \<Rightarrow> \<exists>fm. fast_modules fast k = Some fm \<and> fast_of m fm" and
    corrupt: "fast_corrupt_modules fast = {k. \<exists>m. map_of mods k = Some m \<and> is_corrupt m}"
    by blast
  have "same_resolver fast basic frame" for frame :: "'a StackFrame_scheme"
  proof (cases "frame_module frame")
    case None
    then show ?thesis
      by (simp add: same_resolver_def fast_FillSourceLineInfo_def Resolver_FillSourceLineInfo_def
          fast_Resolver_FindWindowsFrameInfo_def Resolver_FindWindowsFrameInfo_def
          fast_Resolver_FindCFIFrameInfo_def Resolver_FindCFIFrameInfo_def fast_IsModuleCorrupt_def IsModuleCorrupt_def)
  next
    case (Some c)
    have c: "fast_IsModuleCorrupt fast (Some c) = IsModuleCorrupt basic (Some c)"
      using assms(1) corrupt by (simp add: fast_IsModuleCorrupt_def IsModuleCorrupt_def resolver_inv_def assms(2))
    show ?thesis
    proof (cases "map_of mods (module_key c)")
      case None
      with Some c mods [of "module_key c"] assms(2) show ?thesis
        by (simp add: same_resolver_def fast_FillSourceLineInfo_def Resolver_FillSourceLineInfo_def
            fast_Resolver_FindWindowsFrameInfo_def Resolver_FindWindowsFrameInfo_def
            fast_Resolver_FindCFIFrameInfo_def Resolver_FindCFIFrameInfo_def)
    next
      case m: (Some m)
      then have "(module_key c, m) \<in> set mods" by (rule map_of_SomeD)
      then have "module_inv m" "module_fits m" using inv assms(4) by auto
      moreover obtain fm where fm: "fast_modules fast (module_key c) = Some fm" "fast_of m fm"
        using mods [of "module_key c"] m by auto
      ultimately have "same_answers fm m frame" by (intro fast_of_same_answers)
      with Some c m fm(1) assms(2) show ?thesis
        by (simp add: same_resolver_def same_answers_def fast_FillSourceLineInfo_def Resolver_FillSourceLineInfo_def
            fast_Resolver_FindWindowsFrameInfo_def Resolver_FindWindowsFrameInfo_def
            fast_Resolver_FindCFIFrameInfo_def Resolver_FindCFIFrameInfo_def)
    qed
  qed
  with conv show ?thesis by (auto simp: ConvertAllModules_def)
qed

definition example_resolver :: SourceLineResolver where
  "example_resolver = \<lparr>loaded_modules = [''x'' \<mapsto> example_tables], corrupt_modules = {}\<rparr>"

theorem ConvertAllModules_equivalent_witness:
  "\<exists>fast. ConvertAllModules (\<lambda>n. replicate n 0) (Some [(''x'', example_tables)]) (Some FastSourceLineResolver_new) =
       Some (Some fast) \<and> (\<forall>frame :: StackFrame. same_resolver fast example_resolver frame)"
proof (rule ConvertAllModules_equivalent)
  note loaded = LoadMap_text [OF example_loaded]
  show "resolver_inv example_resolver"
    using loaded by (auto simp: resolver_inv_def example_resolver_def) (simp add: example_tables_def Module_new_def)
  show "\<forall>(k, m)\<in>set [(''x'', example_tables)]. module_fits m \<and> CHR 0x00 \<notin> set k"
    using loaded example_size by (simp add: module_fits_def)
qed (auto simp: example_resolver_def)

end
