(* ===== verification/Stackwalker.thy ===== *)
theory Stackwalker
  imports Frame_Symbolizer
begin

text \<open>
  \<open>Stackwalker\<close> (processor/stackwalker.cc, google_breakpad/processor/stackwalker.h): the loop
  that collects the frames of a thread, the test for the end of the stack and the scan for a
  return address. The virtual functions \<open>GetContextFrame\<close> and \<open>GetCallerFrame\<close> are arguments;
  the CPU-specific walkers provide them. The symbolizer is state that every call may change.
  Two module pointers are compared as the modules they point to. The call stack is fresh. The
  outer \<^const>\<open>None\<close> of a result is undefined behaviour or, for the scan, a loop that does not
  end.
\<close>

section \<open>Model\<close>

record WalkerConfig =
  system_info :: "SystemInfo option"
  walker_modules :: "BasicCodeModules option"
  unloaded_modules :: "BasicCodeModules option"
  max_frames :: u32
  max_frames_scanned :: u32

definition kRASearchWords :: nat where "kRASearchWords = 40"

definition default_max_frames :: u32 where "default_max_frames = push_bit 20 1"
definition default_max_frames_scanned :: u32 where "default_max_frames_scanned = push_bit 14 1"

definition InsertSpecialAttentionModule :: "CodeModule option \<Rightarrow> CodeModule list \<Rightarrow> CodeModule list" where
  "InsertSpecialAttentionModule module modules =
     (case module of None \<Rightarrow> modules | Some c \<Rightarrow> if c \<in> set modules then modules else modules @ [c])"

definition dubious :: "FrameTrust \<Rightarrow> bool" where
  "dubious t \<longleftrightarrow> t = FRAME_TRUST_NONE \<or> t = FRAME_TRUST_SCAN \<or> t = FRAME_TRUST_CFI_SCAN"

text \<open>What \<open>Walk\<close> returns: completed or not, the frames, the two lists of modules, the symbolizer.\<close>

type_synonym 'f walk_result =
  "bool \<times> 'f StackFrame_scheme list \<times> CodeModule list \<times> CodeModule list \<times> StackFrameSymbolizer"

text \<open>
  \<open>GetCallerFrame\<close> gets the call stack and may correct its last frame; it returns that frame,
  the caller and the symbolizer.
\<close>

type_synonym 'f get_caller_frame =
  "StackFrameSymbolizer \<Rightarrow> 'f StackFrame_scheme list \<Rightarrow> bool \<Rightarrow>
   ('f StackFrame_scheme \<times> 'f StackFrame_scheme option \<times> StackFrameSymbolizer) option"

definition keeps_stack ::
    "(StackFrameSymbolizer \<Rightarrow> 'f StackFrame_scheme list \<Rightarrow> bool \<Rightarrow>
      ('f StackFrame_scheme option \<times> StackFrameSymbolizer) option) \<Rightarrow> 'f get_caller_frame" where
  "keeps_stack get_caller s frames scan = map_option (\<lambda>(frame, s). (last frames, frame, s)) (get_caller s frames scan)"

function walk_loop ::
    "WalkerConfig \<Rightarrow> 'f get_caller_frame \<Rightarrow> 'f StackFrame_scheme option \<Rightarrow> 'f StackFrame_scheme list \<Rightarrow> u32 \<Rightarrow>
     CodeModule list \<Rightarrow> CodeModule list \<Rightarrow> StackFrameSymbolizer \<Rightarrow> 'f walk_result option" where
  "walk_loop w get_caller frame frames scanned_frames without corrupt s =
     (case frame of
        None \<Rightarrow> Some (True, frames, without, corrupt, s)
      | Some frame \<Rightarrow> do {
          (symbolizer_result, frame, s) \<leftarrow>
            FillSourceLineInfo s (walker_modules w) (unloaded_modules w) (system_info w) frame;
          if symbolizer_result = kInterrupt then Some (False, frames, without, corrupt, s)
          else
            let without = (if symbolizer_result = kError
                           then InsertSpecialAttentionModule (frame_module frame) without else without);
                corrupt = (if symbolizer_result = kWarningCorruptSymbols
                           then InsertSpecialAttentionModule (frame_module frame) corrupt else corrupt);
                scanned_frames = (if dubious (trust frame) then scanned_frames + 1 else scanned_frames);
                stack_frames = frames @ [frame] in
            if length stack_frames > unat (max_frames w) then Some (True, stack_frames, without, corrupt, s)
            else do {
              (frame, next_frame, s) \<leftarrow> get_caller s stack_frames (scanned_frames < max_frames_scanned w);
              walk_loop w get_caller next_frame (frames @ [frame]) scanned_frames without corrupt s } })"
  by pat_completeness auto
termination
  by (relation "measure (\<lambda>(w, _, _, frames, _). Suc (unat (max_frames w)) - length frames)") auto

declare walk_loop.simps [simp del]

definition Walk ::
    "WalkerConfig \<Rightarrow> 'f StackFrame_scheme option \<Rightarrow> 'f get_caller_frame \<Rightarrow> CodeModule list \<Rightarrow> CodeModule list \<Rightarrow>
     StackFrameSymbolizer \<Rightarrow> 'f walk_result option" where
  "Walk w context_frame get_caller without corrupt s = walk_loop w get_caller context_frame [] 0 without corrupt s"

definition TerminateWalk :: "u64 \<Rightarrow> u64 \<Rightarrow> u64 \<Rightarrow> bool \<Rightarrow> bool" where
  "TerminateWalk caller_ip caller_sp callee_sp first_unwind =
     (if caller_ip < push_bit 12 1 then True
      else if (if first_unwind then caller_sp < callee_sp else caller_sp \<le> callee_sp) then True
      else False)"

definition InstructionAddressSeemsValid ::
    "WalkerConfig \<Rightarrow> StackFrameSymbolizer \<Rightarrow> u64 \<Rightarrow> (bool \<times> StackFrameSymbolizer) option" where
  "InstructionAddressSeemsValid w s address = do {
     let frame = StackFrame_new\<lparr>instruction := address\<rparr>;
     (symbolizer_result, frame, s) \<leftarrow>
       FillSourceLineInfo s (walker_modules w) (unloaded_modules w) (system_info w) frame;
     Some (if frame_module frame = None then False
           else if \<not> HasImplementation s then True
           else if symbolizer_result \<noteq> kNoError \<and> symbolizer_result \<noteq> kWarningCorruptSymbols then True
           else function_name frame \<noteq> [], s) }"

text \<open>
  \<open>ScanForReturnAddress\<close> for an instruction type of any width. The end of the window is computed
  in \<open>size_t\<close>, which has 64 bits, while the location wraps around at the width of the type.
\<close>

definition plausible_return ::
    "WalkerConfig \<Rightarrow> StackFrameSymbolizer \<Rightarrow> u64 \<Rightarrow> (bool \<times> StackFrameSymbolizer) option" where
  "plausible_return w s address =
     (if find_module (walker_modules w) address = None then Some (False, s)
      else InstructionAddressSeemsValid w s address)"

definition sizeof :: "'w::len word \<Rightarrow> nat" where
  "sizeof x = LENGTH('w) div 8"

definition read_memory :: "'v memory_region \<Rightarrow> u64 \<Rightarrow> 'v option" where
  "read_memory memory address = Option.bind memory (\<lambda>read. read address)"

partial_function (option) scan_loop ::
    "WalkerConfig \<Rightarrow> 'w::len word memory_region \<Rightarrow> u64 \<Rightarrow> 'w word \<Rightarrow> StackFrameSymbolizer \<Rightarrow>
     (('w word \<times> 'w word) option \<times> StackFrameSymbolizer) option" where
  "scan_loop w memory limit location s =
     (if ucast location \<le> limit then
        (case read_memory memory (ucast location) of
           None \<Rightarrow> Some (None, s)
         | Some ip \<Rightarrow> do {
             (ok, s) \<leftarrow> plausible_return w s (ucast (ip - 1));
             if ok then Some (Some (location, ip), s)
             else scan_loop w memory limit (location + word_of_nat (sizeof location)) s })
      else Some (None, s))"

definition ScanForReturnAddress_words ::
    "WalkerConfig \<Rightarrow> 'w::len word memory_region \<Rightarrow> 'w word \<Rightarrow> nat \<Rightarrow> StackFrameSymbolizer \<Rightarrow>
     (('w word \<times> 'w word) option \<times> StackFrameSymbolizer) option" where
  "ScanForReturnAddress_words w memory location_start searchwords s =
     scan_loop w memory (ucast location_start + word_of_nat (searchwords * sizeof location_start)) location_start s"

definition ScanForReturnAddress ::
    "WalkerConfig \<Rightarrow> 'w::len word memory_region \<Rightarrow> 'w word \<Rightarrow> bool \<Rightarrow> StackFrameSymbolizer \<Rightarrow>
     (('w word \<times> 'w word) option \<times> StackFrameSymbolizer) option" where
  "ScanForReturnAddress w memory location_start is_context_frame s =
     ScanForReturnAddress_words w memory location_start
       (if is_context_frame then kRASearchWords * 4 else kRASearchWords) s"

text \<open>
  \<open>MemoryRegion\<close> (google_breakpad/processor/memory_region.h) is an interface: its two getters and
  the reads of four and eight bytes are parameters. The walkers of 32-bit CPUs refuse a region
  that does not lie below 4 GB.
\<close>

record MemoryRegion =
  GetBase :: u64
  GetSize :: u32
  GetMemoryAtAddress32 :: "u64 \<Rightarrow> u32 option"
  GetMemoryAtAddress64 :: "u64 \<Rightarrow> u64 option"

definition memory_of_32_bit_cpu :: "MemoryRegion option \<Rightarrow> MemoryRegion option" where
  "memory_of_32_bit_cpu memory = (case memory of
     None \<Rightarrow> None
   | Some m \<Rightarrow> if GetBase m + ucast (GetSize m) - 1 > 0xffffffff then None else Some m)"

abbreviation "memory32 memory \<equiv> map_option GetMemoryAtAddress32 memory"
abbreviation "memory64 memory \<equiv> map_option GetMemoryAtAddress64 memory"

text \<open>An entry of the register tables of the walkers that use \<open>SimpleCFIWalker\<close>.\<close>

definition register ::
    "string \<Rightarrow> string option \<Rightarrow> bool \<Rightarrow> nat \<Rightarrow> ('c \<Rightarrow> 'v) \<Rightarrow> (('v \<Rightarrow> 'v) \<Rightarrow> 'c \<Rightarrow> 'c) \<Rightarrow> ('c, 'v) RegisterSet" where
  "register name alternate saves bit_number get update =
     \<lparr>reg_name = name, alternate_name = alternate, callee_saves = saves, validity_flag = push_bit bit_number 1,
      context_get = get, context_set = (\<lambda>v. update (\<lambda>_. v))\<rparr>"

lemma register_simps [simp]:
  "reg_name (register n a s b get upd) = n" "alternate_name (register n a s b get upd) = a"
  "callee_saves (register n a s b get upd) = s" "validity_flag (register n a s b get upd) = push_bit b 1"
  "context_get (register n a s b get upd) = get" "context_set (register n a s b get upd) v = upd (\<lambda>_. v)"
  by (simp_all add: register_def)

section \<open>The loop\<close>

definition ascending :: "('f \<Rightarrow> u64) \<Rightarrow> 'f list \<Rightarrow> bool" where
  "ascending sp frames \<longleftrightarrow> (\<forall>i. Suc i < length frames \<longrightarrow>
     (if i = 0 then sp (frames ! i) \<le> sp (frames ! Suc i) else sp (frames ! i) < sp (frames ! Suc i)))"

lemma ascending_Nil: "ascending sp []"
  by (simp add: ascending_def)

lemma ascending_map: "ascending sp xs \<longleftrightarrow> ascending id (map sp xs)"
  by (cases xs) (simp_all add: ascending_def)

lemma ascending_snoc:
  assumes "ascending sp frames"
    and "frames \<noteq> [] \<Longrightarrow> (if length frames = 1 then sp (last frames) \<le> sp f else sp (last frames) < sp f)"
  shows "ascending sp (frames @ [f])"
  unfolding ascending_def
proof (intro allI impI)
  fix i assume i: "Suc i < length (frames @ [f])"
  show "if i = 0 then sp ((frames @ [f]) ! i) \<le> sp ((frames @ [f]) ! Suc i)
        else sp ((frames @ [f]) ! i) < sp ((frames @ [f]) ! Suc i)"
  proof (cases "Suc i = length frames")
    case True
    then have "i = length frames - 1" "frames \<noteq> []" by auto
    then have "frames ! i = last frames" "frames \<noteq> []" by (simp_all add: last_conv_nth)
    with assms(2) True show ?thesis by (auto simp: nth_append split: if_splits)
  next
    case False
    with i assms(1) show ?thesis by (auto simp: ascending_def nth_append)
  qed
qed

lemma ascending_less:
  assumes "ascending sp frames" and "0 < i" and "i < j" and "j < length frames"
  shows "sp (frames ! i) < sp (frames ! j)"
  using assms(3,4)
proof (induction j)
  case (Suc j)
  have "sp (frames ! j) < sp (frames ! Suc j)"
    using assms(1,2) Suc.prems by (auto simp: ascending_def dest: spec [of _ j])
  with Suc show ?case by (cases "i = j") (auto intro: less_trans)
qed simp

lemma FillSourceLineInfo_same:
  assumes "FillSourceLineInfo s modules unloaded info frame = Some (res, frame', s')"
  shows "same_frame frame frame'"
proof -
  have keep: "same_frame frame f'" if "fill_loaded s r (frame\<lparr>frame_module := Some c\<rparr>) = Some (res', f', s'')" for r c res' f' s''
    using that LookupAddress_keeps
    by (fastforce simp: fill_loaded_def Resolver_FillSourceLineInfo_def bind_eq_Some_conv same_frame_def split: option.splits)
  have self: "same_frame frame frame" "same_frame frame (frame\<lparr>frame_module := Some c\<rparr>)" for c
    by (simp_all add: same_frame_def)
  from assms keep self show ?thesis
    by (auto simp: FillSourceLineInfo_def Let_def bind_eq_Some_conv
        split: option.splits if_splits SymbolResult.splits)
qed


text \<open>
  An invariant of the loop speaks of the collected frames and of the frame about to be added;
  \<^const>\<open>None\<close> stands for the end of the walk.
\<close>

lemma walk_loop_invariant:
  assumes "walk_loop w gc frame frames n wo co s = Some (d, frames', wo', co', s')"
    and "I frames frame" and "length frames \<le> unat (max_frames w)"
    and stop: "\<And>frames f. I frames f \<Longrightarrow> I frames None"
    and add: "\<And>frames f res f1 s s1. I frames (Some f) \<Longrightarrow>
       FillSourceLineInfo s (walker_modules w) (unloaded_modules w) (system_info w) f = Some (res, f1, s1) \<Longrightarrow>
       I (frames @ [f1]) None"
    and step: "\<And>frames g s b g' f s'. I (frames @ [g]) None \<Longrightarrow> gc s (frames @ [g]) b = Some (g', f, s') \<Longrightarrow>
       I (frames @ [g']) f"
  shows "I frames' None \<and> length frames' \<le> Suc (unat (max_frames w))"
  using assms
proof (induction w gc frame frames n wo co s rule: walk_loop.induct)
  case (1 w gc frame frames n wo co s)
  note run = 1(2) and inv = 1(3) and len = 1(4) and stop = 1(5) and add = 1(6) and step = 1(7)
  show ?case
  proof (cases frame)
    case None
    with run inv len show ?thesis by (simp add: walk_loop.simps [of w gc None])
  next
    case (Some f)
    obtain res f1 s1 where fill:
        "FillSourceLineInfo s (walker_modules w) (unloaded_modules w) (system_info w) f = Some (res, f1, s1)"
      using run Some by (auto simp: walk_loop.simps [of w gc "Some f"] bind_eq_Some_conv)
    have add1: "I (frames @ [f1]) None" using inv fill Some by (intro add) auto
    show ?thesis
    proof (cases "res = kInterrupt \<or> length (frames @ [f1]) > unat (max_frames w)")
      case True
      with run Some fill inv add1 len stop show ?thesis
        by (auto simp: walk_loop.simps [of w gc "Some f"] Let_def split: if_splits)
    next
      case False
      let ?wo = "if res = kError then InsertSpecialAttentionModule (frame_module f1) wo else wo"
      let ?co = "if res = kWarningCorruptSymbols then InsertSpecialAttentionModule (frame_module f1) co else co"
      let ?n = "if dubious (trust f1) then n + 1 else n"
      have run': "(do { (g, next_frame, s) \<leftarrow> gc s1 (frames @ [f1]) (?n < max_frames_scanned w);
          walk_loop w gc next_frame (frames @ [g]) ?n ?wo ?co s }) = Some (d, frames', wo', co', s')"
        using run False by (simp add: walk_loop.simps [of w gc "Some f"] Some fill Let_def split del: if_split)
      then obtain g next' s2 where gc: "gc s1 (frames @ [f1]) (?n < max_frames_scanned w) = Some (g, next', s2)"
        and rest: "walk_loop w gc next' (frames @ [g]) ?n ?wo ?co s2 = Some (d, frames', wo', co', s')"
        by (auto simp: bind_eq_Some_conv)
      have "I (frames @ [g]) next'" by (rule step [OF add1 gc])
      moreover have "length (frames @ [g]) \<le> unat (max_frames w)" using False by simp
      ultimately show ?thesis
        using 1(1) [OF Some fill refl refl _ refl refl refl refl _ gc refl refl rest _ _ stop add step] False by simp
    qed
  qed
qed

lemma TerminateWalk_above:
  "\<not> TerminateWalk ip sp callee_sp first \<Longrightarrow> (if first then callee_sp \<le> sp else callee_sp < sp)"
  by (auto simp: TerminateWalk_def not_less not_le split: if_splits)

text \<open>
  What a CPU-specific walker promises: the stack pointer of a caller is above the one of its
  callee, where the first caller may still have the same one, and a correction of the callee
  does not change its stack pointer or its instruction. The stack pointer is part of the CPU-specific frame, which
  the symbolizer does not touch.
\<close>

locale cpu_walker =
  fixes get_caller :: "'f get_caller_frame"
    and sp :: "'f StackFrame_scheme \<Rightarrow> u64"
  assumes caller_above: "get_caller s (frames @ [g]) scan = Some (g', Some frame, s') \<Longrightarrow>
      (if frames = [] then sp g \<le> sp frame else sp g < sp frame)"
    and callee_kept: "get_caller s (frames @ [g]) scan = Some (g', next_frame, s') \<Longrightarrow> sp g' = sp g"
    and instruction_kept: "get_caller s (frames @ [g]) scan = Some (g', next_frame, s') \<Longrightarrow> instruction g' = instruction g"
    and sp_more: "StackFrame.more f = StackFrame.more g \<Longrightarrow> sp f = sp g"
begin

lemma walk_ascending:
  assumes "Walk w context_frame get_caller wo co s = Some (d, frames, wo', co', s')"
  shows "ascending sp frames \<and> length frames \<le> Suc (unat (max_frames w))"
proof -
  let ?I = "\<lambda>frames frame. ascending sp frames \<and> (\<forall>f. frame = Some f \<longrightarrow> frames \<noteq> [] \<longrightarrow>
      (if length frames = 1 then sp (last frames) \<le> sp f else sp (last frames) < sp f))"
  have add: "ascending sp (frames @ [f1])" if "?I frames (Some f)"
    "FillSourceLineInfo s (walker_modules w) (unloaded_modules w) (system_info w) f = Some (res, f1, s1)"
    for frames f res f1 s s1
  proof -
    have "sp f1 = sp f" using FillSourceLineInfo_same [OF that(2)] by (intro sp_more) (simp add: same_frame_def)
    with that(1) show ?thesis by (intro ascending_snoc) auto
  qed
  have "?I frames None \<and> length frames \<le> Suc (unat (max_frames w))"
  proof (rule walk_loop_invariant [OF assms [unfolded Walk_def], where I = ?I])
    show "?I (frames @ [g']) f" if "?I (frames @ [g]) None" "get_caller s (frames @ [g]) b = Some (g', f, s')"
      for frames g s b g' f s'
    proof -
      have "ascending sp (frames @ [g'])"
        using that(1) callee_kept [OF that(2)] by (simp add: ascending_map [of sp])
      with that callee_kept [OF that(2)] caller_above show ?thesis by (cases f) auto
    qed
    show "?I (frames @ [f1]) None" if "?I frames (Some f)"
      "FillSourceLineInfo s (walker_modules w) (unloaded_modules w) (system_info w) f = Some (res, f1, s1)"
      for frames f res f1 s s1 using add [OF that] by simp
  qed (simp_all add: ascending_Nil)
  then show ?thesis by simp
qed

lemma walk_first:
  assumes "Walk w context_frame get_caller wo co s = Some (d, frames, wo', co', s')" and "frames \<noteq> []"
  shows "\<exists>f. context_frame = Some f \<and> sp (hd frames) = sp f \<and> instruction (hd frames) = instruction f"
proof -
  let ?from = "\<lambda>g. \<exists>f. context_frame = Some f \<and> sp g = sp f \<and> instruction g = instruction f"
  let ?I = "\<lambda>frames frame. if frames = [] then (\<forall>f. frame = Some f \<longrightarrow> ?from f) else ?from (hd frames)"
  have "?I frames None \<and> length frames \<le> Suc (unat (max_frames w))"
  proof (rule walk_loop_invariant [OF assms(1) [unfolded Walk_def], where I = ?I])
    show "?I (frames @ [f1]) None" if "?I frames (Some f)"
      "FillSourceLineInfo s (walker_modules w) (unloaded_modules w) (system_info w) f = Some (res, f1, s1)"
      for frames f res f1 s s1
    proof -
      have "sp f1 = sp f" "instruction f1 = instruction f"
        using FillSourceLineInfo_same [OF that(2)] by (auto simp: same_frame_def intro: sp_more)
      with that(1) show ?thesis by (cases frames) auto
    qed
    show "?I (frames @ [g']) f" if "?I (frames @ [g]) None" "get_caller s (frames @ [g]) b = Some (g', f, s')"
      for frames g s b g' f s'
      using that(1) callee_kept [OF that(2)] instruction_kept [OF that(2)] by (cases frames) auto
  qed (auto split: if_splits)
  with assms(2) show ?thesis by simp
qed

end

section \<open>The scan\<close>

lemma unat_ucast_widen:
  fixes x :: "'w::len word"
  assumes "LENGTH('w) \<le> 64"
  shows "unat (ucast x :: u64) = unat x"
proof -
  have "unat x < 2 ^ LENGTH('w)" by (rule unsigned_less)
  also have "(2 :: nat) ^ LENGTH('w) \<le> 2 ^ 64" using assms by (rule power_increasing) simp
  finally have "unat x < 2 ^ 64" .
  then show ?thesis by (simp add: unsigned_ucast_eq take_bit_nat_eq_self)
qed

lemma InstructionAddressSeemsValid_defined:
  assumes "symbolizer_inv s"
  shows "\<exists>ok s'. InstructionAddressSeemsValid w s a = Some (ok, s') \<and> symbolizer_inv s'"
proof -
  obtain res f s' where "FillSourceLineInfo s (walker_modules w) (unloaded_modules w) (system_info w)
      (StackFrame_new\<lparr>instruction := a\<rparr>) = Some (res, f, s')" "symbolizer_inv s'"
    using FillSourceLineInfo_defined [OF assms] by blast
  then show ?thesis by (auto simp: InstructionAddressSeemsValid_def)
qed

lemma plausible_return_defined:
  assumes "symbolizer_inv s"
  shows "\<exists>ok s'. plausible_return w s a = Some (ok, s') \<and> symbolizer_inv s' \<and>
    (ok \<longrightarrow> find_module (walker_modules w) a \<noteq> None)"
  using InstructionAddressSeemsValid_defined [OF assms, of w a] assms
  by (cases "find_module (walker_modules w) a") (auto simp: plausible_return_def)

text \<open>What a scan may return: a readable word of the window that points behind an instruction of a module.\<close>

definition scan_result_ok ::
    "WalkerConfig \<Rightarrow> 'w::len word memory_region \<Rightarrow> 'w word \<Rightarrow> u64 \<Rightarrow> ('w word \<times> 'w word) option \<Rightarrow> bool" where
  "scan_result_ok w memory start limit result \<longleftrightarrow> (\<forall>location ip. result = Some (location, ip) \<longrightarrow>
     start \<le> location \<and> ucast location \<le> limit \<and> read_memory memory (ucast location) = Some ip \<and>
     find_module (walker_modules w) (ucast (ip - 1)) \<noteq> None)"

lemma scan_result_ok_mono:
  "scan_result_ok w memory b limit result \<Longrightarrow> a \<le> b \<Longrightarrow> scan_result_ok w memory a limit result"
  unfolding scan_result_ok_def using order_trans by blast

lemma scan_loop_defined:
  fixes location :: "'w::len word"
  assumes "symbolizer_inv s" and "unat limit + sizeof location < 2 ^ LENGTH('w)" and "0 < sizeof location"
    and "LENGTH('w) \<le> 64"
  shows "\<exists>result s'. scan_loop w memory limit location s = Some (result, s') \<and> symbolizer_inv s' \<and>
    scan_result_ok w memory location limit result"
  using assms
proof (induction "Suc (unat limit) - unat location" arbitrary: location s rule: less_induct)
  case less
  let ?read = "read_memory memory (ucast location)"
  show ?case
  proof (cases "ucast location \<le> limit \<and> ?read \<noteq> None")
    case False
    with less(2) show ?thesis
      by (subst scan_loop.simps) (auto simp: scan_result_ok_def)
  next
    case True
    then obtain ip where ip: "?read = Some ip" "ucast location \<le> limit" by auto
    obtain ok s1 where ok: "plausible_return w s (ucast (ip - 1)) = Some (ok, s1)" "symbolizer_inv s1"
      "ok \<longrightarrow> find_module (walker_modules w) (ucast (ip - 1)) \<noteq> None"
      using plausible_return_defined [OF less(2)] by blast
    show ?thesis
    proof (cases ok)
      case True
      with ip ok show ?thesis by (subst scan_loop.simps) (simp add: scan_result_ok_def)
    next
      case False
      let ?next = "location + word_of_nat (sizeof location)"
      have size: "sizeof ?next = sizeof location" by (simp add: sizeof_def)
      have le: "unat location \<le> unat limit"
        using ip(2) unat_ucast_widen [OF less(5)] by (simp add: word_le_nat_alt)
      have "unat (word_of_nat (sizeof location) :: 'w word) = sizeof location"
        using less(3) by (simp add: unat_of_nat)
      then have next': "unat ?next = unat location + sizeof location"
        using less(3) le by (simp add: unat_add_lem [THEN iffD1])
      have "\<exists>result s'. scan_loop w memory limit ?next s1 = Some (result, s') \<and> symbolizer_inv s' \<and>
          scan_result_ok w memory ?next limit result"
        using less(3,4,5) le next' size by (intro less(1) [OF _ ok(2)]) auto
      moreover have "location \<le> ?next" using next' by (simp add: word_le_nat_alt)
      ultimately show ?thesis using ip ok(1) False
        by (subst scan_loop.simps) (auto intro: scan_result_ok_mono)
    qed
  qed
qed

text \<open>
  C36: the scan for a return address ends. When the window of words to search does not reach
  the top of the address space of the CPU and no symbol file of the supplier ends in a \<open>STACK\<close>
  line without fields and without a line end, \<open>ScanForReturnAddress\<close> returns, and what it returns
  is a word of the stack memory inside the window that points just behind an instruction of a
  loaded module; the symbolizer stays well formed.
\<close>

theorem ScanForReturnAddress_correct:
  fixes start :: "'w::len word"
  assumes "symbolizer_inv s" and "LENGTH('w) = 32 \<or> LENGTH('w) = 64"
    and "unat start + (words + 1) * sizeof start < 2 ^ LENGTH('w)"
  shows "\<exists>result s'. ScanForReturnAddress_words w memory start words s = Some (result, s') \<and> symbolizer_inv s' \<and>
    (\<forall>location ip. result = Some (location, ip) \<longrightarrow>
       start \<le> location \<and> unat location \<le> unat start + words * sizeof start \<and>
       read_memory memory (ucast location) = Some ip \<and> find_module (walker_modules w) (ucast (ip - 1)) \<noteq> None)"
proof -
  let ?limit = "ucast start + word_of_nat (words * sizeof start) :: u64"
  have len: "LENGTH('w) \<le> 64" "0 < sizeof start" using assms(2) by (auto simp: sizeof_def)
  have room: "unat start + words * sizeof start + sizeof start < 2 ^ 64"
    using assms(3) power_increasing [OF len(1), of "2 :: nat"] by (simp add: algebra_simps)
  note widen = unat_ucast_widen [OF len(1)]
  have limit: "unat ?limit = unat start + words * sizeof start"
    using room by (simp add: unat_word_ariths unat_of_nat widen del: of_nat_mult)
  obtain result s' where "scan_loop w memory ?limit start s = Some (result, s')" "symbolizer_inv s'"
    "scan_result_ok w memory start ?limit result"
    using scan_loop_defined [OF assms(1), of ?limit start w memory] assms(3) limit len by (auto simp: algebra_simps)
  then show ?thesis using limit
    by (auto simp: ScanForReturnAddress_words_def scan_result_ok_def word_le_nat_alt [of "ucast _"] widen)
qed

text \<open>A scan over a stack whose third word is a return address of the example module.\<close>

definition example_scan_walker :: WalkerConfig where
  "example_scan_walker = \<lparr>system_info = Some example_info, walker_modules = Some example_modules, unloaded_modules = None,
     max_frames = 10, max_frames_scanned = 2\<rparr>"

definition example_scan_stack :: "32 word memory_region" where
  "example_scan_stack = Some (\<lambda>a. Some (if a = 4104 then 69633 else 0))"

lemma example_scan:
  "\<exists>s'. ScanForReturnAddress_words example_scan_walker example_scan_stack 4096 40 example_symbolizer =
     Some (Some (4104, 69633), s')"
proof -
  let ?w = example_scan_walker
  have "ucast (- 1 :: 32 word) = (4294967295 :: u64)" by code_simp
  then have none: "plausible_return ?w s (ucast (- 1 :: 32 word)) = Some (False, s)" for s
    using example_modules_none [of 4294967295] by (simp add: plausible_return_def example_scan_walker_def)
  obtain s' where "FillSourceLineInfo example_symbolizer (Some example_modules) None (Some example_info)
      (StackFrame_new\<lparr>instruction := 69632\<rparr>) = Some (kNoError, (StackFrame_new\<lparr>instruction := 69632\<rparr>)
        \<lparr>frame_module := Some example_module_c, function_name := ''f'', function_base := 65552\<rparr>, s')"
    using example_fill [of "StackFrame_new\<lparr>instruction := 69632\<rparr>" None "Some example_info"] by auto
  then have some: "plausible_return ?w example_symbolizer 69632 = Some (True, s')"
    using example_modules_find [of 69632]
    by (simp add: plausible_return_def example_scan_walker_def InstructionAddressSeemsValid_def)
  have read: "read_memory example_scan_stack a = Some (if a = 4104 then 69633 else 0)" for a
    by (simp add: example_scan_stack_def read_memory_def)
  have third: "scan_loop ?w example_scan_stack 4256 4104 example_symbolizer = Some (Some (4104, 69633), s')"
    by (subst scan_loop.simps) (simp add: read some)
  have second: "scan_loop ?w example_scan_stack 4256 4100 example_symbolizer = Some (Some (4104, 69633), s')"
    by (subst scan_loop.simps) (simp add: read none sizeof_def third)
  have first: "scan_loop ?w example_scan_stack 4256 4096 example_symbolizer = Some (Some (4104, 69633), s')"
    by (subst scan_loop.simps) (simp add: read none sizeof_def second)
  from first show ?thesis by (simp add: ScanForReturnAddress_words_def sizeof_def)
qed

theorem ScanForReturnAddress_correct_witness:
  "\<exists>s'. ScanForReturnAddress_words example_scan_walker example_scan_stack 4096 40 example_symbolizer =
      Some (Some (4104, 69633), s') \<and> symbolizer_inv s' \<and>
    read_memory example_scan_stack 4104 = Some 69633 \<and> find_module (walker_modules example_scan_walker) 69632 \<noteq> None"
proof -
  obtain s' where "ScanForReturnAddress_words example_scan_walker example_scan_stack 4096 40 example_symbolizer =
      Some (Some (4104, 69633), s')" using example_scan by blast
  with ScanForReturnAddress_correct [OF example_symbolizer_inv, of "4096 :: 32 word" 40 example_scan_walker example_scan_stack]
  show ?thesis by (auto simp: sizeof_def)
qed

end
