(* ===== verification/Stackwalker_AMD64.thy ===== *)
theory Stackwalker_AMD64
  imports Stackwalker
begin

text \<open>
  \<open>StackwalkerAMD64\<close> (processor/stackwalker_amd64.cc) and \<open>StackFrameAMD64\<close>
  (google_breakpad/processor/stack_frame_cpu.h). Of \<open>MDRawContextAMD64\<close> the model has the
  registers the walker reads or writes.
\<close>

unbundle bit_operations_syntax

section \<open>Registers\<close>

record MDRawContextAMD64 =
  rax :: u64
  rdx :: u64
  rcx :: u64
  rbx :: u64
  rsi :: u64
  rdi :: u64
  rbp :: u64
  rsp :: u64
  r8 :: u64
  r9 :: u64
  r10 :: u64
  r11 :: u64
  r12 :: u64
  r13 :: u64
  r14 :: u64
  r15 :: u64
  rip :: u64

abbreviation "CONTEXT_VALID_RBP \<equiv> push_bit 6 (1 :: u32)"
abbreviation "CONTEXT_VALID_RSP \<equiv> push_bit 7 (1 :: u32)"
abbreviation "CONTEXT_VALID_RIP \<equiv> push_bit 16 (1 :: u32)"
abbreviation "CONTEXT_VALID_ALL \<equiv> - 1 :: u32"

definition amd64_cfi_register_map :: "(MDRawContextAMD64, u64) RegisterSet list" where
  "amd64_cfi_register_map =
     [register ''$rax'' None False 0 rax rax_update,
      register ''$rdx'' None False 1 rdx rdx_update,
      register ''$rcx'' None False 2 rcx rcx_update,
      register ''$rbx'' None True 3 rbx rbx_update,
      register ''$rsi'' None False 4 rsi rsi_update,
      register ''$rdi'' None False 5 rdi rdi_update,
      register ''$rbp'' None True 6 rbp rbp_update,
      register ''$rsp'' (Some ''.cfa'') False 7 rsp rsp_update,
      register ''$r8'' None False 8 r8 r8_update,
      register ''$r9'' None False 9 r9 r9_update,
      register ''$r10'' None False 10 r10 r10_update,
      register ''$r11'' None False 11 r11 r11_update,
      register ''$r12'' None True 12 r12 r12_update,
      register ''$r13'' None True 13 r13 r13_update,
      register ''$r14'' None True 14 r14 r14_update,
      register ''$r15'' None True 15 r15 r15_update,
      register ''$rip'' (Some ''.ra'') False 16 rip rip_update]"

text \<open>\<open>memset(caller_context, 0xda, \<dots>)\<close>\<close>

definition amd64_filled_da :: MDRawContextAMD64 where
  "amd64_filled_da =
     (let da = 0xdadadadadadadada in
      \<lparr>rax = da, rdx = da, rcx = da, rbx = da, rsi = da, rdi = da, rbp = da, rsp = da, r8 = da, r9 = da,
       r10 = da, r11 = da, r12 = da, r13 = da, r14 = da, r15 = da, rip = da\<rparr>)"

definition amd64_zero :: MDRawContextAMD64 where
  "amd64_zero =
     \<lparr>rax = 0, rdx = 0, rcx = 0, rbx = 0, rsi = 0, rdi = 0, rbp = 0, rsp = 0, r8 = 0, r9 = 0,
      r10 = 0, r11 = 0, r12 = 0, r13 = 0, r14 = 0, r15 = 0, rip = 0\<rparr>"

record StackFrameAMD64 = StackFrame +
  amd64_context :: MDRawContextAMD64
  context_validity :: u32

definition StackFrameAMD64_new :: StackFrameAMD64 where
  "StackFrameAMD64_new = StackFrame.extend StackFrame_new \<lparr>amd64_context = amd64_zero, context_validity = 0\<rparr>"

section \<open>Model\<close>

definition amd64_ReturnAddress :: "StackFrameAMD64 \<Rightarrow> u64 option" where
  "amd64_ReturnAddress frame =
     (if context_validity frame AND CONTEXT_VALID_RIP \<noteq> 0 then Some (rip (amd64_context frame)) else None)"

definition amd64_GetContextFrame :: "MDRawContextAMD64 option \<Rightarrow> StackFrameAMD64 option" where
  "amd64_GetContextFrame context = (case context of
     None \<Rightarrow> None
   | Some c \<Rightarrow> Some (StackFrameAMD64_new\<lparr>amd64_context := c, context_validity := CONTEXT_VALID_ALL,
                       trust := FRAME_TRUST_CONTEXT, instruction := rip c\<rparr>))"

definition amd64_GetCallerByCFIFrameInfo ::
    "u64 memory_region \<Rightarrow> StackFrameAMD64 list \<Rightarrow> CFIFrameInfo \<Rightarrow> StackFrameAMD64 option option" where
  "amd64_GetCallerByCFIFrameInfo memory frames cfi_frame_info = do {
     let last_frame = last frames;
     found \<leftarrow> FindCallerRegisters amd64_cfi_register_map amd64_filled_da memory cfi_frame_info
       (amd64_context last_frame) (context_validity last_frame);
     (case found of
        None \<Rightarrow> Some None
      | Some (context, validity) \<Rightarrow>
          let essentials = CONTEXT_VALID_RIP OR CONTEXT_VALID_RSP in
          if validity AND essentials \<noteq> essentials then Some None
          else if rip context = 0 \<or> rsp context = 0 then Some None
          else Some (Some (StackFrameAMD64_new\<lparr>amd64_context := context, context_validity := validity,
                             trust := FRAME_TRUST_CFI\<rparr>))) }"

definition is_non_canonical :: "u64 \<Rightarrow> bool" where
  "is_non_canonical ptr \<longleftrightarrow> ptr > 0x7FFFFFFFFFFF \<and> ptr < 0xFFFF800000000000"

definition amd64_GetCallerByFramePointerRecovery ::
    "u64 memory_region \<Rightarrow> StackFrameAMD64 list \<Rightarrow> StackFrameAMD64 option" where
  "amd64_GetCallerByFramePointerRecovery memory frames =
     (let last_frame = last frames;
          last_rbp = rbp (amd64_context last_frame) in
      if last_rbp mod 8 \<noteq> 0 then None
      else (case (read_memory memory (last_rbp + 8), read_memory memory last_rbp) of
        (Some caller_rip, Some caller_rbp) \<Rightarrow>
          let caller_rsp = last_rbp + 16 in
          if is_non_canonical caller_rip then None
          else if caller_rsp \<le> last_rbp \<or> caller_rbp < caller_rsp then None
          else if read_memory memory caller_rbp = None then None
          else Some (StackFrameAMD64_new
            \<lparr>trust := FRAME_TRUST_FP,
             amd64_context := (amd64_context last_frame)\<lparr>rip := caller_rip, rsp := caller_rsp, rbp := caller_rbp\<rparr>,
             context_validity := CONTEXT_VALID_RIP OR CONTEXT_VALID_RSP OR CONTEXT_VALID_RBP\<rparr>)
      | _ \<Rightarrow> None))"

definition amd64_GetCallerByStackScan ::
    "WalkerConfig \<Rightarrow> u64 memory_region \<Rightarrow> StackFrameAMD64 list \<Rightarrow> StackFrameSymbolizer \<Rightarrow>
     (StackFrameAMD64 option \<times> StackFrameSymbolizer) option" where
  "amd64_GetCallerByStackScan w memory frames s = do {
     let last_frame = last frames;
     let context = amd64_context last_frame;
     (found, s) \<leftarrow> ScanForReturnAddress w memory (rsp context) (length frames = 1) s;
     (case found of
        None \<Rightarrow> Some (None, s)
      | Some (caller_rip_address, caller_rip) \<Rightarrow>
          let frame = StackFrameAMD64_new
                \<lparr>trust := FRAME_TRUST_SCAN,
                 amd64_context := context\<lparr>rip := caller_rip, rsp := caller_rip_address + 8\<rparr>,
                 context_validity := CONTEXT_VALID_RIP OR CONTEXT_VALID_RSP\<rparr>;
              with_rbp = (\<lambda>v. frame\<lparr>amd64_context := (amd64_context frame)\<lparr>rbp := v\<rparr>,
                                    context_validity := context_validity frame OR CONTEXT_VALID_RBP\<rparr>);
              frame =
                (if context_validity last_frame AND CONTEXT_VALID_RBP \<noteq> 0 then
                   (if caller_rip_address - 8 = rbp context then
                      (case read_memory memory (rbp context) of
                         Some caller_rbp \<Rightarrow> if caller_rbp > caller_rip_address then with_rbp caller_rbp else frame
                       | None \<Rightarrow> frame)
                    else if rbp context \<ge> caller_rip_address + 8 then with_rbp (rbp context)
                    else frame)
                 else frame)
          in Some (Some frame, s)) }"

text \<open>
  \<open>GetCallerFrame\<close>: call frame information, else the frame pointer, else a scan; then the
  constraints of the Native Client sandbox and the test for the end of the stack.
\<close>

definition amd64_find_caller ::
    "WalkerConfig \<Rightarrow> u64 memory_region \<Rightarrow> StackFrameSymbolizer \<Rightarrow> StackFrameAMD64 list \<Rightarrow> bool \<Rightarrow>
     (StackFrameAMD64 option \<times> StackFrameSymbolizer) option" where
  "amd64_find_caller w memory s frames stack_scan_allowed = do {
     cfi_frame_info \<leftarrow> Symbolizer_FindCFIFrameInfo s (last frames);
     new_frame \<leftarrow> (case cfi_frame_info of
        None \<Rightarrow> Some None
      | Some cfi \<Rightarrow> amd64_GetCallerByCFIFrameInfo memory frames cfi);
     let new_frame = (if new_frame = None then amd64_GetCallerByFramePointerRecovery memory frames else new_frame);
     if stack_scan_allowed \<and> new_frame = None then amd64_GetCallerByStackScan w memory frames s
     else Some (new_frame, s) }"

definition nacl_constraints :: "MDRawContextAMD64 \<Rightarrow> MDRawContextAMD64" where
  "nacl_constraints c =
     (let low32 = (\<lambda>x :: u64. ucast (ucast x :: u32)) in
      c\<lparr>rip := low32 (rip c), rsp := low32 (rsp c), rbp := low32 (rbp c)\<rparr>)"

text \<open>The constraints are applied without a test for missing system information.\<close>

definition apply_nacl :: "WalkerConfig \<Rightarrow> StackFrameAMD64 \<Rightarrow> StackFrameAMD64 option" where
  "apply_nacl w frame = do {
     info \<leftarrow> system_info w;
     Some (if os_short info = ''nacl''
           then frame\<lparr>amd64_context := nacl_constraints (amd64_context frame)\<rparr> else frame) }"

definition amd64_GetCallerFrame ::
    "WalkerConfig \<Rightarrow> u64 memory_region \<Rightarrow> StackFrameSymbolizer \<Rightarrow> StackFrameAMD64 list \<Rightarrow> bool \<Rightarrow>
     (StackFrameAMD64 option \<times> StackFrameSymbolizer) option" where
  "amd64_GetCallerFrame w memory s frames stack_scan_allowed =
     (if memory = None then Some (None, s)
      else do {
        (new_frame, s) \<leftarrow> amd64_find_caller w memory s frames stack_scan_allowed;
        (case new_frame of
           None \<Rightarrow> Some (None, s)
         | Some new_frame \<Rightarrow> do {
             new_frame \<leftarrow> apply_nacl w new_frame;
             if TerminateWalk (rip (amd64_context new_frame)) (rsp (amd64_context new_frame))
                  (rsp (amd64_context (last frames))) (length frames = 1)
             then Some (None, s)
             else Some (Some (new_frame\<lparr>instruction := rip (amd64_context new_frame) - 1\<rparr>), s) }) })"

section \<open>Interfaces\<close>

interpretation amd64_registers: register_file amd64_cfi_register_map
  by unfold_locales (auto simp: amd64_cfi_register_map_def independent_def)

lemma amd64_caller_bounds:
  assumes "amd64_GetCallerFrame w memory s frames scan = Some (Some f, s')"
  shows "rip (amd64_context f) \<ge> 4096 \<and> instruction f = rip (amd64_context f) - 1 \<and>
    (if length frames = 1 then rsp (amd64_context (last frames)) \<le> rsp (amd64_context f)
     else rsp (amd64_context (last frames)) < rsp (amd64_context f))"
proof -
  obtain nf s1 g where found: "amd64_find_caller w memory s frames scan = Some (Some nf, s1)" "apply_nacl w nf = Some g"
    using assms unfolding amd64_GetCallerFrame_def by (auto simp: bind_eq_Some_conv split: if_splits option.splits)
  let ?stop = "TerminateWalk (rip (amd64_context g)) (rsp (amd64_context g)) (rsp (amd64_context (last frames)))
    (length frames = 1)"
  have "(if ?stop then Some (None, s1) else Some (Some (g\<lparr>instruction := rip (amd64_context g) - 1\<rparr>), s1)) = Some (Some f, s')"
    using assms found by (simp add: amd64_GetCallerFrame_def split: if_splits)
  then have "\<not> ?stop" and f: "f = g\<lparr>instruction := rip (amd64_context g) - 1\<rparr>" by (simp_all split: if_splits)
  then show ?thesis unfolding f by (auto simp: TerminateWalk_def not_less not_le split: if_splits)
qed

lemma amd64_more: "StackFrame.more f = StackFrame.more g \<Longrightarrow> amd64_context f = amd64_context g" for f g :: StackFrameAMD64
  by (cases f; cases g) simp

interpretation amd64_walker: cpu_walker "keeps_stack (amd64_GetCallerFrame w memory)" "\<lambda>f. rsp (amd64_context f)" for w memory
  using amd64_caller_bounds by unfold_locales (force simp: keeps_stack_def dest: amd64_more)+

section \<open>Walks\<close>

text \<open>A chain of frames linked by their frame pointers: return addresses and saved frame pointers.\<close>

fun frame_chain :: "u64 memory_region \<Rightarrow> u64 \<Rightarrow> (u64 \<times> u64) list \<Rightarrow> bool" where
  "frame_chain memory b [] \<longleftrightarrow> read_memory memory (b + 8) = None"
| "frame_chain memory b ((ip, b') # chain) \<longleftrightarrow>
     b mod 8 = 0 \<and> read_memory memory (b + 8) = Some ip \<and> read_memory memory b = Some b' \<and>
     \<not> is_non_canonical ip \<and> 4096 \<le> ip \<and> b < b + 16 \<and> b + 16 \<le> b' \<and> read_memory memory b' \<noteq> None \<and>
     frame_chain memory b' chain"

definition below_caller :: "StackFrameAMD64 list \<Rightarrow> bool" where
  "below_caller frames \<longleftrightarrow> (let c = amd64_context (last frames) in
     if length frames = 1 then rsp c \<le> rbp c + 16 else rsp c < rbp c + 16)"

definition runs_native :: "WalkerConfig \<Rightarrow> bool" where
  "runs_native w \<longleftrightarrow> (case system_info w of None \<Rightarrow> False | Some info \<Rightarrow> os_short info \<noteq> ''nacl'')"

lemma apply_nacl_native: "runs_native w \<Longrightarrow> apply_nacl w frame = Some frame"
  by (auto simp: runs_native_def apply_nacl_def split: option.splits)

lemma frame_pointer_step:
  assumes "resolver s = None" and "runs_native w" and "memory \<noteq> None" and "below_caller frames"
    and "frame_chain memory (rbp (amd64_context (last frames))) ((ip, b') # chain)"
  shows "\<exists>f. amd64_GetCallerFrame w memory s frames scan = Some (Some f, s) \<and> rip (amd64_context f) = ip \<and>
    rbp (amd64_context f) = b' \<and> rsp (amd64_context f) = rbp (amd64_context (last frames)) + 16"
proof -
  let ?c = "amd64_context (last frames)"
  have fp: "amd64_GetCallerByFramePointerRecovery memory frames = Some (StackFrameAMD64_new\<lparr>trust := FRAME_TRUST_FP,
      amd64_context := ?c\<lparr>rip := ip, rsp := rbp ?c + 16, rbp := b'\<rparr>,
      context_validity := CONTEXT_VALID_RIP OR CONTEXT_VALID_RSP OR CONTEXT_VALID_RBP\<rparr>)"
    using assms(5) by (simp add: amd64_GetCallerByFramePointerRecovery_def Let_def not_le not_less)
  have "\<not> TerminateWalk ip (rbp ?c + 16) (rsp ?c) (length frames = 1)"
    using assms(4,5) by (auto simp: TerminateWalk_def below_caller_def Let_def not_less not_le)
  with fp assms(1,3) apply_nacl_native [OF assms(2)] show ?thesis
    by (simp add: amd64_GetCallerFrame_def amd64_find_caller_def Symbolizer_FindCFIFrameInfo_def Let_def)
qed

lemma frame_pointer_end:
  assumes "resolver s = None" and "memory \<noteq> None" and "frame_chain memory (rbp (amd64_context (last frames))) []"
  shows "amd64_GetCallerFrame w memory s frames False = Some (None, s)"
  using assms
  by (simp add: amd64_GetCallerFrame_def amd64_find_caller_def Symbolizer_FindCFIFrameInfo_def
      amd64_GetCallerByFramePointerRecovery_def Let_def)

lemma fill_without_resolver:
  assumes "resolver s = None"
  shows "\<exists>f'. FillSourceLineInfo s modules unloaded info f = Some (kError, f', s) \<and> same_frame f f'"
  using assms by (auto simp: FillSourceLineInfo_def Let_def same_frame_def split: option.splits)

text \<open>
  Without a resolver every step of the walk returns. A scan ends when it meets a word that can
  not be read, at the latest at the top of the address space if the stack memory does not
  reach it.
\<close>

definition below_top :: "u64 memory_region \<Rightarrow> bool" where
  "below_top memory \<longleftrightarrow> (\<forall>a. read_memory memory a \<noteq> None \<longrightarrow> unat a + 8 < 2 ^ 64)"

lemma plausible_without_resolver:
  assumes "resolver s = None" shows "\<exists>ok. plausible_return w s a = Some (ok, s)"
proof -
  obtain f' where "FillSourceLineInfo s (walker_modules w) (unloaded_modules w) (system_info w)
      (StackFrame_new\<lparr>instruction := a\<rparr>) = Some (kError, f', s)" using fill_without_resolver [OF assms] by blast
  then show ?thesis by (auto simp: plausible_return_def InstructionAddressSeemsValid_def)
qed

lemma scan_without_resolver:
  fixes location :: u64
  assumes "resolver s = None" and "below_top memory"
  shows "\<exists>result. scan_loop w memory limit location s = Some (result, s)"
proof (induction "2 ^ 64 - unat location" arbitrary: location rule: less_induct)
  case less
  show ?case
  proof (cases "location \<le> limit \<and> read_memory memory location \<noteq> None")
    case False
    then show ?thesis by (subst scan_loop.simps) (auto split: option.splits)
  next
    case True
    then obtain ip where ip: "read_memory memory location = Some ip" by auto
    obtain ok where ok: "plausible_return w s (ip - 1) = Some (ok, s)" using plausible_without_resolver [OF assms(1)] by blast
    have room: "unat location + 8 < 2 ^ 64" using assms(2) True by (simp add: below_top_def)
    then have "unat (location + 8) = unat location + 8" by (simp add: unat_word_ariths)
    with room have "\<exists>result. scan_loop w memory limit (location + 8) s = Some (result, s)" by (intro less) simp
    with True ip ok show ?thesis by (subst scan_loop.simps) (auto simp: sizeof_def)
  qed
qed

lemma caller_without_resolver:
  assumes "resolver s = None" and "runs_native w" and "\<not> scan \<or> below_top memory"
  shows "\<exists>nf. amd64_GetCallerFrame w memory s frames scan = Some (nf, s)"
proof -
  have "\<exists>nf. amd64_GetCallerByStackScan w memory frames s = Some (nf, s)" if top: "below_top memory"
  proof -
    obtain r where "ScanForReturnAddress w memory (rsp (amd64_context (last frames))) (length frames = 1) s = Some (r, s)"
      using scan_without_resolver [OF assms(1) top] unfolding ScanForReturnAddress_def ScanForReturnAddress_words_def by metis
    then show ?thesis by (cases r) (auto simp: amd64_GetCallerByStackScan_def Let_def)
  qed
  then have "\<exists>nf. amd64_find_caller w memory s frames scan = Some (nf, s)"
    using assms(1,3) by (auto simp: amd64_find_caller_def Symbolizer_FindCFIFrameInfo_def Let_def)
  then obtain nf where "amd64_find_caller w memory s frames scan = Some (nf, s)" by blast
  then show ?thesis
    by (cases nf) (auto simp: amd64_GetCallerFrame_def apply_nacl_native [OF assms(2)])
qed

lemma walk_without_resolver:
  assumes "resolver s = None" and "runs_native w" and "max_frames_scanned w = 0 \<or> below_top memory"
    and "length frames \<le> unat (max_frames w)"
  shows "\<exists>rest wo'. walk_loop w (keeps_stack (amd64_GetCallerFrame w memory)) frame frames n wo co s =
    Some (True, frames @ rest, wo', co, s)"
  using assms(4)
proof (induction "Suc (unat (max_frames w)) - length frames" arbitrary: frame frames n wo)
  case (Suc k)
  let ?gc = "keeps_stack (amd64_GetCallerFrame w memory)"
  show ?case
  proof (cases frame)
    case None
    then show ?thesis by (simp add: walk_loop.simps [of w _ None])
  next
    case (Some f)
    obtain f1 where fill: "FillSourceLineInfo s (walker_modules w) (unloaded_modules w) (system_info w) f = Some (kError, f1, s)"
      using fill_without_resolver [OF assms(1)] by blast
    let ?n = "if dubious (trust f1) then n + 1 else n"
    let ?wo = "InsertSpecialAttentionModule (frame_module f1) wo"
    obtain nf where nf: "amd64_GetCallerFrame w memory s (frames @ [f1]) (?n < max_frames_scanned w) = Some (nf, s)"
      using caller_without_resolver [OF assms(1,2)] assms(3) by (metis word_not_simps(1))
    show ?thesis
    proof (cases "length (frames @ [f1]) > unat (max_frames w)")
      case True
      with fill Some show ?thesis by (subst walk_loop.simps) (simp add: Let_def)
    next
      case False
      then have "k = Suc (unat (max_frames w)) - length (frames @ [f1])" using Suc.hyps(2) by simp
      from Suc.hyps(1) [OF this, of nf ?n ?wo] False obtain rest wo' where
        "walk_loop w ?gc nf (frames @ [f1]) ?n ?wo co s = Some (True, (frames @ [f1]) @ rest, wo', co, s)" by auto
      moreover have "walk_loop w ?gc (Some f) frames n wo co s = walk_loop w ?gc nf (frames @ [f1]) ?n ?wo co s"
        using False fill nf by (subst walk_loop.simps) (simp add: Let_def keeps_stack_def split del: if_split)
      ultimately show ?thesis using Some by simp
    qed
  qed
qed simp

abbreviation "saved_registers f \<equiv> (rip (amd64_context f), rbp (amd64_context f))"

lemma walk_frame_chain:
  assumes "resolver s = None" and "runs_native w" and "memory \<noteq> None"
    and "max_frames_scanned w = 0 \<or> below_top memory" and "length frames + length chain < unat (max_frames w)"
    and "frame_chain memory (rbp (amd64_context f)) chain" and "chain \<noteq> [] \<longrightarrow> below_caller (frames @ [f])"
  shows "\<exists>frames' rest wo'. walk_loop w (keeps_stack (amd64_GetCallerFrame w memory)) (Some f) frames n wo co s =
      Some (True, frames @ frames' @ rest, wo', co, s) \<and>
    map saved_registers frames' = saved_registers f # chain \<and> (max_frames_scanned w = 0 \<longrightarrow> rest = [])"
  using assms(5-7)
proof (induction chain arbitrary: frames f n wo)
  case Nil
  obtain f1 where fill: "FillSourceLineInfo s (walker_modules w) (unloaded_modules w) (system_info w) f = Some (kError, f1, s)"
    "same_frame f f1" using fill_without_resolver [OF assms(1)] by blast
  have ctx: "amd64_context f1 = amd64_context f" using fill(2) by (cases f; cases f1) (simp add: same_frame_def)
  let ?n = "if dubious (trust f1) then n + 1 else n"
  let ?wo = "InsertSpecialAttentionModule (frame_module f1) wo"
  obtain nf where nf: "amd64_GetCallerFrame w memory s (frames @ [f1]) (?n < max_frames_scanned w) = Some (nf, s)"
    using caller_without_resolver [OF assms(1,2)] assms(4) by (metis word_not_simps(1))
  have stop: "nf = None" if "max_frames_scanned w = 0"
  proof -
    have "amd64_GetCallerFrame w memory s (frames @ [f1]) False = Some (None, s)"
      using Nil(2) ctx by (intro frame_pointer_end assms(1,3)) simp
    with nf that show ?thesis by simp
  qed
  have step: "walk_loop w (keeps_stack (amd64_GetCallerFrame w memory)) (Some f) frames n wo co s =
      walk_loop w (keeps_stack (amd64_GetCallerFrame w memory)) nf (frames @ [f1]) ?n ?wo co s"
    using Nil(1) fill(1) nf by (subst walk_loop.simps) (simp add: Let_def keeps_stack_def split del: if_split)
  show ?case
  proof (cases nf)
    case None
    show ?thesis
      by (rule exI [of _ "[f1]"], rule exI [of _ "[]"]) (simp add: step None ctx walk_loop.simps [of w _ None])
  next
    case (Some g)
    from walk_without_resolver [OF assms(1,2,4), of "frames @ [f1]" nf ?n ?wo co] Nil(1) obtain rest wo' where
      "walk_loop w (keeps_stack (amd64_GetCallerFrame w memory)) nf (frames @ [f1]) ?n ?wo co s =
        Some (True, (frames @ [f1]) @ rest, wo', co, s)" by auto
    then have all: "walk_loop w (keeps_stack (amd64_GetCallerFrame w memory)) (Some f) frames n wo co s =
        Some (True, frames @ [f1] @ rest, wo', co, s) \<and>
      map saved_registers [f1] = [saved_registers f] \<and> (max_frames_scanned w = 0 \<longrightarrow> rest = [])"
      using ctx stop Some unfolding step by auto
    show ?thesis by (rule exI [of _ "[f1]"], rule exI [of _ rest], rule exI [of _ wo'], rule all)
  qed
next
  case (Cons p chain)
  obtain ip b' where p: "p = (ip, b')" by fastforce
  obtain f1 where fill: "FillSourceLineInfo s (walker_modules w) (unloaded_modules w) (system_info w) f = Some (kError, f1, s)"
    "same_frame f f1" using fill_without_resolver [OF assms(1)] by blast
  have ctx: "amd64_context f1 = amd64_context f" using fill(2) by (cases f; cases f1) (simp add: same_frame_def)
  let ?n = "if dubious (trust f1) then n + 1 else n"
  have below: "below_caller (frames @ [f1])" using Cons.prems(3) ctx by (simp add: below_caller_def)
  obtain f2 where f2: "amd64_GetCallerFrame w memory s (frames @ [f1]) (?n < max_frames_scanned w) = Some (Some f2, s)"
    "saved_registers f2 = (ip, b')" "rsp (amd64_context f2) = rbp (amd64_context f) + 16"
    using frame_pointer_step [OF assms(1-3) below, of ip b' chain] Cons.prems(2) p ctx by auto
  have "rbp (amd64_context f) + 16 \<le> b'" and chain: "frame_chain memory b' chain"
    using Cons.prems(2) p by auto
  then have below2: "chain \<noteq> [] \<longrightarrow> below_caller ((frames @ [f1]) @ [f2])"
    using f2(2,3) by (cases chain) (auto simp: below_caller_def Let_def)
  have len: "length (frames @ [f1]) + length chain < unat (max_frames w)" using Cons.prems(1) by simp
  have chain2: "frame_chain memory (rbp (amd64_context f2)) chain" using chain f2(2) by simp
  obtain frames' rest wo' where
    "walk_loop w (keeps_stack (amd64_GetCallerFrame w memory)) (Some f2) (frames @ [f1])
      ?n (InsertSpecialAttentionModule (frame_module f1) wo) co s =
      Some (True, (frames @ [f1]) @ frames' @ rest, wo', co, s)" "map saved_registers frames' = saved_registers f2 # chain"
    "max_frames_scanned w = 0 \<longrightarrow> rest = []"
    using Cons.IH [OF len chain2 below2, of ?n "InsertSpecialAttentionModule (frame_module f1) wo"]
    by (elim exE conjE) (rule that)
  moreover have "walk_loop w (keeps_stack (amd64_GetCallerFrame w memory)) (Some f) frames n wo co s =
      walk_loop w (keeps_stack (amd64_GetCallerFrame w memory)) (Some f2) (frames @ [f1])
      ?n (InsertSpecialAttentionModule (frame_module f1) wo) co s"
    using Cons.prems(1) fill(1) f2(1)
    by (subst walk_loop.simps) (simp add: Let_def keeps_stack_def split del: if_split)
  ultimately have all: "walk_loop w (keeps_stack (amd64_GetCallerFrame w memory)) (Some f) frames n wo co s =
      Some (True, frames @ (f1 # frames') @ rest, wo', co, s) \<and>
    map saved_registers (f1 # frames') = saved_registers f # p # chain \<and> (max_frames_scanned w = 0 \<longrightarrow> rest = [])"
    using f2(2) ctx p by simp
  show ?case by (rule exI [of _ "f1 # frames'"], rule exI [of _ rest], rule exI [of _ wo'], rule all)
qed

text \<open>
  C10: a stack whose functions keep frame pointers is walked. Without symbols, when the frame
  pointer of the context leads through a chain of saved frame pointers and return addresses in
  the stack memory, \<open>Walk\<close> completes, and the frames it returns begin with the context frame
  and the frames of the chain, in their order. When scanning is switched off there are no
  others; with scanning, which is on by default, frames that are found by a scan behind the end
  of the chain may follow, and the stack memory must not reach the top of the address space.
\<close>

theorem amd64_Walk_frame_chain:
  assumes "resolver s = None" and "runs_native w" and "memory \<noteq> None"
    and "max_frames_scanned w = 0 \<or> below_top memory" and "length chain < unat (max_frames w)"
    and "frame_chain memory (rbp c) chain" and "rsp c \<le> rbp c + 16"
  shows "\<exists>frames scanned without'.
    Walk w (amd64_GetContextFrame (Some c)) (keeps_stack (amd64_GetCallerFrame w memory)) without corrupt s =
      Some (True, frames @ scanned, without', corrupt, s) \<and>
    map saved_registers frames = (rip c, rbp c) # chain \<and> (max_frames_scanned w = 0 \<longrightarrow> scanned = [])"
proof -
  let ?f = "StackFrameAMD64_new\<lparr>amd64_context := c, context_validity := CONTEXT_VALID_ALL,
    trust := FRAME_TRUST_CONTEXT, instruction := rip c\<rparr>"
  have ctx: "amd64_context ?f = c" by simp
  have "below_caller ([] @ [?f])" using assms(7) ctx unfolding below_caller_def Let_def by simp
  then show ?thesis
    using walk_frame_chain [OF assms(1-4), of "[]" chain ?f 0 without corrupt] assms(5,6) ctx
    unfolding Walk_def amd64_GetContextFrame_def by auto
qed

definition example_walker :: WalkerConfig where
  "example_walker = \<lparr>system_info = Some example_info, walker_modules = None, unloaded_modules = None,
     max_frames = 10, max_frames_scanned = 0\<rparr>"

definition example_stack :: "u64 memory_region" where
  "example_stack = Some (\<lambda>a. if a = 0x1000 then Some 0x1020 else if a = 0x1008 then Some 0x400010
     else if a = 0x1020 then Some 0x1040 else if a = 0x1028 then Some 0x400020
     else if a = 0x1040 then Some 0 else None)"

lemma example_chain: "frame_chain example_stack 0x1000 [(0x400010, 0x1020), (0x400020, 0x1040)]"
  by (simp add: example_stack_def read_memory_def is_non_canonical_def)

text \<open>The example with the scan allowed as often as in the code.\<close>

theorem amd64_Walk_frame_chain_witness:
  "\<exists>frames scanned without'. Walk (example_walker\<lparr>max_frames_scanned := push_bit 14 1\<rparr>)
      (amd64_GetContextFrame (Some (amd64_zero\<lparr>rip := 0x400000, rbp := 0x1000, rsp := 0xff0\<rparr>)))
      (keeps_stack (amd64_GetCallerFrame (example_walker\<lparr>max_frames_scanned := push_bit 14 1\<rparr>) example_stack)) [] []
      (StackFrameSymbolizer_new None None) =
      Some (True, frames @ scanned, without', [], StackFrameSymbolizer_new None None) \<and>
    map saved_registers frames = [(0x400000, 0x1000), (0x400010, 0x1020), (0x400020, 0x1040)]"
proof -
  have "below_top example_stack" by (auto simp: below_top_def example_stack_def read_memory_def split: if_splits)
  with amd64_Walk_frame_chain [of "StackFrameSymbolizer_new None None" "example_walker\<lparr>max_frames_scanned := push_bit 14 1\<rparr>"
      example_stack "[(0x400010, 0x1020), (0x400020, 0x1040)]" "amd64_zero\<lparr>rip := 0x400000, rbp := 0x1000, rsp := 0xff0\<rparr>" "[]" "[]"]
    example_chain
  show ?thesis
    by (simp add: runs_native_def example_walker_def example_info_def StackFrameSymbolizer_new_def example_stack_def del: frame_chain.simps)
qed

section \<open>Call frame information\<close>

lemma amd64_recovered:
  assumes "FindCallerRegisters amd64_cfi_register_map amd64_filled_da memory cfi context validity = Some (Some (c', v'))"
  obtains regs where
    "FindCallerRegs cfi (callee_registers_of amd64_cfi_register_map context validity Map.empty) memory = Some (Some regs)"
    "\<And>r. r \<in> set amd64_cfi_register_map \<Longrightarrow>
       (case caller_value r context validity regs of
          Some x \<Rightarrow> context_get r c' = x \<and> v' AND validity_flag r \<noteq> 0
        | None \<Rightarrow> v' AND validity_flag r = 0)"
proof -
  obtain regs where regs:
    "FindCallerRegs cfi (callee_registers_of amd64_cfi_register_map context validity Map.empty) memory = Some (Some regs)"
    "fill_caller_context amd64_cfi_register_map context validity regs (amd64_filled_da, 0) = (c', v')"
    using assms by (auto simp: FindCallerRegisters_def bind_eq_Some_conv split: option.splits)
  have "case caller_value r context validity regs of
      Some x \<Rightarrow> context_get r c' = x \<and> v' AND validity_flag r \<noteq> 0 | None \<Rightarrow> v' AND validity_flag r = 0"
    if "r \<in> set amd64_cfi_register_map" for r
    using amd64_registers.recovered_registers [OF that regs(2)] by (auto split: option.splits)
  with regs(1) show thesis by (rule that)
qed

text \<open>
  C35: the caller that \<open>GetCallerByCFIFrameInfo\<close> recovers. Its stack pointer is the value the
  rules give \<open>$rsp\<close>, or else the CFA, and its instruction pointer the one for \<open>$rip\<close>, or
  else the return address; neither is null. The frame pointer is the value of its rule; without
  one it is the callee's, and counts as valid, exactly when it was valid in the callee.
\<close>

theorem amd64_CFI_caller:
  assumes "amd64_GetCallerByCFIFrameInfo memory frames cfi = Some (Some frame)"
  defines "last_context \<equiv> amd64_context (last frames)" and "last_validity \<equiv> context_validity (last frames)"
  defines "new_context \<equiv> amd64_context frame"
  shows "\<exists>regs. FindCallerRegs cfi (callee_registers_of amd64_cfi_register_map last_context last_validity Map.empty) memory =
      Some (Some regs) \<and>
    Some (rsp new_context) = (if regs ''$rsp'' = None then regs ''.cfa'' else regs ''$rsp'') \<and>
    Some (rip new_context) = (if regs ''$rip'' = None then regs ''.ra'' else regs ''$rip'') \<and>
    rsp new_context \<noteq> 0 \<and> rip new_context \<noteq> 0 \<and>
    (case regs ''$rbp'' of
       Some v \<Rightarrow> rbp new_context = v \<and> context_validity frame AND CONTEXT_VALID_RBP \<noteq> 0
     | None \<Rightarrow> (last_validity AND CONTEXT_VALID_RBP \<noteq> 0 \<longrightarrow> rbp new_context = rbp last_context) \<and>
               (context_validity frame AND CONTEXT_VALID_RBP \<noteq> 0 \<longleftrightarrow> last_validity AND CONTEXT_VALID_RBP \<noteq> 0))"
proof -
  let ?ess = "CONTEXT_VALID_RIP OR CONTEXT_VALID_RSP"
  note run = assms(1) [unfolded amd64_GetCallerByCFIFrameInfo_def Let_def, folded last_context_def last_validity_def]
  obtain c' v' where found: "FindCallerRegisters amd64_cfi_register_map amd64_filled_da memory cfi last_context last_validity =
      Some (Some (c', v'))"
    using run by (auto simp: bind_eq_Some_conv split: option.splits)
  then have ess: "v' AND ?ess = ?ess" "rip c' \<noteq> 0" "rsp c' \<noteq> 0"
    and frame: "new_context = c'" "context_validity frame = v'"
    using run by (auto simp: new_context_def split: if_splits)
  obtain regs where regs: "FindCallerRegs cfi (callee_registers_of amd64_cfi_register_map last_context last_validity Map.empty) memory =
      Some (Some regs)" and rec: "\<And>r. r \<in> set amd64_cfi_register_map \<Longrightarrow>
       (case caller_value r last_context last_validity regs of
          Some x \<Rightarrow> context_get r c' = x \<and> v' AND validity_flag r \<noteq> 0 | None \<Rightarrow> v' AND validity_flag r = 0)"
    using amd64_recovered [OF found] by blast
  have flags: "v' AND CONTEXT_VALID_RSP \<noteq> 0" "v' AND CONTEXT_VALID_RIP \<noteq> 0"
  proof -
    have "v' AND ?ess AND CONTEXT_VALID_RSP = ?ess AND CONTEXT_VALID_RSP"
      "v' AND ?ess AND CONTEXT_VALID_RIP = ?ess AND CONTEXT_VALID_RIP"
      using ess(1) by (simp_all only: flip: and.assoc)
    then show "v' AND CONTEXT_VALID_RSP \<noteq> 0" "v' AND CONTEXT_VALID_RIP \<noteq> 0" by auto
  qed
  have "register ''$rsp'' (Some ''.cfa'') False 7 rsp rsp_update \<in> set amd64_cfi_register_map"
    "register ''$rip'' (Some ''.ra'') False 16 rip rip_update \<in> set amd64_cfi_register_map"
    "register ''$rbp'' None True 6 rbp rbp_update \<in> set amd64_cfi_register_map"
    by (simp_all add: amd64_cfi_register_map_def)
  from this [THEN rec] flags ess regs frame show ?thesis
    by (auto simp: caller_value_def split: option.splits if_splits)
qed

definition example_cfi :: CFIFrameInfo where
  "example_cfi = \<lparr>cfa_rule = unwords (postfix (Bin BINARY_OP_ADD (Var ''$rsp'') (Lit 16))),
     ra_rule = unwords (postfix (Deref (Bin BINARY_OP_SUBTRACT (Var ''.cfa'') (Lit 8)))), register_rules = []\<rparr>"

definition example_amd64 :: StackFrameAMD64 where
  "example_amd64 = StackFrameAMD64_new\<lparr>amd64_context := amd64_zero\<lparr>rip := 0x400000, rbp := 0x1020, rsp := 0xff8\<rparr>,
     context_validity := CONTEXT_VALID_ALL\<rparr>"

lemma example_cfi_found:
  "\<exists>frame. amd64_GetCallerByCFIFrameInfo example_stack [example_amd64] example_cfi = Some (Some frame)"
proof -
  let ?regs = "callee_registers_of amd64_cfi_register_map (amd64_context example_amd64) (context_validity example_amd64) Map.empty"
  have rsp: "?regs ''$rsp'' = Some 0xff8"
    by (simp add: amd64_cfi_register_map_def example_amd64_def)
  have cfa: "evaluate_rule example_stack ?regs (cfa_rule example_cfi) = Some (Some 0x1008)"
    unfolding example_cfi_def CFIFrameInfo.simps
    by (rule evaluate_rule_postfix) (simp_all add: name_ok_def is_word_def rsp)
  have ra: "evaluate_rule example_stack (?regs(''.cfa'' \<mapsto> 0x1008)) (ra_rule example_cfi) = Some (Some 0x1020)"
    unfolding example_cfi_def CFIFrameInfo.simps
    by (rule evaluate_rule_postfix) (simp_all add: name_ok_def is_word_def example_stack_def)
  have "cfa_rule example_cfi \<noteq> []" "ra_rule example_cfi \<noteq> []" "register_rules example_cfi = []"
    by (simp_all add: example_cfi_def unwords_def join_words_def)
  with cfa ra have "FindCallerRegs example_cfi ?regs example_stack = Some (Some [''.ra'' \<mapsto> 0x1020, ''.cfa'' \<mapsto> 0x1008])"
    by (simp add: FindCallerRegs_def Let_def)
  then show ?thesis
    by (simp add: amd64_GetCallerByCFIFrameInfo_def FindCallerRegisters_def Let_def)
      (simp add: amd64_cfi_register_map_def caller_value_def example_amd64_def Let_def)
qed

theorem amd64_CFI_caller_witness:
  "\<exists>frame regs. amd64_GetCallerByCFIFrameInfo example_stack [example_amd64] example_cfi = Some (Some frame) \<and>
     Some (rsp (amd64_context frame)) = (if regs ''$rsp'' = None then regs ''.cfa'' else regs ''$rsp'')"
proof -
  obtain frame where f: "amd64_GetCallerByCFIFrameInfo example_stack [example_amd64] example_cfi = Some (Some frame)"
    using example_cfi_found by blast
  with amd64_CFI_caller [OF f] show ?thesis by blast
qed

end
