(* ===== verification/Stackwalker_ARM64.thy ===== *)
theory Stackwalker_ARM64
  imports Stackwalker_AMD64
begin

text \<open>
  \<open>StackwalkerARM64\<close> (processor/stackwalker_arm64.cc) and \<open>StackFrameARM64\<close>
  (google_breakpad/processor/stack_frame_cpu.h). Of \<open>MDRawContextARM64\<close> the model has the array
  \<open>iregs\<close> of 33 registers, which is all that the walker uses. \<open>GetCallerByFramePointer\<close> may
  correct the link register of the last frame of the stack.
\<close>

section \<open>Model\<close>

type_synonym arm64_iregs = "u64 list"

definition REG_FP :: nat where "REG_FP = 29"
definition REG_LR :: nat where "REG_LR = 30"
definition REG_SP :: nat where "REG_SP = 31"
definition REG_PC :: nat where "REG_PC = 32"

record StackFrameARM64 = StackFrame +
  iregs :: arm64_iregs
  arm64_validity :: u64

definition arm64_RegisterValidFlag :: "nat \<Rightarrow> u64" where
  "arm64_RegisterValidFlag n = push_bit n 1"

definition StackFrameARM64_new :: StackFrameARM64 where
  "StackFrameARM64_new = StackFrame.extend StackFrame_new \<lparr>iregs = replicate 33 0, arm64_validity = 0\<rparr>"

text \<open>The address mask the constructor computes.\<close>

definition smear :: "u64 \<Rightarrow> u64" where
  "smear m =
     (let m = m OR drop_bit 1 m;
          m = m OR drop_bit 2 m;
          m = m OR drop_bit 4 m;
          m = m OR drop_bit 8 m;
          m = m OR drop_bit 16 m;
          m = m OR drop_bit 32 m
      in m)"

definition address_range_mask :: "BasicCodeModules option \<Rightarrow> u64" where
  "address_range_mask modules =
     (case modules of
        None \<Rightarrow> 0xffffffffffffffff
      | Some ms \<Rightarrow>
          if module_count ms > 0 then
            let high_module = the (GetModuleAtSequence ms (module_count ms - 1))
            in smear (base_address high_module + module_size high_module)
          else 0xffffffffffffffff)"

definition PtrauthStrip :: "WalkerConfig \<Rightarrow> u64 \<Rightarrow> u64" where
  "PtrauthStrip w ptr =
     (let stripped = ptr AND address_range_mask (walker_modules w)
      in if find_module (walker_modules w) stripped \<noteq> None then stripped else ptr)"

definition arm64_GetContextFrame :: "WalkerConfig \<Rightarrow> arm64_iregs option \<Rightarrow> StackFrameARM64 option" where
  "arm64_GetContextFrame w context = (case context of
     None \<Rightarrow> None
   | Some c \<Rightarrow> Some (StackFrameARM64_new
       \<lparr>iregs := c[REG_LR := PtrauthStrip w (c ! REG_LR)], arm64_validity := - 1,
        trust := FRAME_TRUST_CONTEXT, instruction := c ! REG_PC\<rparr>))"

definition arm64_register_names :: "string list" where
  "arm64_register_names =
     [''x0'', ''x1'', ''x2'', ''x3'', ''x4'', ''x5'', ''x6'', ''x7'', ''x8'', ''x9'', ''x10'', ''x11'', ''x12'',
      ''x13'', ''x14'', ''x15'', ''x16'', ''x17'', ''x18'', ''x19'', ''x20'', ''x21'', ''x22'', ''x23'', ''x24'',
      ''x25'', ''x26'', ''x27'', ''x28'', ''x29'', ''x30'', ''sp'', ''pc'']"

text \<open>The registers of the callee that are valid, by name.\<close>

fun arm64_callee_registers ::
    "(nat \<times> string) list \<Rightarrow> arm64_iregs \<Rightarrow> u64 \<Rightarrow> (string \<rightharpoonup> u64) \<Rightarrow> (string \<rightharpoonup> u64)" where
  "arm64_callee_registers [] regs validity m = m"
| "arm64_callee_registers ((i, name) # names) regs validity m =
     arm64_callee_registers names regs validity
       (if validity AND arm64_RegisterValidFlag i \<noteq> 0 then m(name \<mapsto> regs ! i) else m)"

fun arm64_fill_caller ::
    "(nat \<times> string) list \<Rightarrow> arm64_iregs \<Rightarrow> u64 \<Rightarrow> (string \<rightharpoonup> u64) \<Rightarrow> arm64_iregs \<times> u64 \<Rightarrow> arm64_iregs \<times> u64" where
  "arm64_fill_caller [] last_regs last_validity caller_registers acc = acc"
| "arm64_fill_caller ((i, name) # names) last_regs last_validity caller_registers (regs, validity) =
     arm64_fill_caller names last_regs last_validity caller_registers
       (case caller_registers name of
          Some v \<Rightarrow> (regs[i := v], validity OR arm64_RegisterValidFlag i)
        | None \<Rightarrow>
            if 19 \<le> i \<and> i \<le> 29 \<and> last_validity AND arm64_RegisterValidFlag i \<noteq> 0
            then (regs[i := last_regs ! i], validity OR arm64_RegisterValidFlag i)
            else (regs, validity))"

definition arm64_pseudo_register ::
    "nat \<Rightarrow> string \<Rightarrow> (string \<rightharpoonup> u64) \<Rightarrow> arm64_iregs \<times> u64 \<Rightarrow> arm64_iregs \<times> u64" where
  "arm64_pseudo_register i name caller_registers acc = (case acc of (regs, validity) \<Rightarrow>
     if validity AND arm64_RegisterValidFlag i = 0 then
       (case caller_registers name of
          Some v \<Rightarrow> (regs[i := v], validity OR arm64_RegisterValidFlag i)
        | None \<Rightarrow> (regs, validity))
     else (regs, validity))"

definition arm64_GetCallerByCFIFrameInfo ::
    "u64 memory_region \<Rightarrow> StackFrameARM64 list \<Rightarrow> CFIFrameInfo \<Rightarrow> StackFrameARM64 option option" where
  "arm64_GetCallerByCFIFrameInfo memory frames cfi_frame_info = do {
     let last_frame = last frames;
     let names = enumerate 0 arm64_register_names;
     let callee_registers = arm64_callee_registers names (iregs last_frame) (arm64_validity last_frame) Map.empty;
     found \<leftarrow> FindCallerRegs cfi_frame_info callee_registers memory;
     (case found of
        None \<Rightarrow> Some None
      | Some caller_registers \<Rightarrow>
          let filled = arm64_fill_caller names (iregs last_frame) (arm64_validity last_frame) caller_registers
                         (replicate 33 0, 0);
              filled = arm64_pseudo_register REG_PC ''.ra'' caller_registers filled;
              filled = arm64_pseudo_register REG_SP ''.cfa'' caller_registers filled;
              essentials = arm64_RegisterValidFlag REG_SP OR arm64_RegisterValidFlag REG_PC in
          if snd filled AND essentials \<noteq> essentials then Some None
          else Some (Some (StackFrameARM64_new\<lparr>iregs := fst filled, arm64_validity := snd filled,
                             trust := FRAME_TRUST_CFI\<rparr>))) }"

definition arm64_GetCallerByStackScan ::
    "WalkerConfig \<Rightarrow> u64 memory_region \<Rightarrow> StackFrameARM64 list \<Rightarrow> StackFrameSymbolizer \<Rightarrow>
     (StackFrameARM64 option \<times> StackFrameSymbolizer) option" where
  "arm64_GetCallerByStackScan w memory frames s = do {
     let last_frame = last frames;
     (found, s) \<leftarrow> ScanForReturnAddress w memory (iregs last_frame ! REG_SP) (length frames = 1) s;
     (case found of
        None \<Rightarrow> Some (None, s)
      | Some (caller_sp, caller_pc) \<Rightarrow>
          Some (Some (StackFrameARM64_new
            \<lparr>trust := FRAME_TRUST_SCAN,
             iregs := (iregs last_frame)[REG_PC := caller_pc, REG_SP := caller_sp + 8],
             arm64_validity := arm64_RegisterValidFlag REG_PC OR arm64_RegisterValidFlag REG_SP\<rparr>), s)) }"

text \<open>A read that is only made for a nonzero base; \<open>None\<close> is the failure.\<close>

definition read_unless_null :: "u64 memory_region \<Rightarrow> u64 \<Rightarrow> u64 \<Rightarrow> u64 option" where
  "read_unless_null memory base' address = (if base' \<noteq> 0 then read_memory memory address else Some 0)"

definition CorrectRegLRByFramePointer ::
    "WalkerConfig \<Rightarrow> u64 memory_region \<Rightarrow> StackFrameARM64 list \<Rightarrow> StackFrameARM64" where
  "CorrectRegLRByFramePointer w memory frames =
     (let last_frame = last frames in
      if length frames < 2 \<or> iregs last_frame ! REG_FP \<le> iregs last_frame ! REG_SP then last_frame
      else
        let last_last_fp = iregs (frames ! (length frames - 2)) ! REG_FP in
        (case read_unless_null memory last_last_fp last_last_fp of
           None \<Rightarrow> last_frame
         | Some last_fp \<Rightarrow>
             if iregs last_frame ! REG_FP \<noteq> last_fp then last_frame
             else (case read_unless_null memory last_last_fp (last_last_fp + 8) of
                None \<Rightarrow> last_frame
              | Some last_lr \<Rightarrow> last_frame\<lparr>iregs := (iregs last_frame)[REG_LR := PtrauthStrip w last_lr]\<rparr>)))"

definition arm64_GetCallerByFramePointer ::
    "WalkerConfig \<Rightarrow> u64 memory_region \<Rightarrow> StackFrameARM64 list \<Rightarrow> StackFrameARM64 \<times> StackFrameARM64 option" where
  "arm64_GetCallerByFramePointer w memory frames =
     (let last_frame = (if arm64_validity (last frames) AND arm64_RegisterValidFlag REG_LR = 0
                        then CorrectRegLRByFramePointer w memory frames else last frames);
          last_fp = iregs last_frame ! REG_FP in
      case read_unless_null memory last_fp last_fp of
        None \<Rightarrow> (last_frame, None)
      | Some caller_fp \<Rightarrow>
          (case read_unless_null memory last_fp (last_fp + 8) of
             None \<Rightarrow> (last_frame, None)
           | Some caller_lr \<Rightarrow>
               let caller_lr = PtrauthStrip w caller_lr;
                   caller_sp = (if last_fp \<noteq> 0 then last_fp + 16 else iregs last_frame ! REG_SP)
               in (last_frame, Some (StackFrameARM64_new
                 \<lparr>trust := FRAME_TRUST_FP,
                  iregs := (iregs last_frame)[REG_FP := caller_fp, REG_SP := caller_sp,
                             REG_PC := iregs last_frame ! REG_LR, REG_LR := caller_lr],
                  arm64_validity := arm64_RegisterValidFlag REG_PC OR arm64_RegisterValidFlag REG_LR OR
                    arm64_RegisterValidFlag REG_FP OR arm64_RegisterValidFlag REG_SP\<rparr>))))"

definition arm64_find_caller ::
    "WalkerConfig \<Rightarrow> u64 memory_region \<Rightarrow> StackFrameSymbolizer \<Rightarrow> StackFrameARM64 list \<Rightarrow> bool \<Rightarrow>
     (StackFrameARM64 \<times> StackFrameARM64 option \<times> StackFrameSymbolizer) option" where
  "arm64_find_caller w memory s frames stack_scan_allowed = do {
     cfi_frame_info \<leftarrow> Symbolizer_FindCFIFrameInfo s (last frames);
     frame \<leftarrow> (case cfi_frame_info of
        None \<Rightarrow> Some None
      | Some cfi \<Rightarrow> arm64_GetCallerByCFIFrameInfo memory frames cfi);
     let by_fp = arm64_GetCallerByFramePointer w memory frames;
     let last_frame = (if frame = None then fst by_fp else last frames);
     let frame = (if frame = None then snd by_fp else frame);
     (frame, s) \<leftarrow> (if stack_scan_allowed \<and> frame = None
        then arm64_GetCallerByStackScan w memory (butlast frames @ [last_frame]) s else Some (frame, s));
     Some (last_frame, frame, s) }"

definition arm64_GetCallerFrame ::
    "WalkerConfig \<Rightarrow> u64 memory_region \<Rightarrow> StackFrameSymbolizer \<Rightarrow> StackFrameARM64 list \<Rightarrow> bool \<Rightarrow>
     (StackFrameARM64 \<times> StackFrameARM64 option \<times> StackFrameSymbolizer) option" where
  "arm64_GetCallerFrame w memory s frames stack_scan_allowed =
     (if memory = None then Some (last frames, None, s)
      else do {
        (last_frame, frame, s) \<leftarrow> arm64_find_caller w memory s frames stack_scan_allowed;
        (case frame of
           None \<Rightarrow> Some (last_frame, None, s)
         | Some frame \<Rightarrow>
             if TerminateWalk (iregs frame ! REG_PC) (iregs frame ! REG_SP) (iregs last_frame ! REG_SP) (length frames = 1)
             then Some (last_frame, None, s)
             else Some (last_frame, Some (frame\<lparr>instruction := iregs frame ! REG_PC - 4\<rparr>), s)) })"

section \<open>Interface\<close>

text \<open>The correction of the callee changes neither its stack pointer nor its instruction.\<close>

definition same_place :: "StackFrameARM64 \<Rightarrow> StackFrameARM64 \<Rightarrow> bool" where
  "same_place f g \<longleftrightarrow> iregs f ! REG_SP = iregs g ! REG_SP \<and> instruction f = instruction g"

lemma same_place_refl [simp]: "same_place f f"
  by (simp add: same_place_def)

lemma CorrectReg_sp: "same_place (CorrectRegLRByFramePointer w memory frames) (last frames)"
  by (simp add: CorrectRegLRByFramePointer_def Let_def split: option.splits)
    (simp add: same_place_def REG_LR_def REG_SP_def)

lemma FramePointer_sp: "same_place (fst (arm64_GetCallerByFramePointer w memory frames)) (last frames)"
  by (simp add: arm64_GetCallerByFramePointer_def Let_def CorrectReg_sp split: option.splits)

lemma find_caller_sp:
  assumes "arm64_find_caller w memory s frames scan = Some (g, frame, s')"
  shows "same_place g (last frames)"
  using assms FramePointer_sp [of w memory frames]
  by (auto simp: arm64_find_caller_def Let_def bind_eq_Some_conv split: if_splits)

lemma arm64_caller_bounds:
  assumes "arm64_GetCallerFrame w memory s frames scan = Some (g, frame, s')"
  shows "same_place g (last frames) \<and> (\<forall>f. frame = Some f \<longrightarrow>
      iregs f ! REG_PC \<ge> 4096 \<and> instruction f = iregs f ! REG_PC - 4 \<and>
      (if length frames = 1 then iregs (last frames) ! REG_SP \<le> iregs f ! REG_SP
       else iregs (last frames) ! REG_SP < iregs f ! REG_SP))"
proof (cases memory)
  case None
  with assms show ?thesis by (auto simp: arm64_GetCallerFrame_def)
next
  case (Some m)
  obtain g1 fr s1 where found: "arm64_find_caller w memory s frames scan = Some (g1, fr, s1)"
    using assms Some unfolding arm64_GetCallerFrame_def by (auto simp: bind_eq_Some_conv)
  note sp = find_caller_sp [OF found]
  show ?thesis
  proof (cases fr)
    case None
    with assms Some found sp show ?thesis by (auto simp: arm64_GetCallerFrame_def)
  next
    case fr: (Some f)
    let ?stop = "TerminateWalk (iregs f ! REG_PC) (iregs f ! REG_SP) (iregs g1 ! REG_SP) (length frames = 1)"
    have "(if ?stop then Some (g1, None, s1) else Some (g1, Some (f\<lparr>instruction := iregs f ! REG_PC - 4\<rparr>), s1)) =
        Some (g, frame, s')"
      using assms Some found fr by (simp add: arm64_GetCallerFrame_def)
    with sp show ?thesis by (auto simp: same_place_def TerminateWalk_def not_less not_le split: if_splits)
  qed
qed

lemma arm64_more: "StackFrame.more f = StackFrame.more g \<Longrightarrow> iregs f = iregs g" for f g :: StackFrameARM64
  by (cases f; cases g) simp

interpretation arm64_walker: cpu_walker "arm64_GetCallerFrame w memory" "\<lambda>f. iregs f ! REG_SP" for w memory
  by unfold_locales (use arm64_caller_bounds in \<open>force simp: same_place_def dest: arm64_more\<close>)+

section \<open>Pointer authentication\<close>

text \<open>\<open>y\<close> has a bit where \<open>x\<close> has one in the window of \<open>m\<close> bits from there on.\<close>

definition smeared :: "u64 \<Rightarrow> nat \<Rightarrow> u64 \<Rightarrow> bool" where
  "smeared x m y \<longleftrightarrow> (\<forall>n. bit y n \<longleftrightarrow> (\<exists>j<m. bit x (n + j)))"

lemma smeared_step:
  assumes y: "smeared x m y" and k: "k = m + m" shows "smeared x k (y OR drop_bit m y)"
proof -
  have "(\<exists>j<m. bit x (n + j)) \<or> (\<exists>j<m. bit x (m + n + j)) \<longleftrightarrow> (\<exists>j<m + m. bit x (n + j))" for n
  proof
    assume "(\<exists>j<m. bit x (n + j)) \<or> (\<exists>j<m. bit x (m + n + j))"
    then show "\<exists>j<m + m. bit x (n + j)"
      by (metis add.commute add.left_commute nat_add_left_cancel_less trans_less_add1)
  next
    assume "\<exists>j<m + m. bit x (n + j)"
    then obtain j where j: "j < m + m" "bit x (n + j)" by blast
    show "(\<exists>j<m. bit x (n + j)) \<or> (\<exists>j<m. bit x (m + n + j))"
    proof (cases "j < m")
      case False
      then have "j - m < m" "m + n + (j - m) = n + j" using j(1) by auto
      with j(2) show ?thesis by metis
    qed (use j in blast)
  qed
  then show ?thesis unfolding k using y by (simp add: smeared_def bit_or_iff bit_drop_bit_eq add.commute)
qed

lemma smear_bits: "bit (smear x) n \<longleftrightarrow> (\<exists>k\<ge>n. bit x k)"
proof -
  have start: "smeared x 1 x" by (simp add: smeared_def)
  have "smeared x 64 (smear x)"
    unfolding smear_def Let_def
    by (rule smeared_step, rule smeared_step, rule smeared_step, rule smeared_step, rule smeared_step,
        rule smeared_step [OF start]) simp_all
  then have "bit (smear x) n \<longleftrightarrow> (\<exists>j<64. bit x (n + j))" by (simp add: smeared_def)
  also have "\<dots> \<longleftrightarrow> (\<exists>k\<ge>n. bit x k)"
  proof
    assume "\<exists>k\<ge>n. bit x k"
    then obtain k where k: "n \<le> k" "bit x k" by blast
    have "k < 64" using bit_imp_le_length [OF k(2)] by simp
    with k show "\<exists>j<64. bit x (n + j)" by (intro exI [of _ "k - n"]) auto
  qed (metis le_add1)
  finally show ?thesis .
qed

lemma below_smear:
  assumes "p \<le> x" shows "p AND smear x = p"
proof (rule bit_word_eqI)
  fix n assume "n < LENGTH(64)"
  have "\<exists>k\<ge>n. bit x k" if "bit p n"
  proof (rule ccontr)
    assume "\<not> (\<exists>k\<ge>n. bit x k)"
    then have "take_bit n x = x" by (intro bit_word_eqI) (auto simp: bit_take_bit_iff, meson not_le)
    moreover have "unat (take_bit n x) < 2 ^ n" by (simp add: unsigned_take_bit_eq)
    ultimately have "unat x < 2 ^ n" by simp
    moreover have "2 ^ n \<le> unat p"
    proof -
      have "bit (unat p) n" using that bit_imp_le_length [OF that] by (simp add: bit_unsigned_iff)
      then have "odd (unat p div 2 ^ n)" by (simp add: bit_iff_odd)
      then show ?thesis by (metis div_less even_zero not_le)
    qed
    ultimately show False using assms by (simp add: word_le_nat_alt)
  qed
  then show "bit (p AND smear x) n = bit p n" by (auto simp: bit_and_iff smear_bits)
qed

lemma last_range_high:
  assumes "ranges_inv rs" and "q \<in> set rs" shows "fst q \<le> fst (last rs)"
proof (cases rs rule: rev_cases)
  case (snoc xs y)
  have "std_map_inv rs" using assms(1) by (rule ranges_inv_std)
  with snoc assms(2) show ?thesis by (cases y) (auto simp: less_imp_le)
qed (use assms(2) in simp)

lemma mask_covers_modules:
  assumes "range_map_inv (modules_map ms)" and "list_all own_range (rm_map (modules_map ms))"
    and "\<forall>c\<in>set (modules_by_index ms). base_address c + module_size c \<noteq> 0"
    and "GetModuleForAddress ms p = Some c"
  shows "p AND address_range_mask (Some ms) = p"
proof -
  let ?rs = "rm_map (modules_map ms)"
  have inv: "ranges_inv ?rs" using assms(1) by (simp add: range_map_inv_def)
  obtain q where q: "q \<in> set ?rs" "covers p q"
    using assms(4) find_SomeD by (fastforce simp: GetModuleForAddress_def RetrieveRange_find [OF assms(1)])
  then have ne: "?rs \<noteq> []" by auto
  define l where "l = last ?rs"
  have l: "l \<in> set ?rs" "own_range l" using ne assms(2) by (auto simp: l_def list_all_iff)
  have len: "length ?rs - 1 < length ?rs" using ne by (cases ?rs) auto
  have seq: "GetModuleAtSequence ms (module_count ms - 1) = Some (entry (snd l))"
    using ne len by (simp add: GetModuleAtSequence_def RangeMap_RetrieveRangeAtIndex_def module_count_def RangeMap_GetCount_def
        l_def last_conv_nth range_outputs_def not_le split: prod.splits)
  let ?c = "entry (snd l)"
  have c: "?c \<in> set (modules_by_index ms)" using l(1) by (simp add: modules_by_index_entries)
  then have "1 + fst l \<noteq> 0" using assms(3) l(2) by (auto simp: own_range_def algebra_simps)
  then have "fst l \<le> fst l + 1" using unatSuc [of "fst l"] by (simp add: word_le_nat_alt add.commute)
  moreover have "base_address ?c + module_size ?c = fst l + 1" using l(2) by (simp add: own_range_def)
  moreover have "p \<le> fst l"
    using q last_range_high [OF inv q(1)] by (auto simp: covers_def l_def)
  ultimately have "p \<le> base_address ?c + module_size ?c" by simp
  moreover have "0 < module_count ms" using ne by (simp add: module_count_def RangeMap_GetCount_def)
  ultimately show ?thesis by (simp add: address_range_mask_def seq [unfolded One_nat_def] below_smear Let_def)
qed

text \<open>
  C17: \<open>PtrauthStrip\<close> removes a pointer authentication code. When the modules have disjoint
  ranges below the top of the address space, an address inside a module comes back unchanged,
  whatever has been put into the bits above the address range of the modules.
\<close>

theorem PtrauthStrip_signed:
  assumes "walker_modules w = Some ms" and "range_map_inv (modules_map ms)" and "list_all own_range (rm_map (modules_map ms))"
    and "\<forall>c\<in>set (modules_by_index ms). base_address c + module_size c \<noteq> 0"
    and "GetModuleForAddress ms p = Some c"
  shows "PtrauthStrip w (p OR (code AND NOT (address_range_mask (Some ms)))) = p"
proof -
  let ?m = "address_range_mask (Some ms)"
  have "p AND ?m = p" using mask_covers_modules [OF assms(2-5)] .
  then have "(p OR (code AND NOT ?m)) AND ?m = p"
    by (simp add: bit.conj_disj_distrib2 and.assoc)
  with assms(1,5) show ?thesis by (simp add: PtrauthStrip_def find_module_def)
qed

lemma example_modules_ok:
  "range_map_inv (modules_map example_modules)" "list_all own_range (rm_map (modules_map example_modules))"
  "\<forall>c\<in>set (modules_by_index example_modules). base_address c + module_size c \<noteq> 0"
  by (simp_all add: example_modules_def range_map_inv_def range_ok_def own_range_def example_module_c_def
      CodeModule_new_def modules_by_index_entries)

theorem PtrauthStrip_signed_witness:
  "PtrauthStrip (example_walker\<lparr>walker_modules := Some example_modules\<rparr>)
     (70000 OR (0x7f00000000000000 AND NOT (address_range_mask (Some example_modules)))) = 70000"
proof -
  have "GetModuleForAddress example_modules 70000 = Some example_module_c"
    by (simp add: GetModuleForAddress_def RetrieveRange_find [OF example_modules_ok(1)])
      (simp add: example_modules_def covers_def range_outputs_def)
  from PtrauthStrip_signed [OF _ example_modules_ok this] show ?thesis by simp
qed

end
