(* ===== verification/Stackwalker_ARM.thy ===== *)
theory Stackwalker_ARM
  imports Stackwalker
begin

text \<open>
  \<open>StackwalkerARM\<close> (processor/stackwalker_arm.cc) and \<open>StackFrameARM\<close>
  (google_breakpad/processor/stack_frame_cpu.h). Of \<open>MDRawContextARM\<close> the model has the array
  \<open>iregs\<close> of 16 registers, as a function of the register number; an access outside of the array
  is undefined behaviour, the outer \<^const>\<open>None\<close> of the results.
\<close>

unbundle bit_operations_syntax

section \<open>Model\<close>

type_synonym arm_iregs = "nat \<Rightarrow> u32"

definition MD_CONTEXT_ARM_GPR_COUNT :: nat where "MD_CONTEXT_ARM_GPR_COUNT = 16"

definition ARM_REG_SP :: nat where "ARM_REG_SP = 13"
definition ARM_REG_LR :: nat where "ARM_REG_LR = 14"
definition ARM_REG_PC :: nat where "ARM_REG_PC = 15"

record StackFrameARM = StackFrame +
  arm_regs :: arm_iregs
  arm_validity :: u32

definition StackFrameARM_new :: StackFrameARM where
  "StackFrameARM_new = StackFrame.extend StackFrame_new \<lparr>arm_regs = (\<lambda>_. 0), arm_validity = 0\<rparr>"

definition arm_RegisterValidFlag :: "nat \<Rightarrow> u32" where
  "arm_RegisterValidFlag n = push_bit n 1"

definition arm_read :: "arm_iregs \<Rightarrow> nat \<Rightarrow> u32 option" where
  "arm_read regs i = (if i < MD_CONTEXT_ARM_GPR_COUNT then Some (regs i) else None)"

definition arm_write :: "arm_iregs \<Rightarrow> nat \<Rightarrow> u32 \<Rightarrow> arm_iregs option" where
  "arm_write regs i v = (if i < MD_CONTEXT_ARM_GPR_COUNT then Some (regs(i := v)) else None)"

text \<open>The validity of the context frame is that of all registers unless it is set otherwise.\<close>

definition arm_context_frame_validity :: u32 where "arm_context_frame_validity = - 1"

definition arm_GetContextFrame :: "u32 \<Rightarrow> arm_iregs option \<Rightarrow> StackFrameARM option" where
  "arm_GetContextFrame validity context = (case context of
     None \<Rightarrow> None
   | Some c \<Rightarrow> Some (StackFrameARM_new\<lparr>arm_regs := c, arm_validity := validity,
                       trust := FRAME_TRUST_CONTEXT, instruction := ucast (c ARM_REG_PC)\<rparr>))"

definition arm_register_names :: "string list" where
  "arm_register_names =
     [''r0'', ''r1'', ''r2'', ''r3'', ''r4'', ''r5'', ''r6'', ''r7'',
      ''r8'', ''r9'', ''r10'', ''r11'', ''r12'', ''sp'', ''lr'', ''pc'',
      ''f0'', ''f1'', ''f2'', ''f3'', ''f4'', ''f5'', ''f6'', ''f7'',
      ''fps'', ''cpsr'']"

fun arm_callee_registers ::
    "(nat \<times> string) list \<Rightarrow> arm_iregs \<Rightarrow> u32 \<Rightarrow> (string \<rightharpoonup> u32) \<Rightarrow> (string \<rightharpoonup> u32) option" where
  "arm_callee_registers [] regs validity m = Some m"
| "arm_callee_registers ((i, name) # names) regs validity m =
     (if validity AND arm_RegisterValidFlag i \<noteq> 0
      then do {
        v \<leftarrow> arm_read regs i;
        arm_callee_registers names regs validity (m(name \<mapsto> v)) }
      else arm_callee_registers names regs validity m)"

fun arm_fill_caller ::
    "(nat \<times> string) list \<Rightarrow> arm_iregs \<Rightarrow> u32 \<Rightarrow> (string \<rightharpoonup> u32) \<Rightarrow> arm_iregs \<Rightarrow> u32 \<Rightarrow> (arm_iregs \<times> u32) option" where
  "arm_fill_caller [] last_regs last_validity caller_registers regs validity = Some (regs, validity)"
| "arm_fill_caller ((i, name) # names) last_regs last_validity caller_registers regs validity =
     (case caller_registers name of
        Some v \<Rightarrow> do {
          regs \<leftarrow> arm_write regs i v;
          arm_fill_caller names last_regs last_validity caller_registers regs (validity OR arm_RegisterValidFlag i) }
      | None \<Rightarrow>
          if 4 \<le> i \<and> i \<le> 11 \<and> last_validity AND arm_RegisterValidFlag i \<noteq> 0
          then do {
            v \<leftarrow> arm_read last_regs i;
            regs \<leftarrow> arm_write regs i v;
            arm_fill_caller names last_regs last_validity caller_registers regs (validity OR arm_RegisterValidFlag i) }
          else arm_fill_caller names last_regs last_validity caller_registers regs validity)"

text \<open>
  The program counter from \<open>.ra\<close>: with a frame pointer register the rules recover the link
  register, and the program counter is the link register of the callee.
\<close>

definition arm_recover_pc ::
    "int \<Rightarrow> arm_iregs \<Rightarrow> (string \<rightharpoonup> u32) \<Rightarrow> arm_iregs \<Rightarrow> u32 \<Rightarrow> arm_iregs \<times> u32" where
  "arm_recover_pc fp_register last_regs caller_registers regs validity =
     (if validity AND arm_RegisterValidFlag ARM_REG_PC = 0 then
        (case caller_registers ''.ra'' of
           None \<Rightarrow> (regs, validity)
         | Some ra \<Rightarrow>
             if fp_register = -1
             then (regs(ARM_REG_PC := ra), validity OR arm_RegisterValidFlag ARM_REG_PC)
             else (regs(ARM_REG_LR := ra, ARM_REG_PC := last_regs ARM_REG_LR),
                   validity OR arm_RegisterValidFlag ARM_REG_PC OR arm_RegisterValidFlag ARM_REG_LR))
      else (regs, validity))"

definition arm_recover_sp :: "(string \<rightharpoonup> u32) \<Rightarrow> arm_iregs \<Rightarrow> u32 \<Rightarrow> arm_iregs \<times> u32" where
  "arm_recover_sp caller_registers regs validity =
     (if validity AND arm_RegisterValidFlag ARM_REG_SP = 0 then
        (case caller_registers ''.cfa'' of
           None \<Rightarrow> (regs, validity)
         | Some cfa \<Rightarrow> (regs(ARM_REG_SP := cfa), validity OR arm_RegisterValidFlag ARM_REG_SP))
      else (regs, validity))"

definition arm_GetCallerByCFIFrameInfo ::
    "int \<Rightarrow> u32 memory_region \<Rightarrow> StackFrameARM list \<Rightarrow> CFIFrameInfo \<Rightarrow> StackFrameARM option option" where
  "arm_GetCallerByCFIFrameInfo fp_register memory frames cfi_frame_info = do {
     let last_frame = last frames;
     let names = enumerate 0 arm_register_names;
     callee_registers \<leftarrow> arm_callee_registers names (arm_regs last_frame) (arm_validity last_frame) Map.empty;
     found \<leftarrow> FindCallerRegs cfi_frame_info callee_registers memory;
     (case found of
        None \<Rightarrow> Some None
      | Some caller_registers \<Rightarrow> do {
          (regs, validity) \<leftarrow>
            arm_fill_caller names (arm_regs last_frame) (arm_validity last_frame) caller_registers (\<lambda>_. 0) 0;
          let (regs, validity) = arm_recover_pc fp_register (arm_regs last_frame) caller_registers regs validity;
          let (regs, validity) = arm_recover_sp caller_registers regs validity;
          let essentials = arm_RegisterValidFlag ARM_REG_SP OR arm_RegisterValidFlag ARM_REG_PC;
          if validity AND essentials \<noteq> essentials then Some None
          else Some (Some (StackFrameARM_new\<lparr>arm_regs := regs, arm_validity := validity, trust := FRAME_TRUST_CFI\<rparr>)) }) }"

definition arm_GetCallerByStackScan ::
    "WalkerConfig \<Rightarrow> u32 memory_region \<Rightarrow> StackFrameARM list \<Rightarrow> StackFrameSymbolizer \<Rightarrow>
     (StackFrameARM option \<times> StackFrameSymbolizer) option" where
  "arm_GetCallerByStackScan w memory frames s = do {
     let last_frame = last frames;
     (found, s) \<leftarrow> ScanForReturnAddress w memory (arm_regs last_frame ARM_REG_SP) (length frames = 1) s;
     (case found of
        None \<Rightarrow> Some (None, s)
      | Some (caller_sp, caller_pc) \<Rightarrow>
          Some (Some (StackFrameARM_new
            \<lparr>trust := FRAME_TRUST_SCAN,
             arm_regs := (arm_regs last_frame)(ARM_REG_PC := caller_pc, ARM_REG_SP := caller_sp + 4),
             arm_validity := arm_RegisterValidFlag ARM_REG_PC OR arm_RegisterValidFlag ARM_REG_SP\<rparr>), s)) }"

text \<open>The register is the one of the constructor; a shift or an index that is too large is undefined.\<close>

definition arm_GetCallerByFramePointer ::
    "nat \<Rightarrow> u32 memory_region \<Rightarrow> StackFrameARM list \<Rightarrow> StackFrameARM option option" where
  "arm_GetCallerByFramePointer fp_register memory frames =
     (let last_frame = last frames; last_regs = arm_regs last_frame in
      if fp_register \<ge> 32 then None
      else if arm_validity last_frame AND arm_RegisterValidFlag fp_register = 0 then Some None
      else do {
        last_fp \<leftarrow> arm_read last_regs fp_register;
        let caller_fp = (if last_fp \<noteq> 0 then read_memory memory (ucast last_fp) else Some 0);
        let caller_lr = (if last_fp \<noteq> 0 then read_memory memory (ucast (last_fp + 4)) else Some 0);
        (case (caller_fp, caller_lr) of
           (Some caller_fp, Some caller_lr) \<Rightarrow>
             let caller_sp = (if last_fp \<noteq> 0 then last_fp + 8 else last_regs ARM_REG_SP) in
             Some (Some (StackFrameARM_new
               \<lparr>trust := FRAME_TRUST_FP,
                arm_regs := last_regs(fp_register := caller_fp, ARM_REG_SP := caller_sp,
                                      ARM_REG_PC := last_regs ARM_REG_LR, ARM_REG_LR := caller_lr),
                arm_validity := arm_RegisterValidFlag ARM_REG_PC OR arm_RegisterValidFlag ARM_REG_LR OR
                                arm_RegisterValidFlag fp_register OR arm_RegisterValidFlag ARM_REG_SP\<rparr>))
         | _ \<Rightarrow> Some None) })"

definition arm_uses_cfi :: "WalkerConfig \<Rightarrow> bool" where
  "arm_uses_cfi w \<longleftrightarrow> (case system_info w of None \<Rightarrow> True | Some info \<Rightarrow> os info \<noteq> ''iOS'')"

definition arm_find_caller ::
    "WalkerConfig \<Rightarrow> int \<Rightarrow> u32 memory_region \<Rightarrow> StackFrameSymbolizer \<Rightarrow> StackFrameARM list \<Rightarrow> bool \<Rightarrow>
     (StackFrameARM option \<times> StackFrameSymbolizer) option" where
  "arm_find_caller w fp_register memory s frames stack_scan_allowed = do {
     frame \<leftarrow> (if arm_uses_cfi w then do {
         cfi_frame_info \<leftarrow> Symbolizer_FindCFIFrameInfo s (last frames);
         (case cfi_frame_info of
            None \<Rightarrow> Some None
          | Some cfi \<Rightarrow> arm_GetCallerByCFIFrameInfo fp_register memory frames cfi) }
       else Some None);
     frame \<leftarrow> (if fp_register \<ge> 0 \<and> frame = None
               then arm_GetCallerByFramePointer (nat fp_register) memory frames else Some frame);
     if stack_scan_allowed \<and> frame = None then arm_GetCallerByStackScan w memory frames s
     else Some (frame, s) }"

definition arm_GetCallerFrame ::
    "WalkerConfig \<Rightarrow> int \<Rightarrow> u32 memory_region \<Rightarrow> StackFrameSymbolizer \<Rightarrow> StackFrameARM list \<Rightarrow> bool \<Rightarrow>
     (StackFrameARM option \<times> StackFrameSymbolizer) option" where
  "arm_GetCallerFrame w fp_register memory s frames stack_scan_allowed =
     (if memory = None then Some (None, s)
      else do {
        (frame, s) \<leftarrow> arm_find_caller w fp_register memory s frames stack_scan_allowed;
        (case frame of
           None \<Rightarrow> Some (None, s)
         | Some frame \<Rightarrow>
             if TerminateWalk (ucast (arm_regs frame ARM_REG_PC)) (ucast (arm_regs frame ARM_REG_SP))
                  (ucast (arm_regs (last frames) ARM_REG_SP)) (length frames = 1)
             then Some (None, s)
             else Some (Some (frame\<lparr>instruction := ucast (arm_regs frame ARM_REG_PC - 2)\<rparr>), s)) })"

section \<open>Stack pointers\<close>

lemma arm_caller_bounds:
  assumes "arm_GetCallerFrame w fp memory s frames scan = Some (Some f, s')"
  shows "if length frames = 1 then ucast (arm_regs (last frames) ARM_REG_SP) \<le> (ucast (arm_regs f ARM_REG_SP) :: u64)
    else ucast (arm_regs (last frames) ARM_REG_SP) < (ucast (arm_regs f ARM_REG_SP) :: u64)"
proof -
  obtain g s1 where found: "arm_find_caller w fp memory s frames scan = Some (Some g, s1)"
    using assms unfolding arm_GetCallerFrame_def by (auto simp: bind_eq_Some_conv split: if_splits option.splits)
  let ?stop = "TerminateWalk (ucast (arm_regs g ARM_REG_PC)) (ucast (arm_regs g ARM_REG_SP))
    (ucast (arm_regs (last frames) ARM_REG_SP)) (length frames = 1)"
  have "\<not> ?stop" "arm_regs f = arm_regs g"
    using assms found by (auto simp: arm_GetCallerFrame_def split: if_splits)
  then show ?thesis using TerminateWalk_above by metis
qed

lemma arm_more: "StackFrame.more f = StackFrame.more g \<Longrightarrow> arm_regs f = arm_regs g" for f g :: StackFrameARM
  by (cases f; cases g) simp

interpretation arm_walker:
  cpu_walker "keeps_stack (arm_GetCallerFrame w fp memory)" "\<lambda>f. ucast (arm_regs f ARM_REG_SP)" for w fp memory
  using arm_caller_bounds by unfold_locales (force simp: keeps_stack_def dest: arm_more)+

section \<open>Out of bounds\<close>

lemma arm_callee_registers_bad:
  "(i, name) \<in> set names \<Longrightarrow> 16 \<le> i \<Longrightarrow> validity AND arm_RegisterValidFlag i \<noteq> 0 \<Longrightarrow>
   arm_callee_registers names regs validity m = None"
  by (induction names regs validity m rule: arm_callee_registers.induct)
    (auto simp: arm_read_def MD_CONTEXT_ARM_GPR_COUNT_def)

text \<open>
  C34: call frame information for the context frame makes the ARM walker read out of bounds.
  The context frame counts all registers as valid, also the ten for which \<open>iregs\<close> has no place,
  so \<open>GetCallerByCFIFrameInfo\<close> is undefined for every context, whatever the rules are.
\<close>

theorem arm_CFI_context_undefined:
  "arm_GetCallerByCFIFrameInfo fp memory [the (arm_GetContextFrame arm_context_frame_validity (Some context))] cfi = None"
proof -
  have "(16, ''f0'') \<in> set (enumerate 0 arm_register_names)" by (simp add: arm_register_names_def)
  then show ?thesis
    by (simp add: arm_GetCallerByCFIFrameInfo_def arm_GetContextFrame_def arm_context_frame_validity_def
        arm_callee_registers_bad arm_RegisterValidFlag_def)
qed

end
