(* ===== verification/Stackwalker_MIPS.thy ===== *)
theory Stackwalker_MIPS
  imports Stackwalker
begin

text \<open>
  \<open>StackwalkerMIPS\<close> (processor/stackwalker_mips.cc) and \<open>StackFrameMIPS\<close>
  (google_breakpad/processor/stack_frame_cpu.h). The code has each strategy twice, for 32-bit
  and for 64-bit registers; the model has it once, for a word of any width, with what differs
  as an argument. Of \<open>MDRawContextMIPS\<close> the model has the flags, the array \<open>iregs\<close> as a
  function of the register number, and \<open>epc\<close>. A \<open>size_t\<close> has 64 bits.
\<close>

unbundle bit_operations_syntax

section \<open>Registers\<close>

record MDRawContextMIPS =
  mips_flags :: u32
  mips_iregs :: "nat \<Rightarrow> u64"
  epc :: u64

definition MD_CONTEXT_MIPS :: u32 where "MD_CONTEXT_MIPS = 0x00040000"
definition MD_CONTEXT_MIPS64 :: u32 where "MD_CONTEXT_MIPS64 = 0x00080000"

definition MIPS_REG_S0 :: nat where "MIPS_REG_S0 = 16"
definition MIPS_REG_S7 :: nat where "MIPS_REG_S7 = 23"
definition MIPS_REG_GP :: nat where "MIPS_REG_GP = 28"
definition MIPS_REG_SP :: nat where "MIPS_REG_SP = 29"
definition MIPS_REG_FP :: nat where "MIPS_REG_FP = 30"
definition MIPS_REG_RA :: nat where "MIPS_REG_RA = 31"
definition MIPS_REG_PC :: nat where "MIPS_REG_PC = 34"

record StackFrameMIPS = StackFrame +
  mips_context :: MDRawContextMIPS
  mips_validity :: u32

definition mips_zero :: MDRawContextMIPS where
  "mips_zero = \<lparr>mips_flags = 0, mips_iregs = (\<lambda>_. 0), epc = 0\<rparr>"

definition StackFrameMIPS_new :: StackFrameMIPS where
  "StackFrameMIPS_new = StackFrame.extend StackFrame_new \<lparr>mips_context = mips_zero, mips_validity = 0\<rparr>"

definition mips_RegisterValidFlag :: "nat \<Rightarrow> u32" where
  "mips_RegisterValidFlag n =
     (if n \<ge> MIPS_REG_S0 \<and> n \<le> MIPS_REG_S7 then push_bit (n - MIPS_REG_S0 + 0) 1
      else if n \<ge> MIPS_REG_GP \<and> n \<le> MIPS_REG_RA then push_bit (n - MIPS_REG_GP + 8) 1
      else if n = MIPS_REG_PC then push_bit 12 1
      else 0)"

abbreviation "MIPS_VALID_SP \<equiv> push_bit 9 (1 :: u32)"
abbreviation "MIPS_VALID_FP \<equiv> push_bit 10 (1 :: u32)"
abbreviation "MIPS_VALID_RA \<equiv> push_bit 11 (1 :: u32)"
abbreviation "MIPS_VALID_PC \<equiv> push_bit 12 (1 :: u32)"

definition kRegisterNames :: "string list" where
  "kRegisterNames =
     [''$zero'', ''$at'', ''$v0'', ''$v1'', ''$a0'', ''$a1'', ''$a2'', ''$a3'', ''$to'', ''$t1'',
      ''$t2'', ''$t3'', ''$t4'', ''$t5'', ''$t6'', ''$t7'', ''$s0'', ''$s1'', ''$s2'', ''$s3'',
      ''$s4'', ''$s5'', ''$s6'', ''$s7'', ''$t8'', ''$t9'', ''$k0'', ''$k1'', ''$gp'', ''$sp'',
      ''$fp'', ''$ra'']"

section \<open>Model\<close>

text \<open>
  The constructor tests the limits of the stack memory; the difference is one of 64-bit numbers,
  the size minus one of 32-bit numbers. Without a context the test dereferences a null pointer.
\<close>

definition mips_memory :: "MDRawContextMIPS option \<Rightarrow> MemoryRegion option \<Rightarrow> MemoryRegion option option" where
  "mips_memory context memory = (case memory of
     None \<Rightarrow> Some None
   | Some m \<Rightarrow> do {
       c \<leftarrow> context;
       let top = (if mips_flags c AND MD_CONTEXT_MIPS64 \<noteq> 0 then 0xffffffffffffffff else 0xffffffff);
       Some (if top - GetBase m < ucast (GetSize m - 1) then None else Some m) })"

definition mips_GetContextFrame :: "MDRawContextMIPS option \<Rightarrow> StackFrameMIPS option" where
  "mips_GetContextFrame context = (case context of
     None \<Rightarrow> None
   | Some c \<Rightarrow> Some (StackFrameMIPS_new\<lparr>mips_context := c, mips_validity := - 1,
                       trust := FRAME_TRUST_CONTEXT, instruction := epc c\<rparr>))"

fun mips_callee_registers ::
    "(nat \<times> string) list \<Rightarrow> (nat \<Rightarrow> u64) \<Rightarrow> (string \<rightharpoonup> 'w::len word) \<Rightarrow> (string \<rightharpoonup> 'w word)" where
  "mips_callee_registers [] regs m = m"
| "mips_callee_registers ((i, name) # names) regs m = mips_callee_registers names regs (m(name \<mapsto> ucast (regs i)))"

text \<open>The registers that a callee keeps; the 64-bit code counts \<open>$gp\<close> among them.\<close>

definition mips32_callee_saves :: "nat \<Rightarrow> bool" where
  "mips32_callee_saves i \<longleftrightarrow> MIPS_REG_S0 \<le> i \<and> i \<le> MIPS_REG_S7 \<or> MIPS_REG_GP < i \<and> i < MIPS_REG_RA"

definition mips64_callee_saves :: "nat \<Rightarrow> bool" where
  "mips64_callee_saves i \<longleftrightarrow> MIPS_REG_S0 \<le> i \<and> i \<le> MIPS_REG_S7 \<or> MIPS_REG_GP \<le> i \<and> i < MIPS_REG_RA"

fun mips_fill_caller ::
    "(nat \<Rightarrow> bool) \<Rightarrow> (nat \<times> string) list \<Rightarrow> (nat \<Rightarrow> u64) \<Rightarrow> u32 \<Rightarrow> (string \<rightharpoonup> 'w::len word) \<Rightarrow>
     (nat \<Rightarrow> u64) \<times> u32 \<Rightarrow> (nat \<Rightarrow> u64) \<times> u32" where
  "mips_fill_caller saves [] last_regs last_validity caller_registers acc = acc"
| "mips_fill_caller saves ((i, name) # names) last_regs last_validity caller_registers (regs, validity) =
     mips_fill_caller saves names last_regs last_validity caller_registers
       (case caller_registers name of
          Some v \<Rightarrow> (regs(i := ucast v), validity OR mips_RegisterValidFlag i)
        | None \<Rightarrow>
            if saves i \<and> last_validity AND mips_RegisterValidFlag i \<noteq> 0
            then (regs(i := last_regs i), validity OR mips_RegisterValidFlag i)
            else (regs, validity))"

text \<open>The registers the rules give, with \<open>$sp\<close>, \<open>$ra\<close> and \<open>$pc\<close> from the CFA and the return address.\<close>

definition mips_special_registers :: "(string \<rightharpoonup> 'w::len word) \<Rightarrow> (string \<rightharpoonup> 'w word)" where
  "mips_special_registers m =
     (let m = (case m ''.cfa'' of Some cfa \<Rightarrow> m(''$sp'' \<mapsto> cfa) | None \<Rightarrow> m);
          (m, pc) = (case m ''.ra'' of
            Some ra \<Rightarrow> (m(''$ra'' \<mapsto> ra), ra - word_of_nat (2 * sizeof ra))
          | None \<Rightarrow> (m, 0))
      in m(''$pc'' \<mapsto> pc))"

definition mips_CFI_caller ::
    "(nat \<Rightarrow> bool) \<Rightarrow> 'w::len word memory_region \<Rightarrow> StackFrameMIPS \<Rightarrow> CFIFrameInfo \<Rightarrow> StackFrameMIPS option option" where
  "mips_CFI_caller saves memory last_frame cfi_frame_info = do {
     let names = enumerate 0 kRegisterNames;
     let last_regs = mips_iregs (mips_context last_frame);
     found \<leftarrow> FindCallerRegs cfi_frame_info (mips_callee_registers names last_regs Map.empty) memory;
     (case found of
        None \<Rightarrow> Some None
      | Some caller_registers \<Rightarrow>
          let caller_registers = mips_special_registers caller_registers;
              (regs, validity) = mips_fill_caller saves names last_regs (mips_validity last_frame) caller_registers (\<lambda>_. 0, 0);
              value' = (\<lambda>name. case caller_registers name of Some v \<Rightarrow> ucast v | None \<Rightarrow> 0)
          in Some (Some (StackFrameMIPS_new
               \<lparr>mips_context := mips_zero\<lparr>mips_iregs := regs(MIPS_REG_RA := value' ''$ra''), epc := value' ''$pc''\<rparr>,
                instruction := value' ''$pc'', mips_validity := validity OR MIPS_VALID_PC OR MIPS_VALID_RA,
                trust := FRAME_TRUST_CFI\<rparr>))) }"

definition mips_GetCallerByCFIFrameInfo ::
    "u32 \<Rightarrow> MemoryRegion option \<Rightarrow> StackFrameMIPS list \<Rightarrow> CFIFrameInfo \<Rightarrow> StackFrameMIPS option option" where
  "mips_GetCallerByCFIFrameInfo flags memory frames cfi_frame_info =
     (if flags AND MD_CONTEXT_MIPS \<noteq> 0
      then mips_CFI_caller mips32_callee_saves (memory32 memory) (last frames) cfi_frame_info
      else mips_CFI_caller mips64_callee_saves (memory64 memory) (last frames) cfi_frame_info)"

definition kMaxFrameStackSize :: nat where "kMaxFrameStackSize = 1024"
definition kMinArgsOnStack :: nat where "kMinArgsOnStack = 4"

text \<open>
  The loop of the scan: the locations of the stack and program counters that were found, the
  frame pointer below them and the number of words that are left, a signed 32-bit number. The
  address of the frame pointer is computed in 64 bits.
\<close>

partial_function (option) mips_scan_loop ::
    "WalkerConfig \<Rightarrow> 'w::len word memory_region \<Rightarrow> 'w word \<Rightarrow> u32 \<Rightarrow> StackFrameSymbolizer \<Rightarrow>
     (('w word \<times> 'w word \<times> 'w word \<times> u32) option \<times> StackFrameSymbolizer) option" where
  "mips_scan_loop w memory last_sp count s = do {
     (found, s) \<leftarrow> ScanForReturnAddress_words w memory last_sp (nat (sint count)) s;
     (case found of
        None \<Rightarrow> Some (None, s)
      | Some (caller_sp, caller_pc) \<Rightarrow>
          (case read_memory memory (ucast caller_sp - word_of_nat (sizeof caller_pc)) of
             None \<Rightarrow> Some (None, s)
           | Some caller_fp \<Rightarrow>
               let count = count - ucast ((caller_sp - last_sp) div word_of_nat (sizeof caller_pc));
                   last_sp = caller_sp + word_of_nat (sizeof caller_pc) in
               if caller_fp - caller_sp \<ge> word_of_nat kMaxFrameStackSize \<and> sint count > 0
               then mips_scan_loop w memory last_sp count s
               else Some (Some (caller_sp, caller_pc, caller_fp, count), s))) }"

definition mips_scan_caller ::
    "WalkerConfig \<Rightarrow> 'w::len word memory_region \<Rightarrow> StackFrameMIPS \<Rightarrow> 'w word \<Rightarrow> u32 \<Rightarrow> StackFrameSymbolizer \<Rightarrow>
     (StackFrameMIPS option \<times> StackFrameSymbolizer) option" where
  "mips_scan_caller w memory last_frame last_sp count s = do {
     (found, s) \<leftarrow> mips_scan_loop w memory last_sp count s;
     (case found of
        None \<Rightarrow> Some (None, s)
      | Some (caller_sp, caller_pc, caller_fp, count) \<Rightarrow>
          if count = 0 then Some (None, s)
          else
            let size = word_of_nat (sizeof caller_pc);
                caller_sp = caller_sp + size;
                caller_pc = caller_pc - 2 * size;
                regs = mips_iregs (mips_context last_frame) in
            Some (Some (StackFrameMIPS_new
              \<lparr>trust := FRAME_TRUST_SCAN,
               mips_context := (mips_context last_frame)
                 \<lparr>epc := ucast caller_pc,
                  mips_iregs := regs(MIPS_REG_SP := ucast caller_sp, MIPS_REG_FP := ucast caller_fp,
                                     MIPS_REG_RA := ucast (caller_pc + 2 * size))\<rparr>,
               instruction := ucast caller_pc,
               mips_validity := MIPS_VALID_PC OR MIPS_VALID_SP OR MIPS_VALID_FP OR MIPS_VALID_RA\<rparr>), s)) }"

definition mips_GetCallerByStackScan ::
    "WalkerConfig \<Rightarrow> u32 \<Rightarrow> MemoryRegion option \<Rightarrow> StackFrameMIPS list \<Rightarrow> StackFrameSymbolizer \<Rightarrow>
     (StackFrameMIPS option \<times> StackFrameSymbolizer) option" where
  "mips_GetCallerByStackScan w flags memory frames s =
     (let last_frame = last frames; last_sp = mips_iregs (mips_context last_frame) MIPS_REG_SP in
      if flags AND MD_CONTEXT_MIPS \<noteq> 0 then
        let last_sp = ucast last_sp :: u32;
            count = word_of_nat (kMaxFrameStackSize div sizeof last_sp);
            (last_sp, count) =
              (if length frames > 1
               then (last_sp + word_of_nat (kMinArgsOnStack * sizeof last_sp), count - word_of_nat kMinArgsOnStack)
               else (last_sp, count))
        in mips_scan_caller w (memory32 memory) last_frame last_sp count s
      else mips_scan_caller w (memory64 memory) last_frame last_sp
             (word_of_nat (kMaxFrameStackSize div sizeof last_sp)) s)"

definition mips_find_caller ::
    "WalkerConfig \<Rightarrow> u32 \<Rightarrow> MemoryRegion option \<Rightarrow> StackFrameSymbolizer \<Rightarrow> StackFrameMIPS list \<Rightarrow> bool \<Rightarrow>
     (StackFrameMIPS option \<times> StackFrameSymbolizer) option" where
  "mips_find_caller w flags memory s frames stack_scan_allowed = do {
     cfi_frame_info \<leftarrow> Symbolizer_FindCFIFrameInfo s (last frames);
     new_frame \<leftarrow> (case cfi_frame_info of
        None \<Rightarrow> Some None
      | Some cfi \<Rightarrow> mips_GetCallerByCFIFrameInfo flags memory frames cfi);
     if stack_scan_allowed \<and> new_frame = None then mips_GetCallerByStackScan w flags memory frames s
     else Some (new_frame, s) }"

text \<open>\<open>flags\<close> are those of the context of the walker, which the constructor was given.\<close>

definition mips_GetCallerFrame ::
    "WalkerConfig \<Rightarrow> u32 \<Rightarrow> MemoryRegion option \<Rightarrow> StackFrameSymbolizer \<Rightarrow> StackFrameMIPS list \<Rightarrow> bool \<Rightarrow>
     (StackFrameMIPS option \<times> StackFrameSymbolizer) option" where
  "mips_GetCallerFrame w flags memory s frames stack_scan_allowed =
     (if memory = None then Some (None, s)
      else do {
        (new_frame, s) \<leftarrow> mips_find_caller w flags memory s frames stack_scan_allowed;
        (case new_frame of
           None \<Rightarrow> Some (None, s)
         | Some new_frame \<Rightarrow>
             if TerminateWalk (epc (mips_context new_frame)) (mips_iregs (mips_context new_frame) MIPS_REG_SP)
                  (mips_iregs (mips_context (last frames)) MIPS_REG_SP) (length frames = 1)
             then Some (None, s) else Some (Some new_frame, s)) })"

section \<open>Stack pointers\<close>

abbreviation "mips_sp f \<equiv> mips_iregs (mips_context f) MIPS_REG_SP"

lemma mips_caller_bounds:
  assumes "mips_GetCallerFrame w flags memory s frames scan = Some (Some f, s')"
  shows "if length frames = 1 then mips_sp (last frames) \<le> mips_sp f else mips_sp (last frames) < mips_sp f"
proof -
  obtain s1 where found: "mips_find_caller w flags memory s frames scan = Some (Some f, s1)"
    using assms unfolding mips_GetCallerFrame_def by (auto simp: bind_eq_Some_conv split: if_splits option.splits)
  then have "\<not> TerminateWalk (epc (mips_context f)) (mips_sp f) (mips_sp (last frames)) (length frames = 1)"
    using assms by (auto simp: mips_GetCallerFrame_def split: if_splits)
  then show ?thesis using TerminateWalk_above by metis
qed

lemma mips_more: "StackFrame.more f = StackFrame.more g \<Longrightarrow> mips_context f = mips_context g" for f g :: StackFrameMIPS
  by (cases f; cases g) simp

interpretation mips_walker:
  cpu_walker "keeps_stack (mips_GetCallerFrame w flags memory)" mips_sp for w flags memory
  using mips_caller_bounds by unfold_locales (force simp: keeps_stack_def dest: mips_more)+

section \<open>The constructor\<close>

text \<open>For a 32-bit context a region that starts above 4 GB passes the test of its limits.\<close>

lemma mips_memory_above_4G:
  assumes "mips_flags c AND MD_CONTEXT_MIPS64 = 0" and "0x100000000 \<le> GetBase m" and "GetBase m < 0xffffffff00000000"
  shows "mips_memory (Some c) (Some m) = Some (Some m)"
proof -
  have "uint (GetSize m - 1) < 2 ^ 32" by (rule order_less_le_trans [OF unsigned_less]) simp
  moreover have "uint (ucast (GetSize m - 1) :: u64) = uint (GetSize m - 1)" by (rule uint_up_ucast) (simp add: is_up)
  moreover have "uint (0xffffffff - GetBase m) = 0xffffffff - uint (GetBase m) + 2 ^ 64"
  proof -
    have "uint (0xffffffff - GetBase m) = (0xffffffff - uint (GetBase m)) mod 2 ^ 64" by (simp add: uint_word_ariths)
    also have "\<dots> = (0xffffffff - uint (GetBase m) + 2 ^ 64) mod 2 ^ 64" by (rule mod_add_self2 [symmetric])
    also have "\<dots> = 0xffffffff - uint (GetBase m) + 2 ^ 64"
      using assms(2) unsigned_less [of "GetBase m", where 'a = int] by (intro mod_pos_pos_trivial) (simp_all add: word_le_def)
    finally show ?thesis .
  qed
  ultimately have "\<not> 0xffffffff - GetBase m < ucast (GetSize m - 1)"
    using assms(3) by (simp add: word_less_def)
  with assms(1) show ?thesis by (simp add: mips_memory_def Let_def)
qed

end
