(* ===== verification/Stackwalker_X86.thy ===== *)
theory Stackwalker_X86
  imports Stackwalker
begin

text \<open>
  \<open>StackwalkerX86\<close> (processor/stackwalker_x86.cc) and \<open>StackFrameX86\<close>
  (google_breakpad/processor/stack_frame_cpu.h). Of \<open>MDRawContextX86\<close> the model has the registers
  the walker reads or writes. The walker leaves the information it found for a frame in that
  frame, where the step to the next caller looks for it.
\<close>

unbundle bit_operations_syntax

section \<open>Registers\<close>

record MDRawContextX86 =
  edi :: u32
  esi :: u32
  ebx :: u32
  edx :: u32
  ecx :: u32
  eax :: u32
  ebp :: u32
  eip :: u32
  esp :: u32

abbreviation "CONTEXT_VALID_EIP \<equiv> push_bit 0 (1 :: u32)"
abbreviation "CONTEXT_VALID_ESP \<equiv> push_bit 1 (1 :: u32)"
abbreviation "CONTEXT_VALID_EBP \<equiv> push_bit 2 (1 :: u32)"
abbreviation "CONTEXT_VALID_EBX \<equiv> push_bit 4 (1 :: u32)"
abbreviation "CONTEXT_VALID_ESI \<equiv> push_bit 7 (1 :: u32)"
abbreviation "CONTEXT_VALID_EDI \<equiv> push_bit 8 (1 :: u32)"

definition x86_cfi_register_map :: "(MDRawContextX86, u32) RegisterSet list" where
  "x86_cfi_register_map =
     [register ''$eip'' (Some ''.ra'') False 0 eip eip_update,
      register ''$esp'' (Some ''.cfa'') False 1 esp esp_update,
      register ''$ebp'' None True 2 ebp ebp_update,
      register ''$eax'' None False 3 eax eax_update,
      register ''$ebx'' None True 4 ebx ebx_update,
      register ''$ecx'' None False 5 ecx ecx_update,
      register ''$edx'' None False 6 edx edx_update,
      register ''$esi'' None True 7 esi esi_update,
      register ''$edi'' None True 8 edi edi_update]"

definition x86_filled :: "u32 \<Rightarrow> MDRawContextX86" where
  "x86_filled v = \<lparr>edi = v, esi = v, ebx = v, edx = v, ecx = v, eax = v, ebp = v, eip = v, esp = v\<rparr>"

record StackFrameX86 = StackFrame +
  x86_context :: MDRawContextX86
  x86_validity :: u32
  frame_windows_info :: "WindowsFrameInfo option"
  frame_cfi_info :: "CFIFrameInfo option"

definition StackFrameX86_new :: StackFrameX86 where
  "StackFrameX86_new = StackFrame.extend StackFrame_new
     \<lparr>x86_context = x86_filled 0, x86_validity = 0, frame_windows_info = None, frame_cfi_info = None\<rparr>"

section \<open>Model\<close>

definition x86_ReturnAddress :: "StackFrameX86 \<Rightarrow> u64 option" where
  "x86_ReturnAddress frame =
     (if x86_validity frame AND CONTEXT_VALID_EIP \<noteq> 0 then Some (ucast (eip (x86_context frame))) else None)"

definition x86_GetContextFrame :: "MDRawContextX86 option \<Rightarrow> StackFrameX86 option" where
  "x86_GetContextFrame context = (case context of
     None \<Rightarrow> None
   | Some c \<Rightarrow> Some (StackFrameX86_new\<lparr>x86_context := c, x86_validity := - 1,
                       trust := FRAME_TRUST_CONTEXT, instruction := ucast (eip c)\<rparr>))"

text \<open>The size of the parameters of the callee of the last frame, 0 when it is unknown.\<close>

definition last_frame_callee_parameter_size :: "StackFrameX86 list \<Rightarrow> u32" where
  "last_frame_callee_parameter_size frames =
     (if length frames \<ge> 2 then
        (case frame_windows_info (frames ! (length frames - 2)) of
           None \<Rightarrow> 0
         | Some info \<Rightarrow> if wfi_valid info AND VALID_PARAMETER_SIZE \<noteq> 0 then parameter_size info else 0)
      else 0)"

text \<open>
  The search for the return address above the frame: a scan of three words, and a second one
  behind the first word when that is the address where a system call is about to return to.
\<close>

definition ra_search ::
    "WalkerConfig \<Rightarrow> u32 memory_region \<Rightarrow> StackFrameX86 \<Rightarrow> WindowsFrameInfo \<Rightarrow> u32 \<Rightarrow> StackFrameSymbolizer \<Rightarrow>
     (u32 \<times> StackFrameSymbolizer) option" where
  "ra_search w memory last_frame last_frame_info raSearchStart s = do {
     (result, s) \<leftarrow> ScanForReturnAddress_words w memory raSearchStart 3 s;
     (case result of
        None \<Rightarrow> Some (raSearchStart, s)
      | Some (location, found) \<Rightarrow>
          if trust last_frame = FRAME_TRUST_CONTEXT \<and> wfi_type last_frame_info = STACK_INFO_FPO \<and>
             raSearchStart = location \<and> found = eip (x86_context last_frame)
          then do {
            (result, s) \<leftarrow> ScanForReturnAddress_words w memory (location + 4) 3 s;
            Some (case result of None \<Rightarrow> location + 4 | Some (location, _) \<Rightarrow> location, s) }
          else Some (location, s)) }"

text \<open>The program string for a frame, and whether \<open>%ebp\<close> is to be recovered.\<close>

definition ebp_program :: string where
  "ebp_program = ''$eip .raSearchStart ^ = '' @
     ''$ebp $esp .cbCalleeParams + .cbSavedRegs + 8 - ^ = '' @ ''$esp .raSearchStart 4 + =''"

definition esp_program :: string where
  "esp_program = ''$eip .raSearchStart ^ = '' @ ''$esp .raSearchStart 4 + =''"

definition choose_program :: "StackFrameX86 \<Rightarrow> WindowsFrameInfo \<Rightarrow> string \<times> bool" where
  "choose_program last_frame last_frame_info =
     (if program_string last_frame_info \<noteq> [] then (program_string last_frame_info, True)
      else if allocates_base_pointer last_frame_info then (ebp_program, True)
      else (if x86_validity last_frame AND CONTEXT_VALID_EBX \<noteq> 0
            then esp_program @ '' $ebx $ebx ='' else esp_program, False))"

definition windows_dictionary ::
    "StackFrameX86 \<Rightarrow> WindowsFrameInfo \<Rightarrow> u32 \<Rightarrow> u32 \<Rightarrow> (string \<rightharpoonup> u32)" where
  "windows_dictionary last_frame last_frame_info callee_parameter_size raSearchStart =
     (let c = x86_context last_frame;
          d = [''$ebp'' \<mapsto> ebp c, ''$esp'' \<mapsto> esp c];
          d = (if x86_validity last_frame AND CONTEXT_VALID_EBX \<noteq> 0 then d(''$ebx'' \<mapsto> ebx c) else d)
      in d(''.cbCalleeParams'' \<mapsto> callee_parameter_size,
           ''.cbSavedRegs'' \<mapsto> saved_register_size last_frame_info,
           ''.cbLocals'' \<mapsto> local_size last_frame_info,
           ''.cbParams'' \<mapsto> parameter_size last_frame_info,
           ''.raSearchStart'' \<mapsto> raSearchStart,
           ''.raSearch'' \<mapsto> raSearchStart))"

text \<open>\<open>dictionary[name]\<close>, which is 0 for a name that is not there.\<close>

definition value_at :: "(string \<rightharpoonup> u32) \<Rightarrow> string \<Rightarrow> u32" where
  "value_at d name = (case d name of Some v \<Rightarrow> v | None \<Rightarrow> 0)"

text \<open>
  The dictionary after the program string, the names it assigned, and the trust in the result.
  When the program fails or does not assign both \<open>$eip\<close> and \<open>$esp\<close> the stack is scanned; no
  result means that the scan failed, too.
\<close>

definition run_program ::
    "WalkerConfig \<Rightarrow> u32 memory_region \<Rightarrow> StackFrameX86 list \<Rightarrow> bool \<Rightarrow> string \<Rightarrow> (string \<rightharpoonup> u32) \<Rightarrow> StackFrameSymbolizer \<Rightarrow>
     (((string \<rightharpoonup> u32) \<times> (string \<rightharpoonup> bool) \<times> FrameTrust) option \<times> StackFrameSymbolizer) option" where
  "run_program w memory frames stack_scan_allowed program d s = do {
     (ok, ev) \<leftarrow> Evaluate memory program \<lparr>dictionary = d, assigned = Some Map.empty, stack = []\<rparr>;
     let d = dictionary ev;
     let validity = (case assigned ev of Some a \<Rightarrow> a | None \<Rightarrow> Map.empty);
     if \<not> ok \<or> validity ''$eip'' = None \<or> validity ''$esp'' = None then
       (if \<not> stack_scan_allowed then Some (None, s)
        else do {
          (result, s) \<leftarrow> ScanForReturnAddress w memory (esp (x86_context (last frames))) (length frames = 1) s;
          Some (case result of
             None \<Rightarrow> None
           | Some (location, ip) \<Rightarrow> Some (d(''$eip'' \<mapsto> ip, ''$esp'' \<mapsto> location + 4), validity, FRAME_TRUST_SCAN), s) })
     else Some (Some (d, validity, FRAME_TRUST_CFI), s) }"

text \<open>A better return address, when the one found is in no module: the dictionary, the offset and the trust.\<close>

definition improve_return_address ::
    "WalkerConfig \<Rightarrow> u32 memory_region \<Rightarrow> StackFrameX86 list \<Rightarrow> bool \<Rightarrow> (string \<rightharpoonup> u32) \<Rightarrow> FrameTrust \<Rightarrow> StackFrameSymbolizer \<Rightarrow>
     ((string \<rightharpoonup> u32) \<times> u32 \<times> FrameTrust \<times> StackFrameSymbolizer) option" where
  "improve_return_address w memory frames stack_scan_allowed d t s =
     (if walker_modules w \<noteq> None \<and> find_module (walker_modules w) (ucast (value_at d ''$eip'')) = None \<and> stack_scan_allowed
      then do {
        let location_start = value_at d ''.raSearchStart'' + 4;
        (result, s) \<leftarrow> ScanForReturnAddress w memory location_start (length frames = 1) s;
        Some (case result of
           None \<Rightarrow> (d, 0, t, s)
         | Some (location, ip) \<Rightarrow>
             (d(''$eip'' \<mapsto> ip, ''$esp'' \<mapsto> location + 4), location - location_start, FRAME_TRUST_CFI_SCAN, s)) }
      else Some (d, 0, t, s))"

text \<open>The search for a saved \<open>%ebp\<close>, downwards through the saved registers.\<close>

partial_function (option) ebp_search :: "u32 memory_region \<Rightarrow> u32 \<Rightarrow> u32 \<Rightarrow> u32 option option" where
  "ebp_search memory location_end location =
     (if location \<ge> location_end then
        (case read_memory memory (ucast location) of
           None \<Rightarrow> Some None
         | Some candidate \<Rightarrow>
             if read_memory memory (ucast candidate) \<noteq> None then Some (Some candidate)
             else ebp_search memory location_end (location - 4))
      else Some None)"

definition recover_saved_ebp ::
    "u32 memory_region \<Rightarrow> u32 \<Rightarrow> u32 \<Rightarrow> u32 \<Rightarrow> u32 \<Rightarrow> FrameTrust \<Rightarrow> (string \<rightharpoonup> u32) \<Rightarrow> (string \<rightharpoonup> u32) option" where
  "recover_saved_ebp memory raSearchStart offset saved_size location_end t d =
     (let caller_ebp = value_at d ''$ebp'';
          has_skipped_frames = (t \<noteq> FRAME_TRUST_CFI \<and> caller_ebp \<le> raSearchStart + offset) in
      if has_skipped_frames \<or> read_memory memory (ucast caller_ebp) = None then do {
        found \<leftarrow> ebp_search memory location_end (location_end + (saved_size + offset));
        Some (case found of None \<Rightarrow> d | Some candidate \<Rightarrow> d(''$ebp'' \<mapsto> candidate)) }
      else Some d)"

definition x86_frame_of ::
    "MDRawContextX86 \<Rightarrow> (string \<rightharpoonup> u32) \<Rightarrow> (string \<rightharpoonup> bool) \<Rightarrow> FrameTrust \<Rightarrow> StackFrameX86" where
  "x86_frame_of last_context d validity t =
     (let frame = StackFrameX86_new
            \<lparr>trust := t,
             x86_context := last_context\<lparr>eip := value_at d ''$eip'', esp := value_at d ''$esp'', ebp := value_at d ''$ebp''\<rparr>,
             x86_validity := CONTEXT_VALID_EIP OR CONTEXT_VALID_ESP OR CONTEXT_VALID_EBP\<rparr>;
          frame = (if validity ''$ebx'' \<noteq> None
            then frame\<lparr>x86_context := (x86_context frame)\<lparr>ebx := value_at d ''$ebx''\<rparr>,
                       x86_validity := x86_validity frame OR CONTEXT_VALID_EBX\<rparr> else frame);
          frame = (if validity ''$esi'' \<noteq> None
            then frame\<lparr>x86_context := (x86_context frame)\<lparr>esi := value_at d ''$esi''\<rparr>,
                       x86_validity := x86_validity frame OR CONTEXT_VALID_ESI\<rparr> else frame);
          frame = (if validity ''$edi'' \<noteq> None
            then frame\<lparr>x86_context := (x86_context frame)\<lparr>edi := value_at d ''$edi''\<rparr>,
                       x86_validity := x86_validity frame OR CONTEXT_VALID_EDI\<rparr> else frame)
      in frame)"

text \<open>\<open>frames\<close> are the frames with the information already stored in the last one.\<close>

definition x86_GetCallerByWindowsFrameInfo ::
    "WalkerConfig \<Rightarrow> u32 memory_region \<Rightarrow> StackFrameX86 list \<Rightarrow> WindowsFrameInfo \<Rightarrow> bool \<Rightarrow> StackFrameSymbolizer \<Rightarrow>
     (StackFrameX86 option \<times> StackFrameSymbolizer) option" where
  "x86_GetCallerByWindowsFrameInfo w memory frames last_frame_info stack_scan_allowed s =
     (if wfi_valid last_frame_info \<noteq> VALID_ALL then Some (None, s)
      else do {
        let last_frame = last frames;
        let context = x86_context last_frame;
        let callee_parameters = last_frame_callee_parameter_size frames;
        (raSearchStart, s) \<leftarrow> ra_search w memory last_frame last_frame_info
          (esp context + callee_parameters + local_size last_frame_info + saved_register_size last_frame_info) s;
        let (program, recover_ebp) = choose_program last_frame last_frame_info;
        let raSearchStart =
          (if CONTEXT_VALID_EBP AND x86_validity last_frame \<noteq> 0 \<and> CHR ''@'' \<in> set program
           then ebp context + 4 else raSearchStart);
        (result, s) \<leftarrow> run_program w memory frames stack_scan_allowed program
          (windows_dictionary last_frame last_frame_info callee_parameters raSearchStart) s;
        (case result of
           None \<Rightarrow> Some (None, s)
         | Some (d, validity, t) \<Rightarrow>
             if value_at d ''$eip'' \<noteq> 0 \<or> value_at d ''$ebp'' \<noteq> 0 then do {
               (d, offset, t, s) \<leftarrow> improve_return_address w memory frames stack_scan_allowed d t s;
               d \<leftarrow> (if recover_ebp
                     then recover_saved_ebp memory raSearchStart offset (saved_register_size last_frame_info)
                            (esp context + callee_parameters) t d
                     else Some d);
               Some (Some (x86_frame_of context d validity t), s) }
             else Some (Some (x86_frame_of context d validity t), s)) })"

definition x86_GetCallerByCFIFrameInfo ::
    "u32 memory_region \<Rightarrow> StackFrameX86 list \<Rightarrow> CFIFrameInfo \<Rightarrow> StackFrameX86 option option" where
  "x86_GetCallerByCFIFrameInfo memory frames cfi_frame_info = do {
     let last_frame = last frames;
     found \<leftarrow> FindCallerRegisters x86_cfi_register_map (x86_filled 0xdadadada) memory cfi_frame_info
       (x86_context last_frame) (x86_validity last_frame);
     (case found of
        None \<Rightarrow> Some None
      | Some (context, validity) \<Rightarrow>
          let essentials = CONTEXT_VALID_EIP OR CONTEXT_VALID_ESP OR CONTEXT_VALID_EBP in
          if validity AND essentials \<noteq> essentials then Some None
          else Some (Some (StackFrameX86_new\<lparr>x86_context := context, x86_validity := validity,
                             trust := FRAME_TRUST_CFI\<rparr>))) }"

definition kMaxReasonableGapBetweenFrames :: u32 where "kMaxReasonableGapBetweenFrames = 128 * 1024"

definition ebp_chain_frame :: "MDRawContextX86 \<Rightarrow> u32 \<Rightarrow> u32 \<Rightarrow> u32 \<Rightarrow> FrameTrust \<Rightarrow> StackFrameX86" where
  "ebp_chain_frame last_context caller_eip caller_esp caller_ebp t =
     StackFrameX86_new\<lparr>trust := t,
       x86_context := last_context\<lparr>eip := caller_eip, esp := caller_esp, ebp := caller_ebp\<rparr>,
       x86_validity := CONTEXT_VALID_EIP OR CONTEXT_VALID_ESP OR CONTEXT_VALID_EBP\<rparr>"

definition x86_GetCallerByEBPAtBase ::
    "WalkerConfig \<Rightarrow> u32 memory_region \<Rightarrow> StackFrameX86 list \<Rightarrow> bool \<Rightarrow> StackFrameSymbolizer \<Rightarrow>
     (StackFrameX86 option \<times> StackFrameSymbolizer) option" where
  "x86_GetCallerByEBPAtBase w memory frames stack_scan_allowed s =
     (let context = x86_context (last frames); last_ebp = ebp context in
      case (read_memory memory (ucast (last_ebp + 4)), read_memory memory (ucast last_ebp)) of
        (Some caller_eip, Some caller_ebp) \<Rightarrow>
          Some (Some (ebp_chain_frame context caller_eip (last_ebp + 8) caller_ebp FRAME_TRUST_FP), s)
      | _ \<Rightarrow>
          if \<not> stack_scan_allowed then Some (None, s)
          else do {
            (found, s) \<leftarrow> ScanForReturnAddress w memory (esp context) (length frames = 1) s;
            Some (case found of
               None \<Rightarrow> None
             | Some (location, caller_eip) \<Rightarrow>
                 let caller_esp = location + 4;
                     restored_ebp_chain = caller_esp - 8;
                     caller_ebp = (case read_memory memory (ucast restored_ebp_chain) of
                         None \<Rightarrow> last_ebp
                       | Some caller_ebp \<Rightarrow>
                           if caller_ebp \<le> restored_ebp_chain \<or>
                              caller_ebp - restored_ebp_chain > kMaxReasonableGapBetweenFrames
                           then last_ebp else caller_ebp)
                 in Some (ebp_chain_frame context caller_eip caller_esp caller_ebp FRAME_TRUST_SCAN), s) })"

text \<open>
  The attempts in their order. Each gives the last frame with what was found for it, the caller
  and, where it may change, the symbolizer.
\<close>

definition x86_try_windows ::
    "WalkerConfig \<Rightarrow> u32 memory_region \<Rightarrow> StackFrameSymbolizer \<Rightarrow> StackFrameX86 list \<Rightarrow> bool \<Rightarrow>
     (StackFrameX86 \<times> StackFrameX86 option \<times> StackFrameSymbolizer) option" where
  "x86_try_windows w memory s frames stack_scan_allowed = do {
     windows_frame_info \<leftarrow> Symbolizer_FindWindowsFrameInfo s (last frames);
     (case windows_frame_info of
        None \<Rightarrow> Some (last frames, None, s)
      | Some info \<Rightarrow> do {
          let last_frame = (last frames)\<lparr>frame_windows_info := Some info\<rparr>;
          (new_frame, s) \<leftarrow> x86_GetCallerByWindowsFrameInfo w memory (butlast frames @ [last_frame]) info stack_scan_allowed s;
          Some (last_frame, new_frame, s) }) }"

definition x86_try_cfi ::
    "u32 memory_region \<Rightarrow> StackFrameSymbolizer \<Rightarrow> StackFrameX86 list \<Rightarrow> StackFrameX86 \<Rightarrow>
     (StackFrameX86 \<times> StackFrameX86 option) option" where
  "x86_try_cfi memory s frames last_frame = do {
     cfi_frame_info \<leftarrow> Symbolizer_FindCFIFrameInfo s last_frame;
     (case cfi_frame_info of
        None \<Rightarrow> Some (last_frame, None)
      | Some cfi \<Rightarrow> do {
          let last_frame = last_frame\<lparr>frame_cfi_info := Some cfi\<rparr>;
          new_frame \<leftarrow> x86_GetCallerByCFIFrameInfo memory (butlast frames @ [last_frame]) cfi;
          Some (last_frame, new_frame) }) }"

definition x86_find_caller ::
    "WalkerConfig \<Rightarrow> u32 memory_region \<Rightarrow> StackFrameSymbolizer \<Rightarrow> StackFrameX86 list \<Rightarrow> bool \<Rightarrow>
     (StackFrameX86 \<times> StackFrameX86 option \<times> StackFrameSymbolizer) option" where
  "x86_find_caller w memory s frames stack_scan_allowed = do {
     (last_frame, new_frame, s) \<leftarrow> x86_try_windows w memory s frames stack_scan_allowed;
     (last_frame, new_frame) \<leftarrow>
       (if new_frame = None then x86_try_cfi memory s frames last_frame else Some (last_frame, new_frame));
     if new_frame = None then do {
       (new_frame, s) \<leftarrow> x86_GetCallerByEBPAtBase w memory (butlast frames @ [last_frame]) stack_scan_allowed s;
       Some (last_frame, new_frame, s) }
     else Some (last_frame, new_frame, s) }"

definition x86_GetCallerFrame ::
    "WalkerConfig \<Rightarrow> u32 memory_region \<Rightarrow> StackFrameSymbolizer \<Rightarrow> StackFrameX86 list \<Rightarrow> bool \<Rightarrow>
     (StackFrameX86 \<times> StackFrameX86 option \<times> StackFrameSymbolizer) option" where
  "x86_GetCallerFrame w memory s frames stack_scan_allowed =
     (if memory = None then Some (last frames, None, s)
      else do {
        (last_frame, new_frame, s) \<leftarrow> x86_find_caller w memory s frames stack_scan_allowed;
        (case new_frame of
           None \<Rightarrow> Some (last_frame, None, s)
         | Some new_frame \<Rightarrow>
             if TerminateWalk (ucast (eip (x86_context new_frame))) (ucast (esp (x86_context new_frame)))
                  (ucast (esp (x86_context last_frame))) (length frames = 1)
             then Some (last_frame, None, s)
             else Some (last_frame, Some (new_frame\<lparr>instruction := ucast (eip (x86_context new_frame) - 1)\<rparr>), s)) })"

section \<open>Stack pointers\<close>

abbreviation "x86_sp f \<equiv> ucast (esp (x86_context f)) :: u64"

lemma x86_try_windows_keeps:
  "x86_try_windows w memory s frames scan = Some (g, f, s') \<Longrightarrow>
   x86_context g = x86_context (last frames) \<and> instruction g = instruction (last frames)"
  by (auto simp: x86_try_windows_def Let_def bind_eq_Some_conv split: option.splits)

lemma x86_try_cfi_keeps:
  "x86_try_cfi memory s frames h = Some (g, f) \<Longrightarrow> x86_context g = x86_context h \<and> instruction g = instruction h"
  by (auto simp: x86_try_cfi_def Let_def bind_eq_Some_conv split: option.splits)

lemma x86_find_caller_keeps:
  assumes "x86_find_caller w memory s frames scan = Some (g, f, s')"
  shows "x86_context g = x86_context (last frames) \<and> instruction g = instruction (last frames)"
proof -
  obtain h f1 s1 where windows: "x86_try_windows w memory s frames scan = Some (h, f1, s1)"
    using assms by (auto simp: x86_find_caller_def bind_eq_Some_conv)
  obtain h' f2 where "(if f1 = None then x86_try_cfi memory s1 frames h else Some (h, f1)) = Some (h', f2)" "g = h'"
    using assms windows by (auto simp: x86_find_caller_def bind_eq_Some_conv split: if_splits)
  with x86_try_windows_keeps [OF windows] show ?thesis by (auto dest: x86_try_cfi_keeps split: if_splits)
qed

lemma x86_caller_bounds:
  assumes "x86_GetCallerFrame w memory s frames scan = Some (g, f, s')"
  shows "x86_context g = x86_context (last frames) \<and> instruction g = instruction (last frames) \<and>
    (\<forall>f'. f = Some f' \<longrightarrow> (if length frames = 1 then x86_sp (last frames) \<le> x86_sp f' else x86_sp (last frames) < x86_sp f'))"
proof (cases "memory = None")
  case False
  then obtain nf s1 where found: "x86_find_caller w memory s frames scan = Some (g, nf, s1)"
    using assms unfolding x86_GetCallerFrame_def by (auto simp: bind_eq_Some_conv split: if_splits option.splits)
  have keep: "x86_context g = x86_context (last frames) \<and> instruction g = instruction (last frames)" by (rule x86_find_caller_keeps [OF found])
  show ?thesis
  proof (cases nf)
    case None
    with assms found False keep show ?thesis by (simp add: x86_GetCallerFrame_def)
  next
    case (Some h)
    let ?stop = "TerminateWalk (ucast (eip (x86_context h))) (x86_sp h) (x86_sp g) (length frames = 1)"
    have "f = None \<or> \<not> ?stop \<and> (\<exists>f'. f = Some f' \<and> x86_context f' = x86_context h)"
      using assms found False Some by (auto simp: x86_GetCallerFrame_def split: if_splits)
    with keep TerminateWalk_above [of "ucast (eip (x86_context h))" "x86_sp h" "x86_sp g" "length frames = 1"]
    show ?thesis by auto
  qed
qed (use assms in \<open>auto simp: x86_GetCallerFrame_def\<close>)

lemma x86_more: "StackFrame.more f = StackFrame.more g \<Longrightarrow> x86_context f = x86_context g" for f g :: StackFrameX86
  by (cases f; cases g) simp

interpretation x86_walker: cpu_walker "x86_GetCallerFrame w memory" "\<lambda>f. ucast (esp (x86_context f))" for w memory
  using x86_caller_bounds by unfold_locales (force dest: x86_more)+

interpretation x86_registers: register_file x86_cfi_register_map
  by unfold_locales (auto simp: x86_cfi_register_map_def independent_def)

section \<open>Windows frame information\<close>

text \<open>The two programs the walker makes up, as assignments.\<close>

definition ra_assignments :: "(string \<times> expr) list" where
  "ra_assignments = [(''$eip'', Deref (Var ''.raSearchStart'')), (''$esp'', Bin BINARY_OP_ADD (Var ''.raSearchStart'') (Lit 4))]"

definition ebp_assignments :: "(string \<times> expr) list" where
  "ebp_assignments =
     [(''$eip'', Deref (Var ''.raSearchStart'')),
      (''$ebp'', Deref (Bin BINARY_OP_SUBTRACT (Bin BINARY_OP_ADD (Bin BINARY_OP_ADD (Var ''$esp'') (Var ''.cbCalleeParams''))
         (Var ''.cbSavedRegs'')) (Lit 8))),
      (''$esp'', Bin BINARY_OP_ADD (Var ''.raSearchStart'') (Lit 4))]"

lemma program_texts:
  "tokens_of stream_space esp_program = assignments ra_assignments"
  "tokens_of stream_space (esp_program @ '' $ebx $ebx ='') = assignments (ra_assignments @ [(''$ebx'', Var ''$ebx'')])"
  "tokens_of stream_space ebp_program = assignments ebp_assignments"
  by code_simp+

lemma Evaluate_assignments:
  fixes d :: "string \<rightharpoonup> u32"
  assumes "tokens_of stream_space text = assignments p" and "program_ok 32 p" and "run memory d p = Some d'"
  shows "Evaluate memory text \<lparr>dictionary = d, assigned = Some Map.empty, stack = []\<rparr> =
    Some (True, \<lparr>dictionary = d', assigned = Some (mark (map fst p) Map.empty), stack = []\<rparr>)"
  using evaluate_program [of p memory "\<lparr>dictionary = d, assigned = Some Map.empty, stack = []\<rparr>" d'] assms
  by (simp add: Evaluate_def EvaluateInternal_def)

lemma programs_ok:
  "program_ok 32 ra_assignments" "program_ok 32 (ra_assignments @ [(''$ebx'', Var ''$ebx'')])" "program_ok 32 ebp_assignments"
  by (simp_all add: program_ok_def ra_assignments_def ebp_assignments_def name_ok_def is_word_def)

lemma no_alignment: "CHR ''@'' \<notin> set esp_program" "CHR ''@'' \<notin> set (esp_program @ '' $ebx $ebx ='')" "CHR ''@'' \<notin> set ebp_program"
  by (simp_all add: esp_program_def ebp_program_def)

lemma dictionary_at [simp]:
  "windows_dictionary f info p ra ''.raSearchStart'' = Some ra" "windows_dictionary f info p ra ''$esp'' = Some (esp (x86_context f))"
  "windows_dictionary f info p ra ''$ebp'' = Some (ebp (x86_context f))" "windows_dictionary f info p ra ''.cbCalleeParams'' = Some p"
  "windows_dictionary f info p ra ''.cbSavedRegs'' = Some (saved_register_size info)"
  "x86_validity f AND CONTEXT_VALID_EBX \<noteq> 0 \<Longrightarrow> windows_dictionary f info p ra ''$ebx'' = Some (ebx (x86_context f))"
  by (simp_all add: windows_dictionary_def Let_def)

lemma run_ra_assignments:
  fixes d :: "string \<rightharpoonup> u32"
  assumes "d ''.raSearchStart'' = Some ra" and "read_memory memory (ucast ra) = Some ip"
  shows "run memory d ra_assignments = Some (d(''$eip'' \<mapsto> ip, ''$esp'' \<mapsto> ra + 4))"
  using assms by (simp add: ra_assignments_def read_memory_def)

lemma run_ebp_assignments:
  fixes d :: "string \<rightharpoonup> u32"
  assumes "d ''.raSearchStart'' = Some ra" and "read_memory memory (ucast ra) = Some ip"
    and "d ''$esp'' = Some sp" and "d ''.cbCalleeParams'' = Some p" and "d ''.cbSavedRegs'' = Some saved"
    and "read_memory memory (ucast (sp + p + saved - 8)) = Some b"
  shows "run memory d ebp_assignments = Some (d(''$eip'' \<mapsto> ip, ''$ebp'' \<mapsto> b, ''$esp'' \<mapsto> ra + 4))"
  using assms by (simp add: ebp_assignments_def read_memory_def)

text \<open>
  What the chosen program computes: the dictionary has the return address, the stack pointer
  above it and the frame pointer of the caller, and both essential registers count as assigned.
\<close>

lemma run_chosen_program:
  assumes "program_string info = []" and "read_memory memory (ucast ra) = Some ip"
    and frame: "last frames = f"
    and "if allocates_base_pointer info
         then read_memory memory (ucast (esp (x86_context f) + p + saved_register_size info - 8)) = Some b
         else b = ebp (x86_context f)"
  shows "\<exists>d validity. run_program w memory frames scan (fst (choose_program f info)) (windows_dictionary f info p ra) s =
      Some (Some (d, validity, FRAME_TRUST_CFI), s) \<and>
    value_at d ''$eip'' = ip \<and> value_at d ''$esp'' = ra + 4 \<and> value_at d ''$ebp'' = b"
proof -
  let ?d = "windows_dictionary f info p ra"
  consider "allocates_base_pointer info" | "\<not> allocates_base_pointer info" "x86_validity f AND CONTEXT_VALID_EBX \<noteq> 0"
    | "\<not> allocates_base_pointer info" "x86_validity f AND CONTEXT_VALID_EBX = 0" by blast
  then show ?thesis
  proof cases
    case 1
    have "run memory ?d ebp_assignments = Some (?d(''$eip'' \<mapsto> ip, ''$ebp'' \<mapsto> b, ''$esp'' \<mapsto> ra + 4))"
      using assms(2,4) 1 by (intro run_ebp_assignments) simp_all
    from Evaluate_assignments [OF program_texts(3) programs_ok(3) this] 1 assms(1) show ?thesis
      by (simp add: choose_program_def run_program_def value_at_def ebp_assignments_def)
  next
    case 2
    have "run memory ?d (ra_assignments @ [(''$ebx'', Var ''$ebx'')]) =
        Some (?d(''$eip'' \<mapsto> ip, ''$esp'' \<mapsto> ra + 4, ''$ebx'' \<mapsto> ebx (x86_context f)))"
      using assms(2) 2(2) by (simp add: ra_assignments_def read_memory_def)
    from Evaluate_assignments [OF program_texts(2) programs_ok(2) this] 2 assms(1,4) show ?thesis
      by (simp add: choose_program_def run_program_def value_at_def ra_assignments_def)
  next
    case 3
    have "run memory ?d ra_assignments = Some (?d(''$eip'' \<mapsto> ip, ''$esp'' \<mapsto> ra + 4))"
      using assms(2) by (intro run_ra_assignments) simp_all
    from Evaluate_assignments [OF program_texts(1) programs_ok(1) this] 3 assms(1,4) show ?thesis
      by (simp add: choose_program_def run_program_def value_at_def ra_assignments_def)
  qed
qed

lemma x86_frame_of_simps [simp]:
  "eip (x86_context (x86_frame_of c d v t)) = value_at d ''$eip''" "esp (x86_context (x86_frame_of c d v t)) = value_at d ''$esp''"
  "ebp (x86_context (x86_frame_of c d v t)) = value_at d ''$ebp''" "trust (x86_frame_of c d v t) = t"
  by (simp_all add: x86_frame_of_def Let_def)

text \<open>
  C11: the caller of a function whose Windows frame information has no program string. With the
  return address found at \<open>ra\<close>, and inside a module when the modules are known, the caller has
  the word at \<open>ra\<close> as its instruction pointer and \<open>ra + 4\<close> as its stack pointer; its frame
  pointer is the word in the saved registers when the function allocates a base pointer, and
  that of the callee otherwise. The stack is not scanned further.
\<close>

theorem x86_windows_caller:
  fixes frames :: "StackFrameX86 list"
  assumes "wfi_valid info = VALID_ALL" and "program_string info = []"
  defines "context \<equiv> x86_context (last frames)" and "params \<equiv> last_frame_callee_parameter_size frames"
  assumes "ra_search w memory (last frames) info (esp context + params + local_size info + saved_register_size info) s =
      Some (ra, s')"
    and "read_memory memory (ucast ra) = Some ip"
    and "walker_modules w \<noteq> None \<longrightarrow> find_module (walker_modules w) (ucast ip) \<noteq> None"
    and "if allocates_base_pointer info
         then read_memory memory (ucast (esp context + params + saved_register_size info - 8)) = Some b \<and>
              read_memory memory (ucast b) \<noteq> None
         else b = ebp context"
  shows "\<exists>frame. x86_GetCallerByWindowsFrameInfo w memory frames info scan s = Some (Some frame, s') \<and>
    trust frame = FRAME_TRUST_CFI \<and> eip (x86_context frame) = ip \<and> esp (x86_context frame) = ra + 4 \<and>
    ebp (x86_context frame) = b"
proof -
  let ?f = "last frames"
  obtain program recover where program: "choose_program ?f info = (program, recover)" by fastforce
  have plain: "CHR ''@'' \<notin> set program" and recover: "recover \<longrightarrow> read_memory memory (ucast b) \<noteq> None"
    using program no_alignment assms(2,8) by (auto simp: choose_program_def split: if_splits)
  obtain d validity where run: "run_program w memory frames scan program (windows_dictionary ?f info params ra) s' =
      Some (Some (d, validity, FRAME_TRUST_CFI), s')" and d: "value_at d ''$eip'' = ip" "value_at d ''$esp'' = ra + 4" "value_at d ''$ebp'' = b"
    using run_chosen_program [OF assms(2,6) refl, of frames params b w scan s'] assms(8) program
    by (auto simp: context_def split: if_splits)
  have "improve_return_address w memory frames scan d FRAME_TRUST_CFI s' = Some (d, 0, FRAME_TRUST_CFI, s')"
    using assms(7) d by (auto simp: improve_return_address_def)
  moreover have "recover_saved_ebp memory ra 0 z e FRAME_TRUST_CFI d = Some d" if recover for z e
    using recover that d by (auto simp: recover_saved_ebp_def)
  ultimately have "x86_GetCallerByWindowsFrameInfo w memory frames info scan s =
      Some (Some (x86_frame_of context d validity FRAME_TRUST_CFI), s')"
    using assms(1,5) plain program run
    by (simp add: x86_GetCallerByWindowsFrameInfo_def Let_def context_def params_def)
  with d show ?thesis by simp
qed

definition example_x86_walker :: WalkerConfig where
  "example_x86_walker = \<lparr>system_info = Some example_info, walker_modules = None, unloaded_modules = None,
     max_frames = 10, max_frames_scanned = 0\<rparr>"

definition example_x86_frame :: StackFrameX86 where
  "example_x86_frame = StackFrameX86_new\<lparr>x86_context := (x86_filled 0)\<lparr>esp := 0xff0, ebp := 0x2000\<rparr>, x86_validity := - 1\<rparr>"

definition example_x86_stack :: "u32 memory_region" where
  "example_x86_stack = Some (\<lambda>a. if a = 0x1000 then Some 0x400010 else None)"

definition example_windows_info :: WindowsFrameInfo where
  "example_windows_info = WindowsFrameInfo_new STACK_INFO_FPO 0 0 0 8 8 0 0 []"

lemma example_ra_search:
  "ra_search example_x86_walker example_x86_stack f info 0x1000 s = Some (0x1000, s)"
proof -
  have "ScanForReturnAddress_words example_x86_walker example_x86_stack (0x1000 :: u32) 3 s = Some (None, s)"
    by (simp add: ScanForReturnAddress_words_def scan_loop.simps sizeof_def read_memory_def example_x86_stack_def
        plausible_return_def example_x86_walker_def find_module_def)
  then show ?thesis by (simp add: ra_search_def)
qed

theorem x86_windows_caller_witness:
  "\<exists>frame. x86_GetCallerByWindowsFrameInfo example_x86_walker example_x86_stack [example_x86_frame] example_windows_info False
      example_symbolizer = Some (Some frame, example_symbolizer) \<and>
    trust frame = FRAME_TRUST_CFI \<and> eip (x86_context frame) = 0x400010 \<and> esp (x86_context frame) = 0x1004 \<and>
    ebp (x86_context frame) = 0x2000"
proof -
  let ?w = example_x86_walker and ?m = example_x86_stack and ?f = example_x86_frame and ?i = example_windows_info
  have info: "wfi_valid ?i = VALID_ALL" "program_string ?i = []" "\<not> allocates_base_pointer ?i"
    "local_size ?i = 8" "saved_register_size ?i = 8"
    by (simp_all add: example_windows_info_def WindowsFrameInfo_new_def)
  have regs: "esp (x86_context (last [?f])) = 0xff0" "ebp (x86_context (last [?f])) = 0x2000"
    by (simp_all add: example_x86_frame_def)
  have params: "last_frame_callee_parameter_size [?f] = 0" by (simp add: last_frame_callee_parameter_size_def)
  have "ra_search ?w ?m (last [?f]) ?i (esp (x86_context (last [?f])) + last_frame_callee_parameter_size [?f] +
      local_size ?i + saved_register_size ?i) example_symbolizer = Some (0x1000, example_symbolizer)"
    using example_ra_search by (simp add: info regs params del: last.simps)
  moreover have "read_memory ?m (ucast (0x1000 :: u32)) = Some 0x400010"
    by (simp add: read_memory_def example_x86_stack_def)
  moreover have "walker_modules ?w = None" by (simp add: example_x86_walker_def)
  ultimately show ?thesis
    using x86_windows_caller [where frames = "[?f]" and ip = "0x400010" and ra = "0x1000" and b = "0x2000" and scan = False, OF info(1,2)] info(3) regs(2)
    by (simp del: last.simps)
qed

end
