(* ===== verification/Stackwalker_Chains.thy ===== *)
theory Stackwalker_Chains
  imports Stackwalker
begin

text \<open>
  The walkers without symbols: \<open>StackwalkerPPC\<close>, \<open>StackwalkerPPC64\<close> and \<open>StackwalkerSPARC\<close>
  (processor/stackwalker_ppc.cc, stackwalker_ppc64.cc, stackwalker_sparc.cc) follow the chain of
  saved stack pointers, \<open>StackwalkerAddressList\<close> (processor/stackwalker_address_list.cc) has its
  frames from a list. The fixed arrays of registers are functions of the register number; of
  the raw contexts the model has what the walkers read or write.
\<close>

unbundle bit_operations_syntax

section \<open>PowerPC\<close>

record MDRawContextPPC =
  ppc_srr0 :: u32
  ppc_gpr :: "nat \<Rightarrow> u32"

record StackFramePPC = StackFrame +
  ppc_context :: MDRawContextPPC
  ppc_validity :: u32

abbreviation "PPC_VALID_SRR0 \<equiv> push_bit 0 (1 :: u32)"
abbreviation "PPC_VALID_GPR1 \<equiv> push_bit 1 (1 :: u32)"
abbreviation "PPC_VALID_ALL \<equiv> - 1 :: u32"

definition StackFramePPC_new :: StackFramePPC where
  "StackFramePPC_new = StackFrame.extend StackFrame_new
     \<lparr>ppc_context = \<lparr>ppc_srr0 = 0, ppc_gpr = (\<lambda>_. 0)\<rparr>, ppc_validity = 0\<rparr>"

definition ppc_GetContextFrame :: "MDRawContextPPC option \<Rightarrow> StackFramePPC option" where
  "ppc_GetContextFrame context = (case context of
     None \<Rightarrow> None
   | Some c \<Rightarrow> Some (StackFramePPC_new\<lparr>ppc_context := c, ppc_validity := PPC_VALID_ALL,
                       trust := FRAME_TRUST_CONTEXT, instruction := ucast (ppc_srr0 c)\<rparr>))"

definition ppc_GetCallerFrame :: "u32 memory_region \<Rightarrow> StackFramePPC list \<Rightarrow> StackFramePPC option" where
  "ppc_GetCallerFrame memory frames = do {
     let last_frame = last frames;
     let last_sp = ppc_gpr (ppc_context last_frame) 1;
     stack_pointer \<leftarrow> read_memory memory (ucast last_sp);
     if stack_pointer \<le> last_sp then None
     else do {
       instr \<leftarrow> read_memory memory (ucast (stack_pointer + 8));
       if instr \<le> 1 then None
       else if TerminateWalk (ucast instr) (ucast stack_pointer) (ucast last_sp) (length frames = 1) then None
       else
         let c = (ppc_context last_frame)\<lparr>ppc_srr0 := instr, ppc_gpr := (ppc_gpr (ppc_context last_frame))(1 := stack_pointer)\<rparr>
         in Some (StackFramePPC_new\<lparr>ppc_context := c, ppc_validity := PPC_VALID_SRR0 OR PPC_VALID_GPR1,
              trust := FRAME_TRUST_FP, instruction := ucast (ppc_srr0 c - 4)\<rparr>) } }"

text \<open>A walker that needs neither symbols nor a scan.\<close>

definition without_symbols ::
    "('f StackFrame_scheme list \<Rightarrow> 'f StackFrame_scheme option) \<Rightarrow> 'f get_caller_frame" where
  "without_symbols get_caller = keeps_stack (\<lambda>s frames scan. Some (get_caller frames, s))"

section \<open>64-bit PowerPC\<close>

record MDRawContextPPC64 =
  ppc64_srr0 :: u64
  ppc64_gpr :: "nat \<Rightarrow> u64"

record StackFramePPC64 = StackFrame +
  ppc64_context :: MDRawContextPPC64
  ppc64_validity :: u32

definition StackFramePPC64_new :: StackFramePPC64 where
  "StackFramePPC64_new = StackFrame.extend StackFrame_new
     \<lparr>ppc64_context = \<lparr>ppc64_srr0 = 0, ppc64_gpr = (\<lambda>_. 0)\<rparr>, ppc64_validity = 0\<rparr>"

definition ppc64_GetContextFrame :: "MDRawContextPPC64 option \<Rightarrow> StackFramePPC64 option" where
  "ppc64_GetContextFrame context = (case context of
     None \<Rightarrow> None
   | Some c \<Rightarrow> Some (StackFramePPC64_new\<lparr>ppc64_context := c, ppc64_validity := PPC_VALID_ALL,
                       trust := FRAME_TRUST_CONTEXT, instruction := ppc64_srr0 c\<rparr>))"

definition ppc64_GetCallerFrame :: "u64 memory_region \<Rightarrow> StackFramePPC64 list \<Rightarrow> StackFramePPC64 option" where
  "ppc64_GetCallerFrame memory frames = do {
     let last_frame = last frames;
     let last_sp = ppc64_gpr (ppc64_context last_frame) 1;
     stack_pointer \<leftarrow> read_memory memory last_sp;
     if stack_pointer \<le> last_sp then None
     else do {
       instr \<leftarrow> read_memory memory (stack_pointer + 16);
       if instr \<le> 1 then None
       else if TerminateWalk instr stack_pointer last_sp (length frames = 1) then None
       else
         let c = (ppc64_context last_frame)
                   \<lparr>ppc64_srr0 := instr, ppc64_gpr := (ppc64_gpr (ppc64_context last_frame))(1 := stack_pointer)\<rparr>
         in Some (StackFramePPC64_new\<lparr>ppc64_context := c, ppc64_validity := PPC_VALID_SRR0 OR PPC_VALID_GPR1,
              trust := FRAME_TRUST_FP, instruction := ppc64_srr0 c - 8\<rparr>) } }"

section \<open>SPARC\<close>

record MDRawContextSPARC =
  g_r :: "nat \<Rightarrow> u64"
  sparc_pc :: u64

record StackFrameSPARC = StackFrame +
  sparc_context :: MDRawContextSPARC
  sparc_validity :: u32

abbreviation "SPARC_VALID_PC \<equiv> push_bit 0 (1 :: u32)"
abbreviation "SPARC_VALID_SP \<equiv> push_bit 1 (1 :: u32)"
abbreviation "SPARC_VALID_FP \<equiv> push_bit 2 (1 :: u32)"
abbreviation "SPARC_VALID_ALL \<equiv> - 1 :: u32"

definition StackFrameSPARC_new :: StackFrameSPARC where
  "StackFrameSPARC_new = StackFrame.extend StackFrame_new
     \<lparr>sparc_context = \<lparr>g_r = (\<lambda>_. 0), sparc_pc = 0\<rparr>, sparc_validity = 0\<rparr>"

definition sparc_GetContextFrame :: "MDRawContextSPARC option \<Rightarrow> StackFrameSPARC option" where
  "sparc_GetContextFrame context = (case context of
     None \<Rightarrow> None
   | Some c \<Rightarrow> Some (StackFrameSPARC_new\<lparr>sparc_context := c, sparc_validity := SPARC_VALID_ALL,
                       trust := FRAME_TRUST_CONTEXT, instruction := sparc_pc c\<rparr>))"

text \<open>The stack pointer is \<open>g_r[14]\<close>, the frame pointer \<open>g_r[30]\<close>; memory is read as 32-bit words.\<close>

definition sparc_GetCallerFrame :: "u32 memory_region \<Rightarrow> StackFrameSPARC list \<Rightarrow> StackFrameSPARC option" where
  "sparc_GetCallerFrame memory frames =
     (let last_frame = last frames;
          last_regs = g_r (sparc_context last_frame);
          stack_pointer = last_regs 30 in
      if memory = None then None
      else if stack_pointer \<le> last_regs 14 then None
      else do {
        instr \<leftarrow> read_memory memory (stack_pointer + 60);
        if instr \<le> 1 then None
        else do {
          stack_base \<leftarrow> read_memory memory (stack_pointer + 56);
          if stack_base \<le> 1 then None
          else if TerminateWalk (ucast instr) stack_pointer (last_regs 14) (length frames = 1) then None
          else Some (StackFrameSPARC_new
            \<lparr>sparc_context := (sparc_context last_frame)
               \<lparr>g_r := last_regs(14 := stack_pointer, 30 := ucast stack_base), sparc_pc := ucast (instr + 8)\<rparr>,
             instruction := ucast instr, sparc_validity := SPARC_VALID_PC OR SPARC_VALID_SP OR SPARC_VALID_FP,
             trust := FRAME_TRUST_FP\<rparr>) } })"

section \<open>Lists of addresses\<close>

definition prewalked_frame :: "u64 \<Rightarrow> StackFrame" where
  "prewalked_frame address = StackFrame_new\<lparr>instruction := address, trust := FRAME_TRUST_PREWALKED\<rparr>"

definition list_GetContextFrame :: "u64 list \<Rightarrow> StackFrame option" where
  "list_GetContextFrame addresses = (if addresses = [] then None else Some (prewalked_frame (addresses ! 0)))"

definition list_GetCallerFrame :: "u64 list \<Rightarrow> StackFrame list \<Rightarrow> StackFrame option" where
  "list_GetCallerFrame addresses frames =
     (let frame_index = length frames in
      if frame_index \<ge> length addresses then None else Some (prewalked_frame (addresses ! frame_index)))"

section \<open>Stack pointers\<close>

lemma without_symbols_iff:
  "without_symbols get_caller s frames scan = Some (g, f, s') \<longleftrightarrow> g = last frames \<and> get_caller frames = f \<and> s' = s"
  by (auto simp: without_symbols_def keeps_stack_def)

lemma chain_more:
  "StackFrame.more f = StackFrame.more g \<Longrightarrow> ppc_context f = ppc_context g" for f g :: StackFramePPC
  by (cases f; cases g) simp

lemma chain64_more:
  "StackFrame.more f = StackFrame.more g \<Longrightarrow> ppc64_context f = ppc64_context g" for f g :: StackFramePPC64
  by (cases f; cases g) simp

lemma sparc_more:
  "StackFrame.more f = StackFrame.more g \<Longrightarrow> sparc_context f = sparc_context g" for f g :: StackFrameSPARC
  by (cases f; cases g) simp

lemma ppc_caller_above:
  "ppc_GetCallerFrame memory frames = Some f \<Longrightarrow> ppc_gpr (ppc_context (last frames)) 1 < ppc_gpr (ppc_context f) 1"
  by (auto simp: ppc_GetCallerFrame_def bind_eq_Some_conv Let_def not_le split: if_splits)

lemma ppc64_caller_above:
  "ppc64_GetCallerFrame memory frames = Some f \<Longrightarrow> ppc64_gpr (ppc64_context (last frames)) 1 < ppc64_gpr (ppc64_context f) 1"
  by (auto simp: ppc64_GetCallerFrame_def bind_eq_Some_conv Let_def not_le split: if_splits)

lemma sparc_caller_above:
  "sparc_GetCallerFrame memory frames = Some f \<Longrightarrow> g_r (sparc_context (last frames)) 14 < g_r (sparc_context f) 14"
  by (auto simp: sparc_GetCallerFrame_def bind_eq_Some_conv Let_def not_le split: if_splits)

interpretation ppc_walker:
  cpu_walker "without_symbols (ppc_GetCallerFrame memory)" "\<lambda>f. ucast (ppc_gpr (ppc_context f) 1)" for memory
  by unfold_locales
    (auto simp: without_symbols_iff word_less_nat_alt word_le_nat_alt unat_ucast_widen dest: chain_more dest!: ppc_caller_above)

interpretation ppc64_walker:
  cpu_walker "without_symbols (ppc64_GetCallerFrame memory)" "\<lambda>f. ppc64_gpr (ppc64_context f) 1" for memory
  by unfold_locales (auto simp: without_symbols_iff dest: chain64_more dest!: ppc64_caller_above)

interpretation sparc_walker:
  cpu_walker "without_symbols (sparc_GetCallerFrame memory)" "\<lambda>f. g_r (sparc_context f) 14" for memory
  by unfold_locales (auto simp: without_symbols_iff dest: sparc_more dest!: sparc_caller_above)

section \<open>Walking a list\<close>

lemma list_walk_loop:
  assumes "symbolizer_inv s" and "length frames \<le> unat (max_frames w)"
    and "map instruction frames = take (length frames) addresses" and "length frames \<le> length addresses"
  shows "\<exists>completed frames' wo' co' s'.
    walk_loop w (without_symbols (list_GetCallerFrame addresses)) (list_GetCallerFrame addresses frames) frames n wo co s =
      Some (completed, frames', wo', co', s') \<and>
    (if completed then map instruction frames' = take (Suc (unat (max_frames w))) addresses
     else length frames' < length addresses \<and> map instruction frames' = take (length frames') addresses \<and>
       (\<exists>get c. supplier s = Some get \<and> get c (system_info w) = INTERRUPT))"
  using assms
proof (induction "Suc (unat (max_frames w)) - length frames" arbitrary: frames n wo co s)
  case (Suc k)
  show ?case
  proof (cases "length frames < length addresses")
    case False
    then have "list_GetCallerFrame addresses frames = None" by (simp add: list_GetCallerFrame_def)
    with Suc.prems False show ?thesis by (intro exI [of _ True]) (simp add: walk_loop.simps [of _ _ None])
  next
    case True
    let ?f = "prewalked_frame (addresses ! length frames)"
    have caller: "list_GetCallerFrame addresses frames = Some ?f" using True by (simp add: list_GetCallerFrame_def)
    obtain res f1 s1 where fill: "FillSourceLineInfo s (walker_modules w) (unloaded_modules w) (system_info w) ?f = Some (res, f1, s1)"
      "symbolizer_inv s1" "supplier s1 = supplier s" using FillSourceLineInfo_defined [OF Suc.prems(1)] by blast
    have "instruction f1 = addresses ! length frames"
      using FillSourceLineInfo_same [OF fill(1)] by (simp add: same_frame_def prewalked_frame_def)
    then have frames1: "map instruction (frames @ [f1]) = take (length (frames @ [f1])) addresses"
      using Suc.prems(3) True by (simp add: take_Suc_conv_app_nth)
    consider "res = kInterrupt" | "res \<noteq> kInterrupt" "length frames = unat (max_frames w)"
      | "res \<noteq> kInterrupt" "length (frames @ [f1]) \<le> unat (max_frames w)"
      using Suc.prems(2) by fastforce
    then show ?thesis
    proof cases
      case 1
      then have "\<exists>get c. supplier s = Some get \<and> get c (system_info w) = INTERRUPT"
        using fill(1) FillSourceLineInfo_interrupt by blast
      with 1 Suc.prems fill(1) True show ?thesis
        by (subst walk_loop.simps, intro exI [of _ False]) (simp add: caller)
    next
      case 2
      with fill(1) frames1 show ?thesis
        by (subst walk_loop.simps, intro exI [of _ True]) (simp add: caller Let_def)
    next
      case 3
      then have "k = Suc (unat (max_frames w)) - length (frames @ [f1])" "length (frames @ [f1]) \<le> unat (max_frames w)"
        using Suc.hyps(2) by auto
      note IH = Suc.hyps(1) [OF this(1) fill(2) this(2) frames1]
      let ?n = "if dubious (trust f1) then n + 1 else n"
      let ?wo = "if res = kError then InsertSpecialAttentionModule (frame_module f1) wo else wo"
      let ?co = "if res = kWarningCorruptSymbols then InsertSpecialAttentionModule (frame_module f1) co else co"
      have "walk_loop w (without_symbols (list_GetCallerFrame addresses)) (Some ?f) frames n wo co s =
          walk_loop w (without_symbols (list_GetCallerFrame addresses)) (list_GetCallerFrame addresses (frames @ [f1]))
            (frames @ [f1]) ?n ?wo ?co s1"
        using 3 fill(1)
        by (subst walk_loop.simps) (simp add: Let_def without_symbols_def keeps_stack_def split del: if_split)
      moreover have "length (frames @ [f1]) \<le> length addresses" using True by simp
      ultimately show ?thesis using IH [of ?n ?wo ?co] unfolding caller fill(3) by (simp only: simp_thms)
    qed
  qed
qed simp

text \<open>
  C33: a list of addresses is walked as it is. \<open>Walk\<close> returns for every symbolizer whose
  supplier hands out no symbol file that ends in a \<open>STACK\<close> line without fields and without a
  line end. When it completes, the frames are those of the list, in their order, up to one more
  than the maximum; it is cut short, to a proper prefix of the list, only when the supplier of
  symbols answers \<open>INTERRUPT\<close>.
\<close>

theorem AddressList_Walk:
  assumes "symbolizer_inv s"
  shows "\<exists>completed frames without' corrupt' s'.
    Walk w (list_GetContextFrame addresses) (without_symbols (list_GetCallerFrame addresses)) without corrupt s =
      Some (completed, frames, without', corrupt', s') \<and>
    (if completed then map instruction frames = take (Suc (unat (max_frames w))) addresses
     else length frames < length addresses \<and> map instruction frames = take (length frames) addresses \<and>
       (\<exists>get c. supplier s = Some get \<and> get c (system_info w) = INTERRUPT))"
proof -
  have "list_GetContextFrame addresses = list_GetCallerFrame addresses []"
    by (simp add: list_GetContextFrame_def list_GetCallerFrame_def)
  with list_walk_loop [OF assms, of "[]"] show ?thesis by (simp add: Walk_def)
qed

theorem AddressList_Walk_witness:
  "\<exists>frames without' corrupt' s'.
    Walk (example_scan_walker\<lparr>max_frames := 1\<rparr>) (list_GetContextFrame [69636, 70000, 9])
      (without_symbols (list_GetCallerFrame [69636, 70000, 9])) [] [] example_symbolizer =
      Some (True, frames, without', corrupt', s') \<and> map instruction frames = [69636, 70000]"
proof -
  have no: "\<not> (\<exists>get c. supplier example_symbolizer = Some get \<and> get c info = INTERRUPT)" for info
    by (auto simp: example_symbolizer_def StackFrameSymbolizer_new_def split: if_splits)
  let ?w = "example_scan_walker\<lparr>max_frames := 1\<rparr>"
  obtain completed frames without' corrupt' s' where walk:
    "Walk ?w (list_GetContextFrame [69636, 70000, 9]) (without_symbols (list_GetCallerFrame [69636, 70000, 9])) [] []
      example_symbolizer = Some (completed, frames, without', corrupt', s')"
    "if completed then map instruction frames = take (Suc (unat (max_frames ?w))) [69636, 70000, 9]
     else length frames < length [69636, 70000, 9 :: u64] \<and> map instruction frames = take (length frames) [69636, 70000, 9] \<and>
       (\<exists>get c. supplier example_symbolizer = Some get \<and> get c (system_info ?w) = INTERRUPT)"
    using AddressList_Walk [OF example_symbolizer_inv, of ?w "[69636, 70000, 9]" "[]" "[]"] by blast
  then have "completed" using no [of "system_info ?w"] by (cases completed) simp_all
  with walk show ?thesis by simp
qed

end
