(* ===== verification/Dump_Context.thy ===== *)
theory Dump_Context
  imports Stackwalker_ARM64 Stackwalker_ARM Stackwalker_MIPS Stackwalker_X86 Stackwalker_Chains
begin

text \<open>
  \<open>DumpContext\<close> (processor/dump_context.cc, google_breakpad/processor/dump_context.h): the CPU
  context of a thread. The union of pointers is an optional value of a sum type; reading it as
  another member than the one that was set is undefined behaviour, as is a null pointer that is
  dereferenced: the outer \<^const>\<open>None\<close> of a result.
\<close>

unbundle bit_operations_syntax

section \<open>Model\<close>

datatype RawContext =
    RawX86 MDRawContextX86
  | RawPPC MDRawContextPPC
  | RawPPC64 MDRawContextPPC64
  | RawAMD64 MDRawContextAMD64
  | RawSPARC MDRawContextSPARC
  | RawARM arm_iregs
  | RawARM64 arm64_iregs
  | RawMIPS MDRawContextMIPS

record DumpContext =
  dump_valid :: bool
  dump_context :: "RawContext option"
  dump_flags :: u32

definition DumpContext_new :: DumpContext where
  "DumpContext_new = \<lparr>dump_valid = False, dump_context = None, dump_flags = 0\<rparr>"

definition MD_CONTEXT_CPU_MASK :: u32 where "MD_CONTEXT_CPU_MASK = 0xffffff00"
definition MD_CONTEXT_X86 :: u32 where "MD_CONTEXT_X86 = 0x00010000"
definition MD_CONTEXT_PPC :: u32 where "MD_CONTEXT_PPC = 0x20000000"
definition MD_CONTEXT_PPC64 :: u32 where "MD_CONTEXT_PPC64 = 0x01000000"
definition MD_CONTEXT_AMD64 :: u32 where "MD_CONTEXT_AMD64 = 0x00100000"
definition MD_CONTEXT_SPARC :: u32 where "MD_CONTEXT_SPARC = 0x10000000"
definition MD_CONTEXT_ARM :: u32 where "MD_CONTEXT_ARM = 0x40000000"
definition MD_CONTEXT_ARM64 :: u32 where "MD_CONTEXT_ARM64 = 0x00400000"

lemmas MD_CONTEXT_defs =
  MD_CONTEXT_X86_def MD_CONTEXT_PPC_def MD_CONTEXT_PPC64_def MD_CONTEXT_AMD64_def MD_CONTEXT_SPARC_def
  MD_CONTEXT_ARM_def MD_CONTEXT_ARM64_def MD_CONTEXT_MIPS_def MD_CONTEXT_MIPS64_def

definition GetContextCPU :: "DumpContext \<Rightarrow> u32" where
  "GetContextCPU c = (if \<not> dump_valid c then 0 else dump_flags c AND MD_CONTEXT_CPU_MASK)"

definition GetContextFlags :: "DumpContext \<Rightarrow> u32" where
  "GetContextFlags c = dump_flags c"

definition GetContextX86 :: "DumpContext \<Rightarrow> MDRawContextX86 option option" where
  "GetContextX86 c = (if GetContextCPU c \<noteq> MD_CONTEXT_X86 then Some None
     else case dump_context c of None \<Rightarrow> Some None | Some (RawX86 r) \<Rightarrow> Some (Some r) | _ \<Rightarrow> None)"

definition GetContextPPC :: "DumpContext \<Rightarrow> MDRawContextPPC option option" where
  "GetContextPPC c = (if GetContextCPU c \<noteq> MD_CONTEXT_PPC then Some None
     else case dump_context c of None \<Rightarrow> Some None | Some (RawPPC r) \<Rightarrow> Some (Some r) | _ \<Rightarrow> None)"

definition GetContextPPC64 :: "DumpContext \<Rightarrow> MDRawContextPPC64 option option" where
  "GetContextPPC64 c = (if GetContextCPU c \<noteq> MD_CONTEXT_PPC64 then Some None
     else case dump_context c of None \<Rightarrow> Some None | Some (RawPPC64 r) \<Rightarrow> Some (Some r) | _ \<Rightarrow> None)"

definition GetContextAMD64 :: "DumpContext \<Rightarrow> MDRawContextAMD64 option option" where
  "GetContextAMD64 c = (if GetContextCPU c \<noteq> MD_CONTEXT_AMD64 then Some None
     else case dump_context c of None \<Rightarrow> Some None | Some (RawAMD64 r) \<Rightarrow> Some (Some r) | _ \<Rightarrow> None)"

definition GetContextSPARC :: "DumpContext \<Rightarrow> MDRawContextSPARC option option" where
  "GetContextSPARC c = (if GetContextCPU c \<noteq> MD_CONTEXT_SPARC then Some None
     else case dump_context c of None \<Rightarrow> Some None | Some (RawSPARC r) \<Rightarrow> Some (Some r) | _ \<Rightarrow> None)"

definition GetContextARM :: "DumpContext \<Rightarrow> arm_iregs option option" where
  "GetContextARM c = (if GetContextCPU c \<noteq> MD_CONTEXT_ARM then Some None
     else case dump_context c of None \<Rightarrow> Some None | Some (RawARM r) \<Rightarrow> Some (Some r) | _ \<Rightarrow> None)"

definition GetContextARM64 :: "DumpContext \<Rightarrow> arm64_iregs option option" where
  "GetContextARM64 c = (if GetContextCPU c \<noteq> MD_CONTEXT_ARM64 then Some None
     else case dump_context c of None \<Rightarrow> Some None | Some (RawARM64 r) \<Rightarrow> Some (Some r) | _ \<Rightarrow> None)"

definition GetContextMIPS :: "DumpContext \<Rightarrow> MDRawContextMIPS option option" where
  "GetContextMIPS c = (if GetContextCPU c \<noteq> MD_CONTEXT_MIPS \<and> GetContextCPU c \<noteq> MD_CONTEXT_MIPS64 then Some None
     else case dump_context c of None \<Rightarrow> Some None | Some (RawMIPS r) \<Rightarrow> Some (Some r) | _ \<Rightarrow> None)"

text \<open>A member of the structure behind a pointer.\<close>

definition member :: "('c \<Rightarrow> 'v) \<Rightarrow> 'c option option \<Rightarrow> 'v option option" where
  "member get pointer = do { p \<leftarrow> pointer; c \<leftarrow> p; Some (Some (get c)) }"

definition GetInstructionPointer :: "DumpContext \<Rightarrow> u64 option option" where
  "GetInstructionPointer c =
     (if \<not> dump_valid c then Some None
      else let cpu = GetContextCPU c in
        if cpu = MD_CONTEXT_AMD64 then member rip (GetContextAMD64 c)
        else if cpu = MD_CONTEXT_ARM then member (\<lambda>r. ucast (r ARM_REG_PC)) (GetContextARM c)
        else if cpu = MD_CONTEXT_ARM64 then member (\<lambda>r. r ! REG_PC) (GetContextARM64 c)
        else if cpu = MD_CONTEXT_PPC then member (\<lambda>r. ucast (ppc_srr0 r)) (GetContextPPC c)
        else if cpu = MD_CONTEXT_PPC64 then member ppc64_srr0 (GetContextPPC64 c)
        else if cpu = MD_CONTEXT_SPARC then member sparc_pc (GetContextSPARC c)
        else if cpu = MD_CONTEXT_X86 then member (\<lambda>r. ucast (eip r)) (GetContextX86 c)
        else if cpu = MD_CONTEXT_MIPS \<or> cpu = MD_CONTEXT_MIPS64 then member epc (GetContextMIPS c)
        else Some None)"

definition GetStackPointer :: "DumpContext \<Rightarrow> u64 option option" where
  "GetStackPointer c =
     (if \<not> dump_valid c then Some None
      else let cpu = GetContextCPU c in
        if cpu = MD_CONTEXT_AMD64 then member rsp (GetContextAMD64 c)
        else if cpu = MD_CONTEXT_ARM then member (\<lambda>r. ucast (r ARM_REG_SP)) (GetContextARM c)
        else if cpu = MD_CONTEXT_ARM64 then member (\<lambda>r. r ! REG_SP) (GetContextARM64 c)
        else if cpu = MD_CONTEXT_PPC then member (\<lambda>r. ucast (ppc_gpr r 1)) (GetContextPPC c)
        else if cpu = MD_CONTEXT_PPC64 then member (\<lambda>r. ppc64_gpr r 1) (GetContextPPC64 c)
        else if cpu = MD_CONTEXT_SPARC then member (\<lambda>r. g_r r 14) (GetContextSPARC c)
        else if cpu = MD_CONTEXT_X86 then member (\<lambda>r. ucast (esp r)) (GetContextX86 c)
        else if cpu = MD_CONTEXT_MIPS \<or> cpu = MD_CONTEXT_MIPS64 then member (\<lambda>r. mips_iregs r MIPS_REG_SP) (GetContextMIPS c)
        else Some None)"

text \<open>The setters write the flags or the member of the union that belongs to a CPU.\<close>

definition SetContextFlags :: "u32 \<Rightarrow> DumpContext \<Rightarrow> DumpContext" where
  "SetContextFlags flags c = c\<lparr>dump_flags := flags\<rparr>"

definition SetContext :: "RawContext option \<Rightarrow> DumpContext \<Rightarrow> DumpContext" where
  "SetContext raw c = c\<lparr>dump_context := raw\<rparr>"

definition FreeContext :: "DumpContext \<Rightarrow> DumpContext" where
  "FreeContext c = c\<lparr>dump_flags := 0, dump_context := None\<rparr>"

section \<open>Well-formed contexts\<close>

text \<open>The member of the union is the one of the CPU that the flags name.\<close>

fun raw_cpus :: "RawContext \<Rightarrow> u32 list" where
  "raw_cpus (RawX86 _) = [MD_CONTEXT_X86]"
| "raw_cpus (RawPPC _) = [MD_CONTEXT_PPC]"
| "raw_cpus (RawPPC64 _) = [MD_CONTEXT_PPC64]"
| "raw_cpus (RawAMD64 _) = [MD_CONTEXT_AMD64]"
| "raw_cpus (RawSPARC _) = [MD_CONTEXT_SPARC]"
| "raw_cpus (RawARM _) = [MD_CONTEXT_ARM]"
| "raw_cpus (RawARM64 _) = [MD_CONTEXT_ARM64]"
| "raw_cpus (RawMIPS _) = [MD_CONTEXT_MIPS, MD_CONTEXT_MIPS64]"

definition context_ok :: "DumpContext \<Rightarrow> bool" where
  "context_ok c \<longleftrightarrow> dump_valid c \<and> (case dump_context c of None \<Rightarrow> False | Some r \<Rightarrow> GetContextCPU c \<in> set (raw_cpus r))"

fun raw_ip :: "RawContext \<Rightarrow> u64" where
  "raw_ip (RawX86 r) = ucast (eip r)"
| "raw_ip (RawPPC r) = ucast (ppc_srr0 r)"
| "raw_ip (RawPPC64 r) = ppc64_srr0 r"
| "raw_ip (RawAMD64 r) = rip r"
| "raw_ip (RawSPARC r) = sparc_pc r"
| "raw_ip (RawARM r) = ucast (r ARM_REG_PC)"
| "raw_ip (RawARM64 r) = r ! REG_PC"
| "raw_ip (RawMIPS r) = epc r"

fun raw_sp :: "RawContext \<Rightarrow> u64" where
  "raw_sp (RawX86 r) = ucast (esp r)"
| "raw_sp (RawPPC r) = ucast (ppc_gpr r 1)"
| "raw_sp (RawPPC64 r) = ppc64_gpr r 1"
| "raw_sp (RawAMD64 r) = rsp r"
| "raw_sp (RawSPARC r) = g_r r 14"
| "raw_sp (RawARM r) = ucast (r ARM_REG_SP)"
| "raw_sp (RawARM64 r) = r ! REG_SP"
| "raw_sp (RawMIPS r) = mips_iregs r MIPS_REG_SP"

lemmas GetContext_defs =
  GetContextX86_def GetContextPPC_def GetContextPPC64_def GetContextAMD64_def GetContextSPARC_def
  GetContextARM_def GetContextARM64_def GetContextMIPS_def

text \<open>The pointers of a well-formed context are there, and come from the registers of its CPU.\<close>

lemma context_pointers:
  assumes "context_ok c"
  obtains r where "dump_context c = Some r" "GetInstructionPointer c = Some (Some (raw_ip r))"
    "GetStackPointer c = Some (Some (raw_sp r))"
proof -
  from assms obtain r where r: "dump_context c = Some r" "GetContextCPU c \<in> set (raw_cpus r)" "dump_valid c"
    by (auto simp: context_ok_def split: option.splits)
  then have "GetInstructionPointer c = Some (Some (raw_ip r)) \<and> GetStackPointer c = Some (Some (raw_sp r))"
    by (cases r)
      (auto simp: GetInstructionPointer_def GetStackPointer_def GetContext_defs member_def MD_CONTEXT_defs Let_def)
  with r(1) show thesis by (blast intro: that)
qed

end
