(* ===== verification/Stackwalker_CPU.thy ===== *)
theory Stackwalker_CPU
  imports Dump_Context
begin

text \<open>
  \<open>Stackwalker::StackwalkerForCPU\<close> (processor/stackwalker.cc): the walker for the CPU of a
  context, and the walk of whichever walker it is. The configuration has the arguments
  \<open>system_info\<close>, \<open>modules\<close> and \<open>unloaded_modules\<close> and the static limits. The outer
  \<^const>\<open>None\<close> of a result is undefined behaviour, the inner one a null pointer.
\<close>

section \<open>Model\<close>

text \<open>The concrete subclasses with their members; the walkers of 32-bit CPUs test the memory.\<close>

datatype CpuStackwalker =
    StackwalkerX86 WalkerConfig "MDRawContextX86 option" "MemoryRegion option"
  | StackwalkerPPC WalkerConfig "MDRawContextPPC option" "MemoryRegion option"
  | StackwalkerPPC64 WalkerConfig "MDRawContextPPC64 option" "MemoryRegion option"
  | StackwalkerAMD64 WalkerConfig "MDRawContextAMD64 option" "MemoryRegion option"
  | StackwalkerSPARC WalkerConfig "MDRawContextSPARC option" "MemoryRegion option"
  | StackwalkerMIPS WalkerConfig "MDRawContextMIPS option" "MemoryRegion option"
  | StackwalkerARM WalkerConfig "arm_iregs option" int "MemoryRegion option"
  | StackwalkerARM64 WalkerConfig "arm64_iregs option" "MemoryRegion option"

definition MD_CONTEXT_ARM_REG_IOS_FP :: int where "MD_CONTEXT_ARM_REG_IOS_FP = 7"

definition StackwalkerForCPU ::
    "WalkerConfig \<Rightarrow> DumpContext option \<Rightarrow> MemoryRegion option \<Rightarrow> CpuStackwalker option option" where
  "StackwalkerForCPU w context memory = (case context of
     None \<Rightarrow> Some None
   | Some context \<Rightarrow>
       let cpu = GetContextCPU context in
       if cpu = MD_CONTEXT_X86 then do {
         c \<leftarrow> GetContextX86 context;
         Some (Some (StackwalkerX86 w c (memory_of_32_bit_cpu memory))) }
       else if cpu = MD_CONTEXT_PPC then do {
         c \<leftarrow> GetContextPPC context;
         Some (Some (StackwalkerPPC w c (memory_of_32_bit_cpu memory))) }
       else if cpu = MD_CONTEXT_PPC64 then do {
         c \<leftarrow> GetContextPPC64 context;
         Some (Some (StackwalkerPPC64 w c memory)) }
       else if cpu = MD_CONTEXT_AMD64 then do {
         c \<leftarrow> GetContextAMD64 context;
         Some (Some (StackwalkerAMD64 w c memory)) }
       else if cpu = MD_CONTEXT_SPARC then do {
         c \<leftarrow> GetContextSPARC context;
         Some (Some (StackwalkerSPARC w c memory)) }
       else if cpu = MD_CONTEXT_MIPS \<or> cpu = MD_CONTEXT_MIPS64 then do {
         c \<leftarrow> GetContextMIPS context;
         memory \<leftarrow> mips_memory c memory;
         Some (Some (StackwalkerMIPS w c memory)) }
       else if cpu = MD_CONTEXT_ARM then do {
         info \<leftarrow> system_info w;
         let fp_register = (if os_short info = ''ios'' then MD_CONTEXT_ARM_REG_IOS_FP else -1);
         c \<leftarrow> GetContextARM context;
         Some (Some (StackwalkerARM w c fp_register memory)) }
       else if cpu = MD_CONTEXT_ARM64 then do {
         c \<leftarrow> GetContextARM64 context;
         Some (Some (StackwalkerARM64 w c memory)) }
       else Some None)"

text \<open>The call stack of a walk has the frames of one CPU.\<close>

datatype CpuCallStack =
    FramesX86 "StackFrameX86 list"
  | FramesPPC "StackFramePPC list"
  | FramesPPC64 "StackFramePPC64 list"
  | FramesAMD64 "StackFrameAMD64 list"
  | FramesSPARC "StackFrameSPARC list"
  | FramesMIPS "StackFrameMIPS list"
  | FramesARM "StackFrameARM list"
  | FramesARM64 "StackFrameARM64 list"

type_synonym cpu_walk_result =
  "bool \<times> CpuCallStack \<times> CodeModule list \<times> CodeModule list \<times> StackFrameSymbolizer"

definition stack_of :: "('f list \<Rightarrow> CpuCallStack) \<Rightarrow> (bool \<times> 'f list \<times> 'r) option \<Rightarrow> (bool \<times> CpuCallStack \<times> 'r) option" where
  "stack_of frames_of result = map_option (\<lambda>(completed, frames, rest). (completed, frames_of frames, rest)) result"

text \<open>
  \<open>Walk\<close> with the virtual functions of the walker. The MIPS walker reads the flags of its
  context, which is there when it has a frame to start from.
\<close>

fun Stackwalker_Walk ::
    "CpuStackwalker \<Rightarrow> CodeModule list \<Rightarrow> CodeModule list \<Rightarrow> StackFrameSymbolizer \<Rightarrow> cpu_walk_result option" where
  "Stackwalker_Walk (StackwalkerX86 w c memory) without corrupt s =
     stack_of FramesX86 (Walk w (x86_GetContextFrame c) (x86_GetCallerFrame w (memory32 memory)) without corrupt s)"
| "Stackwalker_Walk (StackwalkerPPC w c memory) without corrupt s =
     stack_of FramesPPC (Walk w (ppc_GetContextFrame c) (without_symbols (ppc_GetCallerFrame (memory32 memory))) without corrupt s)"
| "Stackwalker_Walk (StackwalkerPPC64 w c memory) without corrupt s =
     stack_of FramesPPC64 (Walk w (ppc64_GetContextFrame c) (without_symbols (ppc64_GetCallerFrame (memory64 memory))) without corrupt s)"
| "Stackwalker_Walk (StackwalkerAMD64 w c memory) without corrupt s =
     stack_of FramesAMD64 (Walk w (amd64_GetContextFrame c) (keeps_stack (amd64_GetCallerFrame w (memory64 memory))) without corrupt s)"
| "Stackwalker_Walk (StackwalkerSPARC w c memory) without corrupt s =
     stack_of FramesSPARC (Walk w (sparc_GetContextFrame c) (without_symbols (sparc_GetCallerFrame (memory32 memory))) without corrupt s)"
| "Stackwalker_Walk (StackwalkerMIPS w c memory) without corrupt s =
     stack_of FramesMIPS (Walk w (mips_GetContextFrame c)
       (keeps_stack (mips_GetCallerFrame w (case c of None \<Rightarrow> 0 | Some r \<Rightarrow> mips_flags r) memory)) without corrupt s)"
| "Stackwalker_Walk (StackwalkerARM w c fp_register memory) without corrupt s =
     stack_of FramesARM (Walk w (arm_GetContextFrame arm_context_frame_validity c)
       (keeps_stack (arm_GetCallerFrame w fp_register (memory32 memory))) without corrupt s)"
| "Stackwalker_Walk (StackwalkerARM64 w c memory) without corrupt s =
     stack_of FramesARM64 (Walk w (arm64_GetContextFrame w c) (arm64_GetCallerFrame w (memory64 memory)) without corrupt s)"

section \<open>Places\<close>

text \<open>The instruction and the stack pointer of every frame.\<close>

fun places :: "CpuCallStack \<Rightarrow> (u64 \<times> u64) list" where
  "places (FramesX86 fs) = map (\<lambda>f. (instruction f, ucast (esp (x86_context f)))) fs"
| "places (FramesPPC fs) = map (\<lambda>f. (instruction f, ucast (ppc_gpr (ppc_context f) 1))) fs"
| "places (FramesPPC64 fs) = map (\<lambda>f. (instruction f, ppc64_gpr (ppc64_context f) 1)) fs"
| "places (FramesAMD64 fs) = map (\<lambda>f. (instruction f, rsp (amd64_context f))) fs"
| "places (FramesSPARC fs) = map (\<lambda>f. (instruction f, g_r (sparc_context f) 14)) fs"
| "places (FramesMIPS fs) = map (\<lambda>f. (instruction f, mips_iregs (mips_context f) MIPS_REG_SP)) fs"
| "places (FramesARM fs) = map (\<lambda>f. (instruction f, ucast (arm_regs f ARM_REG_SP))) fs"
| "places (FramesARM64 fs) = map (\<lambda>f. (instruction f, iregs f ! REG_SP)) fs"

text \<open>A well-made trace: bounded, ascending, and starting at the given place.\<close>

definition sound_trace :: "WalkerConfig \<Rightarrow> (u64 \<times> u64) \<Rightarrow> (u64 \<times> u64) list \<Rightarrow> bool" where
  "sound_trace w start trace \<longleftrightarrow> ascending snd trace \<and> length trace \<le> Suc (unat (max_frames w)) \<and>
     (trace \<noteq> [] \<longrightarrow> hd trace = start)"

context cpu_walker
begin

lemma walk_sound:
  assumes "Walk w (Some f) get_caller wo co s = Some (d, frames, wo', co', s')"
  shows "sound_trace w (instruction f, sp f) (map (\<lambda>f. (instruction f, sp f)) frames)"
proof -
  have "ascending snd (map (\<lambda>f. (instruction f, sp f)) frames)" "length frames \<le> Suc (unat (max_frames w))"
    using walk_ascending [OF assms] by (simp_all add: ascending_map [of sp] ascending_map [of snd] comp_def)
  then show ?thesis using walk_first [OF assms] by (auto simp: sound_trace_def hd_map)
qed

end

lemma stack_of_Some:
  "stack_of F result = Some (d, st, rest) \<longleftrightarrow> (\<exists>frames. result = Some (d, frames, rest) \<and> st = F frames)"
  by (auto simp: stack_of_def)

text \<open>The context frame of each walker is where its context says.\<close>

lemmas GetContextFrame_defs =
  x86_GetContextFrame_def ppc_GetContextFrame_def ppc64_GetContextFrame_def amd64_GetContextFrame_def
  sparc_GetContextFrame_def mips_GetContextFrame_def arm_GetContextFrame_def arm64_GetContextFrame_def

fun walker_start :: "CpuStackwalker \<Rightarrow> WalkerConfig \<times> RawContext option" where
  "walker_start (StackwalkerX86 w c memory) = (w, map_option RawX86 c)"
| "walker_start (StackwalkerPPC w c memory) = (w, map_option RawPPC c)"
| "walker_start (StackwalkerPPC64 w c memory) = (w, map_option RawPPC64 c)"
| "walker_start (StackwalkerAMD64 w c memory) = (w, map_option RawAMD64 c)"
| "walker_start (StackwalkerSPARC w c memory) = (w, map_option RawSPARC c)"
| "walker_start (StackwalkerMIPS w c memory) = (w, map_option RawMIPS c)"
| "walker_start (StackwalkerARM w c fp memory) = (w, map_option RawARM c)"
| "walker_start (StackwalkerARM64 w c memory) = (w, map_option RawARM64 c)"

lemma Stackwalker_Walk_sound:
  assumes "Stackwalker_Walk walker wo co s = Some (d, st, wo', co', s')" and "walker_start walker = (w, Some r)"
  shows "sound_trace w (raw_ip r, raw_sp r) (places st)"
  using assms
proof (cases walker)
  case (StackwalkerX86 w' c m)
  with assms show ?thesis
    by (auto simp: stack_of_Some GetContextFrame_defs dest!: x86_walker.walk_sound)
next
  case (StackwalkerPPC w' c m)
  with assms show ?thesis
    by (auto simp: stack_of_Some GetContextFrame_defs dest!: ppc_walker.walk_sound)
next
  case (StackwalkerPPC64 w' c m)
  with assms show ?thesis
    by (auto simp: stack_of_Some GetContextFrame_defs dest!: ppc64_walker.walk_sound)
next
  case (StackwalkerAMD64 w' c m)
  with assms show ?thesis
    by (auto simp: stack_of_Some GetContextFrame_defs dest!: amd64_walker.walk_sound)
next
  case (StackwalkerSPARC w' c m)
  with assms show ?thesis
    by (auto simp: stack_of_Some GetContextFrame_defs dest!: sparc_walker.walk_sound)
next
  case (StackwalkerMIPS w' c m)
  with assms show ?thesis
    by (auto simp: stack_of_Some GetContextFrame_defs dest!: mips_walker.walk_sound)
next
  case (StackwalkerARM w' c fp m)
  with assms show ?thesis
    by (auto simp: stack_of_Some GetContextFrame_defs dest!: arm_walker.walk_sound)
next
  case (StackwalkerARM64 w' c m)
  with assms show ?thesis
    by (auto simp: stack_of_Some GetContextFrame_defs REG_LR_def REG_SP_def dest!: arm64_walker.walk_sound)
qed

lemma StackwalkerForCPU_start:
  assumes "StackwalkerForCPU w (Some context) memory = Some (Some walker)" and "context_ok context"
  shows "walker_start walker = (w, dump_context context)"
proof -
  obtain r where r: "dump_context context = Some r" "GetContextCPU context \<in> set (raw_cpus r)"
    using assms(2) by (auto simp: context_ok_def split: option.splits)
  with assms(1) show ?thesis
    by (cases r)
      (auto simp: StackwalkerForCPU_def GetContext_defs MD_CONTEXT_defs Let_def bind_eq_Some_conv split: if_splits)
qed

lemma StackwalkerForCPU_defined:
  assumes "context_ok context" and "system_info w \<noteq> None"
  shows "\<exists>walker. StackwalkerForCPU w (Some context) memory = Some (Some walker)"
proof -
  obtain r where r: "dump_context context = Some r" "GetContextCPU context \<in> set (raw_cpus r)"
    using assms(1) by (auto simp: context_ok_def split: option.splits)
  have "\<exists>m. mips_memory (Some c) memory = Some m" for c
    by (cases memory) (simp_all add: mips_memory_def Let_def)
  with r assms(2) show ?thesis
    by (cases r) (auto simp: StackwalkerForCPU_def GetContext_defs MD_CONTEXT_defs Let_def bind_eq_Some_conv)
qed

text \<open>
  C8: for every supported CPU, \<open>StackwalkerForCPU\<close> makes a walker for a well-formed context, and
  a trace that this walker completes or breaks off is sound: it starts at the instruction and
  the stack pointer that the context gives, it has at most \<open>max_frames + 1\<close> frames, the stack
  pointers increase strictly from the first caller on, and the first caller's is not below the
  one of the context. So no walk runs in a circle, whatever the memory and the symbols hold.
\<close>

theorem StackwalkerForCPU_Walk:
  assumes "context_ok context" and "system_info w \<noteq> None"
  shows "\<exists>walker. StackwalkerForCPU w (Some context) memory = Some (Some walker) \<and>
    (\<forall>without corrupt s completed st without' corrupt' s'.
       Stackwalker_Walk walker without corrupt s = Some (completed, st, without', corrupt', s') \<longrightarrow>
       length (places st) \<le> unat (max_frames w) + 1 \<and>
       (places st \<noteq> [] \<longrightarrow> GetInstructionPointer context = Some (Some (fst (places st ! 0))) \<and>
                          GetStackPointer context = Some (Some (snd (places st ! 0)))) \<and>
       (1 < length (places st) \<longrightarrow> snd (places st ! 0) \<le> snd (places st ! 1)) \<and>
       (\<forall>i j. 0 < i \<longrightarrow> i < j \<longrightarrow> j < length (places st) \<longrightarrow> snd (places st ! i) < snd (places st ! j)))"
proof -
  obtain walker where walker: "StackwalkerForCPU w (Some context) memory = Some (Some walker)"
    using StackwalkerForCPU_defined [OF assms] by blast
  obtain r where r: "dump_context context = Some r" "GetInstructionPointer context = Some (Some (raw_ip r))"
    "GetStackPointer context = Some (Some (raw_sp r))" using context_pointers [OF assms(1)] .
  have start: "walker_start walker = (w, Some r)" using StackwalkerForCPU_start [OF walker assms(1)] r(1) by simp
  show ?thesis
  proof (intro exI [of _ walker] conjI walker allI impI)
    fix wo co s d st wo' co' s'
    assume "Stackwalker_Walk walker wo co s = Some (d, st, wo', co', s')"
    then have sound: "sound_trace w (raw_ip r, raw_sp r) (places st)" using start by (rule Stackwalker_Walk_sound)
    then show "length (places st) \<le> unat (max_frames w) + 1" by (simp add: sound_trace_def)
    from sound have asc: "ascending snd (places st)" by (simp add: sound_trace_def)
    then show "snd (places st ! 0) \<le> snd (places st ! 1)" if "1 < length (places st)"
      using that by (auto simp: ascending_def dest: spec [of _ 0])
    show "snd (places st ! i) < snd (places st ! j)" if "0 < i" "i < j" "j < length (places st)" for i j
      using ascending_less [OF asc that] .
    show "GetInstructionPointer context = Some (Some (fst (places st ! 0)))"
      "GetStackPointer context = Some (Some (snd (places st ! 0)))" if "places st \<noteq> []"
      using sound that r(2,3) by (simp_all add: sound_trace_def hd_conv_nth)
  qed
qed

definition example_thread :: DumpContext where
  "example_thread = \<lparr>dump_valid = True,
     dump_context = Some (RawPPC \<lparr>ppc_srr0 = 0x400000, ppc_gpr = (\<lambda>_. 0x1000)\<rparr>), dump_flags = MD_CONTEXT_PPC\<rparr>"

definition example_region :: MemoryRegion where
  "example_region = \<lparr>GetBase = 0x1000, GetSize = 0x20,
     GetMemoryAtAddress32 = (\<lambda>a. if a = 0x1000 then Some 0x1010 else if a = 0x1018 then Some 0x400020
        else if a = 0x1010 then Some 0 else None),
     GetMemoryAtAddress64 = (\<lambda>a. None)\<rparr>"

lemma example_thread_ok: "context_ok example_thread"
  by (simp add: example_thread_def context_ok_def GetContextCPU_def MD_CONTEXT_PPC_def MD_CONTEXT_CPU_MASK_def)

lemma example_cpu_walker:
  "StackwalkerForCPU example_walker (Some example_thread) (Some example_region) =
     Some (Some (StackwalkerPPC example_walker (Some \<lparr>ppc_srr0 = 0x400000, ppc_gpr = (\<lambda>_. 0x1000)\<rparr>) (Some example_region)))"
  by (simp add: StackwalkerForCPU_def GetContextPPC_def GetContextCPU_def example_thread_def MD_CONTEXT_CPU_MASK_def
      memory_of_32_bit_cpu_def example_region_def MD_CONTEXT_defs)

lemma example_cpu_walk:
  "\<exists>frames without'. Stackwalker_Walk (StackwalkerPPC example_walker (Some \<lparr>ppc_srr0 = 0x400000, ppc_gpr = (\<lambda>_. 0x1000)\<rparr>)
      (Some example_region)) [] [] (StackFrameSymbolizer_new None None) =
    Some (True, FramesPPC frames, without', [], StackFrameSymbolizer_new None None) \<and> length frames = 2"
  using word_le_nat_alt [of "0x400020 :: u32" 1]
  by (auto simp: Walk_def ppc_GetContextFrame_def walk_loop.simps [of _ _ "Some f" for f] FillSourceLineInfo_def find_module_def
      example_walker_def Let_def ppc_GetCallerFrame_def without_symbols_def keeps_stack_def StackFrameSymbolizer_new_def
      walk_loop.simps [of _ _ None] read_memory_def example_region_def TerminateWalk_def stack_of_def StackFramePPC_new_def)

theorem StackwalkerForCPU_Walk_witness:
  "\<exists>walker st without'. StackwalkerForCPU example_walker (Some example_thread) (Some example_region) = Some (Some walker) \<and>
    Stackwalker_Walk walker [] [] (StackFrameSymbolizer_new None None) =
      Some (True, st, without', [], StackFrameSymbolizer_new None None) \<and>
    length (places st) = 2 \<and> snd (places st ! 0) \<le> snd (places st ! 1)"
proof -
  have "system_info example_walker \<noteq> None" by (simp add: example_walker_def)
  from StackwalkerForCPU_Walk [OF example_thread_ok this, of "Some example_region"] example_cpu_walk
  show ?thesis by (fastforce simp: example_cpu_walker)
qed

end
