(* ===== verification/Symbol_Writer.thy ===== *)
theory Symbol_Writer
  imports Symbol_File Range_Lists "HOL-Library.Product_Lexorder"
begin

text \<open>
  The symbol dumper's side of a symbol file: \<open>google_breakpad::Module\<close> (common/module.h,
  common/module.cc), the tables that the DWARF and STABS readers fill, and \<open>Module::Write\<close>, which
  puts them to a stream as text.

  A \<open>File\<close> is made by \<open>FindFile\<close> only and is identified by its name; \<open>files_\<close> maps the name to the
  \<open>source_id\<close>. The sets of functions and of public symbols are ordered by the keys that their
  comparators look at. An output stream takes characters until its room is used up and then fails
  for good; it is in decimal mode between two records. The result of an assertion that fails is
  \<^const>\<open>None\<close>.
\<close>

section \<open>Model\<close>

record ModuleRange =
  rng_address :: u64
  rng_size :: u64

record DumpLine =
  dl_address :: u64
  dl_size :: u64
  dl_file :: string
  dl_number :: int32

record DumpFunction =
  df_name :: string
  df_address :: u64
  df_ranges :: "ModuleRange list"
  df_parameter_size :: u64
  df_lines :: "DumpLine list"

record Extern =
  ext_address :: u64
  ext_name :: string

type_synonym RuleMap = "(string, string) std_map"
type_synonym RuleChangeMap = "(u64, RuleMap) std_map"

record StackFrameEntry =
  sfe_address :: u64
  sfe_size :: u64
  initial_rules :: RuleMap
  rule_changes :: RuleChangeMap

datatype SymbolData = ALL_SYMBOL_DATA | ONLY_CFI | NO_CFI

record DumpModule =
  dm_name :: string
  dm_os :: string
  dm_architecture :: string
  dm_id :: string
  dm_code_id :: string
  load_address :: u64
  address_ranges :: "ModuleRange list"
  dm_files :: "(string, int) std_map"
  dm_functions :: "(u64 \<times> string, DumpFunction) std_map"
  stack_frame_entries :: "StackFrameEntry list"
  externs :: "(u64, Extern) std_map"

definition DumpModule_new :: "string \<Rightarrow> string \<Rightarrow> string \<Rightarrow> string \<Rightarrow> string \<Rightarrow> DumpModule" where
  "DumpModule_new name os architecture id' code_id =
     \<lparr>dm_name = name, dm_os = os, dm_architecture = architecture, dm_id = id', dm_code_id = code_id,
      load_address = 0, address_ranges = [], dm_files = [], dm_functions = [], stack_frame_entries = [],
      externs = []\<rparr>"

definition SetLoadAddress :: "u64 \<Rightarrow> DumpModule \<Rightarrow> DumpModule" where
  "SetLoadAddress address m = m\<lparr>load_address := address\<rparr>"

definition SetAddressRanges :: "ModuleRange list \<Rightarrow> DumpModule \<Rightarrow> DumpModule" where
  "SetAddressRanges ranges m = m\<lparr>address_ranges := ranges\<rparr>"

definition AddressIsInModule :: "DumpModule \<Rightarrow> u64 \<Rightarrow> bool" where
  "AddressIsInModule m address \<longleftrightarrow> address_ranges m = [] \<or>
     list_ex (\<lambda>segment. address \<ge> rng_address segment \<and> address < rng_address segment + rng_size segment)
       (address_ranges m)"

definition AddFunction :: "DumpFunction \<Rightarrow> DumpModule \<Rightarrow> DumpModule option" where
  "AddFunction function m =
     (if df_name function = [] then None
      else if \<not> AddressIsInModule m (df_address function) then Some m
      else
        let a = df_address function;
            found = (if std_find (externs m) a \<noteq> None then Some a
                     else if dm_architecture m = ''arm'' \<and> a AND 1 = 0 \<and> std_find (externs m) (a OR 1) \<noteq> None
                     then Some (a OR 1) else None);
            m = (case found of None \<Rightarrow> m | Some k \<Rightarrow> m\<lparr>externs := std_erase (lower_bound (externs m) k) (externs m)\<rparr>)
        in Some (m\<lparr>dm_functions := std_insert (a, df_name function) function (dm_functions m)\<rparr>))"

fun AddFunctions :: "DumpFunction list \<Rightarrow> DumpModule \<Rightarrow> DumpModule option" where
  "AddFunctions [] m = Some m"
| "AddFunctions (f # fs) m = Option.bind (AddFunction f m) (AddFunctions fs)"

definition AddStackFrameEntry :: "StackFrameEntry \<Rightarrow> DumpModule \<Rightarrow> DumpModule" where
  "AddStackFrameEntry stack_frame_entry m =
     (if \<not> AddressIsInModule m (sfe_address stack_frame_entry) then m
      else m\<lparr>stack_frame_entries := stack_frame_entries m @ [stack_frame_entry]\<rparr>)"

definition AddExtern :: "Extern \<Rightarrow> DumpModule \<Rightarrow> DumpModule" where
  "AddExtern ext m =
     (if \<not> AddressIsInModule m (ext_address ext) then m
      else m\<lparr>externs := std_insert (ext_address ext) ext (externs m)\<rparr>)"

definition GetFunctions :: "DumpModule \<Rightarrow> DumpFunction list" where
  "GetFunctions m = map snd (dm_functions m)"

definition GetExterns :: "DumpModule \<Rightarrow> Extern list" where
  "GetExterns m = map snd (externs m)"

definition FindFile :: "string \<Rightarrow> DumpModule \<Rightarrow> DumpModule" where
  "FindFile name m =
     (let destiny = lower_bound (dm_files m) name in
      if destiny = length (dm_files m) \<or> fst (dm_files m ! destiny) \<noteq> name
      then m\<lparr>dm_files := std_insert name (- 1) (dm_files m)\<rparr>
      else m)"

definition FindExistingFile :: "string \<Rightarrow> DumpModule \<Rightarrow> string option" where
  "FindExistingFile name m = (if std_find (dm_files m) name = None then None else Some name)"

definition GetFiles :: "DumpModule \<Rightarrow> string list" where
  "GetFiles m = map fst (dm_files m)"

text \<open>
  Numbering the files: every identifier becomes \<open>-1\<close>, the identifiers of the files that lines cite
  become 0, and these are then numbered in the order of their names.
\<close>

definition set_source_id :: "string \<Rightarrow> int \<Rightarrow> (string, int) std_map \<Rightarrow> (string, int) std_map" where
  "set_source_id name i fs = map (\<lambda>(n, j). if n = name then (n, i) else (n, j)) fs"

text \<open>
  The numbers are integers; the theorems are about modules with less than \<open>2 ^ 31\<close> files, for which
  \<open>next_source_id\<close> stays in the range of \<open>int\<close>.
\<close>

fun number_files :: "int \<Rightarrow> (string, int) std_map \<Rightarrow> (string, int) std_map" where
  "number_files next_source_id [] = []"
| "number_files next_source_id ((n, i) # fs) =
     (if i = 0 then (n, next_source_id) # number_files (next_source_id + 1) fs
      else (n, i) # number_files next_source_id fs)"

definition AssignSourceIds :: "DumpModule \<Rightarrow> DumpModule" where
  "AssignSourceIds m =
     (let fs = map (\<lambda>(n, _). (n, - 1)) (dm_files m);
          fs = foldl (\<lambda>fs func. foldl (\<lambda>fs line. set_source_id (dl_file line) 0 fs) fs (df_lines func))
                 fs (GetFunctions m)
      in m\<lparr>dm_files := number_files 0 fs\<rparr>)"

text \<open>
  The identifier of the file of a line. A file outside of \<open>files_\<close> keeps the 0 that
  \<open>AssignSourceIds\<close> gives to every file that a line cites.
\<close>

definition source_id :: "(string, int) std_map \<Rightarrow> string \<Rightarrow> int" where
  "source_id fs name = (case std_find fs name of Some i \<Rightarrow> i | None \<Rightarrow> 0)"

section \<open>Streams\<close>

record ostream =
  written :: string
  room :: "nat option"
  good :: bool

definition put :: "string \<Rightarrow> ostream \<Rightarrow> ostream" where
  "put s stream =
     (if \<not> good stream then stream
      else case room stream of
        None \<Rightarrow> stream\<lparr>written := written stream @ s\<rparr>
      | Some n \<Rightarrow>
          if length s \<le> n then stream\<lparr>written := written stream @ s, room := Some (n - length s)\<rparr>
          else stream\<lparr>written := written stream @ take n s, room := Some 0, good := False\<rparr>)"

abbreviation "newline \<equiv> [CHR 0x0A]"

definition hex_of :: "u64 \<Rightarrow> string" where "hex_of w = hex (unat w)"

definition dec_of :: "int \<Rightarrow> string" where
  "dec_of i = (if i < 0 then CHR ''-'' # dec (nat (- i)) else dec (nat i))"

section \<open>Writing\<close>

fun write_rules :: "bool \<Rightarrow> RuleMap \<Rightarrow> ostream \<Rightarrow> ostream" where
  "write_rules first [] stream = stream"
| "write_rules first ((name, expr) # rules) stream =
     write_rules False rules (put (name @ '': '' @ expr) (if first then stream else put '' '' stream))"

definition WriteRuleMap :: "RuleMap \<Rightarrow> ostream \<Rightarrow> bool \<times> ostream" where
  "WriteRuleMap rule_map stream = (let stream = write_rules True rule_map stream in (good stream, stream))"

text \<open>The loops of \<open>Write\<close>; the flag is false when \<open>Write\<close> returns \<open>ReportError()\<close> there.\<close>

fun write_files :: "(string, int) std_map \<Rightarrow> ostream \<Rightarrow> bool \<times> ostream" where
  "write_files [] stream = (True, stream)"
| "write_files ((name, i) # fs) stream =
     (if i \<ge> 0 then
        let stream = put (''FILE '' @ dec_of i @ '' '' @ name @ newline) stream in
        if \<not> good stream then (False, stream) else write_files fs stream
      else write_files fs stream)"

definition in_range :: "ModuleRange \<Rightarrow> DumpLine \<Rightarrow> bool" where
  "in_range range' line \<longleftrightarrow> dl_address line \<ge> rng_address range' \<and>
     dl_address line < rng_address range' + rng_size range'"

fun write_lines :: "DumpModule \<Rightarrow> ModuleRange \<Rightarrow> DumpLine list \<Rightarrow> ostream \<Rightarrow> bool \<times> DumpLine list \<times> ostream" where
  "write_lines m range' [] stream = (True, [], stream)"
| "write_lines m range' (line # lines') stream =
     (if in_range range' line then
        let stream = put (hex_of (dl_address line - load_address m) @ '' '' @ hex_of (dl_size line) @ '' '' @
                          dec_of (sint (dl_number line)) @ '' '' @
                          dec_of (source_id (dm_files m) (dl_file line)) @ newline) stream in
        if \<not> good stream then (False, line # lines', stream) else write_lines m range' lines' stream
      else (True, line # lines', stream))"

fun write_ranges ::
    "DumpModule \<Rightarrow> DumpFunction \<Rightarrow> ModuleRange list \<Rightarrow> DumpLine list \<Rightarrow> ostream \<Rightarrow> bool \<times> ostream" where
  "write_ranges m func [] lines' stream = (True, stream)"
| "write_ranges m func (range' # ranges) lines' stream =
     (let stream = put (''FUNC '' @ hex_of (rng_address range' - load_address m) @ '' '' @ hex_of (rng_size range') @
                        '' '' @ hex_of (df_parameter_size func) @ '' '' @ df_name func @ newline) stream in
      if \<not> good stream then (False, stream)
      else case write_lines m range' lines' stream of (ok, lines', stream) \<Rightarrow>
        if \<not> ok then (False, stream) else write_ranges m func ranges lines' stream)"

fun write_functions :: "DumpModule \<Rightarrow> DumpFunction list \<Rightarrow> ostream \<Rightarrow> bool \<times> ostream" where
  "write_functions m [] stream = (True, stream)"
| "write_functions m (func # funcs) stream =
     (case write_ranges m func (df_ranges func) (df_lines func) stream of (ok, stream) \<Rightarrow>
      if \<not> ok then (False, stream) else write_functions m funcs stream)"

fun write_externs :: "DumpModule \<Rightarrow> Extern list \<Rightarrow> ostream \<Rightarrow> ostream" where
  "write_externs m [] stream = stream"
| "write_externs m (ext # exts) stream =
     write_externs m exts
       (put (''PUBLIC '' @ hex_of (ext_address ext - load_address m) @ '' 0 '' @ ext_name ext @ newline) stream)"

fun write_deltas :: "DumpModule \<Rightarrow> RuleChangeMap \<Rightarrow> ostream \<Rightarrow> bool \<times> ostream" where
  "write_deltas m [] stream = (True, stream)"
| "write_deltas m ((address, rules) # deltas) stream =
     (let stream = put (''STACK CFI '' @ hex_of (address - load_address m) @ '' '') stream in
      if \<not> good stream then (False, stream)
      else case WriteRuleMap rules stream of (ok, stream) \<Rightarrow>
        if \<not> ok then (False, stream) else write_deltas m deltas (put newline stream))"

fun write_entries :: "DumpModule \<Rightarrow> StackFrameEntry list \<Rightarrow> ostream \<Rightarrow> bool \<times> ostream" where
  "write_entries m [] stream = (True, stream)"
| "write_entries m (entry' # entries) stream =
     (let stream = put (''STACK CFI INIT '' @ hex_of (sfe_address entry' - load_address m) @ '' '' @
                        hex_of (sfe_size entry') @ '' '') stream in
      if \<not> good stream then (False, stream)
      else case WriteRuleMap (initial_rules entry') stream of (ok, stream) \<Rightarrow>
        if \<not> ok then (False, stream)
        else case write_deltas m (rule_changes entry') (put newline stream) of (ok, stream) \<Rightarrow>
          if \<not> ok then (False, stream) else write_entries m entries stream)"

definition Module_Write :: "DumpModule \<Rightarrow> SymbolData \<Rightarrow> ostream \<Rightarrow> bool \<times> DumpModule \<times> ostream" where
  "Module_Write m symbol_data stream =
     (let stream = put (''MODULE '' @ dm_os m @ '' '' @ dm_architecture m @ '' '' @ dm_id m @ '' '' @ dm_name m @
                        newline) stream in
      if \<not> good stream then (False, m, stream)
      else
        let stream = (if dm_code_id m \<noteq> [] then put (''INFO CODE_ID '' @ dm_code_id m @ newline) stream else stream);
            m = (if symbol_data \<noteq> ONLY_CFI then AssignSourceIds m else m);
            (ok, stream) =
              (if symbol_data \<noteq> ONLY_CFI then
                 (case write_files (dm_files m) stream of (ok, stream) \<Rightarrow>
                  if \<not> ok then (False, stream)
                  else case write_functions m (GetFunctions m) stream of (ok, stream) \<Rightarrow>
                    if \<not> ok then (False, stream) else (True, write_externs m (GetExterns m) stream))
               else (True, stream)) in
        if \<not> ok then (False, m, stream)
        else if symbol_data \<noteq> NO_CFI then
          (case write_entries m (stack_frame_entries m) stream of (ok, stream) \<Rightarrow> (ok, m, stream))
        else (True, m, stream))"

section \<open>The records of a module\<close>

definition file_records :: "(string, int) std_map \<Rightarrow> symbol_record list" where
  "file_records fs = map (\<lambda>(n, i). FileRecord (nat i) n) (filter (\<lambda>(n, i). 0 \<le> i) fs)"

definition line_record :: "DumpModule \<Rightarrow> DumpLine \<Rightarrow> symbol_record" where
  "line_record m l = LineRecord (unat (dl_address l - load_address m)) (unat (dl_size l)) (nat (sint (dl_number l)))
     (nat (source_id (dm_files m) (dl_file l)))"

text \<open>The ranges of a function, each with the lines that \<open>Write\<close> puts below it.\<close>

fun range_blocks :: "ModuleRange list \<Rightarrow> DumpLine list \<Rightarrow> (ModuleRange \<times> DumpLine list) list" where
  "range_blocks [] ls = []"
| "range_blocks (r # rs) ls = (r, takeWhile (in_range r) ls) # range_blocks rs (dropWhile (in_range r) ls)"

definition module_blocks :: "DumpModule \<Rightarrow> (DumpFunction \<times> ModuleRange \<times> DumpLine list) list" where
  "module_blocks m =
     concat (map (\<lambda>f. map (\<lambda>b. (f, b)) (range_blocks (df_ranges f) (df_lines f))) (GetFunctions m))"

definition block_records :: "DumpModule \<Rightarrow> DumpFunction \<times> ModuleRange \<times> DumpLine list \<Rightarrow> symbol_record list" where
  "block_records m b = (case b of (f, r, ls) \<Rightarrow>
     FuncRecord False (unat (rng_address r - load_address m)) (unat (rng_size r)) (unat (df_parameter_size f)) (df_name f) #
     map (line_record m) ls)"

definition extern_record :: "DumpModule \<Rightarrow> Extern \<Rightarrow> symbol_record" where
  "extern_record m e = PublicRecord False (unat (ext_address e - load_address m)) 0 (ext_name e)"

fun rules_text :: "RuleMap \<Rightarrow> string" where
  "rules_text [] = []"
| "rules_text [(n, e)] = n @ '': '' @ e"
| "rules_text ((n, e) # r # rules) = n @ '': '' @ e @ '' '' @ rules_text (r # rules)"

definition entry_records :: "DumpModule \<Rightarrow> StackFrameEntry \<Rightarrow> symbol_record list" where
  "entry_records m e =
     CfiInitRecord (unat (sfe_address e - load_address m)) (unat (sfe_size e)) (rules_text (initial_rules e)) #
     map (\<lambda>(a, rules). CfiDeltaRecord (unat (a - load_address m)) (rules_text rules)) (rule_changes e)"

definition module_records :: "DumpModule \<Rightarrow> SymbolData \<Rightarrow> symbol_record list" where
  "module_records m symbol_data =
     ModuleRecord (dm_os m @ '' '' @ dm_architecture m @ '' '' @ dm_id m @ '' '' @ dm_name m) #
     (if dm_code_id m \<noteq> [] then [InfoRecord (''CODE_ID '' @ dm_code_id m)] else []) @
     (if symbol_data \<noteq> ONLY_CFI
      then file_records (dm_files m) @ concat (map (block_records m) (module_blocks m)) @
           map (extern_record m) (GetExterns m)
      else []) @
     (if symbol_data \<noteq> NO_CFI then concat (map (entry_records m) (stack_frame_entries m)) else [])"

section \<open>Writing to a stream without limit\<close>

definition unlimited :: "ostream \<Rightarrow> bool" where
  "unlimited stream \<longleftrightarrow> good stream \<and> room stream = None"

abbreviation append_text :: "string \<Rightarrow> ostream \<Rightarrow> ostream" where
  "append_text s stream \<equiv> stream\<lparr>written := written stream @ s\<rparr>"

lemma put_unlimited [simp]: "unlimited stream \<Longrightarrow> put s stream = append_text s stream"
  by (simp add: put_def unlimited_def)

lemma unlimited_append [simp]: "unlimited (append_text s stream) = unlimited stream"
  by (simp add: unlimited_def)

lemma good_append [simp]: "unlimited stream \<Longrightarrow> good (append_text s stream)" "unlimited stream \<Longrightarrow> good stream"
  by (simp_all add: unlimited_def)

lemma symbol_text_simps [simp]:
  "symbol_text [] = []" "symbol_text (r # rs) = record_text r @ newline @ symbol_text rs"
  "symbol_text (xs @ ys) = symbol_text xs @ symbol_text ys"
  by (simp_all add: symbol_text_def)

lemma dec_of_nat: "0 \<le> i \<Longrightarrow> dec_of i = dec (nat i)"
  by (simp add: dec_of_def)

lemma write_files_text:
  "unlimited stream \<Longrightarrow> write_files fs stream = (True, append_text (symbol_text (file_records fs)) stream)"
  by (induction fs stream rule: write_files.induct)
    (auto simp: file_records_def dec_of_nat print_file_def join_words_def Let_def)

definition lines_ok :: "DumpModule \<Rightarrow> DumpLine list \<Rightarrow> bool" where
  "lines_ok m ls \<longleftrightarrow> (\<forall>l\<in>set ls. 0 \<le> sint (dl_number l) \<and> 0 \<le> source_id (dm_files m) (dl_file l))"

lemma write_lines_text:
  assumes "unlimited stream" and "lines_ok m ls"
  shows "write_lines m r ls stream = (True, dropWhile (in_range r) ls,
    append_text (symbol_text (map (line_record m) (takeWhile (in_range r) ls))) stream)"
  using assms
  by (induction m r ls stream rule: write_lines.induct)
    (auto simp: lines_ok_def line_record_def dec_of_nat hex_of_def print_line_def join_words_def Let_def)

lemma write_ranges_text:
  assumes "unlimited stream" and "lines_ok m ls"
  shows "write_ranges m f rs ls stream =
    (True, append_text (symbol_text (concat (map (\<lambda>b. block_records m (f, b)) (range_blocks rs ls)))) stream)"
  using assms
proof (induction rs arbitrary: ls stream)
  case (Cons r rs)
  have "lines_ok m (dropWhile (in_range r) ls)"
    using Cons.prems(2) unfolding lines_ok_def by (meson set_dropWhileD)
  with Cons show ?case
    by (simp add: write_lines_text block_records_def hex_of_def print_function_def join_words_def Let_def)
qed simp

lemma write_functions_text:
  assumes "unlimited stream" and "\<forall>f\<in>set fs. lines_ok m (df_lines f)"
  shows "write_functions m fs stream = (True, append_text (symbol_text (concat (map (block_records m)
    (concat (map (\<lambda>f. map (\<lambda>b. (f, b)) (range_blocks (df_ranges f) (df_lines f))) fs))))) stream)"
  using assms
proof (induction fs arbitrary: stream)
  case (Cons f fs)
  then show ?case by (simp add: write_ranges_text comp_def)
qed simp

lemma write_externs_text:
  "unlimited stream \<Longrightarrow> write_externs m es stream = append_text (symbol_text (map (extern_record m) es)) stream"
proof (induction es arbitrary: stream)
  case (Cons e es)
  have "hex 0 = ''0''" by code_simp
  with Cons show ?case by (simp add: extern_record_def hex_of_def print_public_def join_words_def)
qed simp

lemma write_rules_text:
  "unlimited stream \<Longrightarrow> write_rules first rules stream =
     append_text ((if first \<or> rules = [] then [] else '' '') @ rules_text rules) stream"
proof (induction rules arbitrary: first stream)
  case (Cons r rules)
  then show ?case by (cases r; cases rules) auto
qed simp

lemma write_deltas_text:
  "unlimited stream \<Longrightarrow> write_deltas m ds stream = (True, append_text (symbol_text
     (map (\<lambda>(a, rules). CfiDeltaRecord (unat (a - load_address m)) (rules_text rules)) ds)) stream)"
  by (induction ds arbitrary: stream)
    (auto simp: WriteRuleMap_def write_rules_text hex_of_def join_words_def Let_def)

lemma write_entries_text:
  "unlimited stream \<Longrightarrow> write_entries m es stream =
     (True, append_text (symbol_text (concat (map (entry_records m) es))) stream)"
  by (induction es arbitrary: stream)
    (simp_all add: WriteRuleMap_def write_rules_text write_deltas_text entry_records_def hex_of_def join_words_def Let_def)

section \<open>Source identifiers\<close>

definition cited_files :: "DumpModule \<Rightarrow> string set" where
  "cited_files m = (\<Union>f\<in>set (GetFunctions m). dl_file ` set (df_lines f))"

lemma mark_lines:
  "foldl (\<lambda>fs line. set_source_id (dl_file line) 0 fs) fs ls =
     map (\<lambda>(n, j). (n, if n \<in> dl_file ` set ls then 0 else j)) fs"
proof (induction ls arbitrary: fs)
  case (Cons l ls)
  show ?case unfolding foldl_Cons Cons.IH by (auto simp: set_source_id_def)
qed simp

lemma mark_functions:
  "foldl (\<lambda>fs func. foldl (\<lambda>fs line. set_source_id (dl_file line) 0 fs) fs (df_lines func)) fs funcs =
     map (\<lambda>(n, j). (n, if n \<in> (\<Union>f\<in>set funcs. dl_file ` set (df_lines f)) then 0 else j)) fs"
proof (induction funcs arbitrary: fs)
  case (Cons f funcs)
  show ?case by (simp only: foldl_Cons Cons.IH) (auto simp: mark_lines)
qed simp

lemma AssignSourceIds_files:
  "dm_files (AssignSourceIds m) =
     number_files 0 (map (\<lambda>(n, _). (n, if n \<in> cited_files m then 0 else - 1)) (dm_files m))"
  by (simp add: AssignSourceIds_def mark_functions cited_files_def)
    (auto intro!: arg_cong [where f = "number_files 0"])

lemma number_files_ids:
  fixes P :: "string \<Rightarrow> bool"
  defines "marked fs \<equiv> map (\<lambda>(n, _). (n, if P n then 0 else - 1)) fs"
  assumes "0 \<le> k"
  shows "map fst (number_files k (marked fs)) = map fst fs"
    and "(n, i) \<in> set (number_files k (marked fs)) \<Longrightarrow> if P n then k \<le> i \<and> i < k + int (length fs) else i = - 1"
    and "distinct (map snd (filter (\<lambda>(n, i). 0 \<le> i) (number_files k (marked fs))))"
proof -
  show keys: "map fst (number_files k (marked fs)) = map fst fs" for k
    unfolding marked_def by (induction fs arbitrary: k) auto
  show ids: "if P n then k \<le> i \<and> i < k + int (length fs) else i = - 1"
    if "(n, i) \<in> set (number_files k (marked fs))" for k n i
    using that unfolding marked_def by (induction fs arbitrary: k) (fastforce split: if_splits)+
  show "distinct (map snd (filter (\<lambda>(n, i). 0 \<le> i) (number_files k (marked fs))))"
    using assms(2) unfolding marked_def
  proof (induction fs arbitrary: k)
    case (Cons f fs)
    have "k < i" if "(n, i) \<in> set (number_files (k + 1) (map (\<lambda>(n, _). (n, if P n then 0 else - 1)) fs))" "0 \<le> i" for n i
      using that
    proof (induction fs arbitrary: k)
      case (Cons g gs)
      have "k < i" if "(n, i) \<in> set (number_files (k + 2) (map (\<lambda>(n, _). (n, if P n then 0 else - 1)) gs))"
        using Cons.IH [of "k + 1"] that Cons.prems(2) by (simp add: add.assoc)
      with Cons show ?case by (cases g) (auto simp: add.assoc split: if_splits)
    qed simp
    with Cons show ?case by (cases f) fastforce
  qed simp
qed

lemma source_ids:
  assumes "name \<in> cited_files m" and "std_map_inv (dm_files m)"
  shows "0 \<le> source_id (dm_files (AssignSourceIds m)) name"
    and "source_id (dm_files (AssignSourceIds m)) name \<le> int (length (dm_files m))"
    and "name \<in> fst ` set (dm_files m) \<Longrightarrow>
      (name, source_id (dm_files (AssignSourceIds m)) name) \<in> set (dm_files (AssignSourceIds m))"
proof -
  let ?fs = "dm_files (AssignSourceIds m)"
  note number = number_files_ids [where k = 0 and P = "\<lambda>n. n \<in> cited_files m" and fs = "dm_files m", folded AssignSourceIds_files]
  have id: "0 \<le> i \<and> i < int (length (dm_files m))" if "std_find ?fs name = Some i" for i
    using number(2) [of name i] map_of_SomeD [of ?fs name i] that assms(1) by (auto simp: std_find_map_of)
  then show "0 \<le> source_id ?fs name" "source_id ?fs name \<le> int (length (dm_files m))"
    by (fastforce simp: source_id_def split: option.split)+
  assume "name \<in> fst ` set (dm_files m)"
  then have "name \<in> set (map fst ?fs)" using number(1) by simp
  then obtain i where "std_find ?fs name = Some i" unfolding std_find_map_of
    by (metis list.set_map map_of_eq_None_iff not_None_eq)
  then show "(name, source_id ?fs name) \<in> set ?fs"
    using map_of_SomeD [of ?fs name i] by (simp add: source_id_def std_find_map_of)
qed

text \<open>The identifiers that the loader reads back.\<close>

lemma insert_all:
  assumes "std_map_inv t" and "distinct (map snd xs)" and "\<forall>(n, i)\<in>set xs. std_find t i = None"
  defines "t' \<equiv> foldl (\<lambda>t (n, i). std_insert i n t) t xs"
  shows "std_map_inv t' \<and> (\<forall>n i. std_find t i = Some n \<longrightarrow> std_find t' i = Some n) \<and>
    (\<forall>(n, i)\<in>set xs. std_find t' i = Some n)"
  using assms(1-3) unfolding t'_def
proof (induction xs arbitrary: t)
  case (Cons x xs)
  obtain n i where x: "x = (n, i)" by (cases x)
  let ?t = "std_insert i n t"
  have find: "std_find ?t j = (if j = i then Some n else std_find t j)" for j
    using Cons.prems(1,3) by (simp add: x std_find_insert)
  have "std_map_inv ?t" "distinct (map snd xs)" "\<forall>(n, j)\<in>set xs. std_find ?t j = None"
    using Cons.prems by (force simp: x find)+
  note ih = Cons.IH [OF this]
  have "std_find ?t j = Some k" if "std_find t j = Some k" for j k using Cons.prems(3) that by (auto simp: x find)
  with ih show ?case by (auto simp: x find)
qed simp

section \<open>Modules that can be read back\<close>

definition clean :: "string \<Rightarrow> bool" where
  "clean s \<longleftrightarrow> CHR 0x00 \<notin> set s \<and> CHR 0x0D \<notin> set s \<and> CHR 0x0A \<notin> set s"

definition rules_ok :: "RuleMap \<Rightarrow> bool" where
  "rules_ok rules \<longleftrightarrow> rules \<noteq> [] \<and> list_all (\<lambda>(n, e). clean n \<and> clean e) rules"

definition line_ok :: "DumpModule \<Rightarrow> DumpLine \<Rightarrow> bool" where
  "line_ok m l \<longleftrightarrow> dl_address l - load_address m \<noteq> - 1 \<and> dl_size l \<noteq> - 1 \<and> 0 \<le> sint (dl_number l) \<and>
     dl_file l \<in> fst ` set (dm_files m)"

definition function_dump_ok :: "DumpModule \<Rightarrow> DumpFunction \<Rightarrow> bool" where
  "function_dump_ok m f \<longleftrightarrow> df_name f \<noteq> [] \<and> clean (df_name f) \<and> df_parameter_size f < 2 ^ 31 \<and>
     list_all (\<lambda>r. rng_address r - load_address m \<noteq> - 1 \<and> rng_size r \<noteq> - 1) (df_ranges f) \<and>
     list_all (line_ok m) (df_lines f)"

definition extern_ok :: "DumpModule \<Rightarrow> Extern \<Rightarrow> bool" where
  "extern_ok m e \<longleftrightarrow> ext_address e - load_address m \<noteq> - 1 \<and> ext_name e \<noteq> [] \<and> clean (ext_name e)"

definition entry_ok :: "StackFrameEntry \<Rightarrow> bool" where
  "entry_ok e \<longleftrightarrow> rules_ok (initial_rules e) \<and> list_all (\<lambda>(a, rules). rules_ok rules) (rule_changes e)"

definition dump_ok :: "DumpModule \<Rightarrow> bool" where
  "dump_ok m \<longleftrightarrow>
     list_all clean [dm_os m, dm_architecture m, dm_id m, dm_name m, dm_code_id m] \<and>
     std_map_inv (dm_files m) \<and> length (dm_files m) < 2 ^ 31 \<and>
     list_all (\<lambda>(n, i). n \<noteq> [] \<and> clean n) (dm_files m) \<and>
     list_all (function_dump_ok m) (GetFunctions m) \<and> list_all (extern_ok m) (GetExterns m) \<and>
     list_all entry_ok (stack_frame_entries m)"

lemma clean_append [simp]: "clean (s @ t) \<longleftrightarrow> clean s \<and> clean t" "clean []"
  "clean (c # s) \<longleftrightarrow> c \<notin> {CHR 0x00, CHR 0x0D, CHR 0x0A} \<and> clean s"
  by (auto simp: clean_def)

lemma clean_numbers [simp]: "clean (hex n)" "clean (dec n)"
proof -
  have "\<not> is_digit 16 (CHR 0x00)" "\<not> is_digit 10 (CHR 0x00)" by (simp_all add: is_digit_def digit_value_def)
  then have "CHR 0x00 \<notin> set (hex n)" "CHR 0x00 \<notin> set (dec n)"
    using print_number_value [of 16 n] print_number_value [of 10 n] by auto
  then show "clean (hex n)" "clean (dec n)" by (simp_all add: clean_def)
qed

lemma clean_line_word: "clean s \<Longrightarrow> s \<noteq> [] \<Longrightarrow> is_word line_end s"
  by (auto simp: clean_def line_word)

lemma rules_text_clean: "rules_ok rules \<Longrightarrow> rules_text rules \<noteq> [] \<and> clean (rules_text rules)"
  by (induction rules rule: rules_text.induct) (auto simp: rules_ok_def)

lemma unat_not_max: "(w :: u64) \<noteq> - 1 \<Longrightarrow> unat w < 18446744073709551615"
  using word_order.not_eq_extremum [of w]
  by (auto simp: word_less_nat_alt unsigned_minus_1_eq_mask mask_eq_exp_minus_1)

text \<open>A record is fit to be read back when it is well formed and its text is one clean line.\<close>

definition record_fit :: "symbol_record \<Rightarrow> bool" where
  "record_fit r \<longleftrightarrow> record_ok r \<and> clean (record_text r)"

lemma symbol_text_no_null: "list_all record_fit rs \<Longrightarrow> CHR 0x00 \<notin> set (symbol_text rs)"
  by (induction rs) (auto simp: record_fit_def clean_def)

lemma file_records_fit:
  assumes "list_all (\<lambda>(n, i). n \<noteq> [] \<and> clean n \<and> i < 2 ^ 31) fs"
  shows "list_all record_fit (file_records fs)"
  using assms unfolding list_all_iff file_records_def
  by (fastforce simp: record_fit_def print_file_def join_words_def clean_line_word nat_less_iff)

lemma line_record_fit:
  assumes "line_ok m l" and "0 \<le> source_id (dm_files m) (dl_file l)" and "source_id (dm_files m) (dl_file l) < 2 ^ 31"
  shows "record_fit (line_record m l)"
proof -
  have "sint (dl_number l) < 2 ^ 31" using sint_lt [of "dl_number l"] by simp
  with assms unat_not_max [of "dl_address l - load_address m"] unat_not_max [of "dl_size l"] show ?thesis
    by (simp add: record_fit_def line_record_def line_ok_def print_line_def join_words_def nat_less_iff)
qed

lemma blocks_parts: "(r, ls) \<in> set (range_blocks rs lines') \<Longrightarrow> r \<in> set rs \<and> set ls \<subseteq> set lines'"
proof (induction rs arbitrary: lines')
  case (Cons r' rs)
  then show ?case by (auto dest: set_takeWhileD set_dropWhileD)
qed simp

lemma block_records_fit:
  assumes "function_dump_ok m f" and "(r, ls) \<in> set (range_blocks (df_ranges f) (df_lines f))"
    and "\<forall>l\<in>set (df_lines f). 0 \<le> source_id (dm_files m) (dl_file l) \<and> source_id (dm_files m) (dl_file l) < 2 ^ 31"
  shows "list_all record_fit (block_records m (f, r, ls))"
proof -
  have r: "r \<in> set (df_ranges f)" and ls: "set ls \<subseteq> set (df_lines f)" using blocks_parts [OF assms(2)] by auto
  have "unat (df_parameter_size f) < 2 ^ 31"
    using assms(1) by (simp add: function_dump_ok_def word_less_nat_alt)
  moreover have "rng_address r - load_address m \<noteq> - 1" "rng_size r \<noteq> - 1"
    using assms(1) r by (auto simp: function_dump_ok_def list_all_iff)
  moreover have "list_all record_fit (map (line_record m) ls)"
    using assms(1,3) ls by (auto simp: function_dump_ok_def list_all_iff intro!: line_record_fit)
  ultimately show ?thesis using assms(1)
    by (simp add: block_records_def record_fit_def function_dump_ok_def print_function_def join_words_def
        unat_not_max clean_line_word)
qed

lemma extern_record_fit: "extern_ok m e \<Longrightarrow> record_fit (extern_record m e)"
  by (simp add: extern_ok_def extern_record_def record_fit_def print_public_def join_words_def unat_not_max clean_line_word)

lemma entry_records_fit:
  assumes "entry_ok e" shows "list_all record_fit (entry_records m e)"
proof -
  have "unat w < 2 ^ 64" for w :: u64 by (rule order_less_le_trans [OF unsigned_less]) simp
  then show ?thesis using assms
    by (auto simp: entry_ok_def entry_records_def record_fit_def join_words_def clean_line_word list_all_iff
        dest!: rules_text_clean)
qed

section \<open>What is written and what is read\<close>

lemma AssignSourceIds_fields [simp]:
  "dm_functions (AssignSourceIds m) = dm_functions m" "externs (AssignSourceIds m) = externs m"
  "load_address (AssignSourceIds m) = load_address m" "stack_frame_entries (AssignSourceIds m) = stack_frame_entries m"
  "GetFunctions (AssignSourceIds m) = GetFunctions m" "GetExterns (AssignSourceIds m) = GetExterns m"
  "dm_os (AssignSourceIds m) = dm_os m" "dm_architecture (AssignSourceIds m) = dm_architecture m"
  "dm_id (AssignSourceIds m) = dm_id m" "dm_name (AssignSourceIds m) = dm_name m"
  "dm_code_id (AssignSourceIds m) = dm_code_id m" "module_blocks (AssignSourceIds m) = module_blocks m"
  by (simp_all add: AssignSourceIds_def Let_def GetFunctions_def GetExterns_def module_blocks_def)

lemma AssignSourceIds_keys: "map fst (dm_files (AssignSourceIds m)) = map fst (dm_files m)"
  unfolding AssignSourceIds_files by (rule number_files_ids(1)) simp

definition numbered :: "DumpModule \<Rightarrow> SymbolData \<Rightarrow> DumpModule" where
  "numbered m symbol_data = (if symbol_data \<noteq> ONLY_CFI then AssignSourceIds m else m)"

lemma cited_ids:
  assumes "dump_ok m" and "f \<in> set (GetFunctions m)" and "l \<in> set (df_lines f)"
  shows "0 \<le> source_id (dm_files (AssignSourceIds m)) (dl_file l)"
    and "source_id (dm_files (AssignSourceIds m)) (dl_file l) < 2 ^ 31"
    and "(dl_file l, source_id (dm_files (AssignSourceIds m)) (dl_file l)) \<in> set (dm_files (AssignSourceIds m))"
proof -
  have c: "dl_file l \<in> cited_files m" using assms(2,3) by (auto simp: cited_files_def)
  have inv: "std_map_inv (dm_files m)" and len: "length (dm_files m) < 2 ^ 31" and "dl_file l \<in> fst ` set (dm_files m)"
    using assms by (auto simp: dump_ok_def function_dump_ok_def line_ok_def list_all_iff)
  then show "0 \<le> source_id (dm_files (AssignSourceIds m)) (dl_file l)"
    "(dl_file l, source_id (dm_files (AssignSourceIds m)) (dl_file l)) \<in> set (dm_files (AssignSourceIds m))"
    using source_ids [OF c inv] by auto
  show "source_id (dm_files (AssignSourceIds m)) (dl_file l) < 2 ^ 31"
    using source_ids(2) [OF c inv] len by simp
qed

lemma Module_Write_text:
  assumes "dump_ok m" and "unlimited stream"
  shows "Module_Write m symbol_data stream = (True, numbered m symbol_data,
    append_text (symbol_text (module_records (numbered m symbol_data) symbol_data)) stream)"
proof -
  have lines: "\<forall>f\<in>set (GetFunctions m). lines_ok (AssignSourceIds m) (df_lines f)"
    using assms(1) cited_ids(1) [OF assms(1)]
    by (auto simp: lines_ok_def dump_ok_def function_dump_ok_def line_ok_def list_all_iff)
  have blocks: "write_functions (AssignSourceIds m) (GetFunctions m) st = (True, append_text
      (symbol_text (concat (map (block_records (AssignSourceIds m)) (module_blocks m)))) st)" if "unlimited st" for st
    unfolding module_blocks_def by (rule write_functions_text [OF that lines])
  show ?thesis
    using assms(2)
    by (cases symbol_data; simp add: Module_Write_def numbered_def module_records_def write_files_text blocks
        write_externs_text write_entries_text Let_def)
qed

lemma module_records_fit:
  assumes "dump_ok m"
  shows "list_all record_fit (module_records (numbered m symbol_data) symbol_data)"
proof -
  let ?m = "AssignSourceIds m"
  have "line_ok ?m = line_ok m"
    by (rule ext) (simp add: line_ok_def arg_cong [OF AssignSourceIds_keys, of set, simplified])
  then have ok: "function_dump_ok ?m f" if "function_dump_ok m f" for f
    using that by (simp add: function_dump_ok_def)
  have "list_all (\<lambda>(n, i). n \<noteq> [] \<and> clean n \<and> i < 2 ^ 31) (dm_files ?m)"
    unfolding list_all_iff
  proof (rule ballI, clarify)
    fix n i assume ni: "(n, i) \<in> set (dm_files ?m)"
    have "n \<in> set (map fst (dm_files ?m))" using ni by force
    then have "n \<in> set (map fst (dm_files m))" by (simp only: AssignSourceIds_keys)
    then have name: "n \<noteq> [] \<and> clean n" using assms by (auto simp: dump_ok_def list_all_iff)
    have "int (length (dm_files m)) < 2 ^ 31" using assms by (simp add: dump_ok_def)
    then have "i < 2 ^ 31"
      using number_files_ids(2) [where k = 0 and n = n and i = i and P = "\<lambda>n. n \<in> cited_files m" and fs = "dm_files m"] ni
      by (auto simp: AssignSourceIds_files split: if_splits)
    with name show "n \<noteq> [] \<and> clean n \<and> i < 2 ^ 31" by simp
  qed
  then have files: "list_all record_fit (file_records (dm_files ?m))" by (rule file_records_fit)
  have "list_all record_fit (block_records ?m b)" if b_in: "b \<in> set (module_blocks m)" for b
  proof -
    obtain f r ls where b: "b = (f, r, ls)" "f \<in> set (GetFunctions m)"
        "(r, ls) \<in> set (range_blocks (df_ranges f) (df_lines f))"
      using b_in by (auto simp: module_blocks_def)
    have "function_dump_ok ?m f" using assms b(2) ok by (auto simp: dump_ok_def list_all_iff)
    from block_records_fit [OF this b(3)] cited_ids [OF assms b(2)] show ?thesis by (simp add: b(1))
  qed
  then have blocks: "list_all record_fit (concat (map (block_records ?m) (module_blocks m)))"
    by (auto simp: list_all_iff)
  have externs: "list_all record_fit (map (extern_record ?m) (GetExterns m))"
    using assms by (auto simp: dump_ok_def list_all_iff extern_ok_def intro!: extern_record_fit)
  have cfi: "list_all record_fit (concat (map (entry_records m') (stack_frame_entries m)))" for m'
    using assms entry_records_fit by (fastforce simp: dump_ok_def list_all_iff)
  have "list_all clean [dm_os m, dm_architecture m, dm_id m, dm_name m, dm_code_id m]"
    using assms by (simp add: dump_ok_def)
  then show ?thesis using files blocks externs cfi
    by (auto simp: module_records_def numbered_def record_fit_def clean_def)
qed

section \<open>The meaning of the records\<close>

lemma apply_records_append:
  "apply_records (xs @ ys) state = Option.bind (apply_records xs state) (apply_records ys)"
  by (induction xs arbitrary: state) (auto intro: Option.bind_cong)

lemma apply_file_records:
  "apply_records (file_records fs) (m, cur) =
     Some (m\<lparr>files := foldl (\<lambda>t (n, i). std_insert i n t) (files m) (filter (\<lambda>(n, i). 0 \<le> i) fs)\<rparr>, cur)"
  by (induction fs arbitrary: m) (auto simp: file_records_def)

definition loaded_line :: "DumpModule \<Rightarrow> DumpLine \<Rightarrow> Line" where
  "loaded_line dm l = \<lparr>line_address = dl_address l - load_address dm, line_size = dl_size l,
     source_file_id = word_of_int (source_id (dm_files dm) (dl_file l)), line_number = dl_number l\<rparr>"

definition line_ranges :: "DumpModule \<Rightarrow> DumpLine list \<Rightarrow> (u64 \<times> u64 \<times> Line linked_ptr) list" where
  "line_ranges dm ls = map (\<lambda>l. (dl_address l - load_address dm, dl_size l, Some (loaded_line dm l))) ls"

lemma word_of_nat_nat: "0 \<le> i \<Longrightarrow> (word_of_nat (nat i) :: 'a::len word) = word_of_int i"
  by (metis int_nat_eq of_int_of_nat_eq)

lemma apply_line_records:
  assumes "lines_ok dm ls" and "store_ranges (line_ranges dm ls) (func_lines func) = Some t"
    and "ptr = length heap" and "function_heap m = heap @ [func]"
  shows "apply_records (map (line_record dm) ls) (m, Some ptr) =
    Some (m\<lparr>function_heap := heap @ [func\<lparr>func_lines := t\<rparr>]\<rparr>, Some ptr)"
  using assms
proof (induction ls arbitrary: m func)
  case Nil
  then show ?case by (simp add: line_ranges_def)
next
  case (Cons l ls)
  obtain t1 ok where t1: "RangeMap_StoreRange (func_lines func) (dl_address l - load_address dm) (dl_size l)
      (Some (loaded_line dm l)) = Some (t1, ok)" "store_ranges (line_ranges dm ls) t1 = Some t"
    using Cons.prems(2) by (auto simp: line_ranges_def split: bind_splits)
  have "word_of_nat (nat (sint (dl_number l))) = dl_number l"
    "word_of_nat (nat (source_id (dm_files dm) (dl_file l))) = (word_of_int (source_id (dm_files dm) (dl_file l)) :: int32)"
    using Cons.prems(1) by (simp_all add: lines_ok_def word_of_nat_nat)
  then have "apply_record (line_record dm l) (m, Some ptr) =
      Some (m\<lparr>function_heap := heap @ [func\<lparr>func_lines := t1\<rparr>]\<rparr>, Some ptr)"
    using t1(1) Cons.prems(3,4) by (simp add: line_record_def loaded_line_def Let_def)
  moreover have "lines_ok dm ls" using Cons.prems(1) by (simp add: lines_ok_def)
  ultimately show ?case
    using Cons.IH [of "func\<lparr>func_lines := t1\<rparr>" "m\<lparr>function_heap := heap @ [func\<lparr>func_lines := t1\<rparr>]\<rparr>"] t1(2) Cons.prems(3)
    by simp
qed

definition loaded_function :: "DumpModule \<Rightarrow> DumpFunction \<times> ModuleRange \<times> DumpLine list \<Rightarrow> Function" where
  "loaded_function dm b = (case b of (f, r, ls) \<Rightarrow>
     (Function_new (df_name f) (rng_address r - load_address dm) (rng_size r)
        (ucast (df_parameter_size f)) False)
     \<lparr>func_lines := the (store_ranges (line_ranges dm ls) RangeMap_new)\<rparr>)"

definition block_range :: "DumpModule \<Rightarrow> DumpFunction \<times> ModuleRange \<times> DumpLine list \<Rightarrow> u64 \<times> u64" where
  "block_range dm b = (case b of (f, r, ls) \<Rightarrow> (rng_address r - load_address dm, rng_size r))"

fun block_ranges :: "DumpModule \<Rightarrow> nat \<Rightarrow> (DumpFunction \<times> ModuleRange \<times> DumpLine list) list \<Rightarrow> (u64 \<times> u64 \<times> nat) list" where
  "block_ranges dm k [] = []"
| "block_ranges dm k (b # bs) = (fst (block_range dm b), snd (block_range dm b), k) # block_ranges dm (Suc k) bs"

lemma store_line_ranges:
  "store_ranges (line_ranges dm ls) RangeMap_new = Some (the (store_ranges (line_ranges dm ls) RangeMap_new))"
  using store_ranges_defined [OF range_map_inv_new, of "line_ranges dm ls"] by auto

lemma apply_block_records:
  assumes "\<forall>(f, r, ls)\<in>set bs. lines_ok dm ls"
    and "store_ranges (block_ranges dm (length (function_heap m)) bs) (module_functions m) = Some t"
  shows "\<exists>cur'. apply_records (concat (map (block_records dm) bs)) (m, cur) =
    Some (m\<lparr>function_heap := function_heap m @ map (loaded_function dm) bs, module_functions := t\<rparr>, cur')"
  using assms
proof (induction bs arbitrary: m cur)
  case Nil
  then show ?case by simp
next
  case (Cons b bs)
  obtain f r ls where b: "b = (f, r, ls)" by (cases b)
  let ?k = "length (function_heap m)"
  let ?f = "Function_new (df_name f) (rng_address r - load_address dm) (rng_size r) (ucast (df_parameter_size f)) False"
  obtain t1 ok where t1: "RangeMap_StoreRange (module_functions m) (rng_address r - load_address dm) (rng_size r) ?k = Some (t1, ok)"
      "store_ranges (block_ranges dm (Suc ?k) bs) t1 = Some t"
    using Cons.prems(2) by (auto simp: b block_range_def split: bind_splits)
  let ?m = "m\<lparr>function_heap := function_heap m @ [?f], module_functions := t1\<rparr>"
  have lines: "func_lines ?f = RangeMap_new" by (simp add: Function_new_def)
  have "apply_records (map (line_record dm) ls) (?m, Some ?k) =
      Some (?m\<lparr>function_heap := function_heap m @ [loaded_function dm b]\<rparr>, Some ?k)"
    using apply_line_records [of dm ls ?f _ ?k "function_heap m" ?m] store_line_ranges [of dm ls] Cons.prems(1)
    by (simp add: b lines loaded_function_def)
  then have "apply_records (block_records dm b) (m, cur) =
      Some (m\<lparr>function_heap := function_heap m @ [loaded_function dm b], module_functions := t1\<rparr>, Some ?k)"
    using t1(1) by (simp add: b block_records_def)
  with Cons.IH [of "m\<lparr>function_heap := function_heap m @ [loaded_function dm b], module_functions := t1\<rparr>" "Some ?k"] t1(2) Cons.prems(1)
  show ?case by (simp add: apply_records_append)
qed

lemma apply_extern_records:
  assumes "std_map_inv (am_map (public_symbols m))"
    and "distinct (map ext_address es)" and "\<forall>e\<in>set es. std_find (am_map (public_symbols m)) (ext_address e - load_address dm) = None"
  shows "\<exists>s cur'. apply_records (map (extern_record dm) es) (m, cur) = Some (m\<lparr>public_symbols := s\<rparr>, cur')"
  using assms
proof (induction es arbitrary: m cur)
  case Nil
  show ?case by (intro exI [of _ "public_symbols m"] exI [of _ cur]) simp
next
  case (Cons e es)
  let ?a = "ext_address e - load_address dm"
  obtain s where s: "apply_record (extern_record dm e) (m, cur) = Some (m\<lparr>public_symbols := s\<rparr>, None)"
      "std_map_inv (am_map s)" "\<forall>a. a \<noteq> ?a \<longrightarrow> std_find (am_map s) a = std_find (am_map (public_symbols m)) a"
  proof (cases "unat ?a = 0")
    case True
    have "m = m\<lparr>public_symbols := public_symbols m\<rparr>" by simp
    with True show thesis using Cons.prems(1) by (intro that [of "public_symbols m"]) (simp_all add: extern_record_def)
  next
    case False
    then show thesis using Cons.prems
      by (intro that [of "fst (AddressMap_Store (public_symbols m) ?a (Some \<lparr>pub_name = ext_name e, pub_address = ?a,
            pub_parameter_size = 0, pub_is_multiple = False\<rparr>))"])
        (auto simp: extern_record_def AddressMap_Store_def std_find_insert)
  qed
  have "\<forall>e'\<in>set es. std_find (am_map s) (ext_address e' - load_address dm) = None"
  proof
    fix e' assume e': "e' \<in> set es"
    then have "ext_address e' \<in> set (map ext_address es)" by simp
    then have "ext_address e' \<noteq> ext_address e" using Cons.prems(2) by auto
    then have "ext_address e' - load_address dm \<noteq> ?a" by simp
    then show "std_find (am_map s) (ext_address e' - load_address dm) = None" using s(3) Cons.prems(3) e' by simp
  qed
  with Cons.IH [of "m\<lparr>public_symbols := s\<rparr>" None] s(1,2) Cons.prems(2) show ?case by auto
qed

lemma apply_entry_records:
  assumes "range_map_inv (cfi_initial_rules m)"
  shows "\<exists>t d. apply_records (concat (map (entry_records dm) es)) (m, cur) =
    Some (m\<lparr>cfi_initial_rules := t, cfi_delta_rules := d\<rparr>, cur) \<and> range_map_inv t"
  using assms
proof (induction es arbitrary: m)
  case Nil
  then show ?case by (intro exI [of _ "cfi_initial_rules m"] exI [of _ "cfi_delta_rules m"]) simp
next
  case (Cons e es)
  have deltas: "\<exists>d. apply_records (map (\<lambda>(a, rules). CfiDeltaRecord (unat (a - load_address dm)) (rules_text rules)) ds) (m, cur) =
      Some (m\<lparr>cfi_delta_rules := d\<rparr>, cur)" for ds m
  proof (induction ds arbitrary: m)
    case Nil
    show ?case by (intro exI [of _ "cfi_delta_rules m"]) simp
  next
    case (Cons d ds)
    obtain a rules where d: "d = (a, rules)" by (cases d)
    from Cons.IH [of "m\<lparr>cfi_delta_rules := std_assign (a - load_address dm) (rules_text rules) (cfi_delta_rules m)\<rparr>"]
    show ?case by (auto simp: d)
  qed
  obtain t ok where t: "RangeMap_StoreRange (cfi_initial_rules m) (sfe_address e - load_address dm) (sfe_size e)
      (rules_text (initial_rules e)) = Some (t, ok)" "range_map_inv t"
    using StoreRange_defined [OF Cons.prems] by blast
  obtain d where d: "apply_records (entry_records dm e) (m, cur) = Some (m\<lparr>cfi_initial_rules := t, cfi_delta_rules := d\<rparr>, cur)"
    using deltas [of "rule_changes e" "m\<lparr>cfi_initial_rules := t\<rparr>"] t(1) by (auto simp: entry_records_def)
  from Cons.IH [of "m\<lparr>cfi_initial_rules := t, cfi_delta_rules := d\<rparr>"] d t(2) show ?case
    by (auto simp: apply_records_append)
qed

section \<open>The invariant of the tables\<close>

text \<open>The three ordered tables are sorted, and a function or public symbol stands at its own key.\<close>

definition dump_inv :: "DumpModule \<Rightarrow> bool" where
  "dump_inv m \<longleftrightarrow> std_map_inv (dm_files m) \<and> std_map_inv (dm_functions m) \<and> std_map_inv (externs m) \<and>
     list_all (\<lambda>(k, f). k = (df_address f, df_name f)) (dm_functions m) \<and> list_all (\<lambda>(k, e). k = ext_address e) (externs m)"

lemma std_insert_subset: "set (std_insert k v m) \<subseteq> insert (k, v) (set m)"
  by (induction k v m rule: std_insert.induct) auto

lemma std_erase_subset: "set (std_erase i m) \<subseteq> set m"
  by (auto simp: std_erase_def dest: in_set_takeD in_set_dropD)

lemma std_map_inv_erase: "std_map_inv m \<Longrightarrow> std_map_inv (std_erase i m)"
proof -
  assume "std_map_inv m"
  then have "std_map_inv (take i m @ drop i m)" by simp
  moreover have "drop (Suc i) m = tl (drop i m)" by (simp add: drop_Suc tl_drop)
  ultimately show ?thesis unfolding std_erase_def by (cases "drop i m") (auto simp del: append_take_drop_id)
qed

lemma dump_inv_new: "dump_inv (DumpModule_new name os arch id' code_id)"
  by (simp add: dump_inv_def DumpModule_new_def)

lemma dump_inv_AddExtern: "dump_inv m \<Longrightarrow> dump_inv (AddExtern e m)"
  using std_insert_subset [of "ext_address e" e "externs m"]
  by (auto simp: dump_inv_def AddExtern_def list_all_iff)

lemma dump_inv_FindFile: "dump_inv m \<Longrightarrow> dump_inv (FindFile name m)"
  by (auto simp: dump_inv_def FindFile_def Let_def)

lemma dump_inv_AssignSourceIds: "dump_inv m \<Longrightarrow> dump_inv (AssignSourceIds m)"
  by (simp add: dump_inv_def std_map_inv_def AssignSourceIds_keys)

lemma dump_inv_AddFunction:
  assumes "dump_inv m" and "AddFunction f m = Some m'"
  shows "dump_inv m'"
proof -
  have erase: "dump_inv (m\<lparr>externs := std_erase i (externs m)\<rparr>)" for i
    using assms(1) std_erase_subset [of i "externs m"] by (auto simp: dump_inv_def std_map_inv_erase list_all_iff)
  have insert: "dump_inv (m\<lparr>dm_functions := std_insert (df_address f, df_name f) f (dm_functions m)\<rparr>)" if "dump_inv m" for m
    using that std_insert_subset [of "(df_address f, df_name f)" f "dm_functions m"]
    by (auto simp: dump_inv_def list_all_iff)
  show ?thesis using assms insert [OF assms(1)] insert [OF erase]
    by (auto simp: AddFunction_def Let_def split: if_splits)
qed

lemma dump_inv_AddFunctions: "dump_inv m \<Longrightarrow> AddFunctions fs m = Some m' \<Longrightarrow> dump_inv m'"
  by (induction fs arbitrary: m) (auto split: bind_splits intro: dump_inv_AddFunction)

lemma dump_inv_entries: "dump_inv m \<Longrightarrow> dump_inv (AddStackFrameEntry e m)"
  "dump_inv m \<Longrightarrow> dump_inv (SetLoadAddress a m)" "dump_inv m \<Longrightarrow> dump_inv (SetAddressRanges rs m)"
  by (simp_all add: dump_inv_def AddStackFrameEntry_def SetLoadAddress_def SetAddressRanges_def)

lemma dump_inv_externs: "dump_inv m \<Longrightarrow> distinct (map ext_address (GetExterns m))"
proof -
  assume inv: "dump_inv m"
  then have "map ext_address (GetExterns m) = map fst (externs m)"
    by (auto simp: GetExterns_def dump_inv_def list_all_iff)
  then show ?thesis using inv std_map_inv_distinct [of "externs m"] by (simp add: dump_inv_def)
qed

section \<open>From the dumper to the stack trace\<close>

definition dump_disjoint :: "DumpModule \<Rightarrow> bool" where
  "dump_disjoint m \<longleftrightarrow> disjoint_ranges (map (block_range m) (module_blocks m)) \<and>
     list_all (\<lambda>(f, r, ls). disjoint_ranges (map (\<lambda>l. (dl_address l - load_address m, dl_size l)) ls)) (module_blocks m)"

lemma block_ranges_nth:
  "k < length bs \<Longrightarrow> (fst (block_range dm (bs ! k)), snd (block_range dm (bs ! k)), k0 + k) \<in> set (block_ranges dm k0 bs)"
proof (induction bs arbitrary: k k0)
  case (Cons b bs)
  then show ?case using Cons.IH [of "k - 1" "Suc k0"] by (cases k) auto
qed simp

lemma block_range_AssignSourceIds [simp]: "block_range (AssignSourceIds m) = block_range m"
  by (rule ext) (simp add: block_range_def)

lemma bounds_of_blocks: "bounds_of (block_ranges dm k bs) = map (block_range dm) bs"
  by (induction bs arbitrary: k) auto

lemma bounds_of_lines: "bounds_of (line_ranges dm ls) = map (\<lambda>l. (dl_address l - load_address dm, dl_size l)) ls"
  by (simp add: line_ranges_def comp_def)

lemma find_line_ranges:
  "List.find (\<lambda>(b, s, e). holds b s a) (line_ranges dm ls) =
     map_option (\<lambda>l. (dl_address l - load_address dm, dl_size l, Some (loaded_line dm l)))
       (List.find (\<lambda>l. holds (dl_address l - load_address dm) (dl_size l) a) ls)"
  by (induction ls) (auto simp: line_ranges_def)

text \<open>What the records of a written module leave in the loader's tables.\<close>

lemma module_records_load:
  assumes "dump_inv m" and "dump_ok m" and "dump_disjoint m" and "symbol_data \<noteq> ONLY_CFI"
  defines "dm \<equiv> AssignSourceIds m"
  obtains loaded cur t where
    "apply_records (module_records dm symbol_data) (Module_new name, None) = Some (loaded, cur)"
    "store_ranges (block_ranges dm 0 (module_blocks m)) RangeMap_new = Some t" "module_functions loaded = t"
    "function_heap loaded = map (loaded_function dm) (module_blocks m)"
    "files loaded = foldl (\<lambda>t (n, i). std_insert i n t) [] (filter (\<lambda>(n, i). 0 \<le> i) (dm_files dm))"
proof -
  let ?files = "foldl (\<lambda>t (n, i). std_insert i n t) [] (filter (\<lambda>(n, i). 0 \<le> i) (dm_files dm))"
  let ?m1 = "(Module_new name)\<lparr>files := ?files\<rparr>"
  have new: "module_functions (Module_new name) = RangeMap_new" "function_heap (Module_new name) = []"
      "cfi_initial_rules (Module_new name) = RangeMap_new" "am_map (public_symbols (Module_new name)) = []"
    by (simp_all add: Module_new_def AddressMap_new_def)
  have m1: "apply_records (file_records (dm_files dm)) (Module_new name, None) = Some (?m1, None)"
    by (simp add: apply_file_records) (simp add: Module_new_def)
  obtain t where t: "store_ranges (block_ranges dm 0 (module_blocks m)) RangeMap_new = Some t"
    using store_ranges_defined [OF range_map_inv_new] by blast
  have lines: "\<forall>(f, r, ls)\<in>set (module_blocks m). lines_ok dm ls"
    using assms(2) cited_ids(1) [OF assms(2)] blocks_parts
    by (fastforce simp: lines_ok_def module_blocks_def dm_def dump_ok_def function_dump_ok_def line_ok_def list_all_iff)
  let ?m2 = "?m1\<lparr>function_heap := map (loaded_function dm) (module_blocks m), module_functions := t\<rparr>"
  obtain c2 where m2: "apply_records (concat (map (block_records dm) (module_blocks m))) (?m1, None) = Some (?m2, c2)"
    using apply_block_records [OF lines, of ?m1 t None] t by (auto simp: new)
  obtain s c3 where m3: "apply_records (map (extern_record dm) (GetExterns m)) (?m2, c2) = Some (?m2\<lparr>public_symbols := s\<rparr>, c3)"
    using apply_extern_records [of ?m2 "GetExterns m" dm c2] dump_inv_externs [OF assms(1)] by (auto simp: new)
  let ?m3 = "?m2\<lparr>public_symbols := s\<rparr>"
  obtain loaded where m4: "(if symbol_data \<noteq> NO_CFI then apply_records (concat (map (entry_records dm) (stack_frame_entries m))) (?m3, c3)
      else Some (?m3, c3)) = Some (loaded, c3)" "files loaded = ?files" "function_heap loaded = map (loaded_function dm) (module_blocks m)"
      "module_functions loaded = t"
    using apply_entry_records [of ?m3 dm "stack_frame_entries m" c3] by (cases "symbol_data = NO_CFI") (auto simp: new)
  have "apply_records (module_records dm symbol_data) (Module_new name, None) = Some (loaded, c3)"
    using assms(4) m1 m2 m3 m4(1) by (auto simp: module_records_def apply_records_append dm_def split: if_splits)
  then show thesis using that t m4(2-4) by blast
qed

lemma loaded_file_name:
  assumes "dump_ok m" and "f \<in> set (GetFunctions m)" and "l \<in> set (df_lines f)"
  defines "fs \<equiv> dm_files (AssignSourceIds m)"
  shows "std_find (foldl (\<lambda>t (n, i). std_insert i n t) [] (filter (\<lambda>(n, i). 0 \<le> i) fs))
    (sint (source_file_id (loaded_line (AssignSourceIds m) l))) = Some (dl_file l)"
proof -
  let ?i = "source_id fs (dl_file l)"
  have i: "0 \<le> ?i" "?i < 2 ^ 31" "(dl_file l, ?i) \<in> set fs" using cited_ids [OF assms(1-3)] by (simp_all add: fs_def)
  have "sint (word_of_int ?i :: int32) = ?i" using i(1,2) by (simp add: signed_of_int signed_take_bit_int_eq_self)
  moreover have "distinct (map snd (filter (\<lambda>(n, i). 0 \<le> i) fs))"
    unfolding fs_def AssignSourceIds_files by (rule number_files_ids(3)) simp
  from insert_all [OF std_map_inv_Nil this] i
  have "std_find (foldl (\<lambda>t (n, i). std_insert i n t) [] (filter (\<lambda>(n, i). 0 \<le> i) fs)) ?i = Some (dl_file l)" by fastforce
  ultimately show ?thesis by (simp add: loaded_line_def fs_def)
qed

lemma loaded_module_inv:
  assumes "\<forall>r\<in>set rs. record_ok r" and "apply_records rs (Module_new name, None) = Some (m', cur)"
  shows "module_inv m'"
proof -
  have "load_inv (Module_new name, None, 0)" by (simp add: load_inv_def)
  from load_loop_inv [OF this, of True "symbol_text rs"] load_loop_records [OF assms, of True]
  show ?thesis by (simp add: load_inv_def)
qed

text \<open>The answer that a stack trace should give for an address of a function of the dumper.\<close>

definition traced :: "DumpModule \<Rightarrow> DumpFunction \<Rightarrow> ModuleRange \<Rightarrow> DumpLine list \<Rightarrow> u64 \<Rightarrow> StackFrame \<Rightarrow> StackFrame \<Rightarrow> bool" where
  "traced m f r ls module_base frame frame' \<longleftrightarrow>
     function_name frame' = df_name f \<and> function_base frame' = module_base + (rng_address r - load_address m) \<and>
     (case List.find (\<lambda>l. holds (dl_address l - load_address m) (dl_size l) (instruction frame - module_base)) ls of
        Some l \<Rightarrow> source_line frame' = dl_number l \<and> source_file_name frame' = dl_file l \<and>
          source_line_base frame' = module_base + (dl_address l - load_address m)
      | None \<Rightarrow> source_line frame' = source_line frame \<and> source_file_name frame' = source_file_name frame)"

lemma loaded_lookup:
  assumes "dump_ok m" and "dump_disjoint m" and inv: "module_inv loaded"
    and t: "store_ranges (block_ranges (AssignSourceIds m) 0 (module_blocks m)) RangeMap_new = Some t" "module_functions loaded = t"
    and heap: "function_heap loaded = map (loaded_function (AssignSourceIds m)) (module_blocks m)"
    and fs: "files loaded = foldl (\<lambda>t (n, i). std_insert i n t) [] (filter (\<lambda>(n, i). 0 \<le> i) (dm_files (AssignSourceIds m)))"
    and block: "(f, r, ls) \<in> set (module_blocks m)" and "frame_module frame = Some c"
    and a: "holds (rng_address r - load_address m) (rng_size r) (instruction frame - base_address c)"
  shows "\<exists>frame'. LookupAddress loaded frame = Some frame' \<and> traced m f r ls (base_address c) frame frame'"
proof -
  let ?dm = "AssignSourceIds m" and ?a = "instruction frame - base_address c"
  obtain k where k: "k < length (module_blocks m)" "module_blocks m ! k = (f, r, ls)"
    using block by (auto simp: in_set_conv_nth)
  have fun_range: "RangeMap_RetrieveRange (module_functions loaded) ?a =
      Some (k, rng_address r - load_address m, 0, rng_size r)"
  proof -
    let ?rs = "block_ranges ?dm 0 (module_blocks m)"
    have dis: "disjoint_ranges (bounds_of ?rs)"
      using assms(2) by (simp add: bounds_of_blocks dump_disjoint_def)
    have "(rng_address r - load_address m, rng_size r, k) \<in> set ?rs"
      using block_ranges_nth [OF k(1), of ?dm 0] by (simp add: k(2) block_range_def)
    moreover obtain t' where "store_ranges ?rs RangeMap_new = Some t'" "RangeMap_RetrieveRange t' ?a =
        map_option (\<lambda>(b, s, e). (e, b, 0, s)) (List.find (\<lambda>(b, s, e). holds b s ?a) ?rs)"
      using store_ranges_new [OF dis] by metis
    ultimately show ?thesis using t find_holds [OF dis _ a] by simp
  qed
  have func: "function_heap loaded ! k = loaded_function ?dm (f, r, ls)" using k by (simp add: heap)
  have line_range: "RangeMap_RetrieveRange (func_lines (loaded_function ?dm (f, r, ls))) ?a =
      map_option (\<lambda>l. (Some (loaded_line ?dm l), dl_address l - load_address m, 0, dl_size l))
        (List.find (\<lambda>l. holds (dl_address l - load_address m) (dl_size l) ?a) ls)"
  proof -
    have dis: "disjoint_ranges (bounds_of (line_ranges ?dm ls))"
      using assms(2) block by (auto simp: dump_disjoint_def list_all_iff bounds_of_lines)
    show ?thesis
      by (rule store_ranges_new [OF dis]) (simp add: loaded_function_def find_line_ranges option.map_comp comp_def)
  qed
  have name: "std_find (files loaded) (sint (source_file_id (loaded_line ?dm l))) = Some (dl_file l)" if "l \<in> set ls" for l
  proof -
    have "f \<in> set (GetFunctions m)" "l \<in> set (df_lines f)"
      using block blocks_parts [of r ls "df_ranges f" "df_lines f"] that by (auto simp: module_blocks_def)
    from loaded_file_name [OF assms(1) this] show ?thesis by (simp add: fs)
  qed
  have names: "func_name (loaded_function ?dm (f, r, ls)) = df_name f" by (simp add: loaded_function_def Function_new_def)
  note look = LookupAddress_lemma [OF inv assms(9)]
  show ?thesis
  proof (cases "List.find (\<lambda>l. holds (dl_address l - load_address m) (dl_size l) ?a) ls")
    case None
    then show ?thesis using look by (auto simp: fun_range func line_range names traced_def)
  next
    case (Some l)
    have "std_find (files loaded) (sint (source_file_id (loaded_line ?dm l))) = Some (dl_file l)"
      using name find_SomeD [OF Some] by blast
    moreover have "line_number (loaded_line ?dm l) = dl_number l" by (simp add: loaded_line_def)
    ultimately show ?thesis using look Some by (auto simp: fun_range func line_range names traced_def)
  qed
qed

text \<open>
  C2: symbols survive the way from the dumper to a stack trace. For a module whose tables are in
  order, whose names are lines of text and whose ranges are disjoint, \<open>Module::Write\<close> on a stream
  that takes everything returns true, \<open>LoadMapFromMemory\<close> reads the text without an error, and for
  every address in a range of a function \<open>LookupAddress\<close> gives the name of the function, the start
  of the range, and the number and file of the source line that holds the address.
\<close>

theorem Module_Write_lookup:
  assumes "dump_inv m" and "dump_ok m" and "dump_disjoint m" and "symbol_data \<noteq> ONLY_CFI"
    and "unlimited stream" and "written stream = []"
  shows "\<exists>m' stream' loaded. Module_Write m symbol_data stream = (True, m', stream') \<and>
    LoadMapFromMemory (Module_new name) (written stream' @ [CHR 0x00]) = Some (loaded, True) \<and> \<not> is_corrupt loaded \<and>
    (\<forall>f r ls frame c. (f, r, ls) \<in> set (module_blocks m) \<longrightarrow> frame_module frame = Some c \<longrightarrow>
       holds (rng_address r - load_address m) (rng_size r) (instruction frame - base_address c) \<longrightarrow>
       (\<exists>frame'. LookupAddress loaded frame = Some frame' \<and> traced m f r ls (base_address c) frame frame'))"
proof -
  let ?rs = "module_records (AssignSourceIds m) symbol_data"
  obtain loaded cur t where run: "apply_records ?rs (Module_new name, None) = Some (loaded, cur)"
    and tables: "store_ranges (block_ranges (AssignSourceIds m) 0 (module_blocks m)) RangeMap_new = Some t"
      "module_functions loaded = t" "function_heap loaded = map (loaded_function (AssignSourceIds m)) (module_blocks m)"
      "files loaded = foldl (\<lambda>t (n, i). std_insert i n t) [] (filter (\<lambda>(n, i). 0 \<le> i) (dm_files (AssignSourceIds m)))"
    using module_records_load [OF assms(1-4)] by metis
  have num: "numbered m symbol_data = AssignSourceIds m" using assms(4) by (simp add: numbered_def)
  have fit: "list_all record_fit ?rs" using module_records_fit [OF assms(2), of symbol_data] by (simp add: num)
  then have ok: "\<forall>r\<in>set ?rs. record_ok r" by (simp add: list_all_iff record_fit_def)
  have "LoadMapFromMemory (Module_new name) (symbol_text ?rs @ [CHR 0x00]) = Some (loaded\<lparr>is_corrupt := False\<rparr>, True)"
    by (rule LoadMap_records [OF ok run symbol_text_no_null [OF fit]]) (simp add: module_records_def)
  moreover have "Module_Write m symbol_data stream = (True, AssignSourceIds m, append_text (symbol_text ?rs) stream)"
    using Module_Write_text [OF assms(2,5)] by (simp add: num)
  moreover have "module_inv (loaded\<lparr>is_corrupt := False\<rparr>)"
    using loaded_module_inv [OF ok run] by (simp add: module_inv_def)
  note look = loaded_lookup [OF assms(2,3) this, of t] 
  ultimately show ?thesis using assms(6) tables
    by (intro exI [of _ "AssignSourceIds m"] exI [of _ "append_text (symbol_text ?rs) stream"]
        exI [of _ "loaded\<lparr>is_corrupt := False\<rparr>"]) (simp add: look)
qed

definition example_dump :: DumpModule where
  "example_dump = (DumpModule_new ''x'' ''Linux'' ''arm64'' ''0123'' ''ab'')
     \<lparr>load_address := 4096, dm_files := [(''a.cc'', 0), (''b.cc'', 0)],
      dm_functions := [((8192, ''main''), \<lparr>df_name = ''main'', df_address = 8192,
        df_ranges = [\<lparr>rng_address = 8192, rng_size = 16\<rparr>, \<lparr>rng_address = 16384, rng_size = 8\<rparr>], df_parameter_size = 0,
        df_lines = [\<lparr>dl_address = 8192, dl_size = 8, dl_file = ''b.cc'', dl_number = 7\<rparr>,
          \<lparr>dl_address = 16384, dl_size = 8, dl_file = ''b.cc'', dl_number = 9\<rparr>]\<rparr>)],
      stack_frame_entries := [\<lparr>sfe_address = 8192, sfe_size = 16, initial_rules = [(''.cfa'', ''sp'')], rule_changes = []\<rparr>],
      externs := [(32768, \<lparr>ext_address = 32768, ext_name = ''start''\<rparr>)]\<rparr>"

lemma example_blocks:
  "module_blocks example_dump =
     [(snd (hd (dm_functions example_dump)), \<lparr>rng_address = 8192, rng_size = 16\<rparr>,
        [\<lparr>dl_address = 8192, dl_size = 8, dl_file = ''b.cc'', dl_number = 7\<rparr>]),
      (snd (hd (dm_functions example_dump)), \<lparr>rng_address = 16384, rng_size = 8\<rparr>,
        [\<lparr>dl_address = 16384, dl_size = 8, dl_file = ''b.cc'', dl_number = 9\<rparr>])]"
  by (simp add: module_blocks_def example_dump_def GetFunctions_def in_range_def)

lemma example_dump_ok: "dump_inv example_dump" "dump_ok example_dump" "dump_disjoint example_dump"
proof -
  show "dump_inv example_dump" by (simp add: dump_inv_def example_dump_def DumpModule_new_def)
  show "dump_ok example_dump"
    by (simp add: dump_ok_def example_dump_def DumpModule_new_def GetFunctions_def GetExterns_def function_dump_ok_def
        line_ok_def extern_ok_def entry_ok_def rules_ok_def)
  show "dump_disjoint example_dump"
    unfolding dump_disjoint_def example_blocks
    by (simp add: block_range_def disjoint_ranges_def valid_range_def example_dump_def)
qed

theorem Module_Write_lookup_witness:
  "\<exists>m' stream' loaded frame'.
     Module_Write example_dump ALL_SYMBOL_DATA \<lparr>written = [], room = None, good = True\<rparr> = (True, m', stream') \<and>
     LoadMapFromMemory (Module_new ''x'') (written stream' @ [CHR 0x00]) = Some (loaded, True) \<and>
     LookupAddress loaded (StackFrame_new\<lparr>instruction := 77828,
       frame_module := Some (CodeModule_new 65536 65536 ''x'' [] [] [] [] False)\<rparr>) = Some frame' \<and>
     function_name frame' = ''main'' \<and> source_line frame' = 9 \<and> source_file_name frame' = ''b.cc''"
proof -
  let ?c = "CodeModule_new 65536 65536 ''x'' [] [] [] [] False"
  let ?frame = "StackFrame_new\<lparr>instruction := 77828, frame_module := Some ?c\<rparr>"
  let ?f = "snd (hd (dm_functions example_dump))" and ?r = "\<lparr>rng_address = 16384, rng_size = 8\<rparr>"
  let ?ls = "[\<lparr>dl_address = 16384, dl_size = 8, dl_file = ''b.cc'', dl_number = 9\<rparr>]"
  have base: "base_address ?c = 65536" "load_address example_dump = 4096" "df_name ?f = ''main''"
    by (simp_all add: CodeModule_new_def example_dump_def)
  obtain m' stream' loaded where load:
    "Module_Write example_dump ALL_SYMBOL_DATA \<lparr>written = [], room = None, good = True\<rparr> = (True, m', stream')"
    "LoadMapFromMemory (Module_new ''x'') (written stream' @ [CHR 0x00]) = Some (loaded, True)"
    "\<forall>f r ls frame c. (f, r, ls) \<in> set (module_blocks example_dump) \<longrightarrow> frame_module frame = Some c \<longrightarrow>
       holds (rng_address r - load_address example_dump) (rng_size r) (instruction frame - base_address c) \<longrightarrow>
       (\<exists>frame'. LookupAddress loaded frame = Some frame' \<and> traced example_dump f r ls (base_address c) frame frame')"
    using Module_Write_lookup [OF example_dump_ok(1-3), of ALL_SYMBOL_DATA "\<lparr>written = [], room = None, good = True\<rparr>" "''x''"]
    by (auto simp: unlimited_def)
  have "\<exists>frame'. LookupAddress loaded ?frame = Some frame' \<and> traced example_dump ?f ?r ?ls (base_address ?c) ?frame frame'"
    using load(3) [rule_format, of ?f ?r ?ls ?frame ?c] by (simp add: example_blocks base holds_def)
  with load(1,2) show ?thesis by (auto simp: traced_def base holds_def)
qed

text \<open>
  The stream is not looked at behind the \<open>PUBLIC\<close> records: without call frame information
  \<open>Module::Write\<close> returns true even when they did not fit.
\<close>

lemma Module_Write_lost_symbols:
  assumes "dm_code_id m = []" and "dm_files m = []" and "dm_functions m = []" and "good stream"
    and "room stream = Some (length (''MODULE '' @ dm_os m @ '' '' @ dm_architecture m @ '' '' @ dm_id m @ '' '' @ dm_name m @ newline))"
  shows "\<exists>stream'. Module_Write m NO_CFI stream = (True, AssignSourceIds m, stream') \<and>
    written stream' = written stream @ ''MODULE '' @ dm_os m @ '' '' @ dm_architecture m @ '' '' @ dm_id m @ '' '' @ dm_name m @ newline"
proof -
  let ?s = "''MODULE '' @ dm_os m @ '' '' @ dm_architecture m @ '' '' @ dm_id m @ '' '' @ dm_name m @ newline"
  have full: "written (write_externs dm es st) = written st" if "room st = Some 0" for st dm es
    using that
  proof (induction es arbitrary: st)
    case (Cons e es)
    then show ?case by (simp add: put_def)
  qed simp
  have "put ?s stream = stream\<lparr>written := written stream @ ?s, room := Some 0\<rparr>" using assms(4,5) by (simp add: put_def)
  moreover have "dm_files (AssignSourceIds m) = []" "GetFunctions m = []"
    using assms(2,3) by (simp_all add: AssignSourceIds_files GetFunctions_def)
  ultimately show ?thesis using assms(1,4) by (simp add: Module_Write_def full Let_def)
qed

end
