(* ===== verification/Byte_Reader.thy ===== *)
theory Byte_Reader
  imports Byte_Memory
begin

text \<open>
  \<open>ByteReader\<close> (src/crash/src/main/cpp/breakpad/src/common/dwarf: bytereader.h, bytereader-inl.h,
  bytereader.cc), which reads numbers, LEB128 numbers and the encoded pointers of exception
  handling data from DWARF sections, and the LEB128 writers of \<open>test_assembler\<close> that the unit tests
  build such sections with.

  The memory behind the section's first byte is a list of bytes and a pointer into it a position.
  The result \<^const>\<open>None\<close> stands for a run that is undefined or does not go on: a read outside of the
  memory, a shift by the width of the type or more, a signed overflow, an \<open>assert\<close> that fails, or
  \<open>abort()\<close>. A flag \<open>have_x_base_\<close> and the base it guards are one optional value.
\<close>

section \<open>Model\<close>

datatype Endianness = ENDIANNESS_BIG | ENDIANNESS_LITTLE

datatype AddressReader = FourBytes | EightBytes

record ByteReader =
  offset_reader :: "AddressReader option"
  address_reader :: "AddressReader option"
  endian :: Endianness
  address_size :: u8
  offset_size :: u8
  section_base :: "u64 option"
  text_base :: "u64 option"
  data_base :: "u64 option"
  function_base :: "u64 option"
  buffer_base :: nat

definition ByteReader_new :: "Endianness \<Rightarrow> ByteReader" where
  "ByteReader_new e =
     \<lparr>offset_reader = None, address_reader = None, endian = e, address_size = 0, offset_size = 0,
      section_base = None, text_base = None, data_base = None, function_base = None, buffer_base = 0\<rparr>"

definition check :: "bool \<Rightarrow> unit option" where
  "check b = (if b then Some () else None)"

definition SetOffsetSize :: "u8 \<Rightarrow> ByteReader \<Rightarrow> ByteReader option" where
  "SetOffsetSize sz r = do {
     check (sz = 4 \<or> sz = 8);
     Some (r\<lparr>offset_size := sz, offset_reader := Some (if sz = 4 then FourBytes else EightBytes)\<rparr>)}"

definition SetAddressSize :: "u8 \<Rightarrow> ByteReader \<Rightarrow> ByteReader option" where
  "SetAddressSize sz r = do {
     check (sz = 4 \<or> sz = 8);
     Some (r\<lparr>address_size := sz, address_reader := Some (if sz = 4 then FourBytes else EightBytes)\<rparr>)}"

definition SetCFIDataBase :: "u64 \<Rightarrow> nat \<Rightarrow> ByteReader \<Rightarrow> ByteReader" where
  "SetCFIDataBase b start r = r\<lparr>section_base := Some b, buffer_base := start\<rparr>"

definition SetTextBase :: "u64 \<Rightarrow> ByteReader \<Rightarrow> ByteReader" where
  "SetTextBase b r = r\<lparr>text_base := Some b\<rparr>"

definition SetDataBase :: "u64 \<Rightarrow> ByteReader \<Rightarrow> ByteReader" where
  "SetDataBase b r = r\<lparr>data_base := Some b\<rparr>"

definition SetFunctionBase :: "u64 \<Rightarrow> ByteReader \<Rightarrow> ByteReader" where
  "SetFunctionBase b r = r\<lparr>function_base := Some b\<rparr>"

definition ClearFunctionBase :: "ByteReader \<Rightarrow> ByteReader" where
  "ClearFunctionBase r = r\<lparr>function_base := None\<rparr>"

definition ReadOneByte :: "byte list \<Rightarrow> nat \<Rightarrow> u8 option" where
  "ReadOneByte buf p = (if p < length buf then Some (buf ! p) else None)"

definition ReadTwoBytes :: "ByteReader \<Rightarrow> byte list \<Rightarrow> nat \<Rightarrow> u16 option" where
  "ReadTwoBytes r buf p = do {
     buffer0 \<leftarrow> map_option ucast (ReadOneByte buf p);
     buffer1 \<leftarrow> map_option ucast (ReadOneByte buf (p + 1));
     Some (if endian r = ENDIANNESS_LITTLE then buffer0 OR push_bit 8 buffer1
           else buffer1 OR push_bit 8 buffer0)}"

definition ReadThreeBytes :: "ByteReader \<Rightarrow> byte list \<Rightarrow> nat \<Rightarrow> u64 option" where
  "ReadThreeBytes r buf p = do {
     buffer0 \<leftarrow> map_option ucast (ReadOneByte buf p);
     buffer1 \<leftarrow> map_option ucast (ReadOneByte buf (p + 1));
     buffer2 \<leftarrow> map_option ucast (ReadOneByte buf (p + 2));
     Some (ucast ((if endian r = ENDIANNESS_LITTLE
                   then buffer0 OR push_bit 8 buffer1 OR push_bit 16 buffer2
                   else buffer2 OR push_bit 8 buffer1 OR push_bit 16 buffer0) :: u32))}"

definition ReadFourBytes :: "ByteReader \<Rightarrow> byte list \<Rightarrow> nat \<Rightarrow> u64 option" where
  "ReadFourBytes r buf p = do {
     buffer0 \<leftarrow> map_option ucast (ReadOneByte buf p);
     buffer1 \<leftarrow> map_option ucast (ReadOneByte buf (p + 1));
     buffer2 \<leftarrow> map_option ucast (ReadOneByte buf (p + 2));
     buffer3 \<leftarrow> map_option ucast (ReadOneByte buf (p + 3));
     Some (ucast ((if endian r = ENDIANNESS_LITTLE
                   then buffer0 OR push_bit 8 buffer1 OR push_bit 16 buffer2 OR push_bit 24 buffer3
                   else buffer3 OR push_bit 8 buffer2 OR push_bit 16 buffer1 OR push_bit 24 buffer0) :: u32))}"

definition ReadEightBytes :: "ByteReader \<Rightarrow> byte list \<Rightarrow> nat \<Rightarrow> u64 option" where
  "ReadEightBytes r buf p = do {
     buffer0 \<leftarrow> map_option ucast (ReadOneByte buf p);
     buffer1 \<leftarrow> map_option ucast (ReadOneByte buf (p + 1));
     buffer2 \<leftarrow> map_option ucast (ReadOneByte buf (p + 2));
     buffer3 \<leftarrow> map_option ucast (ReadOneByte buf (p + 3));
     buffer4 \<leftarrow> map_option ucast (ReadOneByte buf (p + 4));
     buffer5 \<leftarrow> map_option ucast (ReadOneByte buf (p + 5));
     buffer6 \<leftarrow> map_option ucast (ReadOneByte buf (p + 6));
     buffer7 \<leftarrow> map_option ucast (ReadOneByte buf (p + 7));
     Some (if endian r = ENDIANNESS_LITTLE
           then buffer0 OR push_bit 8 buffer1 OR push_bit 16 buffer2 OR push_bit 24 buffer3 OR
                push_bit 32 buffer4 OR push_bit 40 buffer5 OR push_bit 48 buffer6 OR push_bit 56 buffer7
           else buffer7 OR push_bit 8 buffer6 OR push_bit 16 buffer5 OR push_bit 24 buffer4 OR
                push_bit 32 buffer3 OR push_bit 40 buffer2 OR push_bit 48 buffer1 OR push_bit 56 buffer0)}"

text \<open>
  The loop of both LEB128 readers: the value so far, the shift after the last byte, the last byte
  and the number of bytes read.
\<close>

fun leb128_loop :: "byte list \<Rightarrow> u64 \<Rightarrow> nat \<Rightarrow> nat \<Rightarrow> (u64 \<times> nat \<times> byte \<times> nat) option" where
  "leb128_loop [] result shift num_read = None"
| "leb128_loop (b # buffer) result shift num_read =
     (if 64 \<le> shift then None
      else let result = result OR push_bit shift (ucast (b AND 0x7f))
           in if b AND 0x80 \<noteq> 0 then leb128_loop buffer result (shift + 7) (num_read + 1)
              else Some (result, shift + 7, b, num_read + 1))"

definition ReadUnsignedLEB128 :: "byte list \<Rightarrow> nat \<Rightarrow> (u64 \<times> nat) option" where
  "ReadUnsignedLEB128 buf p = do {
     (result, shift, b, num_read) \<leftarrow> leb128_loop (drop p buf) 0 0 0;
     Some (result, num_read)}"

definition ReadSignedLEB128 :: "byte list \<Rightarrow> nat \<Rightarrow> (u64 \<times> nat) option" where
  "ReadSignedLEB128 buf p = do {
     (result, shift, b, num_read) \<leftarrow> leb128_loop (drop p buf) 0 0 0;
     (if shift < 64 \<and> b AND 0x40 \<noteq> 0
      then do { check (shift \<noteq> 63); Some (result OR - push_bit shift 1, num_read) }
      else Some (result, num_read))}"

definition read_with :: "AddressReader \<Rightarrow> ByteReader \<Rightarrow> byte list \<Rightarrow> nat \<Rightarrow> u64 option" where
  "read_with reader = (case reader of FourBytes \<Rightarrow> ReadFourBytes | EightBytes \<Rightarrow> ReadEightBytes)"

definition ReadOffset :: "ByteReader \<Rightarrow> byte list \<Rightarrow> nat \<Rightarrow> u64 option" where
  "ReadOffset r buf p = do { reader \<leftarrow> offset_reader r; read_with reader r buf p }"

definition ReadAddress :: "ByteReader \<Rightarrow> byte list \<Rightarrow> nat \<Rightarrow> u64 option" where
  "ReadAddress r buf p = do { reader \<leftarrow> address_reader r; read_with reader r buf p }"

definition ReadInitialLength :: "ByteReader \<Rightarrow> byte list \<Rightarrow> nat \<Rightarrow> (u64 \<times> nat \<times> ByteReader) option" where
  "ReadInitialLength r buf start = do {
     initial_length \<leftarrow> ReadFourBytes r buf start;
     (if initial_length = 0xffffffff
      then do { r \<leftarrow> SetOffsetSize 8 r; v \<leftarrow> ReadOffset r buf (start + 4); Some (v, 12, r) }
      else do { r \<leftarrow> SetOffsetSize 4 r; Some (initial_length, 4, r) })}"

type_synonym DwarfPointerEncoding = u8

definition ValidEncoding :: "DwarfPointerEncoding \<Rightarrow> bool" where
  "ValidEncoding encoding \<longleftrightarrow>
     (if encoding = 0xff then True
      else if encoding = 0x50 then True
      else if encoding AND 0x7 > 0x04 then False
      else if encoding AND 0x70 > 0x40 then False
      else True)"

definition UsableEncoding :: "ByteReader \<Rightarrow> DwarfPointerEncoding \<Rightarrow> bool" where
  "UsableEncoding r encoding =
     (let e = encoding AND 0x70
      in if e = 0x00 then True
         else if e = 0x10 then section_base r \<noteq> None
         else if e = 0x20 then text_base r \<noteq> None
         else if e = 0x30 then data_base r \<noteq> None
         else if e = 0x40 then function_base r \<noteq> None
         else False)"

text \<open>The value of an encoded pointer before a base is added, and its length.\<close>

definition encoded_offset :: "ByteReader \<Rightarrow> byte list \<Rightarrow> nat \<Rightarrow> DwarfPointerEncoding \<Rightarrow> (u64 \<times> nat) option" where
  "encoded_offset r buf p encoding =
     (let e = encoding AND 0x0f
      in if e = 0x00 then map_option (\<lambda>v. (v, unat (address_size r))) (ReadAddress r buf p)
         else if e = 0x01 then ReadUnsignedLEB128 buf p
         else if e = 0x02 then map_option (\<lambda>v. (ucast v, 2)) (ReadTwoBytes r buf p)
         else if e = 0x03 then map_option (\<lambda>v. (v, 4)) (ReadFourBytes r buf p)
         else if e = 0x04 then map_option (\<lambda>v. (v, 8)) (ReadEightBytes r buf p)
         else if e = 0x09 then ReadSignedLEB128 buf p
         else if e = 0x0a then map_option (\<lambda>v. ((ucast v XOR 0x8000) - 0x8000, 2)) (ReadTwoBytes r buf p)
         else if e = 0x0b then map_option (\<lambda>v. ((v XOR 0x80000000) - 0x80000000, 4)) (ReadFourBytes r buf p)
         else if e = 0x0c then map_option (\<lambda>v. (v, 8)) (ReadEightBytes r buf p)
         else None)"

definition encoded_base :: "ByteReader \<Rightarrow> nat \<Rightarrow> DwarfPointerEncoding \<Rightarrow> u64 option" where
  "encoded_base r p encoding =
     (let e = encoding AND 0x70
      in if e = 0x00 then Some 0
         else if e = 0x10 then map_option (\<lambda>b. b + (of_nat p - of_nat (buffer_base r))) (section_base r)
         else if e = 0x20 then text_base r
         else if e = 0x30 then data_base r
         else if e = 0x40 then function_base r
         else None)"

definition read_aligned :: "ByteReader \<Rightarrow> byte list \<Rightarrow> nat \<Rightarrow> (u64 \<times> nat) option" where
  "read_aligned r buf p = do {
     base \<leftarrow> section_base r;
     let sz = ucast (address_size r);
     let skew = base AND (sz - 1);
     let offset = skew + (of_nat p - of_nat (buffer_base r));
     let aligned = (offset + sz - 1) AND - sz;
     let aligned_buffer = buffer_base r + unat (aligned - skew);
     v \<leftarrow> ReadAddress r buf aligned_buffer;
     Some (v, aligned_buffer - p + unat (address_size r))}"

definition ReadEncodedPointer :: "ByteReader \<Rightarrow> byte list \<Rightarrow> nat \<Rightarrow> DwarfPointerEncoding \<Rightarrow> (u64 \<times> nat) option" where
  "ReadEncodedPointer r buf p encoding = do {
     check (encoding \<noteq> 0xff);
     (if encoding = 0x50 then read_aligned r buf p
      else do {
        (offset, len) \<leftarrow> encoded_offset r buf p encoding;
        base \<leftarrow> encoded_base r p encoding;
        let pointer = base + offset;
        (if address_size r = 4 then Some (pointer AND 0xffffffff, len)
         else do { check (address_size r = 8); Some (pointer, len) })})}"

text \<open>The LEB128 writers: \<open>Section::ULEB128\<close> and \<open>Section::LEB128\<close> append these bytes.\<close>

lemma unat_drop_7: "unat (drop_bit 7 (v :: u64)) = unat v div 128"
  by (simp add: drop_bit_eq_div unat_div_distrib)

function ULEB128 :: "u64 \<Rightarrow> byte list" where
  "ULEB128 v =
     (if v > 0x7f then ucast ((v AND 0x7f) OR 0x80) # ULEB128 (drop_bit 7 v) else [ucast v])"
  by auto

termination
  by (relation "measure unat") (auto simp: unat_drop_7 word_less_nat_alt)

definition shift_signed :: "u64 \<Rightarrow> u64" where
  "shift_signed v = (if sint v < 0 then signed_drop_bit 7 v OR NOT (drop_bit 7 (- 1)) else signed_drop_bit 7 v)"

lemma sign_bit: "bit (v :: u64) 63 \<longleftrightarrow> sint v < 0"
  by (simp add: sint_uint signed_take_bit_negative_iff bit_uint_iff)

lemma shift_signed_eq: "shift_signed v = signed_drop_bit 7 v"
proof -
  have "signed_drop_bit 7 v OR NOT (drop_bit 7 (- 1)) = signed_drop_bit 7 v" if "sint v < 0"
  proof (rule bit_word_eqI)
    fix n assume "n < LENGTH(64)"
    then show "bit (signed_drop_bit 7 v OR NOT (drop_bit 7 (- 1))) n = bit (signed_drop_bit 7 v) n"
      using that by (auto simp: bit_or_iff bit_not_iff bit_drop_bit_eq bit_signed_drop_bit_iff bit_mask_iff sign_bit)
  qed
  then show ?thesis by (simp add: shift_signed_def)
qed

lemma sint_shift_signed: "sint (shift_signed v) = sint v div 128"
  by (simp add: shift_signed_eq sint_signed_drop_bit_eq drop_bit_eq_div)

function LEB128 :: "u64 \<Rightarrow> byte list" where
  "LEB128 v =
     (if sint v < - 0x40 \<or> 0x3f < sint v then ucast ((v AND 0x7f) OR 0x80) # LEB128 (shift_signed v)
      else [ucast (v AND 0x7f)])"
  by auto

termination
  by (relation "measure (\<lambda>v. nat \<bar>sint v\<bar>)") (auto simp: sint_shift_signed)

section \<open>LEB128\<close>

lemma and_7f: "(v :: 'a::len word) AND 0x7f = take_bit 7 v"
  by (simp add: take_bit_eq_mask mask_eq_exp_minus_1)

lemma and_80: "(b :: byte) AND 0x80 = 0 \<longleftrightarrow> \<not> bit b 7"
  using and_exp_eq_0_iff_not_bit [of b 7] by simp

lemma and_40: "(b :: byte) AND 0x40 = 0 \<longleftrightarrow> \<not> bit b 6"
  using and_exp_eq_0_iff_not_bit [of b 6] by simp

lemma bit_0x80: "bit (0x80 :: int) n \<longleftrightarrow> n = 7"
  using bit_exp_iff [where 'a = int, of 7 n] by auto

lemma next_byte:
  fixes v :: u64
  defines "b \<equiv> ucast ((v AND 0x7f) OR 0x80) :: byte"
  shows "b AND 0x80 \<noteq> 0" and "ucast (b AND 0x7f) = take_bit 7 v"
proof -
  have b: "bit b n \<longleftrightarrow> n < 7 \<and> bit v n \<or> n = 7" for n
    by (auto simp: b_def and_7f bit_or_iff bit_word_ucast_iff bit_take_bit_iff bit_0x80)
  show "b AND 0x80 \<noteq> 0" by (simp add: and_80 b)
  show "ucast (b AND 0x7f) = take_bit 7 v"
    by (rule bit_word_eqI) (auto simp: and_7f b bit_word_ucast_iff bit_take_bit_iff)
qed

lemma last_byte:
  fixes v :: u64
  defines "b \<equiv> ucast (v AND 0x7f) :: byte"
  shows "b AND 0x80 = 0" and "ucast (b AND 0x7f) = take_bit 7 v" and "b AND 0x40 \<noteq> 0 \<longleftrightarrow> bit v 6"
proof -
  show "b AND 0x80 = 0" by (simp add: b_def and_80 and_7f bit_word_ucast_iff bit_take_bit_iff)
  show "ucast (b AND 0x7f) = take_bit 7 v"
    by (rule bit_word_eqI) (auto simp: b_def and_7f bit_word_ucast_iff bit_take_bit_iff)
  show "b AND 0x40 \<noteq> 0 \<longleftrightarrow> bit v 6"
    by (simp add: b_def and_40 and_7f bit_word_ucast_iff bit_take_bit_iff)
qed

lemma index_from_7: "\<not> n - s < 7 \<Longrightarrow> s + 7 \<le> n" "\<not> n - s < 7 \<Longrightarrow> 7 + (n - (s + 7)) = n - (s :: nat)"
  by auto

lemma push_take_drop:
  fixes v :: u64
  shows "push_bit s (take_bit 7 v) OR push_bit (s + 7) (drop_bit 7 v) = push_bit s v"
proof (rule bit_word_eqI)
  fix n
  show "bit (push_bit s (take_bit 7 v) OR push_bit (s + 7) (drop_bit 7 v)) n = bit (push_bit s v) n"
    by (cases "n - s < 7")
      (auto simp: bit_or_iff bit_push_bit_iff bit_take_bit_iff bit_drop_bit_eq index_from_7)
qed

lemma push_take_shift:
  fixes v :: u64
  shows "push_bit s (take_bit 7 v) OR push_bit (s + 7) (take_bit m (shift_signed v)) = push_bit s (take_bit (7 + m) v)"
proof (rule bit_word_eqI)
  fix n
  show "bit (push_bit s (take_bit 7 v) OR push_bit (s + 7) (take_bit m (shift_signed v))) n =
      bit (push_bit s (take_bit (7 + m) v)) n"
    by (cases "n - s < 7")
      (auto simp: bit_or_iff bit_push_bit_iff bit_take_bit_iff shift_signed_eq bit_signed_drop_bit_iff index_from_7)
qed

lemma take_bit_small: "v \<le> 0x7f \<Longrightarrow> take_bit 7 v = (v :: u64)"
proof -
  assume "v \<le> 0x7f"
  then have "v < 2 ^ 7" by (simp add: word_le_nat_alt word_less_nat_alt)
  then show ?thesis by (simp only: take_bit_eq_mask less_mask_eq)
qed

lemma ULEB128_small: "v \<le> 0x7f \<Longrightarrow> ULEB128 v = [ucast (v AND 0x7f)]"
  and ULEB128_large: "v > 0x7f \<Longrightarrow> ULEB128 v = ucast ((v AND 0x7f) OR 0x80) # ULEB128 (drop_bit 7 v)"
  by (simp_all add: and_7f take_bit_small)

lemma ULEB128_nonempty [simp]: "ULEB128 v \<noteq> []"
  by (cases "v > 0x7f") (simp_all add: ULEB128.simps [of v] del: ULEB128.simps)

lemma uleb_loop:
  assumes "s < 64" and "unat v < 2 ^ (64 - s)"
  shows "leb128_loop (ULEB128 v @ rest) res s k =
    Some (res OR push_bit s v, s + 7 * length (ULEB128 v), last (ULEB128 v), k + length (ULEB128 v))"
  using assms
proof (induction v arbitrary: res s k rule: ULEB128.induct)
  case (1 v)
  show ?case
  proof (cases "v > 0x7f")
    case True
    have big: "2 ^ 7 < (2 :: nat) ^ (64 - s)"
      using True 1(3) by (simp add: word_less_nat_alt)
    then have "7 < 64 - s" by (rule power_less_imp_less_exp [rotated]) simp
    then have s: "s + 7 < 64" by simp
    have "unat (drop_bit 7 v) < 2 ^ (64 - (s + 7))"
    proof -
      have "64 - s = (64 - (s + 7)) + 7" using s by simp
      then have "(2 :: nat) ^ (64 - s) = 2 ^ (64 - (s + 7)) * 128"
        by (simp only: power_add) simp
      then show ?thesis using 1(3) by (simp add: unat_drop_7 less_mult_imp_div_less)
    qed
    from 1(1) [OF True s this, of "res OR push_bit s (take_bit 7 v)" "k + 1"] show ?thesis
      using s by (simp add: ULEB128_large [OF True] next_byte or.assoc push_take_drop del: ULEB128.simps)
  next
    case False
    then show ?thesis
      using 1(2) by (simp add: ULEB128_small last_byte take_bit_small del: ULEB128.simps)
  qed
qed

lemma LEB128_small: "- 0x40 \<le> sint v \<Longrightarrow> sint v \<le> 0x3f \<Longrightarrow> LEB128 v = [ucast (v AND 0x7f)]"
  and LEB128_large: "sint v < - 0x40 \<or> 0x3f < sint v \<Longrightarrow> LEB128 v = ucast ((v AND 0x7f) OR 0x80) # LEB128 (shift_signed v)"
  by simp_all

declare ULEB128.simps [simp del] LEB128.simps [simp del]

lemma LEB128_nonempty [simp]: "LEB128 v \<noteq> []"
  by (cases "sint v < - 0x40 \<or> 0x3f < sint v") (simp_all add: LEB128.simps [of v])

lemma leb_loop:
  assumes "s + 7 * (length (LEB128 v) - 1) < 64"
  shows "leb128_loop (LEB128 v @ rest) res s k =
    Some (res OR push_bit s (take_bit (7 * length (LEB128 v)) v), s + 7 * length (LEB128 v),
      last (LEB128 v), k + length (LEB128 v))"
  using assms
proof (induction v arbitrary: res s k rule: LEB128.induct)
  case (1 v)
  show ?case
  proof (cases "sint v < - 0x40 \<or> 0x3f < sint v")
    case True
    obtain m where m: "length (LEB128 (shift_signed v)) = Suc m"
      using LEB128_nonempty by (metis length_0_conv not0_implies_Suc)
    have "s + 7 + 7 * (length (LEB128 (shift_signed v)) - 1) < 64"
      using 1(2) by (simp add: LEB128_large [OF True] m)
    from 1(1) [OF True this, of "res OR push_bit s (take_bit 7 v)" "k + 1"] show ?thesis
      using 1(2) by (simp add: LEB128_large [OF True] next_byte or.assoc push_take_shift m)
  next
    case False
    then show ?thesis
      using 1(2) by (simp add: LEB128_small last_byte)
  qed
qed

lemma div_128_bounds: "- P \<le> x div 128 \<longleftrightarrow> - (P * 128) \<le> x" "x div 128 < P \<longleftrightarrow> x < P * (128 :: int)"
proof -
  have "128 * (x div 128) \<le> x" "x < 128 * (x div 128) + 128"
    using mult_div_mod_eq [of 128 x] pos_mod_bound [of 128 x] pos_mod_sign [of 128 x] by linarith+
  then show "- P \<le> x div 128 \<longleftrightarrow> - (P * 128) \<le> x" "x div 128 < P \<longleftrightarrow> x < P * 128" by linarith+
qed

lemma length_LEB128:
  "n \<noteq> 0 \<Longrightarrow> length (LEB128 v) \<le> n \<longleftrightarrow> - (2 ^ (7 * n - 1)) \<le> sint v \<and> sint v < 2 ^ (7 * n - 1)"
proof (induction v arbitrary: n rule: LEB128.induct)
  case (1 v)
  show ?case
  proof (cases "sint v < - 0x40 \<or> 0x3f < sint v")
    case True
    show ?thesis
    proof (cases "n = 1")
      case True
      then show ?thesis using \<open>sint v < - 0x40 \<or> 0x3f < sint v\<close>
        by (auto simp: LEB128_large)
    next
      case False
      with 1(2) obtain m where n: "n = Suc m" "m \<noteq> 0" by (cases n) auto
      then have p: "(2 :: int) ^ (7 * n - 1) = 2 ^ (7 * m - 1) * 128"
        by (cases m) (simp_all add: power_add)
      show ?thesis using 1(1) [OF True n(2)]
        unfolding LEB128_large [OF True] p by (simp add: n sint_shift_signed div_128_bounds)
    qed
  next
    case False
    have "(2 :: int) ^ 6 \<le> 2 ^ (7 * n - 1)" using 1(2) by (intro power_increasing) auto
    with False show ?thesis using 1(2) by (simp add: LEB128_small)
  qed
qed

lemma last_LEB128: "last (LEB128 v) AND 0x40 \<noteq> 0 \<longleftrightarrow> sint v < 0"
proof (induction v rule: LEB128.induct)
  case (1 v)
  show ?case
  proof (cases "sint v < - 0x40 \<or> 0x3f < sint v")
    case True
    have "sint v div 128 < 0 \<longleftrightarrow> sint v < 0" by (simp add: pos_imp_zdiv_neg_iff)
    then show ?thesis using 1(1) [OF True] by (simp add: LEB128_large [OF True] sint_shift_signed)
  next
    case False
    have "bit v 6 \<longleftrightarrow> bit (sint v) 6" by (simp add: bit_sint_iff)
    also have "\<dots> \<longleftrightarrow> odd (sint v div 64)" by (simp add: bit_iff_odd)
    also have "sint v div 64 = (if sint v < 0 then - 1 else 0)"
      using False by (auto intro: int_div_pos_eq [where r = "sint v + 64"] div_pos_pos_trivial)
    finally have "bit v 6 \<longleftrightarrow> sint v < 0" by simp
    then show ?thesis using False by (simp add: LEB128_small last_byte)
  qed
qed

text \<open>The sign extension: above a negative number's encoded bits, all bits are set.\<close>

lemma sign_extend:
  assumes "- (2 ^ (7 * n - 1)) \<le> sint v" and "sint v < 0" and "n \<noteq> 0" and "7 * n < 64"
  shows "take_bit (7 * n) v OR - push_bit (7 * n) 1 = (v :: u64)"
proof (rule bit_word_eqI)
  fix i assume i: "i < LENGTH(64)"
  have "bit v i" if "7 * n \<le> i"
  proof -
    have "(2 :: int) ^ (7 * n - 1) \<le> 2 ^ i" using that by (intro power_increasing) auto
    then have "- (2 ^ i) \<le> sint v" using assms(1) by linarith
    then have "sint v div 2 ^ i = - 1"
      using assms(2) by (intro int_div_pos_eq [where r = "sint v + 2 ^ i"]) auto
    then have "bit (sint v) i" by (simp add: bit_iff_odd)
    then show ?thesis using i by (simp add: bit_sint_iff)
  qed
  then show "bit (take_bit (7 * n) v OR - push_bit (7 * n) 1) i = bit v i"
    using i by (auto simp: bit_or_iff bit_take_bit_iff bit_minus_exp_iff push_bit_eq_mult)
qed

lemma no_bits_above:
  assumes "0 \<le> sint v" and "sint v < 2 ^ n"
  shows "take_bit n v = (v :: u64)"
proof (rule bit_word_eqI)
  fix i assume i: "i < LENGTH(64)"
  have "\<not> bit v i" if "n \<le> i"
  proof -
    have "(2 :: int) ^ n \<le> 2 ^ i" using that by (intro power_increasing) auto
    with assms(2) have "sint v < 2 ^ i" by linarith
    with assms(1) have "sint v div 2 ^ i = 0" by (rule div_pos_pos_trivial)
    then have "\<not> bit (sint v) i" by (simp add: bit_iff_odd)
    then show ?thesis using i by (simp add: bit_sint_iff)
  qed
  then show "bit (take_bit n v) i = bit v i"
    using i by (cases "n \<le> i") (auto simp: bit_take_bit_iff)
qed

lemma ReadUnsignedLEB128_ULEB128:
  "ReadUnsignedLEB128 (pre @ ULEB128 u @ rest) (length pre) = Some (u, length (ULEB128 u))"
proof -
  have "unat u < 2 ^ (64 - 0)" using unsigned_less [of u] by simp
  from uleb_loop [OF _ this, of rest 0 0]
  show "ReadUnsignedLEB128 (pre @ ULEB128 u @ rest) (length pre) = Some (u, length (ULEB128 u))"
    by (simp add: ReadUnsignedLEB128_def)
qed

lemma ReadSignedLEB128_LEB128:
  "ReadSignedLEB128 (pre @ LEB128 v @ rest) (length pre) =
     (if - (2 ^ 62) \<le> sint v \<and> sint v < - (2 ^ 55) then None else Some (v, length (LEB128 v)))"
proof -
  let ?n = "length (LEB128 v)"
  have range: "- (2 ^ 63) \<le> sint v" "sint v < 2 ^ 63"
    using sint_ge [of v] sint_lt [of v] by simp_all
  have ten: "?n \<le> 10" using range by (simp add: length_LEB128)
  have nine: "?n = 9 \<and> sint v < 0 \<longleftrightarrow> - (2 ^ 62) \<le> sint v \<and> sint v < - (2 ^ 55)"
    using length_LEB128 [of 9 v] length_LEB128 [of 8 v] by auto
  have n: "?n \<noteq> 0" by simp
  have "leb128_loop (LEB128 v @ rest) 0 0 0 = Some (take_bit (7 * ?n) v, 7 * ?n, last (LEB128 v), ?n)"
    using leb_loop [of 0 v rest 0 0] ten by simp
  moreover have "take_bit (7 * ?n) v OR - push_bit (7 * ?n) 1 = v" if "7 * ?n < 64" "sint v < 0"
    using sign_extend [OF _ that(2) n that(1)] length_LEB128 [OF n, of v] by simp
  moreover have "take_bit (7 * ?n) v = v" if "\<not> (7 * ?n < 64 \<and> sint v < 0)"
  proof (cases "7 * ?n < 64")
    case True
    have "sint v < 2 ^ (7 * ?n - 1)" using length_LEB128 [OF n, of v] by simp
    also have "(2 :: int) ^ (7 * ?n - 1) \<le> 2 ^ (7 * ?n)" by (intro power_increasing) auto
    finally show ?thesis using that True by (intro no_bits_above) auto
  next
    case False
    then show ?thesis by (intro bit_word_eqI) (auto simp: bit_take_bit_iff)
  qed
  ultimately show "ReadSignedLEB128 (pre @ LEB128 v @ rest) (length pre) =
     (if - (2 ^ 62) \<le> sint v \<and> sint v < - (2 ^ 55) then None else Some (v, length (LEB128 v)))"
    unfolding ReadSignedLEB128_def nine [symmetric] by (auto simp: last_LEB128 check_def)
qed

text \<open>
  C37: what the LEB128 writers append is read back: every unsigned number, and every signed number but
  those below \<open>-2^55\<close> that fit into nine bytes. Those are sign-extended by the negation of the
  least \<open>int64_t\<close>, which is undefined.
\<close>

theorem LEB128_roundtrip:
  "ReadUnsignedLEB128 (pre @ ULEB128 u @ rest) (length pre) = Some (u, length (ULEB128 u)) \<and>
   ReadSignedLEB128 (pre @ LEB128 v @ rest) (length pre) =
     (if - (2 ^ 62) \<le> sint v \<and> sint v < - (2 ^ 55) then None else Some (v, length (LEB128 v)))"
  by (simp only: ReadUnsignedLEB128_ULEB128 ReadSignedLEB128_LEB128 simp_thms)

section \<open>Encoded pointers\<close>

lemma low_nibble_cases:
  fixes e :: u8
  assumes "e AND 0x7 \<le> 0x04"
  shows "e AND 0x0f \<in> {0, 1, 2, 3, 4, 8, 9, 0x0a, 0x0b, 0x0c}"
proof -
  have "\<forall>e \<in> set (map word_of_nat [0..<256] :: u8 list). e AND 0x7 \<le> 0x04 \<longrightarrow>
      e AND 0x0f \<in> {0, 1, 2, 3, 4, 8, 9, 0x0a, 0x0b, 0x0c}"
    by code_simp
  moreover have "e \<in> set (map word_of_nat [0..<256])"
    using unsigned_less [of e] by (auto simp: image_iff intro!: bexI [of _ "unat e"])
  ultimately show ?thesis using assms by blast
qed

lemma zeros_read:
  assumes "address_reader r \<noteq> None"
  shows "ReadOneByte (replicate (p + 8) 0) p \<noteq> None"
    "ReadTwoBytes r (replicate (p + 8) 0) p \<noteq> None"
    "ReadFourBytes r (replicate (p + 8) 0) p \<noteq> None"
    "ReadEightBytes r (replicate (p + 8) 0) p \<noteq> None"
    "ReadAddress r (replicate (p + 8) 0) p \<noteq> None"
    "ReadUnsignedLEB128 (replicate (p + 8) 0) p \<noteq> None"
    "ReadSignedLEB128 (replicate (p + 8) 0) p \<noteq> None"
proof -
  have z: "ReadOneByte (replicate (p + 8) 0) (p + k) = Some 0" if "k < 8" for k
    using that by (simp add: ReadOneByte_def)
  show "ReadOneByte (replicate (p + 8) 0) p \<noteq> None" "ReadTwoBytes r (replicate (p + 8) 0) p \<noteq> None"
    and four: "ReadFourBytes r (replicate (p + 8) 0) p \<noteq> None"
    and eight: "ReadEightBytes r (replicate (p + 8) 0) p \<noteq> None"
    using z [of 0] z [of 1] z [of 2] by (simp_all add: ReadTwoBytes_def ReadFourBytes_def ReadEightBytes_def z)
  show "ReadAddress r (replicate (p + 8) 0) p \<noteq> None"
    using assms four eight by (auto simp: ReadAddress_def read_with_def split: AddressReader.splits)
  have "drop p (replicate (p + 8) 0) = (0 :: byte) # replicate 7 0"
    by (simp flip: replicate_Suc)
  then have "leb128_loop (drop p (replicate (p + 8) 0)) 0 0 0 = Some (0, 7, 0, 1)" by simp
  then show "ReadUnsignedLEB128 (replicate (p + 8) 0) p \<noteq> None" "ReadSignedLEB128 (replicate (p + 8) 0) p \<noteq> None"
    by (simp_all add: ReadUnsignedLEB128_def ReadSignedLEB128_def)
qed

text \<open>
  C38: \<open>ValidEncoding\<close> and \<open>UsableEncoding\<close> do not keep \<open>ReadEncodedPointer\<close> from aborting. A reader with an
  address size that is asked for a pointer of an encoding both functions accept can read one exactly
  if the low nybble is not 8 (signed, of the size of an address): then it aborts on every memory.
\<close>

theorem ReadEncodedPointer_accepted:
  assumes "ValidEncoding encoding" and "UsableEncoding r encoding"
    and "SetAddressSize sz r' = Some r"
  shows "(\<forall>buf. ReadEncodedPointer r buf p encoding = None) \<longleftrightarrow> encoding AND 0x0f = 8"
proof
  assume "encoding AND 0x0f = 8"
  moreover from this have "encoding \<noteq> 0xff" "encoding \<noteq> 0x50" by auto
  ultimately show "\<forall>buf. ReadEncodedPointer r buf p encoding = None"
    by (simp add: ReadEncodedPointer_def check_def encoded_offset_def)
next
  have r: "address_reader r \<noteq> None" "address_size r = 4 \<or> address_size r = 8"
    using assms(3) by (auto simp: SetAddressSize_def check_def split: if_splits bind_splits)
  have e: "encoding \<noteq> 0xff" "encoding \<noteq> 0x50" "encoding AND 0x7 \<le> 0x04"
    using assms(1,2) by (auto simp: ValidEncoding_def UsableEncoding_def Let_def split: if_splits)
  have "encoded_base r p encoding \<noteq> None"
    using assms(2) by (auto simp: UsableEncoding_def encoded_base_def Let_def split: if_splits)
  moreover have "encoded_offset r (replicate (p + 8) 0) p encoding \<noteq> None" if "encoding AND 0x0f \<noteq> 8"
    using low_nibble_cases [OF e(3)] that zeros_read [OF r(1), of p]
    by (auto simp: encoded_offset_def)
  ultimately have "ReadEncodedPointer r (replicate (p + 8) 0) p encoding \<noteq> None" if "encoding AND 0x0f \<noteq> 8"
    using that r(2) e(1,2) by (auto simp: ReadEncodedPointer_def check_def)
  then show "encoding AND 0x0f = 8" if "\<forall>buf. ReadEncodedPointer r buf p encoding = None"
    using that by metis
qed

theorem ReadEncodedPointer_accepted_witness:
  "ValidEncoding 0x08 \<and> (\<forall>buf. ReadEncodedPointer (the (SetAddressSize 8 (ByteReader_new ENDIANNESS_LITTLE))) buf 0 0x08 = None)"
proof -
  have "ValidEncoding 0x08" by (simp add: ValidEncoding_def)
  moreover have "SetAddressSize 8 (ByteReader_new ENDIANNESS_LITTLE) =
      Some (the (SetAddressSize 8 (ByteReader_new ENDIANNESS_LITTLE)))"
    by (simp add: SetAddressSize_def check_def)
  ultimately show ?thesis
    using ReadEncodedPointer_accepted [of "0x08" "the (SetAddressSize 8 (ByteReader_new ENDIANNESS_LITTLE))" 8 "ByteReader_new ENDIANNESS_LITTLE" 0]
    by (simp add: UsableEncoding_def)
qed

section \<open>Fixed-size numbers\<close>

definition byte_of :: "'a::len word \<Rightarrow> nat \<Rightarrow> byte" where
  "byte_of w k = word_of_nat (unat w div 256 ^ k)"

lemma bit_byte_of: "bit (byte_of w k) n \<longleftrightarrow> n < 8 \<and> bit w (n + 8 * k)"
proof -
  have "unat w div 256 ^ k = drop_bit (8 * k) (unat w)"
    by (simp add: drop_bit_eq_div power_mult)
  moreover have "possible_bit TYPE(byte) n \<longleftrightarrow> n < 8" by simp
  ultimately show ?thesis
    unfolding byte_of_def bit_of_nat_iff by (simp add: bit_drop_bit_eq bit_unsigned_iff add.commute)
qed

lemma nat_le_map: "nat_le n m = map (\<lambda>k. word_of_nat (m div 256 ^ k)) [0..<n]"
proof (induction n arbitrary: m)
  case (Suc n)
  have "[0..<Suc n] = 0 # map Suc [0..<n]" by (simp add: map_Suc_upt upt_conv_Cons del: upt_Suc)
  then show ?case by (simp add: Suc div_mult2_eq [symmetric] o_def del: upt_Suc)
qed simp

lemma put_bytes: "put_u32 w = map (byte_of w) [0..<4]" "put_u64 v = map (byte_of v) [0..<8]"
  by (simp_all add: put_u32_def put_u64_def nat_le_map byte_of_def [abs_def] del: upt_Suc)

lemma or_bytes_u32:
  fixes w :: u32
  shows "ucast (byte_of w 0) OR push_bit 8 (ucast (byte_of w 1)) OR push_bit 16 (ucast (byte_of w 2)) OR
    push_bit 24 (ucast (byte_of w 3)) = w" (is "?x = w")
proof (rule bit_word_eqI)
  fix i assume i: "i < LENGTH(32)"
  then consider "i < 8" | "8 \<le> i" "i < 16" | "16 \<le> i" "i < 24" | "24 \<le> i" "i < 32" by fastforce
  then show "bit ?x i = bit w i"
    by cases (simp_all add: bit_or_iff bit_push_bit_iff bit_word_ucast_iff bit_byte_of less_diff_conv2)
qed

lemma or_bytes_u64:
  fixes w :: u64
  shows "ucast (byte_of w 0) OR push_bit 8 (ucast (byte_of w 1)) OR push_bit 16 (ucast (byte_of w 2)) OR
    push_bit 24 (ucast (byte_of w 3)) OR push_bit 32 (ucast (byte_of w 4)) OR push_bit 40 (ucast (byte_of w 5)) OR
    push_bit 48 (ucast (byte_of w 6)) OR push_bit 56 (ucast (byte_of w 7)) = w" (is "?x = w")
proof (rule bit_word_eqI)
  fix i assume i: "i < LENGTH(64)"
  then consider "i < 8" | "8 \<le> i" "i < 16" | "16 \<le> i" "i < 24" | "24 \<le> i" "i < 32" |
    "32 \<le> i" "i < 40" | "40 \<le> i" "i < 48" | "48 \<le> i" "i < 56" | "56 \<le> i" "i < 64" by fastforce
  then show "bit ?x i = bit w i"
    by cases (simp_all add: bit_or_iff bit_push_bit_iff bit_word_ucast_iff bit_byte_of less_diff_conv2)
qed

lemma ReadOneByte_append: "k < length bs \<Longrightarrow> ReadOneByte (pre @ bs @ rest) (length pre + k) = Some (bs ! k)"
  by (simp add: ReadOneByte_def nth_append)

lemma ReadFourBytes_put:
  assumes "endian r = ENDIANNESS_LITTLE"
  shows "ReadFourBytes r (pre @ put_u32 w @ rest) (length pre) = Some (ucast w)"
proof -
  have "ReadOneByte (pre @ put_u32 w @ rest) (length pre + k) = Some (byte_of w k)" if "k < 4" for k
    using that by (subst ReadOneByte_append) (simp_all add: put_bytes)
  from this [of 0] this [of 1] this [of 2] this [of 3] show ?thesis
    using assms or_bytes_u32 [of w] by (simp add: ReadFourBytes_def)
qed

lemma ReadEightBytes_put:
  assumes "endian r = ENDIANNESS_LITTLE"
  shows "ReadEightBytes r (pre @ put_u64 w @ rest) (length pre) = Some w"
proof -
  have "ReadOneByte (pre @ put_u64 w @ rest) (length pre + k) = Some (byte_of w k)" if "k < 8" for k
    using that by (subst ReadOneByte_append) (simp_all add: put_bytes)
  from this [of 0] this [of 1] this [of 2] this [of 3] this [of 4] this [of 5] this [of 6] this [of 7] show ?thesis
    using assms or_bytes_u64 [of w] by (simp add: ReadEightBytes_def)
qed

section \<open>Entries of 32-bit DWARF\<close>

text \<open>
  Call frame entries and line number programs begin with their length. \<open>plain_reader\<close> is a reader
  for a little-endian machine with 8-byte addresses, \<open>reader_in\<close> the reader once it has seen the
  length of a 32-bit entry.
\<close>

definition entry_bytes :: "byte list \<Rightarrow> byte list" where
  "entry_bytes body = put_u32 (of_nat (length body)) @ body"

definition body_ok :: "byte list \<Rightarrow> bool" where
  "body_ok body \<longleftrightarrow> length body < 0xffffffff"

definition reader_in :: "ByteReader \<Rightarrow> ByteReader" where
  "reader_in r = r\<lparr>offset_size := 4, offset_reader := Some FourBytes\<rparr>"

definition plain_reader :: "ByteReader \<Rightarrow> bool" where
  "plain_reader r \<longleftrightarrow> endian r = ENDIANNESS_LITTLE \<and> address_size r = 8 \<and> address_reader r = Some EightBytes"

lemma plain_reader_in [simp]: "plain_reader (reader_in r) = plain_reader r"
  and plain_reader_base [simp]: "plain_reader (SetFunctionBase b r) = plain_reader r"
    "plain_reader (ClearFunctionBase r) = plain_reader r"
  by (simp_all add: plain_reader_def reader_in_def SetFunctionBase_def ClearFunctionBase_def)

lemma unat_small: "n < 2 ^ 64 \<Longrightarrow> unat (of_nat n :: u64) = n"
  by (simp add: unsigned_of_nat take_bit_nat_eq_self)

lemma read_body_length:
  assumes "plain_reader r" and "body_ok body"
  shows "ReadInitialLength r (pre @ entry_bytes body @ rest) (length pre) =
    Some (of_nat (length body), 4, reader_in r)"
proof -
  have n: "length body < 0xffffffff" using assms(2) by (simp add: body_ok_def)
  then have "(ucast (of_nat (length body) :: u32) :: u64) = of_nat (length body)"
    by (simp add: unsigned_of_nat take_bit_nat_eq_self)
  moreover have "unat (of_nat (length body) :: u64) = length body"
    using n by (simp add: unsigned_of_nat take_bit_nat_eq_self)
  then have "(of_nat (length body) :: u64) \<noteq> 0xffffffff" using n by auto
  ultimately show ?thesis
    using assms(1) ReadFourBytes_put [of r pre "of_nat (length body)" "body @ rest"]
    by (simp add: ReadInitialLength_def entry_bytes_def plain_reader_def SetOffsetSize_def check_def reader_in_def)
qed

lemma ReadOffset_in:
  assumes "plain_reader r"
  shows "ReadOffset (reader_in r) (pre @ put_u32 i @ rest) (length pre) = Some (ucast i)"
  using assms ReadFourBytes_put [of "reader_in r" pre i rest]
  by (simp add: ReadOffset_def read_with_def reader_in_def plain_reader_def)

end
