(* ===== verification/Call_Frame_Interpreter.thy ===== *)
theory Call_Frame_Interpreter
  imports Byte_Reader Std_Map
begin

text \<open>
  The interpreter of DWARF call frame instructions: \<open>CallFrameInfo::Rule\<close> and its subclasses,
  \<open>RuleMap\<close> and \<open>State\<close> of src/crash/src/main/cpp/breakpad/src/common/dwarf/dwarf2reader.cc. The
  instructions of a common information entry and then of a frame description entry change a table
  of rules; every change is told to a handler at the address it takes effect.

  The virtual functions of \<open>CallFrameInfo::Handler\<close> and \<open>Reporter\<close> are the constructors of
  \<open>HandlerCall\<close> and \<open>ReporterCall\<close>. A handler is a function from a call and the handler's state to
  the returned flag and the new state; the reports are collected in a list. The seven \<open>*Rule\<close>
  functions are one constructor, as \<open>Rule::Handle\<close> calls the one that belongs to the rule. An
  \<open>int\<close> and a \<open>long\<close> are integers in the range of their 32 and 64 bits. \<^const>\<open>None\<close> means what it
  means for \<open>ByteReader\<close>, and also that an operand is used that the instruction did not set.
\<close>

section \<open>Rules\<close>

datatype Rule =
    UndefinedRule
  | SameValueRule
  | OffsetRule int int
  | ValOffsetRule int int
  | RegisterRule int
  | ExpressionRule string
  | ValExpressionRule string

abbreviation kCFARegister :: int where "kCFARegister \<equiv> - 1"

fun SetBaseRegister :: "u32 \<Rightarrow> Rule \<Rightarrow> Rule" where
  "SetBaseRegister reg (ValOffsetRule b offset) = ValOffsetRule (sint reg) offset"
| "SetBaseRegister reg rule = rule"

fun SetOffset :: "int \<Rightarrow> Rule \<Rightarrow> Rule" where
  "SetOffset offset (ValOffsetRule b old) = ValOffsetRule b offset"
| "SetOffset offset rule = rule"

datatype HandlerCall =
    Entry_call nat u64 u64 u8 string u32
  | Rule_call Rule u64 int
  | PersonalityRoutine u64 bool
  | LanguageSpecificDataArea u64 bool
  | SignalHandler
  | End_call

type_synonym 'h Handler = "HandlerCall \<Rightarrow> 'h \<Rightarrow> (bool \<times> 'h) option"

definition Rule_Handle :: "'h Handler \<Rightarrow> u64 \<Rightarrow> int \<Rightarrow> Rule \<Rightarrow> 'h \<Rightarrow> (bool \<times> 'h) option" where
  "Rule_Handle hnd addr reg rule h = hnd (Rule_call rule addr reg) h"

record Rules =
  cfa_rule :: "Rule option"
  registers :: "(int, Rule) std_map"

definition Rules_empty :: Rules where
  "Rules_empty = \<lparr>cfa_rule = None, registers = []\<rparr>"

definition find_register_rule :: "Rules \<Rightarrow> int \<Rightarrow> Rule option option" where
  "find_register_rule m reg = do { check (reg \<noteq> kCFARegister); Some (std_find (registers m) reg) }"

definition set_register_rule :: "int \<Rightarrow> Rule \<Rightarrow> Rules \<Rightarrow> Rules option" where
  "set_register_rule reg rule m = do {
     check (reg \<noteq> kCFARegister);
     Some (m\<lparr>registers := std_assign reg rule (registers m)\<rparr>)}"

text \<open>The two loops over the registers of the old and of the new table.\<close>

fun transition_registers ::
  "'h Handler \<Rightarrow> u64 \<Rightarrow> (int, Rule) std_map \<Rightarrow> (int, Rule) std_map \<Rightarrow> 'h \<Rightarrow> (bool \<times> 'h) option"
where
  "transition_registers hnd addr [] [] h = Some (True, h)"
| "transition_registers hnd addr [] (new # news) h = None"
| "transition_registers hnd addr ((reg, old) # olds) [] h = do {
     (ok, h) \<leftarrow> Rule_Handle hnd addr reg SameValueRule h;
     (if \<not> ok then Some (False, h) else transition_registers hnd addr olds [] h)}"
| "transition_registers hnd addr ((reg, old) # olds) ((reg', new) # news) h =
     (if reg < reg' then do {
        (ok, h) \<leftarrow> Rule_Handle hnd addr reg SameValueRule h;
        (if \<not> ok then Some (False, h) else transition_registers hnd addr olds ((reg', new) # news) h)}
      else if reg > reg' then None
      else if old \<noteq> new then do {
        (ok, h) \<leftarrow> Rule_Handle hnd addr reg' new h;
        (if \<not> ok then Some (False, h) else transition_registers hnd addr olds news h)}
      else transition_registers hnd addr olds news h)"

definition transition_cfa :: "'h Handler \<Rightarrow> u64 \<Rightarrow> Rule option \<Rightarrow> Rule option \<Rightarrow> 'h \<Rightarrow> (bool \<times> 'h) option" where
  "transition_cfa hnd addr old new h =
     (case (old, new) of
        (Some a, Some n) \<Rightarrow> if a \<noteq> n then Rule_Handle hnd addr kCFARegister n h else Some (True, h)
      | (Some a, None) \<Rightarrow> Some (True, h)
      | (None, Some n) \<Rightarrow> None
      | (None, None) \<Rightarrow> Some (True, h))"

definition HandleTransitionTo :: "'h Handler \<Rightarrow> u64 \<Rightarrow> Rules \<Rightarrow> Rules \<Rightarrow> 'h \<Rightarrow> (bool \<times> 'h) option" where
  "HandleTransitionTo hnd addr old new h = do {
     (ok, h) \<leftarrow> transition_cfa hnd addr (cfa_rule old) (cfa_rule new) h;
     (if \<not> ok then Some (False, h)
      else transition_registers hnd addr (registers old) (registers new) h)}"

section \<open>The interpreter's state\<close>

datatype EntryKind = kUnknown | kCIE | kFDE | kTerminator

datatype ReporterCall =
    Incomplete nat EntryKind
  | EarlyEHTerminator nat
  | CIEPointerOutOfRange nat u64
  | BadCIEId nat u64
  | UnexpectedAddressSize nat u8
  | UnexpectedSegmentSize nat u8
  | UnrecognizedVersion nat u8
  | UnrecognizedAugmentation nat string
  | InvalidPointerEncoding nat u8
  | UnusablePointerEncoding nat u8
  | RestoreInCIE nat nat
  | BadInstruction nat EntryKind nat
  | NoCFARule nat EntryKind nat
  | EmptyStateStack nat EntryKind nat
  | ClearingCFARule nat EntryKind nat

record Entry =
  e_offset :: nat
  e_kind :: EntryKind
  e_fields :: nat
  e_instructions :: nat
  e_end :: nat
  e_id :: u64

record CIE = Entry +
  version :: u8
  augmentation :: string
  code_alignment_factor :: u64
  data_alignment_factor :: int
  return_address_register :: u32
  has_z_augmentation :: bool
  has_z_lsda :: bool
  has_z_personality :: bool
  has_z_signal_frame :: bool
  lsda_encoding :: DwarfPointerEncoding
  personality_encoding :: DwarfPointerEncoding
  personality_address :: u64
  pointer_encoding :: DwarfPointerEncoding
  cie_address_size :: u8
  segment_size :: u8

record FDE = Entry +
  fde_address :: u64
  fde_size :: u64
  lsda_address :: u64

record 'h State =
  address :: u64
  cursor :: nat
  rules :: Rules
  cie_rules :: Rules
  saved_rules :: "Rules list"
  handler :: 'h
  reports :: "ReporterCall list"

text \<open>What stays the same while the instructions of one entry are interpreted.\<close>

record 'h Interp =
  i_reader :: ByteReader
  i_buffer :: "byte list"
  i_handler :: "'h Handler"
  i_entry :: Entry
  i_cie :: CIE

abbreviation "offset_of cx \<equiv> e_offset (i_entry cx)"
abbreviation "kind_of cx \<equiv> e_kind (i_entry cx)"

definition State_new :: "'h \<Rightarrow> ReporterCall list \<Rightarrow> u64 \<Rightarrow> 'h State" where
  "State_new h reps addr =
     \<lparr>address = addr, cursor = 0, rules = Rules_empty, cie_rules = Rules_empty, saved_rules = [],
      handler = h, reports = reps\<rparr>"

definition report :: "ReporterCall \<Rightarrow> 'h State \<Rightarrow> (bool \<times> 'h State) option" where
  "report r st = Some (False, st\<lparr>reports := reports st @ [r]\<rparr>)"

text \<open>
  \<open>CursorOffset\<close> is \<open>entry_->offset + (cursor_ - entry_->start)\<close>; an entry starts at its offset in the
  section, so this is the cursor's own position.
\<close>

definition CursorOffset :: "'h Interp \<Rightarrow> 'h State \<Rightarrow> nat" where
  "CursorOffset cx st = offset_of cx + (cursor st - offset_of cx)"

text \<open>The difference of two pointers as a \<open>size_t\<close>.\<close>

definition bytes_from :: "nat \<Rightarrow> nat \<Rightarrow> nat" where
  "bytes_from p q = unat (of_nat q - of_nat p :: u64)"

record Operands =
  register_number :: "u32 option"
  op_offset :: "u64 option"
  signed_offset :: "u64 option"
  expression :: "string option"

definition no_operands :: Operands where
  "no_operands = \<lparr>register_number = None, op_offset = None, signed_offset = None, expression = None\<rparr>"

definition bytes_string :: "byte list \<Rightarrow> string" where
  "bytes_string bs = map (\<lambda>b. char_of (unat b)) bs"

text \<open>One operand: the case of \<open>ParseOperands\<close> for its format character.\<close>

definition ReportIncomplete_operand :: "'h Interp \<Rightarrow> Operands \<Rightarrow> 'h State \<Rightarrow> (bool \<times> Operands \<times> 'h State) option" where
  "ReportIncomplete_operand cx ops st =
     Some (False, ops, st\<lparr>reports := reports st @ [Incomplete (offset_of cx) (kind_of cx)]\<rparr>)"

definition parse_operand :: "'h Interp \<Rightarrow> char \<Rightarrow> Operands \<Rightarrow> 'h State \<Rightarrow> (bool \<times> Operands \<times> 'h State) option" where
  "parse_operand cx c ops st =
     (let r = i_reader cx; buf = i_buffer cx; p = cursor st; bytes_left = bytes_from p (e_end (i_entry cx));
          next = (\<lambda>ops len. Some (True, ops, st\<lparr>cursor := p + len\<rparr>));
          fixed = (\<lambda>n v. if n > bytes_left then ReportIncomplete_operand cx ops st
                         else do { x \<leftarrow> v; next (ops\<lparr>op_offset := Some x\<rparr>) n })
      in if c = CHR ''r'' then do {
           (v, len) \<leftarrow> ReadUnsignedLEB128 buf p;
           (if len > bytes_left then ReportIncomplete_operand cx (ops\<lparr>register_number := Some (ucast v)\<rparr>) st
            else next (ops\<lparr>register_number := Some (ucast v)\<rparr>) len)}
         else if c = CHR ''o'' then do {
           (v, len) \<leftarrow> ReadUnsignedLEB128 buf p;
           (if len > bytes_left then ReportIncomplete_operand cx (ops\<lparr>op_offset := Some v\<rparr>) st
            else next (ops\<lparr>op_offset := Some v\<rparr>) len)}
         else if c = CHR ''s'' then do {
           (v, len) \<leftarrow> ReadSignedLEB128 buf p;
           (if len > bytes_left then ReportIncomplete_operand cx (ops\<lparr>signed_offset := Some v\<rparr>) st
            else next (ops\<lparr>signed_offset := Some v\<rparr>) len)}
         else if c = CHR ''a'' then do {
           (v, len) \<leftarrow> ReadEncodedPointer r buf p (pointer_encoding (i_cie cx));
           (if len > bytes_left then ReportIncomplete_operand cx (ops\<lparr>op_offset := Some v\<rparr>) st
            else next (ops\<lparr>op_offset := Some v\<rparr>) len)}
         else if c = CHR ''1'' then fixed 1 (map_option ucast (ReadOneByte buf p))
         else if c = CHR ''2'' then fixed 2 (map_option ucast (ReadTwoBytes r buf p))
         else if c = CHR ''4'' then fixed 4 (ReadFourBytes r buf p)
         else if c = CHR ''8'' then fixed 8 (ReadEightBytes r buf p)
         else if c = CHR ''e'' then do {
           (expression_length, len) \<leftarrow> ReadUnsignedLEB128 buf p;
           (if len > bytes_left \<or> unat expression_length > bytes_left - len
            then ReportIncomplete_operand cx ops st
            else do {
              check (p + len + unat expression_length \<le> length buf);
              next (ops\<lparr>expression := Some (bytes_string (take (unat expression_length) (drop (p + len) buf)))\<rparr>)
                (len + unat expression_length)})}
         else None)"

fun ParseOperands :: "'h Interp \<Rightarrow> string \<Rightarrow> Operands \<Rightarrow> 'h State \<Rightarrow> (bool \<times> Operands \<times> 'h State) option" where
  "ParseOperands cx [] ops st = Some (True, ops, st)"
| "ParseOperands cx (c # format) ops st = do {
     (ok, ops, st) \<leftarrow> parse_operand cx c ops st;
     (if ok then ParseOperands cx format ops st else Some (False, ops, st))}"

section \<open>Instructions\<close>

definition handle :: "'h Interp \<Rightarrow> int \<Rightarrow> Rule \<Rightarrow> 'h State \<Rightarrow> (bool \<times> 'h State) option" where
  "handle cx reg rule st = do {
     (ok, h) \<leftarrow> Rule_Handle (i_handler cx) (address st) reg rule (handler st);
     Some (ok, st\<lparr>handler := h\<rparr>)}"

definition set_cfa :: "'h Interp \<Rightarrow> Rule \<Rightarrow> 'h State \<Rightarrow> (bool \<times> 'h State) option" where
  "set_cfa cx rule st = handle cx kCFARegister rule (st\<lparr>rules := rules st\<lparr>cfa_rule := Some rule\<rparr>\<rparr>)"

definition DoDefCFA :: "'h Interp \<Rightarrow> u32 \<Rightarrow> int \<Rightarrow> 'h State \<Rightarrow> (bool \<times> 'h State) option" where
  "DoDefCFA cx base_register offset st = set_cfa cx (ValOffsetRule (sint base_register) offset) st"

definition no_cfa_rule :: "'h Interp \<Rightarrow> 'h State \<Rightarrow> (bool \<times> 'h State) option" where
  "no_cfa_rule cx st = report (NoCFARule (offset_of cx) (kind_of cx) (CursorOffset cx st)) st"

definition DoDefCFAOffset :: "'h Interp \<Rightarrow> int \<Rightarrow> 'h State \<Rightarrow> (bool \<times> 'h State) option" where
  "DoDefCFAOffset cx offset st =
     (case cfa_rule (rules st) of
        None \<Rightarrow> no_cfa_rule cx st
      | Some rule \<Rightarrow> set_cfa cx (SetOffset offset rule) st)"

definition DoRule :: "'h Interp \<Rightarrow> u32 \<Rightarrow> Rule \<Rightarrow> 'h State \<Rightarrow> (bool \<times> 'h State) option" where
  "DoRule cx reg rule st = do {
     rs \<leftarrow> set_register_rule (sint reg) rule (rules st);
     handle cx (sint reg) rule (st\<lparr>rules := rs\<rparr>)}"

definition DoOffset :: "'h Interp \<Rightarrow> u32 \<Rightarrow> int \<Rightarrow> 'h State \<Rightarrow> (bool \<times> 'h State) option" where
  "DoOffset cx reg offset st =
     (if cfa_rule (rules st) = None then no_cfa_rule cx st
      else DoRule cx reg (OffsetRule kCFARegister offset) st)"

definition DoValOffset :: "'h Interp \<Rightarrow> u32 \<Rightarrow> int \<Rightarrow> 'h State \<Rightarrow> (bool \<times> 'h State) option" where
  "DoValOffset cx reg offset st =
     (if cfa_rule (rules st) = None then no_cfa_rule cx st
      else DoRule cx reg (ValOffsetRule kCFARegister offset) st)"

definition DoRestore :: "'h Interp \<Rightarrow> u32 \<Rightarrow> 'h State \<Rightarrow> (bool \<times> 'h State) option" where
  "DoRestore cx reg st =
     (if kind_of cx = kCIE then report (RestoreInCIE (offset_of cx) (CursorOffset cx st)) st
      else do {
        found \<leftarrow> find_register_rule (cie_rules st) (sint reg);
        DoRule cx reg (case found of None \<Rightarrow> SameValueRule | Some rule \<Rightarrow> rule) st})"

fun DoRules :: "'h Interp \<Rightarrow> (u32 \<times> Rule) list \<Rightarrow> 'h State \<Rightarrow> (bool \<times> 'h State) option" where
  "DoRules cx [] st = Some (True, st)"
| "DoRules cx ((reg, rule) # rest) st = do {
     (ok, st) \<leftarrow> DoRule cx reg rule st;
     (if ok then DoRules cx rest st else Some (False, st))}"

definition window_save_rules :: "u8 \<Rightarrow> (u32 \<times> Rule) list" where
  "window_save_rules size_of_address =
     map (\<lambda>i. (of_nat i, RegisterRule (int i + 16))) [8..<16] @
     map (\<lambda>i. (of_nat i, OffsetRule kCFARegister ((int i - 16) * uint size_of_address))) [16..<32]"

definition DoRestoreState :: "'h Interp \<Rightarrow> 'h State \<Rightarrow> (bool \<times> 'h State) option" where
  "DoRestoreState cx st =
     (case saved_rules st of
        [] \<Rightarrow> report (EmptyStateStack (offset_of cx) (kind_of cx) (CursorOffset cx st)) st
      | new_rules # saved \<Rightarrow>
          if cfa_rule (rules st) \<noteq> None \<and> cfa_rule new_rules = None
          then report (ClearingCFARule (offset_of cx) (kind_of cx) (CursorOffset cx st)) st
          else do {
            (ok, h) \<leftarrow> HandleTransitionTo (i_handler cx) (address st) (rules st) new_rules (handler st);
            Some (True, st\<lparr>handler := h, rules := new_rules, saved_rules := saved\<rparr>)})"

definition DoDefCFARegister :: "'h Interp \<Rightarrow> Operands \<Rightarrow> u32 \<Rightarrow> 'h State \<Rightarrow> (bool \<times> 'h State) option" where
  "DoDefCFARegister cx ops reg st =
     (case cfa_rule (rules st) of
        None \<Rightarrow> do {
          off \<leftarrow> op_offset ops;
          (ok, st) \<leftarrow> DoDefCFA cx reg (sint off) st;
          (if ok then Some (True, st) else no_cfa_rule cx st)}
      | Some rule \<Rightarrow> set_cfa cx (SetBaseRegister reg rule) st)"

definition advance :: "'h Interp \<Rightarrow> u64 \<Rightarrow> 'h State \<Rightarrow> (bool \<times> 'h State) option" where
  "advance cx delta st = Some (True, st\<lparr>address := address st + delta * code_alignment_factor (i_cie cx)\<rparr>)"

text \<open>
  The products with the data alignment factor: an unsigned one wraps and is then converted to a
  \<open>long\<close>, a signed one must not overflow.
\<close>

definition scaled :: "'h Interp \<Rightarrow> u64 \<Rightarrow> int" where
  "scaled cx off = sint (off * word_of_int (data_alignment_factor (i_cie cx)))"

definition scaled_signed :: "'h Interp \<Rightarrow> u64 \<Rightarrow> int option" where
  "scaled_signed cx off = (let p = sint off * data_alignment_factor (i_cie cx)
     in if - (2 ^ 63) \<le> p \<and> p < 2 ^ 63 then Some p else None)"

definition with_operands ::
  "'h Interp \<Rightarrow> string \<Rightarrow> (Operands \<Rightarrow> 'h State \<Rightarrow> (bool \<times> 'h State) option) \<Rightarrow> 'h State \<Rightarrow> (bool \<times> 'h State) option"
where
  "with_operands cx format f st = do {
     (ok, ops, st) \<leftarrow> ParseOperands cx format no_operands st;
     (if ok then f ops st else Some (False, st))}"

definition with_reg where "with_reg f ops st = do { reg \<leftarrow> register_number ops; f reg st }"
definition with_off where "with_off f ops st = do { off \<leftarrow> op_offset ops; f off st }"
definition with_expr where "with_expr f ops st = do { e \<leftarrow> expression ops; f e st }"
definition with_signed where
  "with_signed cx f ops st = do { s \<leftarrow> signed_offset ops; off \<leftarrow> scaled_signed cx s; f off st }"

text \<open>The opcodes with an operand in their low six bits.\<close>

definition DoPrimary :: "'h Interp \<Rightarrow> u8 \<Rightarrow> 'h State \<Rightarrow> (bool \<times> 'h State) option" where
  "DoPrimary cx opcode st =
     (let low = opcode AND 0x3f
      in if opcode AND 0xc0 = 0x40 then advance cx (ucast low) st
         else if opcode AND 0xc0 = 0x80 then
           with_operands cx ''o'' (with_off (\<lambda>off. DoOffset cx (ucast low) (scaled cx off))) st
         else if opcode AND 0xc0 = 0xc0 then DoRestore cx (ucast low) st
         else None)"

definition DoAddress :: "'h Interp \<Rightarrow> u8 \<Rightarrow> 'h State \<Rightarrow> (bool \<times> 'h State) option" where
  "DoAddress cx opcode =
     (if opcode = 0x01 then with_operands cx ''a'' (with_off (\<lambda>off st. Some (True, st\<lparr>address := off\<rparr>)))
      else if opcode = 0x02 then with_operands cx ''1'' (with_off (advance cx))
      else if opcode = 0x03 then with_operands cx ''2'' (with_off (advance cx))
      else if opcode = 0x04 then with_operands cx ''4'' (with_off (advance cx))
      else with_operands cx ''8'' (with_off (advance cx)))"

definition DoCFA :: "'h Interp \<Rightarrow> u8 \<Rightarrow> 'h State \<Rightarrow> (bool \<times> 'h State) option" where
  "DoCFA cx opcode =
     (if opcode = 0x0c then
        with_operands cx ''ro'' (\<lambda>ops. with_reg (\<lambda>reg. with_off (\<lambda>off. DoDefCFA cx reg (sint off)) ops) ops)
      else if opcode = 0x12 then
        with_operands cx ''rs'' (\<lambda>ops. with_reg (\<lambda>reg. with_signed cx (DoDefCFA cx reg) ops) ops)
      else if opcode = 0x0d then
        with_operands cx ''r'' (\<lambda>ops. with_reg (DoDefCFARegister cx ops) ops)
      else if opcode = 0x0e then with_operands cx ''o'' (with_off (\<lambda>off. DoDefCFAOffset cx (sint off)))
      else if opcode = 0x13 then with_operands cx ''s'' (with_signed cx (DoDefCFAOffset cx))
      else with_operands cx ''e'' (with_expr (\<lambda>e. set_cfa cx (ValExpressionRule e))))"

definition DoRegister :: "'h Interp \<Rightarrow> u8 \<Rightarrow> 'h State \<Rightarrow> (bool \<times> 'h State) option" where
  "DoRegister cx opcode =
     (if opcode = 0x07 then with_operands cx ''r'' (with_reg (\<lambda>reg. DoRule cx reg UndefinedRule))
      else if opcode = 0x08 then with_operands cx ''r'' (with_reg (\<lambda>reg. DoRule cx reg SameValueRule))
      else if opcode = 0x05 then
        with_operands cx ''ro'' (\<lambda>ops. with_reg (\<lambda>reg. with_off (\<lambda>off. DoOffset cx reg (scaled cx off)) ops) ops)
      else if opcode = 0x11 then
        with_operands cx ''rs'' (\<lambda>ops. with_reg (\<lambda>reg. with_signed cx (DoOffset cx reg) ops) ops)
      else if opcode = 0x2f then
        with_operands cx ''ro'' (\<lambda>ops. with_reg (\<lambda>reg. with_off (\<lambda>off. DoOffset cx reg (scaled cx (- off))) ops) ops)
      else if opcode = 0x14 then
        with_operands cx ''ro'' (\<lambda>ops. with_reg (\<lambda>reg. with_off (\<lambda>off. DoValOffset cx reg (scaled cx off)) ops) ops)
      else if opcode = 0x15 then
        with_operands cx ''rs'' (\<lambda>ops. with_reg (\<lambda>reg. with_signed cx (DoValOffset cx reg) ops) ops)
      else if opcode = 0x09 then
        with_operands cx ''ro'' (\<lambda>ops. with_reg (\<lambda>reg.
          with_off (\<lambda>off. DoRule cx reg (RegisterRule (sint (ucast off :: u32)))) ops) ops)
      else if opcode = 0x10 then
        with_operands cx ''re'' (\<lambda>ops. with_reg (\<lambda>reg. with_expr (\<lambda>e. DoRule cx reg (ExpressionRule e)) ops) ops)
      else if opcode = 0x16 then
        with_operands cx ''re'' (\<lambda>ops. with_reg (\<lambda>reg. with_expr (\<lambda>e. DoRule cx reg (ValExpressionRule e)) ops) ops)
      else with_operands cx ''r'' (with_reg (DoRestore cx)))"

definition DoExtended :: "'h Interp \<Rightarrow> u8 \<Rightarrow> 'h State \<Rightarrow> (bool \<times> 'h State) option" where
  "DoExtended cx opcode st =
     (if opcode \<in> {0x01, 0x02, 0x03, 0x04, 0x1d} then DoAddress cx opcode st
      else if opcode \<in> {0x0c, 0x12, 0x0d, 0x0e, 0x13, 0x0f} then DoCFA cx opcode st
      else if opcode \<in> {0x07, 0x08, 0x05, 0x11, 0x2f, 0x14, 0x15, 0x09, 0x10, 0x16, 0x06} then DoRegister cx opcode st
      else if opcode = 0x0a then Some (True, st\<lparr>saved_rules := rules st # saved_rules st\<rparr>)
      else if opcode = 0x0b then DoRestoreState cx st
      else if opcode = 0x00 then Some (True, st)
      else if opcode = 0x2d then DoRules cx (window_save_rules (address_size (i_reader cx))) st
      else if opcode = 0x2e then with_operands cx ''o'' (\<lambda>ops st. Some (True, st)) st
      else report (BadInstruction (offset_of cx) (kind_of cx) (CursorOffset cx st)) st)"

definition DoInstruction :: "'h Interp \<Rightarrow> 'h State \<Rightarrow> (bool \<times> 'h State) option" where
  "DoInstruction cx st = do {
     check (kind_of cx \<noteq> kUnknown);
     check (cursor st < e_end (i_entry cx));
     opcode \<leftarrow> ReadOneByte (i_buffer cx) (cursor st);
     let st = st\<lparr>cursor := cursor st + 1\<rparr>;
     (if opcode AND 0xc0 \<noteq> 0 then DoPrimary cx opcode st else DoExtended cx opcode st)}"

section \<open>Invariants of the interpreter\<close>

text \<open>
  A property of the state that survives the five ways in which instructions change it: a new CFA
  rule, a new rule for a register, a saved table, a restored table, and a move of the address, the
  cursor or the reports.
\<close>

locale cfi_invariant =
  fixes cx :: "'h Interp"
    and P :: "'h State \<Rightarrow> bool"
  assumes moved: "P st \<Longrightarrow> cursor st \<le> n \<Longrightarrow> P (st\<lparr>cursor := n\<rparr>)"
    and reported: "P st \<Longrightarrow> P (st\<lparr>reports := reps\<rparr>)"
    and relocated: "P st \<Longrightarrow> P (st\<lparr>address := a\<rparr>)"
    and new_cfa: "P st \<Longrightarrow> set_cfa cx rule st = Some (ok, st') \<Longrightarrow> P st'"
    and new_rule: "P st \<Longrightarrow> DoRule cx reg rule st = Some (ok, st') \<Longrightarrow> P st'"
    and remembered: "P st \<Longrightarrow> P (st\<lparr>saved_rules := rules st # saved_rules st\<rparr>)"
    and restored: "P st \<Longrightarrow> saved_rules st = new_rules # saved \<Longrightarrow>
      cfa_rule (rules st) = None \<or> cfa_rule new_rules \<noteq> None \<Longrightarrow>
      HandleTransitionTo (i_handler cx) (address st) (rules st) new_rules (handler st) = Some (ok, h) \<Longrightarrow>
      P (st\<lparr>handler := h, rules := new_rules, saved_rules := saved\<rparr>)"
begin

definition keeps :: "('h State \<Rightarrow> (bool \<times> 'h State) option) \<Rightarrow> bool" where
  "keeps f \<longleftrightarrow> (\<forall>st ok st'. P st \<longrightarrow> f st = Some (ok, st') \<longrightarrow> P st')"

lemma keepsI: "(\<And>st ok st'. P st \<Longrightarrow> f st = Some (ok, st') \<Longrightarrow> P st') \<Longrightarrow> keeps f"
  by (simp add: keeps_def)

lemma keepsD: "keeps f \<Longrightarrow> P st \<Longrightarrow> f st = Some (ok, st') \<Longrightarrow> P st'"
  by (auto simp: keeps_def)

lemma keeps_True: "keeps (\<lambda>st. Some (True, st))"
  by (rule keepsI) auto

lemma keeps_if: "keeps f \<Longrightarrow> keeps g \<Longrightarrow> keeps (\<lambda>st. if b then f st else g st)"
  by (cases b) simp_all

lemma keeps_None: "keeps (\<lambda>st. None)"
  by (rule keepsI) auto

lemma keeps_report: "keeps (report r)"
  by (rule keepsI) (auto simp: report_def reported)

lemma keeps_no_cfa_rule: "keeps (no_cfa_rule cx)"
  by (rule keepsI) (auto simp: no_cfa_rule_def report_def reported)

lemma keeps_set_cfa: "keeps (set_cfa cx rule)"
  by (rule keepsI) (rule new_cfa)

lemma keeps_DoDefCFA: "keeps (DoDefCFA cx reg off)"
  by (rule keepsI) (auto simp: DoDefCFA_def intro: new_cfa)

lemma keeps_DoRule: "keeps (DoRule cx reg rule)"
  by (rule keepsI) (rule new_rule)

lemma keeps_advance: "keeps (advance cx delta)"
  by (rule keepsI) (auto simp: advance_def relocated)

lemma keeps_set_address: "keeps (\<lambda>st. Some (True, st\<lparr>address := off\<rparr>))"
  by (rule keepsI) (auto simp: relocated)

lemma keeps_DoDefCFAOffset: "keeps (DoDefCFAOffset cx off)"
  by (rule keepsI) (auto simp: DoDefCFAOffset_def split: option.splits
      intro: new_cfa keepsD [OF keeps_no_cfa_rule])

lemma keeps_DoOffset: "keeps (DoOffset cx reg off)"
  by (rule keepsI) (auto simp: DoOffset_def split: if_splits intro: new_rule keepsD [OF keeps_no_cfa_rule])

lemma keeps_DoValOffset: "keeps (DoValOffset cx reg off)"
  by (rule keepsI) (auto simp: DoValOffset_def split: if_splits intro: new_rule keepsD [OF keeps_no_cfa_rule])

lemma keeps_DoRestore: "keeps (DoRestore cx reg)"
  by (rule keepsI) (auto simp: DoRestore_def split: if_splits bind_splits
      intro: new_rule keepsD [OF keeps_report])

lemma keeps_DoRestoreState: "keeps (DoRestoreState cx)"
  by (rule keepsI) (auto simp: DoRestoreState_def split: list.splits if_splits bind_splits
      intro: restored keepsD [OF keeps_report])

lemma keeps_DoDefCFARegister: "keeps (DoDefCFARegister cx ops reg)"
proof (rule keepsI)
  fix st ok st' assume "P st" and "DoDefCFARegister cx ops reg st = Some (ok, st')"
  then show "P st'"
    by (auto simp: DoDefCFARegister_def split: option.splits bind_splits if_splits)
      (blast intro: new_cfa keepsD [OF keeps_DoDefCFA] keepsD [OF keeps_no_cfa_rule])+
qed

lemma keeps_DoRules: "keeps (DoRules cx rs)"
proof (rule keepsI)
  fix st ok st' assume "P st" and "DoRules cx rs st = Some (ok, st')"
  then show "P st'"
  proof (induction rs arbitrary: st)
    case (Cons p rs)
    then show ?case by (cases p) (fastforce split: bind_splits if_splits dest: new_rule)
  qed simp
qed

lemma ParseOperands_moves:
  "ParseOperands cx format ops st = Some (ok, ops', st') \<Longrightarrow> P st \<Longrightarrow> P st'"
proof (induction cx format ops st rule: ParseOperands.induct)
  case (2 cx c format ops st)
  have "P t" if "parse_operand cx c ops st = Some (k, o', t)" for k o' t
    using that 2(3)
    by (auto simp: parse_operand_def ReportIncomplete_operand_def Let_def moved reported split: if_splits bind_splits)
  with 2 show ?case by (auto split: bind_splits if_splits)
qed auto

lemma keeps_with_operands: "(\<And>ops. keeps (f ops)) \<Longrightarrow> keeps (with_operands cx format f)"
proof (rule keepsI)
  fix st ok st' assume f: "\<And>ops. keeps (f ops)" and st: "P st" "with_operands cx format f st = Some (ok, st')"
  from st(2) obtain k ops t where t: "ParseOperands cx format no_operands st = Some (k, ops, t)"
    "(if k then f ops t else Some (False, t)) = Some (ok, st')"
    by (auto simp: with_operands_def split: bind_splits)
  from ParseOperands_moves [OF t(1) st(1)] t(2) show "P st'"
    by (auto split: if_splits dest: keepsD [OF f, rotated])
qed

lemma keeps_with:
  "(\<And>reg. keeps (f reg)) \<Longrightarrow> keeps (with_reg f ops)"
  "(\<And>off. keeps (g off)) \<Longrightarrow> keeps (with_off g ops)"
  "(\<And>e. keeps (k e)) \<Longrightarrow> keeps (with_expr k ops)"
  "(\<And>off. keeps (j off)) \<Longrightarrow> keeps (with_signed cx j ops)"
  by (rule keepsI; auto simp: with_reg_def with_off_def with_expr_def with_signed_def
      split: bind_splits intro: keepsD)+

lemmas keeps_operations = keeps_set_cfa keeps_DoDefCFA keeps_DoRule keeps_advance keeps_set_address
  keeps_DoDefCFAOffset keeps_DoOffset keeps_DoValOffset keeps_DoRestore keeps_DoRestoreState
  keeps_DoDefCFARegister keeps_DoRules keeps_with_operands keeps_with keeps_True

lemma keeps_DoPrimary: "keeps (DoPrimary cx opcode)"
  unfolding DoPrimary_def Let_def by (intro keeps_if keeps_None keeps_operations)

lemma keeps_DoAddress: "keeps (DoAddress cx opcode)"
  by (simp add: DoAddress_def keeps_operations)

lemma keeps_DoCFA: "keeps (DoCFA cx opcode)"
  by (simp add: DoCFA_def keeps_operations)

lemma keeps_DoRegister: "keeps (DoRegister cx opcode)"
  by (simp add: DoRegister_def keeps_operations)

lemma keeps_remember: "keeps (\<lambda>st. Some (True, st\<lparr>saved_rules := rules st # saved_rules st\<rparr>))"
  by (rule keepsI) (auto simp: remembered)

lemma keeps_bad: "keeps (\<lambda>st. report (R st) st)"
  by (rule keepsI) (auto simp: report_def reported)

lemma keeps_DoExtended: "keeps (DoExtended cx opcode)"
  unfolding DoExtended_def
  by (intro keeps_if keeps_DoAddress keeps_DoCFA keeps_DoRegister keeps_remember keeps_bad keeps_operations)

lemma keeps_DoInstruction: "P st \<Longrightarrow> DoInstruction cx st = Some (ok, st') \<Longrightarrow> P st'"
  by (auto simp: DoInstruction_def Let_def moved split: bind_splits if_splits
      dest: keepsD [OF keeps_DoPrimary, rotated] keepsD [OF keeps_DoExtended, rotated])

end

section \<open>The loop over the instructions\<close>

interpretation cursor_invariant: cfi_invariant cx "\<lambda>st. n \<le> cursor st" for cx n
  by unfold_locales (auto simp: set_cfa_def handle_def DoRule_def split: bind_splits)

lemma DoInstruction_cursor: "DoInstruction cx st = Some (ok, st') \<Longrightarrow> cursor st < cursor st'"
proof -
  assume "DoInstruction cx st = Some (ok, st')"
  moreover have "DoPrimary cx opcode t = Some (ok, st') \<Longrightarrow> cursor t \<le> cursor st'"
    "DoExtended cx opcode t = Some (ok, st') \<Longrightarrow> cursor t \<le> cursor st'" for opcode t
    using cursor_invariant.keepsD [OF cursor_invariant.keeps_DoPrimary]
      cursor_invariant.keepsD [OF cursor_invariant.keeps_DoExtended] by blast+
  ultimately show ?thesis
    by (fastforce simp: DoInstruction_def Let_def split: bind_splits if_splits)
qed

function interpret_loop :: "'h Interp \<Rightarrow> 'h State \<Rightarrow> (bool \<times> 'h State) option" where
  "interpret_loop cx st =
     (if cursor st < e_end (i_entry cx)
      then do { (ok, st) \<leftarrow> DoInstruction cx st; (if ok then interpret_loop cx st else Some (False, st)) }
      else Some (True, st))"
  by auto

termination
  by (relation "measure (\<lambda>(cx, st). e_end (i_entry cx) - cursor st)") (auto dest: DoInstruction_cursor)

declare interpret_loop.simps [simp del]

definition InterpretCIE :: "'h Interp \<Rightarrow> 'h State \<Rightarrow> (bool \<times> 'h State) option" where
  "InterpretCIE cx st = do {
     (ok, st) \<leftarrow> interpret_loop cx (st\<lparr>cursor := e_instructions (i_entry cx)\<rparr>);
     (if ok then Some (True, st\<lparr>cie_rules := rules st\<rparr>) else Some (False, st))}"

definition InterpretFDE :: "'h Interp \<Rightarrow> 'h State \<Rightarrow> (bool \<times> 'h State) option" where
  "InterpretFDE cx st = interpret_loop cx (st\<lparr>cursor := e_instructions (i_entry cx)\<rparr>)"

text \<open>The states the loop passes through, and those of a CIE followed by an FDE.\<close>

inductive steps :: "'h Interp \<Rightarrow> 'h State \<Rightarrow> 'h State \<Rightarrow> bool" for cx st where
  steps_refl: "steps cx st st"
| steps_step: "steps cx st st' \<Longrightarrow> DoInstruction cx st' = Some (True, st'') \<Longrightarrow> steps cx st st''"

inductive reached :: "'h Interp \<Rightarrow> 'h Interp \<Rightarrow> 'h State \<Rightarrow> 'h Interp \<Rightarrow> 'h State \<Rightarrow> bool"
  for cie_cx fde_cx st0
where
  in_CIE: "steps cie_cx (st0\<lparr>cursor := e_instructions (i_entry cie_cx)\<rparr>) st \<Longrightarrow>
    reached cie_cx fde_cx st0 cie_cx st"
| in_FDE: "reached cie_cx fde_cx st0 cie_cx st \<Longrightarrow>
    steps fde_cx (st\<lparr>cie_rules := rules st, cursor := e_instructions (i_entry fde_cx)\<rparr>) st' \<Longrightarrow>
    reached cie_cx fde_cx st0 fde_cx st'"

text \<open>An invariant that does not depend on the cursor or the rules of the CIE holds in all of them.\<close>

locale cfi_entry_invariant = cfi_invariant +
  assumes jumped: "P st \<Longrightarrow> P (st\<lparr>cursor := n\<rparr>)"
    and noted: "P st \<Longrightarrow> P (st\<lparr>cie_rules := m\<rparr>)"
begin

lemma steps_keep: "steps cx st st' \<Longrightarrow> P st \<Longrightarrow> P st'"
  by (induction rule: steps.induct) (auto intro: keeps_DoInstruction)

lemma interpret_loop_keeps: "interpret_loop cx st = Some (ok, st') \<Longrightarrow> P st \<Longrightarrow> P st'"
proof (induction "e_end (i_entry cx) - cursor st" arbitrary: st rule: less_induct)
  case less
  show ?case
  proof (cases "cursor st < e_end (i_entry cx)")
    case True
    with less.prems obtain k t where t: "DoInstruction cx st = Some (k, t)"
      "(if k then interpret_loop cx t else Some (False, t)) = Some (ok, st')"
      by (auto simp: interpret_loop.simps [of cx st] split: bind_splits)
    have "P t" using keeps_DoInstruction [OF less.prems(2) t(1)] .
    moreover have "e_end (i_entry cx) - cursor t < e_end (i_entry cx) - cursor st"
      using True DoInstruction_cursor [OF t(1)] by simp
    ultimately show ?thesis using less.hyps t(2) by (auto split: if_splits)
  next
    case False
    with less.prems show ?thesis by (simp add: interpret_loop.simps [of cx st])
  qed
qed

lemma InterpretCIE_keeps:
  assumes "InterpretCIE cx st = Some (ok, st')" and "P st" shows "P st'"
proof -
  from assms(1) obtain k t where t: "interpret_loop cx (st\<lparr>cursor := e_instructions (i_entry cx)\<rparr>) = Some (k, t)"
    "st' = (if k then t\<lparr>cie_rules := rules t\<rparr> else t)"
    by (auto simp: InterpretCIE_def split: bind_splits if_splits)
  from interpret_loop_keeps [OF t(1) jumped [OF assms(2)]] show ?thesis by (simp add: t(2) noted)
qed

lemma InterpretFDE_keeps: "InterpretFDE cx st = Some (ok, st') \<Longrightarrow> P st \<Longrightarrow> P st'"
  by (auto simp: InterpretFDE_def dest: interpret_loop_keeps [OF _ jumped])

end

section \<open>Tables of rules only grow\<close>

definition rules_inv :: "Rules \<Rightarrow> bool" where
  "rules_inv m \<longleftrightarrow> std_map_inv (registers m) \<and> kCFARegister \<notin> fst ` set (registers m)"

definition covers :: "Rules \<Rightarrow> Rules \<Rightarrow> bool" where
  "covers m m' \<longleftrightarrow> (cfa_rule m' \<noteq> None \<longrightarrow> cfa_rule m \<noteq> None) \<and> fst ` set (registers m') \<subseteq> fst ` set (registers m)"

definition coherent :: "'h State \<Rightarrow> bool" where
  "coherent st \<longleftrightarrow> sorted_wrt covers (rules st # saved_rules st) \<and> list_all rules_inv (rules st # saved_rules st)"

lemma covers_trans: "covers a b \<Longrightarrow> covers b c \<Longrightarrow> covers a c"
  unfolding covers_def by (meson subset_trans)

lemma coherent_new: "coherent (State_new h reps addr)"
  by (simp add: coherent_def State_new_def Rules_empty_def rules_inv_def)

lemma coherent_grow:
  assumes "coherent st" and "covers m (rules st)" and "rules_inv m"
  shows "coherent (st\<lparr>rules := m, handler := h\<rparr>)"
  using assms by (auto simp: coherent_def intro: covers_trans)

lemma covers_cfa: "covers (m\<lparr>cfa_rule := Some rule\<rparr>) m"
  and rules_inv_cfa: "rules_inv m \<Longrightarrow> rules_inv (m\<lparr>cfa_rule := c\<rparr>)"
  by (auto simp: covers_def rules_inv_def)

lemma set_register_ruleE:
  assumes "set_register_rule reg rule m = Some m'"
  obtains "reg \<noteq> kCFARegister" "m' = m\<lparr>registers := std_assign reg rule (registers m)\<rparr>" "covers m' m"
    "rules_inv m \<Longrightarrow> rules_inv m'"
  using assms
  by (auto simp: set_register_rule_def check_def covers_def rules_inv_def std_assign_keys split: if_splits bind_splits)

lemma coherent_restore:
  "coherent st \<Longrightarrow> saved_rules st = new_rules # saved \<Longrightarrow>
   coherent (st\<lparr>handler := h, rules := new_rules, saved_rules := saved\<rparr>)"
  by (auto simp: coherent_def)

interpretation coherent: cfi_entry_invariant cx coherent for cx
proof unfold_locales
  fix st :: "'a State" and rule ok st'
  show "coherent st \<Longrightarrow> set_cfa cx rule st = Some (ok, st') \<Longrightarrow> coherent st'"
    by (auto simp: set_cfa_def handle_def split: bind_splits
        intro!: coherent_grow covers_cfa rules_inv_cfa) (auto simp: coherent_def)
next
  fix st :: "'a State" and reg rule ok st'
  show "coherent st \<Longrightarrow> DoRule cx reg rule st = Some (ok, st') \<Longrightarrow> coherent st'"
    by (auto simp: DoRule_def handle_def split: bind_splits elim!: set_register_ruleE
        intro!: coherent_grow) (auto simp: coherent_def)
qed (auto simp: coherent_def covers_def)

section \<open>Transitions\<close>

definition handler_total :: "'h Handler \<Rightarrow> bool" where
  "handler_total hnd \<longleftrightarrow> (\<forall>c h. hnd c h \<noteq> None)"

lemma total_Rule_Handle: "handler_total hnd \<Longrightarrow> \<exists>ok h'. Rule_Handle hnd addr reg rule h = Some (ok, h')"
  by (auto simp: handler_total_def Rule_Handle_def)

lemma register_maps_cases:
  assumes "std_map_inv ((reg, old) # olds)" and "std_map_inv ((reg', new) # news)"
    and "fst ` set ((reg', new) # news) \<subseteq> fst ` set ((reg, old) # olds)"
  obtains "reg < reg'" "fst ` set ((reg', new) # news) \<subseteq> fst ` set olds"
  | "reg' = reg" "fst ` set news \<subseteq> fst ` set olds"
proof -
  have "reg' = reg \<or> reg < reg'" using assms(1,3) by auto
  moreover have "fst ` set ((reg', new) # news) \<subseteq> fst ` set olds" if "reg < reg'"
  proof -
    have "reg \<notin> fst ` set ((reg', new) # news)" using that assms(2) by auto
    with assms(3) show ?thesis by auto
  qed
  moreover have "fst ` set news \<subseteq> fst ` set olds" if "reg' = reg"
  proof -
    have "reg \<notin> fst ` set news" using assms(2) that by auto
    with assms(3) show ?thesis by (simp add: that subset_insert)
  qed
  ultimately show thesis using that by blast
qed

lemma transition_registers_defined:
  assumes "handler_total hnd" and "std_map_inv olds" and "std_map_inv news" and "fst ` set news \<subseteq> fst ` set olds"
  shows "transition_registers hnd addr olds news h \<noteq> None"
  using assms
proof (induction hnd addr olds news h rule: transition_registers.induct)
  case (3 hnd addr reg old olds h)
  from total_Rule_Handle [OF 3(2), of addr reg SameValueRule h]
  obtain k h' where "Rule_Handle hnd addr reg SameValueRule h = Some (k, h')" by auto
  with 3 show ?case by auto
next
  case (4 hnd addr reg old olds reg' new news h)
  from 4(5-7) show ?case
  proof (rule register_maps_cases)
    assume less: "reg < reg'" "fst ` set ((reg', new) # news) \<subseteq> fst ` set olds"
    from total_Rule_Handle [OF 4(4), of addr reg SameValueRule h]
    obtain k h' where k: "Rule_Handle hnd addr reg SameValueRule h = Some (k, h')" by auto
    with 4(1) [OF less(1) k] 4(4-6) less show ?thesis by auto
  next
    assume same: "reg' = reg" "fst ` set news \<subseteq> fst ` set olds"
    from total_Rule_Handle [OF 4(4), of addr reg new h]
    obtain k h' where k: "Rule_Handle hnd addr reg new h = Some (k, h')" by auto
    have inv: "\<not> reg < reg'" "\<not> reg > reg'" "std_map_inv olds" "std_map_inv news" using 4(5,6) same by simp_all
    show ?thesis
    proof (cases "old = new")
      case True
      with 4(3) [OF inv(1,2) _ 4(4) inv(3,4) same(2)] show ?thesis by (simp add: same)
    next
      case ne: False
      with 4(2) [OF inv(1,2) ne k [folded same(1)]] 4(4) inv same show ?thesis by (auto simp: k)
    qed
  qed
qed auto

lemma HandleTransitionTo_defined:
  assumes "coherent st" and "saved_rules st = new_rules # saved" and "handler_total hnd"
  shows "HandleTransitionTo hnd addr (rules st) new_rules h \<noteq> None"
proof -
  from assms(1,2) have c: "covers (rules st) new_rules" "rules_inv (rules st)" "rules_inv new_rules"
    by (simp_all add: coherent_def)
  then have "\<exists>ok h'. transition_cfa hnd addr (cfa_rule (rules st)) (cfa_rule new_rules) h = Some (ok, h')"
    using total_Rule_Handle [OF assms(3)]
    by (auto simp: transition_cfa_def covers_def split: option.splits)
  then obtain ok h' where "transition_cfa hnd addr (cfa_rule (rules st)) (cfa_rule new_rules) h = Some (ok, h')"
    by blast
  moreover have "transition_registers hnd addr (registers (rules st)) (registers new_rules) h' \<noteq> None"
    using c by (intro transition_registers_defined [OF assms(3)]) (auto simp: rules_inv_def covers_def)
  ultimately show ?thesis by (auto simp: HandleTransitionTo_def)
qed

section \<open>What the handler has been told\<close>

text \<open>
  A consumer that keeps for every register the last rule it was told, and takes a register for
  unchanged before it is told anything, has the interpreter's table.
\<close>

type_synonym table = "Rule option \<times> (int \<Rightarrow> Rule)"

definition register_table :: "(int, Rule) std_map \<Rightarrow> int \<Rightarrow> Rule" where
  "register_table m reg = (case std_find m reg of None \<Rightarrow> SameValueRule | Some rule \<Rightarrow> rule)"

definition table_of :: "Rules \<Rightarrow> table" where
  "table_of m = (cfa_rule m, register_table (registers m))"

fun tell :: "HandlerCall \<Rightarrow> table \<Rightarrow> table" where
  "tell (Rule_call rule addr reg) (c, t) = (if reg = kCFARegister then (Some rule, t) else (c, t(reg := rule)))"
| "tell call t = t"

definition recorder :: "HandlerCall list Handler" where
  "recorder call calls = Some (True, calls @ [call])"

lemma recorder_total: "handler_total recorder"
  by (simp add: handler_total_def recorder_def)

lemma recorder_Handle [simp]: "Rule_Handle recorder addr reg rule h = Some (True, h @ [Rule_call rule addr reg])"
  by (simp add: Rule_Handle_def recorder_def)

lemma register_table_assign: "register_table (std_assign reg rule m) = (register_table m)(reg := rule)"
  by (auto simp: register_table_def std_find_assign)

lemma register_table_Cons: "register_table ((reg, rule) # m) = (register_table m)(reg := rule)"
  by (auto simp: register_table_def)

lemma register_table_absent: "reg \<notin> fst ` set m \<Longrightarrow> register_table m reg = SameValueRule"
  by (auto simp: register_table_def std_find_map_of dest!: map_of_SomeD split: option.splits) force

text \<open>A transition tells the consumer of every difference between the two tables.\<close>

fun differences :: "u64 \<Rightarrow> (int, Rule) std_map \<Rightarrow> (int, Rule) std_map \<Rightarrow> HandlerCall list" where
  "differences addr [] news = []"
| "differences addr ((reg, old) # olds) [] = Rule_call SameValueRule addr reg # differences addr olds []"
| "differences addr ((reg, old) # olds) ((reg', new) # news) =
     (if reg < reg' then Rule_call SameValueRule addr reg # differences addr olds ((reg', new) # news)
      else (if old \<noteq> new then [Rule_call new addr reg'] else []) @ differences addr olds news)"

lemma transition_registers_recorded:
  assumes "std_map_inv olds" and "std_map_inv news" and "fst ` set news \<subseteq> fst ` set olds"
  shows "transition_registers recorder addr olds news h = Some (True, h @ differences addr olds news)"
  using assms
proof (induction addr olds news arbitrary: h rule: differences.induct)
  case (1 addr news)
  then show ?case by simp
next
  case (3 addr reg old olds reg' new news)
  from "3.prems"(1-3) show ?case
    by (rule register_maps_cases) (use 3 in auto)
qed simp

lemma differences_told:
  assumes "std_map_inv olds" and "std_map_inv news" and "fst ` set news \<subseteq> fst ` set olds"
    and "kCFARegister \<notin> fst ` set olds" and "\<forall>reg\<in>fst ` set olds. t reg = register_table olds reg"
  shows "fold tell (differences addr olds news) (c, t) =
    (c, \<lambda>reg. if reg \<in> fst ` set olds then register_table news reg else t reg)"
  using assms
proof (induction addr olds news arbitrary: t rule: differences.induct)
  case (1 addr news)
  then show ?case by simp
next
  case (2 addr reg old olds)
  have fresh: "reg \<notin> fst ` set olds" using 2(2) by auto
  have "\<forall>r\<in>fst ` set olds. (t(reg := SameValueRule)) r = register_table olds r"
    using 2(6) fresh by (auto simp: register_table_Cons)
  with 2 show ?case by (auto simp: register_table_def)
next
  case (3 addr reg old olds reg' new news)
  have fresh: "reg \<notin> fst ` set olds" "reg \<noteq> kCFARegister" using "3.prems"(1,4) by auto
  have keep: "\<forall>r\<in>fst ` set olds. (t(reg := x)) r = register_table olds r" for x
    using "3.prems"(5) fresh by (auto simp: register_table_Cons)
  from "3.prems"(1-3) show ?case
  proof (rule register_maps_cases)
    assume less: "reg < reg'" "fst ` set ((reg', new) # news) \<subseteq> fst ` set olds"
    let ?news = "(reg', new) # news" and ?t = "t(reg := SameValueRule)"
    have absent: "register_table ?news reg = SameValueRule"
      using "3.prems"(2) less(1) by (intro register_table_absent) auto
    have "fold tell (differences addr olds ?news) (c, ?t) =
        (c, \<lambda>r. if r \<in> fst ` set olds then register_table ?news r else ?t r)"
      using "3.prems"(1,4) by (intro 3(1) [OF less(1) _ "3.prems"(2) less(2) _ keep]) auto
    then show ?thesis using less(1) fresh absent by (simp add: fun_eq_iff)
  next
    assume same: "reg' = reg" "fst ` set news \<subseteq> fst ` set olds"
    let ?t = "t(reg := new)"
    have "t reg = old" using "3.prems"(5) by (simp add: register_table_Cons)
    then have step: "fold tell (differences addr ((reg, old) # olds) ((reg', new) # news)) (c, t) =
        fold tell (differences addr olds news) (c, ?t)"
      using fresh(2) by (cases "old = new") (auto simp: same(1) fun_upd_idem)
    have "fold tell (differences addr olds news) (c, ?t) =
        (c, \<lambda>r. if r \<in> fst ` set olds then register_table news r else ?t r)"
      using "3.prems"(1,2,4) same(1) by (intro 3(2) [OF _ _ _ same(2) _ keep]) auto
    then show ?thesis unfolding step using fresh(1) by (simp add: same(1) fun_eq_iff register_table_Cons)
  qed
qed

lemma HandleTransitionTo_told:
  assumes "coherent st" and "saved_rules st = new_rules # saved"
    and "cfa_rule (rules st) = None \<or> cfa_rule new_rules \<noteq> None"
  shows "\<exists>calls. HandleTransitionTo recorder addr (rules st) new_rules h = Some (True, h @ calls) \<and>
    fold tell calls (table_of (rules st)) = table_of new_rules"
proof -
  let ?old = "registers (rules st)" and ?new = "registers new_rules"
  from assms(1,2) have c: "covers (rules st) new_rules" "rules_inv (rules st)" "rules_inv new_rules"
    by (simp_all add: coherent_def)
  then have inv: "std_map_inv ?old" "std_map_inv ?new" "fst ` set ?new \<subseteq> fst ` set ?old"
    "kCFARegister \<notin> fst ` set ?old"
    by (auto simp: covers_def rules_inv_def)
  define cfa where "cfa = (if cfa_rule (rules st) = cfa_rule new_rules then []
    else [Rule_call (the (cfa_rule new_rules)) addr kCFARegister])"
  have "transition_cfa recorder addr (cfa_rule (rules st)) (cfa_rule new_rules) h = Some (True, h @ cfa)"
    and cfa: "fold tell cfa (table_of (rules st)) = (cfa_rule new_rules, register_table ?old)"
    using assms(3) c(1)
    by (auto simp: transition_cfa_def cfa_def table_of_def covers_def split: option.splits)
  then have "HandleTransitionTo recorder addr (rules st) new_rules h =
      Some (True, h @ cfa @ differences addr ?old ?new)"
    using transition_registers_recorded [OF inv(1-3)] by (simp add: HandleTransitionTo_def)
  moreover have "fold tell (cfa @ differences addr ?old ?new) (table_of (rules st)) = table_of new_rules"
  proof -
    have "register_table ?new reg = SameValueRule" "register_table ?old reg = SameValueRule"
      if "reg \<notin> fst ` set ?old" for reg
      using that inv(3) by (auto intro!: register_table_absent)
    then have same: "(\<lambda>reg. if reg \<in> fst ` set ?old then register_table ?new reg else register_table ?old reg) =
        register_table ?new"
      by (auto simp: fun_eq_iff)
    have "fold tell (differences addr ?old ?new) (cfa_rule new_rules, register_table ?old) = table_of new_rules"
      using differences_told [OF inv, of "register_table ?old" addr "cfa_rule new_rules"]
      by (simp add: table_of_def same)
    then show ?thesis by (simp only: fold_append o_apply cfa)
  qed
  ultimately show ?thesis by blast
qed

definition told :: "HandlerCall list \<Rightarrow> HandlerCall list State \<Rightarrow> bool" where
  "told h0 st \<longleftrightarrow> (\<exists>calls. handler st = h0 @ calls \<and> fold tell calls (table_of Rules_empty) = table_of (rules st))"

lemma told_call:
  assumes "told h0 st" and "tell call (table_of (rules st)) = table_of m"
  shows "told h0 (st\<lparr>rules := m, handler := handler st @ [call]\<rparr>)"
proof -
  from assms(1) obtain calls where "handler st = h0 @ calls"
    "fold tell calls (table_of Rules_empty) = table_of (rules st)"
    by (auto simp: told_def)
  with assms(2) show ?thesis by (auto simp: told_def intro!: exI [of _ "calls @ [call]"])
qed

interpretation told: cfi_entry_invariant cx "\<lambda>st. i_handler cx = recorder \<longrightarrow> coherent st \<and> told h0 st" for cx h0
proof unfold_locales
  fix st rule ok st'
  assume "i_handler cx = recorder \<longrightarrow> coherent st \<and> told h0 st" and "set_cfa cx rule st = Some (ok, st')"
  then show "i_handler cx = recorder \<longrightarrow> coherent st' \<and> told h0 st'"
    using coherent.new_cfa [of st cx rule ok st'] told_call [of h0 st]
    by (auto simp: set_cfa_def handle_def table_of_def)
next
  fix st reg rule ok st'
  assume "i_handler cx = recorder \<longrightarrow> coherent st \<and> told h0 st" and "DoRule cx reg rule st = Some (ok, st')"
  then show "i_handler cx = recorder \<longrightarrow> coherent st' \<and> told h0 st'"
    using coherent.new_rule [of st cx reg rule ok st'] told_call [of h0 st]
    by (auto simp: DoRule_def handle_def table_of_def register_table_assign split: bind_splits elim!: set_register_ruleE)
next
  fix st new_rules saved ok h
  assume st: "i_handler cx = recorder \<longrightarrow> coherent st \<and> told h0 st" "saved_rules st = new_rules # saved"
    "cfa_rule (rules st) = None \<or> cfa_rule new_rules \<noteq> None"
    "HandleTransitionTo (i_handler cx) (address st) (rules st) new_rules (handler st) = Some (ok, h)"
  show "i_handler cx = recorder \<longrightarrow> coherent (st\<lparr>handler := h, rules := new_rules, saved_rules := saved\<rparr>) \<and>
      told h0 (st\<lparr>handler := h, rules := new_rules, saved_rules := saved\<rparr>)"
  proof
    assume cx: "i_handler cx = recorder"
    with st(1) obtain calls where calls: "handler st = h0 @ calls"
      "fold tell calls (table_of Rules_empty) = table_of (rules st)"
      by (auto simp: told_def)
    from HandleTransitionTo_told [of st, OF _ st(2,3)] st(1) cx obtain more where
      more: "HandleTransitionTo recorder (address st) (rules st) new_rules (handler st) = Some (True, handler st @ more)"
      "fold tell more (table_of (rules st)) = table_of new_rules"
      by blast
    with st(4) cx calls have "told h0 (st\<lparr>handler := h, rules := new_rules, saved_rules := saved\<rparr>)"
      by (auto simp: told_def intro!: exI [of _ "calls @ more"])
    with coherent_restore [of st, OF _ st(2)] st(1) cx
    show "coherent (st\<lparr>handler := h, rules := new_rules, saved_rules := saved\<rparr>) \<and>
        told h0 (st\<lparr>handler := h, rules := new_rules, saved_rules := saved\<rparr>)" by simp
  qed
qed (auto simp: coherent_def covers_def told_def)

section \<open>The interpreter\<close>

definition example_cie_cx :: "HandlerCall list Interp" where
  "example_cie_cx =
     \<lparr>i_reader = ByteReader_new ENDIANNESS_LITTLE,
      i_buffer = [0x0c, 7, 8, 0x90, 1, 0x0a,  0x41, 0x0e, 16, 0x0a, 0x86, 2, 0x0b, 0x41, 0x0b],
      i_handler = recorder,
      i_entry = \<lparr>e_offset = 0, e_kind = kCIE, e_fields = 0, e_instructions = 0, e_end = 6, e_id = 0\<rparr>,
      i_cie = \<lparr>e_offset = 0, e_kind = kCIE, e_fields = 0, e_instructions = 0, e_end = 6, e_id = 0,
        version = 1, augmentation = [], code_alignment_factor = 1, data_alignment_factor = - 8,
        return_address_register = 16, has_z_augmentation = False, has_z_lsda = False,
        has_z_personality = False, has_z_signal_frame = False, lsda_encoding = 0, personality_encoding = 0,
        personality_address = 0, pointer_encoding = 0, cie_address_size = 0, segment_size = 0\<rparr>\<rparr>"

definition example_fde_cx :: "HandlerCall list Interp" where
  "example_fde_cx = example_cie_cx\<lparr>i_entry :=
     \<lparr>e_offset = 6, e_kind = kFDE, e_fields = 6, e_instructions = 6, e_end = 15, e_id = 0\<rparr>\<rparr>"

abbreviation "example_start \<equiv> State_new ([] :: HandlerCall list) [] 0x1000"

lemma reached_coherent:
  "reached cie_cx fde_cx st0 cx st \<Longrightarrow> coherent st0 \<Longrightarrow> coherent st"
  by (induction rule: reached.induct)
    (blast intro: coherent.steps_keep coherent.jumped coherent.noted)+

text \<open>
  C13: the assertions of \<open>HandleTransitionTo\<close> never fail. In every state that the instructions of a CIE
  and then of an FDE lead to, each saved table has a CFA rule and rules for registers only where
  all later tables have them, so \<open>DW_CFA_restore_state\<close> has a defined outcome, whatever the handler
  answers.
\<close>

theorem DoRestoreState_defined:
  assumes "reached cie_cx fde_cx (State_new h reps addr) cx st" and "handler_total (i_handler cx)"
  shows "DoRestoreState cx st \<noteq> None"
proof -
  have "coherent st" using reached_coherent [OF assms(1) coherent_new] .
  show ?thesis
  proof (cases "saved_rules st")
    case Nil
    then show ?thesis by (simp add: DoRestoreState_def report_def)
  next
    case (Cons new_rules saved)
    from HandleTransitionTo_defined [OF \<open>coherent st\<close> Cons assms(2)] obtain ok h' where
      "HandleTransitionTo (i_handler cx) (address st) (rules st) new_rules (handler st) = Some (ok, h')"
      by fastforce
    with Cons show ?thesis by (auto simp: DoRestoreState_def report_def)
  qed
qed

theorem DoRestoreState_defined_witness:
  "\<exists>st. reached example_cie_cx example_fde_cx example_start example_cie_cx st \<and>
     length (saved_rules st) = 1 \<and> DoRestoreState example_cie_cx st \<noteq> None"
proof -
  let ?st = "snd (the (InterpretCIE example_cie_cx example_start))\<lparr>cie_rules := Rules_empty\<rparr>"
  have "\<exists>st1 st2. DoInstruction example_cie_cx (example_start\<lparr>cursor := 0\<rparr>) = Some (True, st1) \<and>
      DoInstruction example_cie_cx st1 = Some (True, st2) \<and>
      DoInstruction example_cie_cx st2 = Some (True, ?st)"
    by (intro exI [of _ "snd (the (DoInstruction example_cie_cx (example_start\<lparr>cursor := 0\<rparr>)))"]
        exI [of _ "snd (the (DoInstruction example_cie_cx (snd (the (DoInstruction example_cie_cx (example_start\<lparr>cursor := 0\<rparr>))))))"])
      code_simp
  then have "steps example_cie_cx (example_start\<lparr>cursor := 0\<rparr>) ?st"
    by (blast intro: steps.intros)
  then have "reached example_cie_cx example_fde_cx example_start example_cie_cx ?st"
    by (intro in_CIE) (simp add: example_cie_cx_def)
  moreover from this have "DoRestoreState example_cie_cx ?st \<noteq> None"
    by (rule DoRestoreState_defined) (simp add: example_cie_cx_def recorder_total)
  moreover have "length (saved_rules ?st) = 1" by code_simp
  ultimately show ?thesis by blast
qed

text \<open>
  C4: the calls tell the handler the interpreter's table. A consumer that starts with every
  register unchanged and notes each rule it is told has, after the CIE's instructions and any run of
  the FDE's, the very table of rules the interpreter has, also after states were saved and restored.
\<close>

theorem Interpret_told:
  assumes "InterpretCIE cie_cx (State_new h0 reps addr) = Some (True, st1)"
    and "InterpretFDE fde_cx st1 = Some (ok, st2)"
    and "i_handler cie_cx = recorder" and "i_handler fde_cx = recorder"
  shows "\<exists>calls. handler st2 = h0 @ calls \<and> fold tell calls (None, \<lambda>reg. SameValueRule) = table_of (rules st2)"
proof -
  have empty: "table_of Rules_empty = (None, \<lambda>reg. SameValueRule)"
    by (auto simp: table_of_def Rules_empty_def register_table_def)
  have "told h0 (State_new h0 reps addr)" by (simp add: told_def State_new_def)
  with told.InterpretCIE_keeps [OF assms(1), of h0] assms(3) have "coherent st1 \<and> told h0 st1"
    by (simp add: coherent_new)
  with told.InterpretFDE_keeps [OF assms(2), of h0] assms(4) have "told h0 st2" by simp
  then show ?thesis by (simp add: told_def empty)
qed

theorem Interpret_told_witness:
  "\<exists>st1 st2. InterpretCIE example_cie_cx example_start = Some (True, st1) \<and>
     InterpretFDE example_fde_cx st1 = Some (True, st2) \<and> length (handler st2) = 6 \<and>
     (\<exists>calls. handler st2 = [] @ calls \<and> fold tell calls (None, \<lambda>reg. SameValueRule) = table_of (rules st2))"
proof -
  let ?st1 = "snd (the (InterpretCIE example_cie_cx example_start))"
  let ?st2 = "snd (the (InterpretFDE example_fde_cx ?st1))"
  have st1: "InterpretCIE example_cie_cx example_start = Some (True, ?st1)" by code_simp
  have st2: "InterpretFDE example_fde_cx ?st1 = Some (True, ?st2)" by code_simp
  have "length (handler ?st2) = 6" by code_simp
  moreover have "i_handler example_cie_cx = recorder" "i_handler example_fde_cx = recorder"
    by (simp_all add: example_cie_cx_def example_fde_cx_def)
  ultimately show ?thesis using Interpret_told [OF st1 st2] st1 st2 by blast
qed

end
