(* ===== verification/Call_Frame_Info.thy ===== *)
theory Call_Frame_Info
  imports Call_Frame_Interpreter
begin

text \<open>
  \<open>CallFrameInfo\<close> of src/crash/src/main/cpp/breakpad/src/common/dwarf/dwarf2reader.cc: the parser of
  the entries of a \<open>.debug_frame\<close> or \<open>.eh_frame\<close> section. \<open>Start\<close> goes through the entries of the
  section, reads each FDE with its CIE, offers it to the handler and interprets its instructions.

  The section is the first \<open>buffer_length\<close> bytes of the readable memory from \<open>buffer\<close> on. What the
  parser changes is a record of the reader, the handler's state and the reports. A function of the
  source that returns \<open>false\<close> after a report returns \<^term>\<open>Some (None, reps)\<close> here.
\<close>

section \<open>Entries\<close>

record CallFrameInfo =
  buffer :: "byte list"
  buffer_length :: nat
  eh_frame :: bool

datatype Prologue = No_extent | Bad_entry nat | Good_entry Entry

definition new_entry :: "nat \<Rightarrow> Entry" where
  "new_entry p = \<lparr>e_offset = p, e_kind = kUnknown, e_fields = 0, e_instructions = 0, e_end = 0, e_id = 0\<rparr>"

text \<open>What kind of entry an id belongs to, and the offset of the CIE of an FDE.\<close>

definition classify :: "CallFrameInfo \<Rightarrow> ByteReader \<Rightarrow> nat \<Rightarrow> u64 \<Rightarrow> (EntryKind \<times> u64) option" where
  "classify info r p i =
     (if eh_frame info then Some (if i = 0 then (kCIE, i) else (kFDE, of_nat p - i))
      else if offset_size r = 4 then Some (if i = 0xffffffff then kCIE else kFDE, i)
      else do {
        check (offset_size r = 8);
        Some (if i = 0xffffffffffffffff then kCIE else kFDE, i)})"

definition ReadEntryPrologue ::
  "CallFrameInfo \<Rightarrow> ByteReader \<Rightarrow> nat \<Rightarrow> ReporterCall list \<Rightarrow> (Prologue \<times> ByteReader \<times> ReporterCall list) option"
where
  "ReadEntryPrologue info r p reps = do {
     let e = new_entry p;
     let buffer_end = buffer_length info;
     let incomplete = reps @ [Incomplete (e_offset e) (e_kind e)];
     (length, length_size, r) \<leftarrow> ReadInitialLength r (buffer info) p;
     (if length_size > bytes_from p buffer_end then Some (No_extent, r, incomplete)
      else do {
        let p = p + length_size;
        (if length = 0 \<and> eh_frame info then Some (Good_entry (e\<lparr>e_kind := kTerminator, e_end := p\<rparr>), r, reps)
         else if unat length > bytes_from p buffer_end then Some (No_extent, r, incomplete)
         else do {
           let e_stop = p + unat length;
           let sz = unat (offset_size r);
           (if sz > bytes_from p e_stop then Some (Bad_entry e_stop, r, incomplete)
            else do {
              i \<leftarrow> ReadOffset r (buffer info) p;
              (k, i) \<leftarrow> classify info r p i;
              Some (Good_entry (e\<lparr>e_kind := k, e_end := e_stop, e_id := i, e_fields := p + sz\<rparr>), r, reps)})})})}"

definition memchr_nul :: "byte list \<Rightarrow> nat \<Rightarrow> nat \<Rightarrow> nat option option" where
  "memchr_nul buf p n =
     (let seg = take n (drop p buf); k = length (takeWhile (\<lambda>b. b \<noteq> 0) seg)
      in if k < length seg then Some (Some (p + k)) else if length seg = n then Some None else None)"

text \<open>The next part of a parse, if the previous one did not end with a report.\<close>

definition and_then ::
  "('a option \<times> ReporterCall list) option \<Rightarrow> ('a \<Rightarrow> ReporterCall list \<Rightarrow> ('b option \<times> ReporterCall list) option) \<Rightarrow>
   ('b option \<times> ReporterCall list) option"
where
  "and_then m f = do { (x, reps) \<leftarrow> m; (case x of None \<Rightarrow> Some (None, reps) | Some y \<Rightarrow> f y reps) }"

definition fail :: "ReporterCall \<Rightarrow> ReporterCall list \<Rightarrow> ('a option \<times> ReporterCall list) option" where
  "fail rep reps = Some (None, reps @ [rep])"

definition incomplete :: "('e Entry_scheme) \<Rightarrow> ReporterCall list \<Rightarrow> ('a option \<times> ReporterCall list) option" where
  "incomplete e reps = fail (Incomplete (e_offset e) (e_kind e)) reps"

definition new_cie :: "Entry \<Rightarrow> CIE" where
  "new_cie e = Entry.extend e
     (CIE.fields 0 [] 0 0 0 False False False False 0 0 0 0 0 0)"

text \<open>The version, the augmentation string and the fields of version 4.\<close>

definition read_cie_version :: "CallFrameInfo \<Rightarrow> CIE \<Rightarrow> nat \<Rightarrow> ReporterCall list \<Rightarrow> ((CIE \<times> nat) option \<times> ReporterCall list) option" where
  "read_cie_version info cie p reps =
     (if int (e_end cie) - int p < 1 then incomplete cie reps
      else do {
        v \<leftarrow> ReadOneByte (buffer info) p;
        (if v < 1 \<or> v > 4 then fail (UnrecognizedVersion (e_offset cie) v) reps
         else Some (Some (cie\<lparr>version := v\<rparr>, p + 1), reps))})"

definition read_cie_augmentation :: "CallFrameInfo \<Rightarrow> CIE \<Rightarrow> nat \<Rightarrow> ReporterCall list \<Rightarrow> ((CIE \<times> nat) option \<times> ReporterCall list) option" where
  "read_cie_augmentation info cie p reps = do {
     nul \<leftarrow> memchr_nul (buffer info) p (e_end cie - p);
     (case nul of
        None \<Rightarrow> incomplete cie reps
      | Some q \<Rightarrow>
          let aug = bytes_string (take (q - p) (drop p (buffer info)))
          in if aug = [] then Some (Some (cie\<lparr>augmentation := aug\<rparr>, q + 1), reps)
             else if aug ! 0 = CHR ''z''
             then Some (Some (cie\<lparr>augmentation := aug, has_z_augmentation := True\<rparr>, q + 1), reps)
             else fail (UnrecognizedAugmentation (e_offset cie) aug) reps)}"

definition read_cie_sizes :: "CallFrameInfo \<Rightarrow> CIE \<Rightarrow> nat \<Rightarrow> ReporterCall list \<Rightarrow> ((CIE \<times> nat) option \<times> ReporterCall list) option" where
  "read_cie_sizes info cie p reps =
     (if version cie \<ge> 4 then do {
        sz \<leftarrow> ReadOneByte (buffer info) p;
        (if sz \<noteq> 8 \<and> sz \<noteq> 4 then fail (UnexpectedAddressSize (e_offset cie) sz) reps
         else do {
           seg \<leftarrow> ReadOneByte (buffer info) (p + 1);
           (if seg \<noteq> 0 then fail (UnexpectedSegmentSize (e_offset cie) seg) reps
            else Some (Some (cie\<lparr>cie_address_size := sz, segment_size := seg\<rparr>, p + 2), reps))})}
      else Some (Some (cie, p), reps))"

text \<open>The alignment factors and the return address register.\<close>

definition read_cie_factors :: "CallFrameInfo \<Rightarrow> CIE \<Rightarrow> nat \<Rightarrow> ReporterCall list \<Rightarrow> ((CIE \<times> nat) option \<times> ReporterCall list) option" where
  "read_cie_factors info cie p reps = do {
     (code, len) \<leftarrow> ReadUnsignedLEB128 (buffer info) p;
     (if bytes_from p (e_end cie) < len then incomplete cie reps
      else do {
        let p = p + len;
        (data, len) \<leftarrow> ReadSignedLEB128 (buffer info) p;
        (if bytes_from p (e_end cie) < len then incomplete cie reps
         else Some (Some (cie\<lparr>code_alignment_factor := code,
                data_alignment_factor := sint (ucast data :: u32)\<rparr>, p + len), reps))})}"

definition read_cie_return_address :: "CallFrameInfo \<Rightarrow> CIE \<Rightarrow> nat \<Rightarrow> ReporterCall list \<Rightarrow> ((CIE \<times> nat) option \<times> ReporterCall list) option" where
  "read_cie_return_address info cie p reps =
     (if version cie = 1 then
        (if p \<ge> e_end cie then incomplete cie reps
         else do {
           b \<leftarrow> ReadOneByte (buffer info) p;
           Some (Some (cie\<lparr>return_address_register := ucast b\<rparr>, p + 1), reps)})
      else do {
        (reg, len) \<leftarrow> ReadUnsignedLEB128 (buffer info) p;
        (if bytes_from p (e_end cie) < len then incomplete cie reps
         else Some (Some (cie\<lparr>return_address_register := ucast reg\<rparr>, p + len), reps))})"

text \<open>The pointer encoding at the front of the augmentation data, checked as far as the letter asks for it.\<close>

definition read_encoding ::
  "CallFrameInfo \<Rightarrow> ByteReader \<Rightarrow> bool \<Rightarrow> CIE \<Rightarrow> nat \<Rightarrow> nat \<Rightarrow> ReporterCall list \<Rightarrow> (DwarfPointerEncoding option \<times> ReporterCall list) option"
where
  "read_encoding info r use cie data data_end reps =
     (if data \<ge> data_end then incomplete cie reps
      else do {
        enc \<leftarrow> ReadOneByte (buffer info) data;
        (if \<not> ValidEncoding enc then fail (InvalidPointerEncoding (e_offset cie) enc) reps
         else if use \<and> \<not> UsableEncoding r enc then fail (UnusablePointerEncoding (e_offset cie) enc) reps
         else Some (Some enc, reps))})"

definition read_personality ::
  "CallFrameInfo \<Rightarrow> ByteReader \<Rightarrow> CIE \<Rightarrow> nat \<Rightarrow> nat \<Rightarrow> DwarfPointerEncoding \<Rightarrow> ReporterCall list \<Rightarrow> ((CIE \<times> nat) option \<times> ReporterCall list) option"
where
  "read_personality info r cie data data_end enc reps = do {
     (addr, len) \<leftarrow> ReadEncodedPointer r (buffer info) data enc;
     (if len > bytes_from data data_end then incomplete cie reps
      else Some (Some (cie\<lparr>has_z_personality := True, personality_encoding := enc, personality_address := addr\<rparr>,
             data + len), reps))}"

fun read_z_data ::
  "CallFrameInfo \<Rightarrow> ByteReader \<Rightarrow> string \<Rightarrow> CIE \<Rightarrow> nat \<Rightarrow> nat \<Rightarrow> ReporterCall list \<Rightarrow> (CIE option \<times> ReporterCall list) option"
where
  "read_z_data info r [] cie data data_end reps = Some (Some cie, reps)"
| "read_z_data info r (c # aug) cie data data_end reps =
     (if c = CHR ''L'' then
        and_then (read_encoding info r False cie data data_end reps) (\<lambda>enc.
          read_z_data info r aug (cie\<lparr>has_z_lsda := True, lsda_encoding := enc\<rparr>) (data + 1) data_end)
      else if c = CHR ''P'' then
        and_then (read_encoding info r True cie data data_end reps) (\<lambda>enc reps.
          and_then (read_personality info r cie (data + 1) data_end enc reps) (\<lambda>(cie, data).
            read_z_data info r aug cie data data_end))
      else if c = CHR ''R'' then
        and_then (read_encoding info r True cie data data_end reps) (\<lambda>enc.
          read_z_data info r aug (cie\<lparr>pointer_encoding := enc\<rparr>) (data + 1) data_end)
      else if c = CHR ''S'' then
        read_z_data info r aug (cie\<lparr>has_z_signal_frame := True\<rparr>) data data_end reps
      else fail (UnrecognizedAugmentation (e_offset cie) (augmentation cie)) reps)"

definition read_cie_z_data ::
  "CallFrameInfo \<Rightarrow> ByteReader \<Rightarrow> CIE \<Rightarrow> nat \<Rightarrow> ReporterCall list \<Rightarrow> (CIE option \<times> ReporterCall list) option"
where
  "read_cie_z_data info r cie p reps =
     (if has_z_augmentation cie then do {
        (data_size, len) \<leftarrow> ReadUnsignedLEB128 (buffer info) p;
        (if bytes_from p (e_end cie) < unat (of_nat len + data_size) then incomplete cie reps
         else do {
           let data = p + len;
           let data_end = data + unat data_size;
           check (data_end \<le> length (buffer info));
           and_then (read_z_data info r (tl (augmentation cie)) cie data data_end reps) (\<lambda>cie reps.
             Some (Some (cie\<lparr>e_instructions := data_end\<rparr>), reps))})}
      else Some (Some (cie\<lparr>e_instructions := p\<rparr>), reps))"

definition ReadCIEFields ::
  "CallFrameInfo \<Rightarrow> ByteReader \<Rightarrow> Entry \<Rightarrow> ReporterCall list \<Rightarrow> (CIE option \<times> ReporterCall list) option"
where
  "ReadCIEFields info r e reps = do {
     check (e_kind e = kCIE);
     and_then (read_cie_version info (new_cie e) (e_fields e) reps) (\<lambda>(cie, p) reps.
     and_then (read_cie_augmentation info cie p reps) (\<lambda>(cie, p) reps.
     and_then (read_cie_sizes info cie p reps) (\<lambda>(cie, p) reps.
     and_then (read_cie_factors info cie p reps) (\<lambda>(cie, p) reps.
     and_then (read_cie_return_address info cie p reps) (\<lambda>(cie, p).
     read_cie_z_data info r cie p)))))}"

definition new_fde :: "Entry \<Rightarrow> FDE" where
  "new_fde e = Entry.extend e (FDE.fields 0 0 0)"

text \<open>
  The augmentation data of an FDE. Where the encoding of the LSDA pointer cannot be used the report
  names the CIE, as in the source.
\<close>

definition read_fde_z_data ::
  "CallFrameInfo \<Rightarrow> ByteReader \<Rightarrow> CIE \<Rightarrow> FDE \<Rightarrow> nat \<Rightarrow> ReporterCall list \<Rightarrow> (FDE option \<times> ReporterCall list) option"
where
  "read_fde_z_data info r cie fde p reps =
     (if has_z_augmentation cie then do {
        (data_size, len) \<leftarrow> ReadUnsignedLEB128 (buffer info) p;
        (if bytes_from p (e_end fde) < unat (of_nat len + data_size) then incomplete fde reps
         else do {
           let data = p + len;
           let data_end = data + unat data_size;
           (if has_z_lsda cie then
              (if \<not> UsableEncoding r (lsda_encoding cie)
               then fail (UnusablePointerEncoding (e_offset cie) (lsda_encoding cie)) reps
               else do {
                 (lsda, len) \<leftarrow> ReadEncodedPointer r (buffer info) data (lsda_encoding cie);
                 (if len > unat data_size then incomplete fde reps
                  else do {
                    check (data_end \<le> length (buffer info));
                    Some (Some (fde\<lparr>lsda_address := lsda, e_instructions := data_end\<rparr>), reps)})})
            else do {
              check (data_end \<le> length (buffer info));
              Some (Some (fde\<lparr>e_instructions := data_end\<rparr>), reps)})})}
      else Some (Some (fde\<lparr>e_instructions := p\<rparr>), reps))"

definition ReadFDEFields ::
  "CallFrameInfo \<Rightarrow> ByteReader \<Rightarrow> CIE \<Rightarrow> Entry \<Rightarrow> ReporterCall list \<Rightarrow> (FDE option \<times> ByteReader \<times> ReporterCall list) option"
where
  "ReadFDEFields info r cie e reps = do {
     let p = e_fields e;
     (addr, len) \<leftarrow> ReadEncodedPointer r (buffer info) p (pointer_encoding cie);
     (if len > bytes_from p (e_end e) then Some (None, r, reps @ [Incomplete (e_offset e) (e_kind e)])
      else do {
        let p = p + len;
        let r = SetFunctionBase addr r;
        (sz, len) \<leftarrow> ReadEncodedPointer r (buffer info) p (pointer_encoding cie AND 0x0f);
        (if len > bytes_from p (e_end e) then Some (None, r, reps @ [Incomplete (e_offset e) (e_kind e)])
         else do {
           (fde, reps) \<leftarrow> read_fde_z_data info r cie ((new_fde e)\<lparr>fde_address := addr, fde_size := sz\<rparr>) (p + len) reps;
           Some (fde, r, reps)})})}"

section \<open>Start\<close>

record 'h Session =
  s_reader :: ByteReader
  s_handler :: 'h
  s_reports :: "ReporterCall list"

definition IsIndirectEncoding :: "DwarfPointerEncoding \<Rightarrow> bool" where
  "IsIndirectEncoding enc \<longleftrightarrow> enc AND 0x80 \<noteq> 0"

fun call_all :: "'h Handler \<Rightarrow> HandlerCall list \<Rightarrow> 'h \<Rightarrow> (bool \<times> 'h) option" where
  "call_all hnd [] h = Some (True, h)"
| "call_all hnd (c # cs) h = do { (ok, h) \<leftarrow> hnd c h; (if ok then call_all hnd cs h else Some (False, h)) }"

definition z_calls :: "CIE \<Rightarrow> FDE \<Rightarrow> HandlerCall list" where
  "z_calls cie fde =
     (if has_z_augmentation cie then
        (if has_z_personality cie
         then [PersonalityRoutine (personality_address cie) (IsIndirectEncoding (personality_encoding cie))] else []) @
        (if has_z_lsda cie
         then [LanguageSpecificDataArea (lsda_address fde) (IsIndirectEncoding (lsda_encoding cie))] else []) @
        (if has_z_signal_frame cie then [SignalHandler] else [])
      else [])"

definition interp_of :: "CallFrameInfo \<Rightarrow> 'h Handler \<Rightarrow> ByteReader \<Rightarrow> CIE \<Rightarrow> Entry \<Rightarrow> 'h Interp" where
  "interp_of info hnd r cie e = \<lparr>i_reader = r, i_buffer = buffer info, i_handler = hnd, i_entry = e, i_cie = cie\<rparr>"

text \<open>Interprets the instructions and reports the end of the entry, whose result is not used.\<close>

definition interpret_entry ::
  "CallFrameInfo \<Rightarrow> 'h Handler \<Rightarrow> CIE \<Rightarrow> FDE \<Rightarrow> 'h Session \<Rightarrow> (bool \<times> 'h Session) option"
where
  "interpret_entry info hnd cie fde s = do {
     let cx = interp_of info hnd (s_reader s) cie;
     (ok, st) \<leftarrow> InterpretCIE (cx (Entry.truncate cie)) (State_new (s_handler s) (s_reports s) (fde_address fde));
     (ok, st) \<leftarrow> (if ok then InterpretFDE (cx (Entry.truncate fde)) st else Some (False, st));
     (_, h) \<leftarrow> hnd End_call (handler st);
     Some (ok, \<lparr>s_reader = ClearFunctionBase (s_reader s), s_handler = h, s_reports = reports st\<rparr>)}"

text \<open>An FDE whose fields have been read: the calls of the handler, and the instructions if it is interested.\<close>

definition offer_entry ::
  "CallFrameInfo \<Rightarrow> 'h Handler \<Rightarrow> CIE \<Rightarrow> FDE \<Rightarrow> 'h Session \<Rightarrow> (bool \<times> 'h Session) option"
where
  "offer_entry info hnd cie fde s = do {
     (wanted, h) \<leftarrow> hnd (Entry_call (e_offset fde) (fde_address fde) (fde_size fde) (version cie)
        (augmentation cie) (return_address_register cie)) (s_handler s);
     (if \<not> wanted then Some (True, s\<lparr>s_handler := h\<rparr>)
      else do {
        (ok, h) \<leftarrow> call_all hnd (z_calls cie fde) h;
        (if \<not> ok then Some (False, s\<lparr>s_handler := h\<rparr>)
         else interpret_entry info hnd cie fde (s\<lparr>s_handler := h\<rparr>))})}"

definition read_fde ::
  "CallFrameInfo \<Rightarrow> 'h Handler \<Rightarrow> Entry \<Rightarrow> CIE \<Rightarrow> 'h Session \<Rightarrow> (bool \<times> 'h Session) option"
where
  "read_fde info hnd e cie s = do {
     r \<leftarrow> (if version cie \<ge> 4 then SetAddressSize (cie_address_size cie) (s_reader s) else Some (s_reader s));
     (fde, r, reps) \<leftarrow> ReadFDEFields info r cie e (s_reports s);
     let s = s\<lparr>s_reader := r, s_reports := reps\<rparr>;
     (case fde of None \<Rightarrow> Some (False, s) | Some fde \<Rightarrow> offer_entry info hnd cie fde s)}"

text \<open>The part of the loop body that deals with an FDE, and what one entry makes of the loop.\<close>

definition process_fde ::
  "CallFrameInfo \<Rightarrow> 'h Handler \<Rightarrow> Entry \<Rightarrow> 'h Session \<Rightarrow> (bool \<times> 'h Session) option"
where
  "process_fde info hnd e s =
     (if unat (e_id e) > buffer_length info
      then Some (False, s\<lparr>s_reports := s_reports s @ [CIEPointerOutOfRange (e_offset e) (e_id e)]\<rparr>)
      else do {
        (pro, r, reps) \<leftarrow> ReadEntryPrologue info (s_reader s) (unat (e_id e)) (s_reports s);
        let s = s\<lparr>s_reader := r, s_reports := reps\<rparr>;
        (case pro of
           Good_entry c \<Rightarrow>
             if e_kind c \<noteq> kCIE
             then Some (False, s\<lparr>s_reports := s_reports s @ [BadCIEId (e_offset e) (e_id e)]\<rparr>)
             else do {
               (cie, reps) \<leftarrow> ReadCIEFields info r c (s_reports s);
               let s = s\<lparr>s_reports := reps\<rparr>;
               (case cie of None \<Rightarrow> Some (False, s) | Some cie \<Rightarrow> read_fde info hnd e cie s)}
         | _ \<Rightarrow> Some (False, s))})"

datatype Outcome = Break bool | Continue bool nat

definition start_entry ::
  "CallFrameInfo \<Rightarrow> 'h Handler \<Rightarrow> nat \<Rightarrow> 'h Session \<Rightarrow> (Outcome \<times> 'h Session) option"
where
  "start_entry info hnd p s = do {
     (pro, r, reps) \<leftarrow> ReadEntryPrologue info (s_reader s) p (s_reports s);
     let s = s\<lparr>s_reader := r, s_reports := reps\<rparr>;
     (case pro of
        No_extent \<Rightarrow> Some (Break False, s)
      | Bad_entry e_stop \<Rightarrow> Some (Continue False e_stop, s)
      | Good_entry e \<Rightarrow>
          if e_kind e = kTerminator
          then Some (Break True, if e_end e < buffer_length info
                 then s\<lparr>s_reports := s_reports s @ [EarlyEHTerminator (e_offset e)]\<rparr> else s)
          else if e_kind e \<noteq> kFDE then Some (Continue True (e_end e), s)
          else do { (ok, s) \<leftarrow> process_fde info hnd e s; Some (Continue ok (e_end e), s) })}"

lemma ReadInitialLength_size: "ReadInitialLength r buf p = Some (v, len, r') \<Longrightarrow> 4 \<le> len"
  by (auto simp: ReadInitialLength_def split: bind_splits if_splits)

lemma ReadEntryPrologue_end:
  assumes "ReadEntryPrologue info r p reps = Some (pro, r', reps')"
  shows "pro = Bad_entry e_stop \<Longrightarrow> p < e_stop" and "pro = Good_entry e \<Longrightarrow> p < e_end e"
  using assms by (auto simp: ReadEntryPrologue_def Let_def new_entry_def split: bind_splits if_splits
      dest!: ReadInitialLength_size)

lemma start_entry_next: "start_entry info hnd p s = Some (Continue ok e_stop, s') \<Longrightarrow> p < e_stop"
  by (auto simp: start_entry_def Let_def split: bind_splits Prologue.splits if_splits dest: ReadEntryPrologue_end)

function start_loop ::
  "CallFrameInfo \<Rightarrow> 'h Handler \<Rightarrow> nat \<Rightarrow> bool \<Rightarrow> 'h Session \<Rightarrow> (bool \<times> 'h Session) option"
where
  "start_loop info hnd p all_ok s =
     (if p < buffer_length info then do {
        (outcome, s) \<leftarrow> start_entry info hnd p s;
        (case outcome of
           Break ok \<Rightarrow> Some (all_ok \<and> ok, s)
         | Continue ok e_stop \<Rightarrow> start_loop info hnd e_stop (all_ok \<and> ok) s)}
      else Some (all_ok, s))"
  by auto

termination
  by (relation "measure (\<lambda>(info, hnd, p, all_ok, s). buffer_length info - p)") (auto dest: start_entry_next)

declare start_loop.simps [simp del]

definition Start :: "CallFrameInfo \<Rightarrow> 'h Handler \<Rightarrow> 'h Session \<Rightarrow> (bool \<times> 'h Session) option" where
  "Start info hnd s = start_loop info hnd 0 True s"

end
