(* ===== verification/Call_Frame_Section.thy ===== *)
theory Call_Frame_Section
  imports Call_Frame_Info
begin

text \<open>
  What \<open>CallFrameInfo::Start\<close> makes of a well-formed section. The specification writes a
  \<open>.debug_frame\<close> section of 32-bit DWARF for a little-endian machine with 8-byte addresses: one CIE of
  version 1 and any number of FDEs that refer to it. The theorem is that \<open>Start\<close> reads the entries
  back and offers them to the handler in order.
\<close>

section \<open>A section\<close>

record CIE_spec =
  cs_code_factor :: u64
  cs_data_factor :: int
  cs_return_address :: u8
  cs_instructions :: "byte list"

record FDE_spec =
  fs_address :: u64
  fs_size :: u64
  fs_instructions :: "byte list"

definition cie_body :: "CIE_spec \<Rightarrow> byte list" where
  "cie_body c = put_u32 0xffffffff @ [1, 0] @ ULEB128 (cs_code_factor c) @ LEB128 (word_of_int (cs_data_factor c)) @
     [cs_return_address c] @ cs_instructions c"

definition fde_body :: "FDE_spec \<Rightarrow> byte list" where
  "fde_body f = put_u32 0 @ put_u64 (fs_address f) @ put_u64 (fs_size f) @ fs_instructions f"

definition section_bytes :: "CIE_spec \<Rightarrow> FDE_spec list \<Rightarrow> byte list" where
  "section_bytes c fs = entry_bytes (cie_body c) @ concat (map (\<lambda>f. entry_bytes (fde_body f)) fs)"

definition section_ok :: "CIE_spec \<Rightarrow> FDE_spec list \<Rightarrow> bool" where
  "section_ok c fs \<longleftrightarrow> body_ok (cie_body c) \<and> (\<forall>f\<in>set fs. body_ok (fde_body f)) \<and>
     - (2 ^ 31) \<le> cs_data_factor c \<and> cs_data_factor c < 2 ^ 31 \<and> length (section_bytes c fs) < 2 ^ 63"

text \<open>The records the parser has for the entries of the section.\<close>

definition cie_of :: "CIE_spec \<Rightarrow> CIE" where
  "cie_of c = (new_cie (new_entry 0))\<lparr>e_kind := kCIE, e_fields := 8, e_id := 0xffffffff,
     e_end := 4 + length (cie_body c), e_instructions := 4 + length (cie_body c) - length (cs_instructions c),
     version := 1, code_alignment_factor := cs_code_factor c, data_alignment_factor := cs_data_factor c,
     return_address_register := ucast (cs_return_address c)\<rparr>"

definition fde_of :: "nat \<Rightarrow> FDE_spec \<Rightarrow> FDE" where
  "fde_of p f = (new_fde (new_entry p))\<lparr>e_kind := kFDE, e_fields := p + 8, e_id := 0,
     e_end := p + 4 + length (fde_body f), e_instructions := p + 24,
     fde_address := fs_address f, fde_size := fs_size f\<rparr>"

fun offer_all ::
  "CallFrameInfo \<Rightarrow> 'h Handler \<Rightarrow> CIE \<Rightarrow> nat \<Rightarrow> FDE_spec list \<Rightarrow> bool \<Rightarrow> 'h Session \<Rightarrow> (bool \<times> 'h Session) option"
where
  "offer_all info hnd cie p [] all_ok s = Some (all_ok, s)"
| "offer_all info hnd cie p (f # fs) all_ok s = do {
     (ok, s) \<leftarrow> offer_entry info hnd cie (fde_of p f)
       (s\<lparr>s_reader := SetFunctionBase (fs_address f) (reader_in (s_reader s))\<rparr>);
     offer_all info hnd cie (p + length (entry_bytes (fde_body f))) fs (all_ok \<and> ok) s}"

section \<open>Reading it back\<close>

lemma bytes_from_le: "p \<le> q \<Longrightarrow> q < 2 ^ 64 \<Longrightarrow> bytes_from p q = q - p"
  by (simp add: bytes_from_def unat_of_nat take_bit_nat_eq_self flip: of_nat_diff)

lemma widened_id: "(ucast (i :: u32) :: u64) = 0xffffffff \<longleftrightarrow> i = 0xffffffff"
proof -
  have "unat i < 4294967296" using unsigned_less [of i] by simp
  then show ?thesis by (auto simp: word_unat_eq_iff unsigned_ucast_eq take_bit_eq_mod)
qed

lemma read_prologue:
  assumes r: "plain_reader r" and info: "buffer info = pre @ entry_bytes (put_u32 i @ body) @ rest" "\<not> eh_frame info"
    and len: "length pre + length (entry_bytes (put_u32 i @ body)) \<le> buffer_length info" "buffer_length info < 2 ^ 63"
    and ok: "body_ok (put_u32 i @ body)"
  shows "ReadEntryPrologue info r (length pre) reps =
    Some (Good_entry ((new_entry (length pre))\<lparr>e_kind := if i = 0xffffffff then kCIE else kFDE,
      e_end := length pre + 8 + length body, e_id := ucast i, e_fields := length pre + 8\<rparr>), reader_in r, reps)"
proof -
  let ?n = "4 + length body"
  have n: "unat (of_nat ?n :: u64) = ?n"
    using ok by (intro unat_small) (simp add: body_ok_def)
  have le: "length pre + 4 + ?n \<le> buffer_length info" using len(1) by (simp add: entry_bytes_def)
  have i: "ReadOffset (reader_in r) (buffer info) (length pre + 4) = Some (ucast i)"
    using ReadOffset_in [OF r, of "pre @ put_u32 (of_nat ?n)" i "body @ rest"]
    by (simp add: info entry_bytes_def)
  have b: "bytes_from (length pre) (buffer_length info) = buffer_length info - length pre"
    "bytes_from (length pre + 4) (buffer_length info) = buffer_length info - (length pre + 4)"
    "bytes_from (length pre + 4) (length pre + 4 + ?n) = ?n"
    using le len(2) by (simp_all add: bytes_from_le)
  have c: "classify info (reader_in r) (length pre + 4) (ucast i) =
      Some (if i = 0xffffffff then kCIE else kFDE, ucast i)"
    using info(2) by (simp add: classify_def reader_in_def widened_id)
  have "\<not> buffer_length info - (length pre + 4) < ?n" "\<not> buffer_length info - length pre < 4"
    using le by linarith+
  moreover have "offset_size (reader_in r) = 4" by (simp add: reader_in_def)
  ultimately show ?thesis
    using read_body_length [OF r ok, of pre rest] le n info(2) i b c
    by (simp add: ReadEntryPrologue_def info(1) new_entry_def Let_def)
qed

definition cie_fields :: "CIE_spec \<Rightarrow> byte list" where
  "cie_fields c = [1, 0] @ ULEB128 (cs_code_factor c) @ LEB128 (word_of_int (cs_data_factor c)) @
     [cs_return_address c] @ cs_instructions c"

lemma data_factor_word:
  assumes "- (2 ^ 31) \<le> (x :: int)" and "x < 2 ^ 31"
  shows "sint (word_of_int x :: u64) = x" and "sint (ucast (word_of_int x :: u64) :: u32) = x"
proof -
  show "sint (word_of_int x :: u64) = x"
    using assms by (simp add: signed_of_int signed_take_bit_int_eq_self)
  have "(ucast (word_of_int x :: u64) :: u32) = word_of_int x"
    by (simp add: unsigned_of_int word_of_int_eq_iff take_bit_take_bit)
  then show "sint (ucast (word_of_int x :: u64) :: u32) = x"
    using assms by (simp add: signed_of_int signed_take_bit_int_eq_self)
qed

lemma read_cie:
  assumes info: "buffer info = pre @ cie_fields c @ rest"
    and e: "e_kind e = kCIE" "e_fields e = length pre" "e_end e = length pre + length (cie_fields c)" "e_end e < 2 ^ 63"
    and range: "- (2 ^ 31) \<le> cs_data_factor c" "cs_data_factor c < 2 ^ 31"
  shows "ReadCIEFields info r e reps =
    Some (Some ((new_cie e)\<lparr>version := 1, code_alignment_factor := cs_code_factor c,
      data_alignment_factor := cs_data_factor c, return_address_register := ucast (cs_return_address c),
      e_instructions := e_end e - length (cs_instructions c)\<rparr>), reps)"
proof -
  let ?u = "ULEB128 (cs_code_factor c)" and ?l = "LEB128 (word_of_int (cs_data_factor c) :: u64)"
  let ?p = "length pre" and ?cie = "(new_cie e)\<lparr>version := 1\<rparr>"
  have end': "e_end e = ?p + 3 + length ?u + length ?l + length (cs_instructions c)"
    by (simp add: e cie_fields_def)
  have fields: "e_end (new_cie e) = e_end e" "has_z_augmentation (new_cie e) = False" "augmentation (new_cie e) = []"
    by (simp_all add: new_cie_def Entry.extend_def CIE.fields_def)
  have "ReadOneByte (buffer info) ?p = Some 1"
    using ReadOneByte_append [of 0 "cie_fields c" pre rest] by (simp add: info cie_fields_def)
  then have 1: "read_cie_version info (new_cie e) ?p reps = Some (Some (?cie, ?p + 1), reps)"
    by (simp add: read_cie_version_def fields end')
  have "memchr_nul (buffer info) (?p + 1) (e_end e - (?p + 1)) = Some (Some (?p + 1))"
    by (simp add: memchr_nul_def info cie_fields_def end')
  then have 2: "read_cie_augmentation info ?cie (?p + 1) reps = Some (Some (?cie, ?p + 2), reps)"
    by (simp add: read_cie_augmentation_def fields bytes_string_def)
  have 3: "read_cie_sizes info ?cie (?p + 2) reps = Some (Some (?cie, ?p + 2), reps)"
    by (simp add: read_cie_sizes_def word_le_nat_alt)
  have "ReadUnsignedLEB128 (buffer info) (?p + 2) = Some (cs_code_factor c, length ?u)"
    using ReadUnsignedLEB128_ULEB128 [of "pre @ [1, 0]" "cs_code_factor c"] by (simp add: info cie_fields_def)
  moreover have "ReadSignedLEB128 (buffer info) (?p + 2 + length ?u) = Some (word_of_int (cs_data_factor c), length ?l)"
    using ReadSignedLEB128_LEB128 [of "pre @ [1, 0] @ ?u" "word_of_int (cs_data_factor c)"] range
    by (simp add: info cie_fields_def data_factor_word)
  moreover have "bytes_from (?p + 2) (e_end e) \<ge> length ?u" "bytes_from (?p + 2 + length ?u) (e_end e) \<ge> length ?l"
    using e(4) by (simp_all add: bytes_from_le end')
  ultimately have 4: "read_cie_factors info ?cie (?p + 2) reps =
      Some (Some (?cie\<lparr>code_alignment_factor := cs_code_factor c, data_alignment_factor := cs_data_factor c\<rparr>,
        ?p + 2 + length ?u + length ?l), reps)"
    using range by (simp add: read_cie_factors_def fields data_factor_word not_less)
  have "ReadOneByte (buffer info) (?p + 2 + length ?u + length ?l) = Some (cs_return_address c)"
    using ReadOneByte_append [of 0 "[cs_return_address c]" "pre @ [1, 0] @ ?u @ ?l"] by (simp add: info cie_fields_def add.assoc)
  then have 5: "read_cie_return_address info (?cie\<lparr>code_alignment_factor := a, data_alignment_factor := d\<rparr>)
      (?p + 2 + length ?u + length ?l) reps =
      Some (Some (?cie\<lparr>code_alignment_factor := a, data_alignment_factor := d,
        return_address_register := ucast (cs_return_address c)\<rparr>, ?p + 3 + length ?u + length ?l), reps)" for a d
    by (simp add: read_cie_return_address_def fields end')
  show ?thesis
    using e(1,2) 1 2 3 4 5 by (simp add: ReadCIEFields_def and_then_def check_def read_cie_z_data_def fields end')
qed

lemma ReadEncodedPointer_plain:
  assumes "plain_reader r"
  shows "ReadEncodedPointer r (pre @ put_u64 a @ rest) (length pre) 0 = Some (a, 8)"
  using assms ReadEightBytes_put [of r pre a rest]
  by (simp add: ReadEncodedPointer_def check_def encoded_offset_def encoded_base_def plain_reader_def
      ReadAddress_def read_with_def)

lemma read_fde_fields:
  assumes r: "plain_reader r" and cie: "pointer_encoding cie = 0" "\<not> has_z_augmentation cie"
    and info: "buffer info = pre @ put_u64 a @ put_u64 n @ rest"
    and e: "e_fields e = length pre" "length pre + 16 \<le> e_end e" "e_end e < 2 ^ 63"
  shows "ReadFDEFields info r cie e reps =
    Some (Some ((new_fde e)\<lparr>fde_address := a, fde_size := n, e_instructions := length pre + 16\<rparr>),
      SetFunctionBase a r, reps)"
proof -
  have "ReadEncodedPointer r (buffer info) (length pre) 0 = Some (a, 8)"
    using ReadEncodedPointer_plain [OF r] by (simp add: info)
  moreover have "ReadEncodedPointer (SetFunctionBase a r) (buffer info) (length pre + 8) 0 = Some (n, 8)"
    using ReadEncodedPointer_plain [of "SetFunctionBase a r" "pre @ put_u64 a" n rest] r by (simp add: info)
  moreover have "\<not> bytes_from (length pre) (e_end e) < 8" "\<not> bytes_from (length pre + 8) (e_end e) < 8"
    using e(2,3) by (simp_all add: bytes_from_le)
  ultimately show ?thesis
    using cie by (simp add: ReadFDEFields_def e(1) read_fde_z_data_def)
qed

lemma offer_entry_reader:
  assumes "offer_entry info hnd cie fde s = Some (ok, s')"
  shows "plain_reader (s_reader s') = plain_reader (s_reader s)"
  using assms by (auto simp: offer_entry_def interpret_entry_def Let_def split: bind_splits if_splits)

lemma cie_body_fields: "cie_body c = put_u32 0xffffffff @ cie_fields c"
  by (simp add: cie_body_def cie_fields_def)

lemma read_section_cie:
  assumes "plain_reader r" and "buffer info = entry_bytes (cie_body c) @ rest" and "\<not> eh_frame info"
    and "length (entry_bytes (cie_body c)) \<le> buffer_length info" and "buffer_length info < 2 ^ 63"
    and "body_ok (cie_body c)"
  shows "ReadEntryPrologue info r 0 reps =
    Some (Good_entry ((new_entry 0)\<lparr>e_kind := kCIE, e_end := 8 + length (cie_fields c), e_id := 0xffffffff,
      e_fields := 8\<rparr>), reader_in r, reps)"
  using read_prologue [OF assms(1), of info "[]" "0xffffffff" "cie_fields c" rest reps] assms(2-6)
  by (simp add: cie_body_fields)

lemma read_section_cie_fields:
  assumes "buffer info = entry_bytes (cie_body c) @ rest" and "body_ok (cie_body c)"
    and "- (2 ^ 31) \<le> cs_data_factor c" "cs_data_factor c < 2 ^ 31"
  shows "ReadCIEFields info r ((new_entry 0)\<lparr>e_kind := kCIE, e_end := 8 + length (cie_fields c), e_id := 0xffffffff,
      e_fields := 8\<rparr>) reps = Some (Some (cie_of c), reps)"
proof -
  let ?pre = "put_u32 (of_nat (length (cie_body c))) @ put_u32 0xffffffff"
  have info: "buffer info = ?pre @ cie_fields c @ rest"
    using assms(1) by (simp add: entry_bytes_def cie_body_fields)
  show ?thesis
    using assms(2) by (subst read_cie [OF info _ _ _ _ assms(3,4)])
      (simp_all add: body_ok_def cie_body_fields cie_of_def new_cie_def new_entry_def Entry.extend_def CIE.fields_def)
qed

lemma start_entry_fde:
  assumes r: "plain_reader (s_reader s)" and ok: "section_ok c fs"
    and info: "buffer info = entry_bytes (cie_body c) @ before @ entry_bytes (fde_body f) @ rest" "\<not> eh_frame info"
    and len: "length (entry_bytes (cie_body c) @ before @ entry_bytes (fde_body f)) \<le> buffer_length info"
      "buffer_length info < 2 ^ 63"
    and f: "body_ok (fde_body f)"
  defines "p \<equiv> length (entry_bytes (cie_body c) @ before)"
  shows "start_entry info hnd p s = do {
     (k, t) \<leftarrow> offer_entry info hnd (cie_of c) (fde_of p f)
       (s\<lparr>s_reader := SetFunctionBase (fs_address f) (reader_in (s_reader s))\<rparr>);
     Some (Continue k (p + length (entry_bytes (fde_body f))), t)}"
proof -
  let ?pre = "entry_bytes (cie_body c) @ before" and ?r = "reader_in (s_reader s)"
  let ?body = "put_u64 (fs_address f) @ put_u64 (fs_size f) @ fs_instructions f"
  let ?e = "(new_entry p)\<lparr>e_kind := kFDE, e_end := p + 8 + length ?body, e_id := 0, e_fields := p + 8\<rparr>"
  have body: "fde_body f = put_u32 0 @ ?body" by (simp add: fde_body_def)
  have pro: "ReadEntryPrologue info (s_reader s) p (s_reports s) = Some (Good_entry ?e, ?r, s_reports s)"
    unfolding p_def using info len f read_prologue [OF r, of info ?pre 0 ?body rest "s_reports s"] by (simp add: body)
  have cpro: "ReadEntryPrologue info ?r 0 reps = Some (Good_entry ((new_entry 0)\<lparr>e_kind := kCIE,
      e_end := 8 + length (cie_fields c), e_id := 0xffffffff, e_fields := 8\<rparr>), reader_in ?r, reps)" for reps
    using ok len info r by (intro read_section_cie) (auto simp: section_ok_def)
  have cie: "ReadCIEFields info r' ((new_entry 0)\<lparr>e_kind := kCIE, e_end := 8 + length (cie_fields c),
      e_id := 0xffffffff, e_fields := 8\<rparr>) reps = Some (Some (cie_of c), reps)" for r' reps
    using ok info by (intro read_section_cie_fields) (auto simp: section_ok_def)
  have fde: "ReadFDEFields info ?r (cie_of c) ?e reps = Some (Some (fde_of p f), SetFunctionBase (fs_address f) ?r, reps)" for reps
  proof -
    have b: "buffer info = (?pre @ put_u32 (of_nat (length (fde_body f))) @ put_u32 0) @
        put_u64 (fs_address f) @ put_u64 (fs_size f) @ fs_instructions f @ rest"
      by (simp add: info entry_bytes_def body)
    show ?thesis
      using r len by (subst read_fde_fields [OF _ _ _ b])
        (simp_all add: cie_of_def new_cie_def Entry.extend_def CIE.fields_def p_def fde_of_def new_fde_def
          FDE.fields_def new_entry_def body entry_bytes_def)
  qed
  have [simp]: "reader_in ?r = ?r" by (simp add: reader_in_def)
  have "version (cie_of c) = 1" by (simp add: cie_of_def)
  then show ?thesis
    using pro cpro cie fde
    by (simp add: start_entry_def process_fde_def read_fde_def Let_def new_entry_def word_le_nat_alt entry_bytes_def body add.left_commute)
qed

lemma start_loop_fdes:
  assumes "section_ok c (fs0 @ fs)" and "buffer info = section_bytes c (fs0 @ fs) @ rest"
    and "buffer_length info = length (section_bytes c (fs0 @ fs))" and "\<not> eh_frame info"
    and "plain_reader (s_reader s)"
  defines "p \<equiv> length (section_bytes c fs0)"
  shows "start_loop info hnd p all_ok s = offer_all info hnd (cie_of c) p fs all_ok s"
  using assms(1-5) unfolding p_def
proof (induction fs arbitrary: fs0 all_ok s)
  case Nil
  then show ?case by (simp add: start_loop.simps)
next
  case (Cons f fs)
  let ?p = "length (section_bytes c fs0)"
  let ?b = "entry_bytes (fde_body f)"
  have split: "section_bytes c (fs0 @ f # fs) = entry_bytes (cie_body c) @
      concat (map (\<lambda>f. entry_bytes (fde_body f)) fs0) @ ?b @ concat (map (\<lambda>f. entry_bytes (fde_body f)) fs)"
    by (simp add: section_bytes_def)
  have less: "?p < buffer_length info"
    using Cons.prems(3) by (simp add: section_bytes_def entry_bytes_def)
  have step: "start_entry info hnd ?p s = do {
      (k, t) \<leftarrow> offer_entry info hnd (cie_of c) (fde_of ?p f)
        (s\<lparr>s_reader := SetFunctionBase (fs_address f) (reader_in (s_reader s))\<rparr>);
      Some (Continue k (?p + length ?b), t)}"
    using start_entry_fde [OF Cons.prems(5,1), of info _ f] Cons.prems
    by (simp add: split section_bytes_def section_ok_def)
  have next': "?p + length ?b = length (section_bytes c (fs0 @ [f]))" by (simp add: section_bytes_def)
  show ?case
  proof (cases "offer_entry info hnd (cie_of c) (fde_of ?p f)
      (s\<lparr>s_reader := SetFunctionBase (fs_address f) (reader_in (s_reader s))\<rparr>)")
    case None
    then show ?thesis using less step by (simp add: start_loop.simps [of info hnd ?p])
  next
    case (Some kt)
    obtain k t where kt: "kt = (k, t)" by force
    have "plain_reader (s_reader t)" using offer_entry_reader [OF Some [unfolded kt]] Cons.prems(5) by simp
    then have "start_loop info hnd (?p + length ?b) (all_ok \<and> k) t =
        offer_all info hnd (cie_of c) (?p + length ?b) fs (all_ok \<and> k) t"
      using Cons.IH [of "fs0 @ [f]" t "all_ok \<and> k"] Cons.prems by (simp add: next')
    then show ?thesis using less step Some kt by (simp add: start_loop.simps [of info hnd ?p])
  qed
qed

text \<open>
  C3: \<open>Start\<close> reads a well-formed section back. On the bytes of a CIE and any number of FDEs, whatever
  memory follows them, it offers exactly these FDEs to the handler, in order, with the start address,
  the length and the instructions that were written and the fields of their CIE, and its result is
  that of the entries together.
\<close>

theorem Start_reads_section:
  assumes "section_ok c fs" and "plain_reader (s_reader s)"
  shows "let info = \<lparr>buffer = section_bytes c fs @ rest, buffer_length = length (section_bytes c fs), eh_frame = False\<rparr>
    in Start info hnd s =
         offer_all info hnd (cie_of c) (length (section_bytes c [])) fs True
           (s\<lparr>s_reader := reader_in (s_reader s)\<rparr>)"
proof -
  define info where "info = \<lparr>buffer = section_bytes c fs @ rest, buffer_length = length (section_bytes c fs), eh_frame = False\<rparr>"
  let ?p = "length (section_bytes c [])"
  have p: "?p = 8 + length (cie_fields c)" by (simp add: section_bytes_def entry_bytes_def cie_body_fields)
  have "ReadEntryPrologue info (s_reader s) 0 (s_reports s) =
    Some (Good_entry ((new_entry 0)\<lparr>e_kind := kCIE, e_end := ?p, e_id := 0xffffffff, e_fields := 8\<rparr>),
      reader_in (s_reader s), s_reports s)"
    unfolding p using assms
    by (intro read_section_cie) (simp_all add: info_def section_bytes_def section_ok_def)
  then have "start_entry info hnd 0 s = Some (Continue True ?p, s\<lparr>s_reader := reader_in (s_reader s)\<rparr>)"
    by (simp add: start_entry_def Let_def)
  moreover have "0 < buffer_length info" by (simp add: info_def section_bytes_def entry_bytes_def)
  ultimately have "Start info hnd s = start_loop info hnd ?p True (s\<lparr>s_reader := reader_in (s_reader s)\<rparr>)"
    by (simp add: Start_def start_loop.simps [of info hnd 0])
  also have "\<dots> = offer_all info hnd (cie_of c) ?p fs True (s\<lparr>s_reader := reader_in (s_reader s)\<rparr>)"
    using start_loop_fdes [of c "[]" fs info rest "s\<lparr>s_reader := reader_in (s_reader s)\<rparr>" hnd True] assms
    by (simp add: info_def)
  finally show ?thesis by (simp add: info_def)
qed

definition example_cie :: CIE_spec where
  "example_cie = \<lparr>cs_code_factor = 1, cs_data_factor = - 8, cs_return_address = 16, cs_instructions = [0x0c, 7, 8, 0x90, 1]\<rparr>"

definition example_fdes :: "FDE_spec list" where
  "example_fdes = [\<lparr>fs_address = 0x1000, fs_size = 0x20, fs_instructions = [0x41, 0x0e, 16]\<rparr>,
     \<lparr>fs_address = 0x2000, fs_size = 8, fs_instructions = []\<rparr>]"

definition example_session :: "HandlerCall list Session" where
  "example_session = \<lparr>s_reader = the (SetAddressSize 8 (ByteReader_new ENDIANNESS_LITTLE)), s_handler = [], s_reports = []\<rparr>"

lemma example_section_bytes:
  "section_bytes example_cie example_fdes =
     [14, 0, 0, 0, 0xff, 0xff, 0xff, 0xff, 1, 0, 1, 0x78, 16, 0x0c, 7, 8, 0x90, 1,
      23, 0, 0, 0, 0, 0, 0, 0, 0, 0x10, 0, 0, 0, 0, 0, 0, 0x20, 0, 0, 0, 0, 0, 0, 0, 0x41, 0x0e, 16,
      20, 0, 0, 0, 0, 0, 0, 0, 0, 0x20, 0, 0, 0, 0, 0, 0, 8, 0, 0, 0, 0, 0, 0, 0]"
proof -
  have "ULEB128 1 = [1]" "LEB128 (word_of_int (- 8)) = [0x78]" by code_simp+
  then show ?thesis
    by (simp add: section_bytes_def example_cie_def example_fdes_def entry_bytes_def cie_body_def fde_body_def
        put_bytes byte_of_def upt_conv_Cons)
qed

theorem Start_reads_section_witness:
  "section_ok example_cie example_fdes \<and> plain_reader (s_reader example_session) \<and>
   (let info = \<lparr>buffer = section_bytes example_cie example_fdes @ [], buffer_length = length (section_bytes example_cie example_fdes), eh_frame = False\<rparr>
    in Start info recorder example_session =
         offer_all info recorder (cie_of example_cie) (length (section_bytes example_cie [])) example_fdes True
           (example_session\<lparr>s_reader := reader_in (s_reader example_session)\<rparr>) \<and>
       map_option (\<lambda>(ok, s). (ok, length (s_handler s))) (Start info recorder example_session) = Some (True, 9))"
proof -
  have "ULEB128 1 = [1]" "LEB128 (word_of_int (- 8)) = [0x78]" by code_simp+
  then have ok: "section_ok example_cie example_fdes"
    by (simp add: section_ok_def example_section_bytes)
      (simp add: body_ok_def cie_body_def fde_body_def example_cie_def example_fdes_def)
  have r: "plain_reader (s_reader example_session)" by code_simp
  have "map_option (\<lambda>(ok, s). (ok, length (s_handler s))) (Start \<lparr>buffer = section_bytes example_cie example_fdes @ [],
      buffer_length = length (section_bytes example_cie example_fdes), eh_frame = False\<rparr> recorder example_session) = Some (True, 9)"
    unfolding example_section_bytes by code_simp
  then show ?thesis
    using Start_reads_section [OF ok r, of "[]" recorder] ok r by (simp add: Let_def)
qed

end
