(* ===== verification/CFI_To_Module.thy ===== *)
theory CFI_To_Module
  imports Call_Frame_Info Symbol_Writer
begin

text \<open>
  \<open>DwarfCFIToModule\<close> (src/crash/src/main/cpp/breakpad/src/common/dwarf_cfi_to_module.{h,cc}): the handler
  that turns the rules of DWARF call frame information into the postfix rules of Breakpad's
  \<open>STACK CFI\<close> records and adds an entry to the module being dumped for each FDE.

  Its virtual functions are the cases of one handler in the sense of \<open>Call_Frame_Interpreter\<close>, its
  members a record. The reporter's messages are collected as values.
\<close>

section \<open>Model\<close>

datatype CFIReport =
    UnnamedRegister nat u32
  | UndefinedNotSupported nat string
  | ExpressionsNotSupported nat string

record CFIToModule =
  cm_module :: DumpModule
  register_names :: "string list"
  cm_reports :: "CFIReport list"
  cm_entry :: "StackFrameEntry option"
  entry_offset :: nat
  return_address :: u32
  common_strings :: "string set"

abbreviation cfa_name :: string where "cfa_name \<equiv> ''.cfa''"
abbreviation ra_name :: string where "ra_name \<equiv> ''.ra''"

definition CFIToModule_new :: "DumpModule \<Rightarrow> string list \<Rightarrow> CFIToModule" where
  "CFIToModule_new m names = \<lparr>cm_module = m, register_names = names, cm_reports = [], cm_entry = None,
     entry_offset = 0, return_address = - 1, common_strings = {}\<rparr>"

definition I386 :: "string list" where
  "I386 = [
    ''$eax'', ''$ecx'', ''$edx'', ''$ebx'', ''$esp'', ''$ebp'', ''$esi'', ''$edi'',
    ''$eip'', ''$eflags'', ''$unused1'',
    ''$st0'', ''$st1'', ''$st2'', ''$st3'', ''$st4'', ''$st5'', ''$st6'', ''$st7'',
    ''$unused2'', ''$unused3'',
    ''$xmm0'', ''$xmm1'', ''$xmm2'', ''$xmm3'', ''$xmm4'', ''$xmm5'', ''$xmm6'', ''$xmm7'',
    ''$mm0'', ''$mm1'', ''$mm2'', ''$mm3'', ''$mm4'', ''$mm5'', ''$mm6'', ''$mm7'',
    ''$fcw'', ''$fsw'', ''$mxcsr'',
    ''$es'', ''$cs'', ''$ss'', ''$ds'', ''$fs'', ''$gs'', ''$unused4'', ''$unused5'',
    ''$tr'', ''$ldtr'']"

definition X86_64 :: "string list" where
  "X86_64 = [
    ''$rax'', ''$rdx'', ''$rcx'', ''$rbx'', ''$rsi'', ''$rdi'', ''$rbp'', ''$rsp'',
    ''$r8'', ''$r9'', ''$r10'', ''$r11'', ''$r12'', ''$r13'', ''$r14'', ''$r15'',
    ''$rip'',
    ''$xmm0'', ''$xmm1'', ''$xmm2'', ''$xmm3'', ''$xmm4'', ''$xmm5'', ''$xmm6'', ''$xmm7'',
    ''$xmm8'', ''$xmm9'', ''$xmm10'', ''$xmm11'', ''$xmm12'', ''$xmm13'', ''$xmm14'', ''$xmm15'',
    ''$st0'', ''$st1'', ''$st2'', ''$st3'', ''$st4'', ''$st5'', ''$st6'', ''$st7'',
    ''$mm0'', ''$mm1'', ''$mm2'', ''$mm3'', ''$mm4'', ''$mm5'', ''$mm6'', ''$mm7'',
    ''$rflags'',
    ''$es'', ''$cs'', ''$ss'', ''$ds'', ''$fs'', ''$gs'', ''$unused1'', ''$unused2'',
    ''$fs.base'', ''$gs.base'', ''$unused3'', ''$unused4'',
    ''$tr'', ''$ldtr'',
    ''$mxcsr'', ''$fcw'', ''$fsw'']"

definition ARM :: "string list" where
  "ARM = [
    ''r0'', ''r1'', ''r2'', ''r3'', ''r4'', ''r5'', ''r6'', ''r7'',
    ''r8'', ''r9'', ''r10'', ''r11'', ''r12'', ''sp'', ''lr'', ''pc'',
    ''f0'', ''f1'', ''f2'', ''f3'', ''f4'', ''f5'', ''f6'', ''f7'',
    ''fps'', ''cpsr''] @ replicate 38 [] @ [
    ''s0'', ''s1'', ''s2'', ''s3'', ''s4'', ''s5'', ''s6'', ''s7'',
    ''s8'', ''s9'', ''s10'', ''s11'', ''s12'', ''s13'', ''s14'', ''s15'',
    ''s16'', ''s17'', ''s18'', ''s19'', ''s20'', ''s21'', ''s22'', ''s23'',
    ''s24'', ''s25'', ''s26'', ''s27'', ''s28'', ''s29'', ''s30'', ''s31'',
    ''f0'', ''f1'', ''f2'', ''f3'', ''f4'', ''f5'', ''f6'', ''f7'']"

definition ARM64 :: "string list" where
  "ARM64 = [
    ''x0'', ''x1'', ''x2'', ''x3'', ''x4'', ''x5'', ''x6'', ''x7'',
    ''x8'', ''x9'', ''x10'', ''x11'', ''x12'', ''x13'', ''x14'', ''x15'',
    ''x16'', ''x17'', ''x18'', ''x19'', ''x20'', ''x21'', ''x22'', ''x23'',
    ''x24'', ''x25'', ''x26'', ''x27'', ''x28'', ''x29'', ''x30'', ''sp''] @ replicate 32 [] @ [
    ''v0'', ''v1'', ''v2'', ''v3'', ''v4'', ''v5'', ''v6'', ''v7'',
    ''v8'', ''v9'', ''v10'', ''v11'', ''v12'', ''v13'', ''v14'', ''v15'',
    ''v16'', ''v17'', ''v18'', ''v19'', ''v20'', ''v21'', ''v22'', ''v23'',
    ''v24'', ''v25'', ''v26'', ''v27'', ''v28'', ''v29'', ''v30'', ''v31'']"

definition MIPS :: "string list" where
  "MIPS = [
    ''$zero'', ''$at'', ''$v0'', ''$v1'', ''$a0'', ''$a1'', ''$a2'', ''$a3'',
    ''$t0'', ''$t1'', ''$t2'', ''$t3'', ''$t4'', ''$t5'', ''$t6'', ''$t7'',
    ''$s0'', ''$s1'', ''$s2'', ''$s3'', ''$s4'', ''$s5'', ''$s6'', ''$s7'',
    ''$t8'', ''$t9'', ''$k0'', ''$k1'', ''$gp'', ''$sp'', ''$fp'', ''$ra'',
    ''$lo'', ''$hi'', ''$pc'', ''$f0'', ''$f2'', ''$f3'', ''$f4'', ''$f5'',
    ''$f6'', ''$f7'', ''$f8'', ''$f9'', ''$f10'', ''$f11'', ''$f12'', ''$f13'',
    ''$f14'', ''$f15'', ''$f16'', ''$f17'', ''$f18'', ''$f19'', ''$f20'',
    ''$f21'', ''$f22'', ''$f23'', ''$f24'', ''$f25'', ''$f26'', ''$f27'',
    ''$f28'', ''$f29'', ''$f30'', ''$f31'', ''$fcsr'', ''$fir'']"

definition CFI_Entry :: "nat \<Rightarrow> u64 \<Rightarrow> u64 \<Rightarrow> u32 \<Rightarrow> CFIToModule \<Rightarrow> (bool \<times> CFIToModule) option" where
  "CFI_Entry offset addr len ra st = do {
     check (cm_entry st = None);
     let init = (if unat ra < length (register_names st) then [(ra_name, register_names st ! unat ra)] else []);
     Some (True, st\<lparr>cm_entry := Some \<lparr>sfe_address = addr, sfe_size = len, initial_rules = init, rule_changes = []\<rparr>,
       entry_offset := offset, return_address := ra\<rparr>)}"

definition RegisterName :: "int \<Rightarrow> CFIToModule \<Rightarrow> (string \<times> CFIToModule) option" where
  "RegisterName i st = do {
     check (cm_entry st \<noteq> None);
     (if i < 0 then do { check (i = kCFARegister); Some (cfa_name, st) }
      else let reg = word_of_int i :: u32
           in if reg = return_address st then Some (ra_name, st)
              else if unat reg < length (register_names st) \<and> register_names st ! unat reg \<noteq> []
              then Some (register_names st ! unat reg, st)
              else Some (''unnamed_register'' @ dec (unat reg),
                     st\<lparr>cm_reports := cm_reports st @ [UnnamedRegister (entry_offset st) reg]\<rparr>))}"

text \<open>The assignments of \<open>Record\<close> to the maps of the current entry.\<close>

definition file_rule :: "u64 \<Rightarrow> string \<Rightarrow> string \<Rightarrow> StackFrameEntry \<Rightarrow> StackFrameEntry" where
  "file_rule addr name rule e =
     (if addr = sfe_address e then e\<lparr>initial_rules := std_assign name rule (initial_rules e)\<rparr>
      else e\<lparr>rule_changes := std_assign addr
             (std_assign name rule (case std_find (rule_changes e) addr of None \<Rightarrow> [] | Some m \<Rightarrow> m))
             (rule_changes e)\<rparr>)"

definition Record :: "u64 \<Rightarrow> int \<Rightarrow> string \<Rightarrow> CFIToModule \<Rightarrow> CFIToModule option" where
  "Record addr reg rule st = do {
     e \<leftarrow> cm_entry st;
     (name, st) \<leftarrow> RegisterName reg (st\<lparr>common_strings := insert rule (common_strings st)\<rparr>);
     Some (st\<lparr>cm_entry := Some (file_rule addr name rule e)\<rparr>)}"

definition CFI_Rule :: "Rule \<Rightarrow> u64 \<Rightarrow> int \<Rightarrow> CFIToModule \<Rightarrow> (bool \<times> CFIToModule) option" where
  "CFI_Rule rule addr reg st =
     (case rule of
        UndefinedRule \<Rightarrow> do {
          (name, st) \<leftarrow> RegisterName reg st;
          Some (True, st\<lparr>cm_reports := cm_reports st @ [UndefinedNotSupported (entry_offset st) name]\<rparr>)}
      | SameValueRule \<Rightarrow> do {
          (name, st) \<leftarrow> RegisterName reg st;
          st \<leftarrow> Record addr reg name st;
          Some (True, st)}
      | OffsetRule base_register offset \<Rightarrow> do {
          (name, st) \<leftarrow> RegisterName base_register st;
          st \<leftarrow> Record addr reg (name @ '' '' @ dec_of offset @ '' + ^'') st;
          Some (True, st)}
      | ValOffsetRule base_register offset \<Rightarrow> do {
          (name, st) \<leftarrow> RegisterName base_register st;
          st \<leftarrow> Record addr reg (name @ '' '' @ dec_of offset @ '' +'') st;
          Some (True, st)}
      | RegisterRule base_register \<Rightarrow> do {
          (name, st) \<leftarrow> RegisterName base_register st;
          st \<leftarrow> Record addr reg name st;
          Some (True, st)}
      | ExpressionRule e \<Rightarrow> do {
          (name, st) \<leftarrow> RegisterName reg st;
          Some (True, st\<lparr>cm_reports := cm_reports st @ [ExpressionsNotSupported (entry_offset st) name]\<rparr>)}
      | ValExpressionRule e \<Rightarrow> do {
          (name, st) \<leftarrow> RegisterName reg st;
          Some (True, st\<lparr>cm_reports := cm_reports st @ [ExpressionsNotSupported (entry_offset st) name]\<rparr>)})"

definition CFI_End :: "CFIToModule \<Rightarrow> (bool \<times> CFIToModule) option" where
  "CFI_End st = do {
     e \<leftarrow> cm_entry st;
     Some (True, st\<lparr>cm_module := AddStackFrameEntry e (cm_module st), cm_entry := None\<rparr>)}"

fun DwarfCFIToModule :: "CFIToModule Handler" where
  "DwarfCFIToModule (Entry_call offset addr len ver aug ra) st = CFI_Entry offset addr len ra st"
| "DwarfCFIToModule (Rule_call rule addr reg) st = CFI_Rule rule addr reg st"
| "DwarfCFIToModule (PersonalityRoutine addr indirect) st = Some (True, st)"
| "DwarfCFIToModule (LanguageSpecificDataArea addr indirect) st = Some (True, st)"
| "DwarfCFIToModule SignalHandler st = Some (True, st)"
| "DwarfCFIToModule End_call st = CFI_End st"

section \<open>Messages\<close>

text \<open>What the default reporters print to the standard error stream.\<close>

fun KindName :: "EntryKind \<Rightarrow> string" where
  "KindName kUnknown = ''entry''"
| "KindName kCIE = ''common information entry''"
| "KindName kFDE = ''frame description entry''"
| "KindName kTerminator = ''.eh_frame sequence terminator''"

definition quoted :: "string \<Rightarrow> string" where
  "quoted s = [CHR 0x27] @ s @ [CHR 0x27]"

definition hex2 :: "u8 \<Rightarrow> string" where
  "hex2 b = (if unat b < 16 then ''0'' else '''') @ hex (unat b)"

definition entry_text :: "EntryKind \<Rightarrow> nat \<Rightarrow> string" where
  "entry_text k offset = '': CFI '' @ KindName k @ '' at offset 0x'' @ hex offset @ '' in ''"

definition instruction_at :: "string \<Rightarrow> EntryKind \<Rightarrow> nat \<Rightarrow> string" where
  "instruction_at sect k offset = entry_text k offset @ ''section '' @ quoted sect @ '':''"

fun Report_message :: "string \<Rightarrow> ReporterCall \<Rightarrow> string" where
  "Report_message sect (Incomplete offset k) = entry_text k offset @ quoted sect @ '': entry ends early''"
| "Report_message sect (EarlyEHTerminator offset) =
     '': CFI at offset 0x'' @ hex offset @ '' in '' @ quoted sect @
     '': saw end-of-data marker before end of section contents''"
| "Report_message sect (CIEPointerOutOfRange offset cie_offset) =
     entry_text kFDE offset @ quoted sect @ '': CIE pointer is out of range: 0x'' @ hex (unat cie_offset)"
| "Report_message sect (BadCIEId offset cie_offset) =
     entry_text kFDE offset @ quoted sect @ '': CIE pointer does not point to a CIE: 0x'' @ hex (unat cie_offset)"
| "Report_message sect (UnexpectedAddressSize offset n) =
     entry_text kFDE offset @ quoted sect @ '': CIE specifies unexpected address size: '' @ dec (unat n)"
| "Report_message sect (UnexpectedSegmentSize offset n) =
     entry_text kFDE offset @ quoted sect @ '': CIE specifies unexpected segment size: '' @ dec (unat n)"
| "Report_message sect (UnrecognizedVersion offset n) =
     entry_text kFDE offset @ quoted sect @ '': CIE specifies unrecognized version: '' @ dec (unat n)"
| "Report_message sect (UnrecognizedAugmentation offset aug) =
     entry_text kFDE offset @ quoted sect @ '': CIE specifies unrecognized augmentation: '' @ quoted aug"
| "Report_message sect (InvalidPointerEncoding offset enc) =
     entry_text kCIE offset @ quoted sect @ '': '' @ quoted ''z'' @
     '' augmentation specifies invalid pointer encoding: 0x'' @ hex2 enc"
| "Report_message sect (UnusablePointerEncoding offset enc) =
     entry_text kCIE offset @ quoted sect @ '': '' @ quoted ''z'' @
     '' augmentation specifies a pointer encoding for which we have no base address: 0x'' @ hex2 enc"
| "Report_message sect (RestoreInCIE offset insn_offset) =
     entry_text kCIE offset @ quoted sect @ '': the DW_CFA_restore instruction at offset 0x'' @ hex insn_offset @
     '' cannot be used in a common information entry''"
| "Report_message sect (BadInstruction offset k insn_offset) =
     instruction_at sect k offset @ '' the instruction at offset 0x'' @ hex insn_offset @ '' is unrecognized''"
| "Report_message sect (NoCFARule offset k insn_offset) =
     instruction_at sect k offset @ '' the instruction at offset 0x'' @ hex insn_offset @
     '' assumes that a CFA rule has been set, but none has been set''"
| "Report_message sect (EmptyStateStack offset k insn_offset) =
     instruction_at sect k offset @ '' the DW_CFA_restore_state instruction at offset 0x'' @ hex insn_offset @
     '' should pop a saved state from the stack, but the stack is empty''"
| "Report_message sect (ClearingCFARule offset k insn_offset) =
     instruction_at sect k offset @ '' the DW_CFA_restore_state instruction at offset 0x'' @ hex insn_offset @
     '' would clear the CFA rule in effect''"

definition Reporter_print :: "string \<Rightarrow> string \<Rightarrow> ReporterCall \<Rightarrow> string" where
  "Reporter_print filename sect rep = filename @ Report_message sect rep @ newline"

fun CFIReport_message :: "CFIReport \<Rightarrow> string" where
  "CFIReport_message (UnnamedRegister offset reg) =
     ''the call frame entry at offset 0x'' @ hex offset @ '' refers to register '' @ dec_of (sint reg) @
     '', whose name we don'' @ [CHR 0x27] @ ''t know''"
| "CFIReport_message (UndefinedNotSupported offset reg) =
     ''the call frame entry at offset 0x'' @ hex offset @ '' sets the rule for register '' @ quoted reg @
     '' to '' @ quoted ''undefined'' @ '', but the Breakpad symbol file format cannot express this''"
| "CFIReport_message (ExpressionsNotSupported offset reg) =
     ''the call frame entry at offset 0x'' @ hex offset @
     '' uses a DWARF expression to describe how to recover register '' @ quoted reg @
     '',  but this translator cannot yet translate DWARF expressions to Breakpad postfix expressions''"

definition CFIReporter_print :: "string \<Rightarrow> string \<Rightarrow> CFIReport \<Rightarrow> string" where
  "CFIReporter_print file sect rep = file @ '', section '' @ quoted sect @ '': '' @ CFIReport_message rep @ newline"

section \<open>The rules in effect\<close>

text \<open>
  Specification: the name of a register and the text of a rule, the rules a list of calls makes
  effective at an address, and the rules an entry has there, its initial rules changed by what it
  files under the addresses up to that one.
\<close>

definition name_of :: "string list \<Rightarrow> u32 \<Rightarrow> int \<Rightarrow> string" where
  "name_of names ra i =
     (if i < 0 then cfa_name
      else if (word_of_int i :: u32) = ra then ra_name
      else if unat (word_of_int i :: u32) < length names \<and> names ! unat (word_of_int i :: u32) \<noteq> []
      then names ! unat (word_of_int i :: u32)
      else ''unnamed_register'' @ dec (unat (word_of_int i :: u32)))"

fun rule_text :: "(int \<Rightarrow> string) \<Rightarrow> int \<Rightarrow> Rule \<Rightarrow> string option" where
  "rule_text nm reg SameValueRule = Some (nm reg)"
| "rule_text nm reg (OffsetRule b offset) = Some (nm b @ '' '' @ dec_of offset @ '' + ^'')"
| "rule_text nm reg (ValOffsetRule b offset) = Some (nm b @ '' '' @ dec_of offset @ '' +'')"
| "rule_text nm reg (RegisterRule b) = Some (nm b)"
| "rule_text nm reg rule = None"

type_synonym told_rule = "u64 \<times> int \<times> Rule"

definition call_of :: "told_rule \<Rightarrow> HandlerCall" where
  "call_of = (\<lambda>(addr, reg, rule). Rule_call rule addr reg)"

definition apply_rule :: "(int \<Rightarrow> string) \<Rightarrow> told_rule \<Rightarrow> (string \<rightharpoonup> string) \<Rightarrow> (string \<rightharpoonup> string)" where
  "apply_rule nm = (\<lambda>(addr, reg, rule) m. case rule_text nm reg rule of None \<Rightarrow> m | Some t \<Rightarrow> m(nm reg \<mapsto> t))"

definition in_effect :: "StackFrameEntry \<Rightarrow> u64 \<Rightarrow> (string \<rightharpoonup> string)" where
  "in_effect e pc = fold (\<lambda>(a, m) acc. acc ++ map_of m) (filter (\<lambda>(a, m). a \<le> pc) (rule_changes e)) (map_of (initial_rules e))"

definition registers_fit :: "told_rule \<Rightarrow> bool" where
  "registers_fit = (\<lambda>(addr, reg, rule). kCFARegister \<le> reg \<and>
     (case rule of OffsetRule b off \<Rightarrow> kCFARegister \<le> b | ValOffsetRule b off \<Rightarrow> kCFARegister \<le> b
      | RegisterRule b \<Rightarrow> kCFARegister \<le> b | _ \<Rightarrow> True))"

lemma RegisterName_eq:
  assumes "cm_entry st = Some e" and "kCFARegister \<le> i"
  shows "\<exists>reps. RegisterName i st = Some (name_of (register_names st) (return_address st) i, st\<lparr>cm_reports := reps\<rparr>)"
proof (cases "i < 0")
  case True
  then have "RegisterName i st = Some (cfa_name, st\<lparr>cm_reports := cm_reports st\<rparr>)"
    using assms by (simp add: RegisterName_def check_def)
  with True show ?thesis by (auto simp: name_of_def intro!: exI [of _ "cm_reports st"])
next
  case False
  then have "\<exists>reps. RegisterName i st = Some (name_of (register_names st) (return_address st) i, st\<lparr>cm_reports := reps\<rparr>)"
    using assms(1) by (auto simp: RegisterName_def check_def name_of_def Let_def intro: exI [of _ "cm_reports st"])
  then show ?thesis .
qed

lemma map_of_std_assign: "map_of (std_assign k v m) = (map_of m)(k \<mapsto> v)"
  by (rule ext) (simp flip: std_find_map_of add: std_find_assign)

text \<open>A rule filed under an address not below the addresses so far.\<close>

definition changes_ok :: "u64 \<Rightarrow> StackFrameEntry \<Rightarrow> bool" where
  "changes_ok addr e \<longleftrightarrow> std_map_inv (rule_changes e) \<and> (\<forall>a\<in>fst ` set (rule_changes e). sfe_address e < a \<and> a \<le> addr)"

lemma std_assign_last:
  assumes "std_map_inv m" and "\<forall>k\<in>fst ` set m. k \<le> a"
  shows "\<exists>xs. (\<forall>k\<in>fst ` set xs. k < a) \<and> m = xs @ (case std_find m a of None \<Rightarrow> [] | Some v \<Rightarrow> [(a, v)]) \<and>
    (\<forall>v. std_assign a v m = xs @ [(a, v)])"
  using assms
proof (induction m)
  case (Cons p m)
  obtain k v where p: "p = (k, v)" by force
  show ?case
  proof (cases "k = a")
    case True
    with Cons.prems have "m = []" by (cases m) (auto simp: p)
    with True show ?thesis by (intro exI [of _ "[]"]) (simp add: p)
  next
    case False
    with Cons.prems have less: "k < a" by (auto simp: p)
    from Cons obtain xs where "\<forall>k\<in>fst ` set xs. k < a"
      "m = xs @ (case std_find m a of None \<Rightarrow> [] | Some v \<Rightarrow> [(a, v)])" "\<forall>v. std_assign a v m = xs @ [(a, v)]"
      by (auto simp: p)
    with less show ?thesis by (intro exI [of _ "(k, v) # xs"]) (auto simp: p)
  qed
qed simp

lemma in_effect_file_rule:
  assumes "changes_ok addr e" and "sfe_address e \<le> addr" and "sfe_address e \<le> pc"
  shows "in_effect (file_rule addr name t e) pc = (if addr \<le> pc then (in_effect e pc)(name \<mapsto> t) else in_effect e pc)"
    and "changes_ok addr (file_rule addr name t e)" and "sfe_address (file_rule addr name t e) = sfe_address e"
proof -
  show "sfe_address (file_rule addr name t e) = sfe_address e" by (simp add: file_rule_def)
  show "changes_ok addr (file_rule addr name t e)"
  proof (cases "addr = sfe_address e")
    case False
    have "\<forall>a\<in>fst ` set (std_assign addr v (rule_changes e)). sfe_address e < a \<and> a \<le> addr" for v
      unfolding std_assign_keys using assms(1,2) False by (auto simp: changes_ok_def)
    with assms(1) False show ?thesis by (auto simp: changes_ok_def file_rule_def)
  qed (use assms(1) in \<open>simp add: changes_ok_def file_rule_def\<close>)
  show "in_effect (file_rule addr name t e) pc = (if addr \<le> pc then (in_effect e pc)(name \<mapsto> t) else in_effect e pc)"
  proof (cases "addr = sfe_address e")
    case True
    then have "rule_changes e = []" using assms(1) by (cases "rule_changes e") (auto simp: changes_ok_def)
    with True assms(3) show ?thesis by (simp add: file_rule_def in_effect_def map_of_std_assign)
  next
    case False
    obtain xs where xs: "\<forall>k\<in>fst ` set xs. k < addr"
      "rule_changes e = xs @ (case std_find (rule_changes e) addr of None \<Rightarrow> [] | Some v \<Rightarrow> [(addr, v)])"
      "\<forall>v. std_assign addr v (rule_changes e) = xs @ [(addr, v)]"
      using std_assign_last [of "rule_changes e" addr] assms(1) by (auto simp: changes_ok_def)
    show ?thesis
    proof (cases "std_find (rule_changes e) addr")
      case None
      with xs(2) have e: "rule_changes e = xs" by simp
      show ?thesis using None False xs(3) by (simp add: file_rule_def in_effect_def e map_of_std_assign)
    next
      case (Some m)
      with xs(2) have e: "rule_changes e = xs @ [(addr, m)]" by simp
      show ?thesis using Some False xs(3)
        by (simp add: file_rule_def in_effect_def map_of_std_assign e)
    qed
  qed
qed

lemma CFI_Rule_files:
  assumes "cm_entry st = Some e" and "registers_fit (addr, reg, rule)"
  defines "nm \<equiv> name_of (register_names st) (return_address st)"
  shows "\<exists>st'. CFI_Rule rule addr reg st = Some (True, st') \<and> register_names st' = register_names st \<and>
    return_address st' = return_address st \<and> cm_module st' = cm_module st \<and>
    cm_entry st' = Some (case rule_text nm reg rule of None \<Rightarrow> e | Some t \<Rightarrow> file_rule addr (nm reg) t e)"
proof -
  have name: "\<exists>reps. RegisterName i t = Some (nm i, t\<lparr>cm_reports := reps\<rparr>)"
    if "kCFARegister \<le> i" "cm_entry t = Some e" "register_names t = register_names st" "return_address t = return_address st"
    for i t
    using RegisterName_eq [OF that(2,1)] that(3,4) by (simp add: nm_def)
  have filed: "\<exists>t'. Record addr reg tx t = Some t' \<and> register_names t' = register_names st \<and>
      return_address t' = return_address st \<and> cm_module t' = cm_module t \<and> cm_entry t' = Some (file_rule addr (nm reg) tx e)"
    if "cm_entry t = Some e" "register_names t = register_names st" "return_address t = return_address st" for t tx
    using name [of reg "t\<lparr>common_strings := insert tx (common_strings t)\<rparr>"] assms(2) that
    by (auto simp: Record_def registers_fit_def)
  have "kCFARegister \<le> reg" using assms(2) by (simp add: registers_fit_def)
  note names = name [OF this assms(1) refl refl]
  show ?thesis
  proof (cases rule)
    case UndefinedRule
    with names assms(1) show ?thesis by (auto simp: CFI_Rule_def)
  next
    case SameValueRule
    with names obtain reps where "RegisterName reg st = Some (nm reg, st\<lparr>cm_reports := reps\<rparr>)" by auto
    with filed [of "st\<lparr>cm_reports := reps\<rparr>" "nm reg"] assms(1) SameValueRule show ?thesis by (auto simp: CFI_Rule_def)
  next
    case (OffsetRule b off)
    with assms(1,2) name [of b st] obtain reps where "RegisterName b st = Some (nm b, st\<lparr>cm_reports := reps\<rparr>)"
      by (auto simp: registers_fit_def)
    with filed [of "st\<lparr>cm_reports := reps\<rparr>" "nm b @ '' '' @ dec_of off @ '' + ^''"] assms(1) OffsetRule show ?thesis
      by (auto simp: CFI_Rule_def)
  next
    case (ValOffsetRule b off)
    with assms(1,2) name [of b st] obtain reps where "RegisterName b st = Some (nm b, st\<lparr>cm_reports := reps\<rparr>)"
      by (auto simp: registers_fit_def)
    with filed [of "st\<lparr>cm_reports := reps\<rparr>" "nm b @ '' '' @ dec_of off @ '' +''"] assms(1) ValOffsetRule show ?thesis
      by (auto simp: CFI_Rule_def)
  next
    case (RegisterRule b)
    with assms(1,2) name [of b st] obtain reps where "RegisterName b st = Some (nm b, st\<lparr>cm_reports := reps\<rparr>)"
      by (auto simp: registers_fit_def)
    with filed [of "st\<lparr>cm_reports := reps\<rparr>" "nm b"] assms(1) RegisterRule show ?thesis by (auto simp: CFI_Rule_def)
  next
    case (ExpressionRule x)
    with names assms(1) show ?thesis by (auto simp: CFI_Rule_def)
  next
    case (ValExpressionRule x)
    with names assms(1) show ?thesis by (auto simp: CFI_Rule_def)
  qed
qed

lemma call_all_append:
  "call_all hnd (xs @ ys) h = do { (ok, h) \<leftarrow> call_all hnd xs h; (if ok then call_all hnd ys h else Some (False, h)) }"
  by (induction xs arbitrary: h) (auto split: bind_splits if_splits)

lemma sfe_size_file_rule [simp]: "sfe_size (file_rule addr name t e) = sfe_size e"
  by (simp add: file_rule_def)

lemma changes_ok_mono: "changes_ok a e \<Longrightarrow> a \<le> b \<Longrightarrow> changes_ok b e"
  by (fastforce simp: changes_ok_def)

lemma rules_filed:
  assumes "cm_entry st = Some e" and "changes_ok b e" and "sfe_address e \<le> b" and "sorted (map fst calls)"
    and "\<forall>c\<in>set calls. registers_fit c \<and> b \<le> fst c"
  defines "nm \<equiv> name_of (register_names st) (return_address st)"
  shows "\<exists>st' e'. call_all DwarfCFIToModule (map call_of calls) st = Some (True, st') \<and> cm_entry st' = Some e' \<and>
    cm_module st' = cm_module st \<and> sfe_address e' = sfe_address e \<and> sfe_size e' = sfe_size e \<and>
    (\<forall>pc \<ge> sfe_address e. in_effect e' pc = fold (apply_rule nm) (filter (\<lambda>c. fst c \<le> pc) calls) (in_effect e pc))"
  using assms(1-5) unfolding nm_def
proof (induction calls arbitrary: st e b)
  case Nil
  then show ?case by simp
next
  case (Cons c calls)
  obtain addr reg rule where c: "c = (addr, reg, rule)" by (cases c)
  let ?nm = "name_of (register_names st) (return_address st)"
  define e1 where "e1 = (case rule_text ?nm reg rule of None \<Rightarrow> e | Some t \<Rightarrow> file_rule addr (?nm reg) t e)"
  from CFI_Rule_files [OF Cons.prems(1), of addr reg rule] Cons.prems(5)
  obtain st1 where st1: "CFI_Rule rule addr reg st = Some (True, st1)" "register_names st1 = register_names st"
    "return_address st1 = return_address st" "cm_module st1 = cm_module st" "cm_entry st1 = Some e1"
    by (auto simp: c e1_def)
  have ok: "changes_ok addr e" "sfe_address e \<le> addr"
    using Cons.prems(2,3,5) changes_ok_mono [of b e addr] by (auto simp: c)
  have e1: "changes_ok addr e1" "sfe_address e1 = sfe_address e" "sfe_size e1 = sfe_size e"
    "sfe_address e \<le> pc \<Longrightarrow> in_effect e1 pc = (if addr \<le> pc then apply_rule ?nm c (in_effect e pc) else in_effect e pc)" for pc
    using in_effect_file_rule [OF ok] ok by (auto simp: e1_def c apply_rule_def split: option.split)
  have "\<exists>st' e'. call_all DwarfCFIToModule (map call_of calls) st1 = Some (True, st') \<and> cm_entry st' = Some e' \<and>
    cm_module st' = cm_module st1 \<and> sfe_address e' = sfe_address e1 \<and> sfe_size e' = sfe_size e1 \<and>
    (\<forall>pc \<ge> sfe_address e1. in_effect e' pc = fold (apply_rule ?nm) (filter (\<lambda>c. fst c \<le> pc) calls) (in_effect e1 pc))"
    using Cons.IH [OF st1(5) e1(1)] Cons.prems(4,5) ok(2) st1(2,3) e1(2) by (simp add: c)
  then show ?case using st1(1,4) e1 by (auto simp: c call_of_def)
qed

text \<open>
  C12: the entry of an FDE has the rules that were told. After the calls for an FDE whose rules come
  in the order of their addresses, the module has an entry for its range of code, and at every
  address of it the entry's rules are the translations of the rules told for the addresses up to
  there, the last one for each register name; a rule without a translation, undefined or an
  expression, leaves the one before it in effect.
\<close>

theorem DwarfCFIToModule_in_effect:
  fixes st :: CFIToModule and ra :: u32
  assumes "cm_entry st = None" and "sorted (map fst calls)"
    and "\<forall>c\<in>set calls. registers_fit c \<and> addr \<le> fst c"
  defines "nm \<equiv> name_of (register_names st) ra"
    and "init \<equiv> (if unat ra < length (register_names st) then [ra_name \<mapsto> register_names st ! unat ra] else Map.empty)"
  shows "\<exists>st' e. call_all DwarfCFIToModule (Entry_call offset addr len ver aug ra # map call_of calls @ [End_call]) st =
      Some (True, st') \<and> cm_entry st' = None \<and> cm_module st' = AddStackFrameEntry e (cm_module st) \<and>
    sfe_address e = addr \<and> sfe_size e = len \<and>
    (\<forall>pc \<ge> addr. in_effect e pc = fold (apply_rule nm) (filter (\<lambda>c. fst c \<le> pc) calls) init)"
proof -
  let ?init = "if unat ra < length (register_names st) then [(ra_name, register_names st ! unat ra)] else []"
  let ?e = "\<lparr>sfe_address = addr, sfe_size = len, initial_rules = ?init, rule_changes = []\<rparr>"
  let ?st = "st\<lparr>cm_entry := Some ?e, entry_offset := offset, return_address := ra\<rparr>"
  have "CFI_Entry offset addr len ra st = Some (True, ?st)" using assms(1) by (simp add: CFI_Entry_def check_def)
  moreover have "in_effect ?e pc = init" for pc by (simp add: in_effect_def init_def)
  moreover obtain st' e' where "call_all DwarfCFIToModule (map call_of calls) ?st = Some (True, st')"
    "cm_entry st' = Some e'" "cm_module st' = cm_module st" "sfe_address e' = addr" "sfe_size e' = len"
    "\<forall>pc \<ge> addr. in_effect e' pc = fold (apply_rule nm) (filter (\<lambda>c. fst c \<le> pc) calls) (in_effect ?e pc)"
    using rules_filed [of ?st ?e addr calls] assms(2,3) by (auto simp: changes_ok_def nm_def)
  ultimately show ?thesis
    by (intro exI [of _ "st'\<lparr>cm_module := AddStackFrameEntry e' (cm_module st'), cm_entry := None\<rparr>"] exI [of _ e'])
      (simp add: call_all_append CFI_End_def)
qed

definition example_told :: "told_rule list" where
  "example_told = [(0x1000, - 1, ValOffsetRule 7 8), (0x1000, 16, OffsetRule (- 1) (- 8)),
     (0x1001, - 1, ValOffsetRule 7 16), (0x1001, 6, OffsetRule (- 1) (- 16))]"

theorem DwarfCFIToModule_in_effect_witness:
  "\<exists>st' e. call_all DwarfCFIToModule (Entry_call 0 0x1000 0x20 1 [] 16 # map call_of example_told @ [End_call])
      (CFIToModule_new (DumpModule_new [] [] [] [] []) X86_64) = Some (True, st') \<and>
    cm_module st' = AddStackFrameEntry e (DumpModule_new [] [] [] [] []) \<and>
    in_effect e 0x1000 ''.ra'' = Some ''.cfa -8 + ^'' \<and> in_effect e 0x1000 ''.cfa'' = Some ''$rsp 8 +'' \<and>
    in_effect e 0x1010 ''.cfa'' = Some ''$rsp 16 +'' \<and> in_effect e 0x1010 ''$rbp'' = Some ''.cfa -16 + ^''"
proof -
  let ?st = "CFIToModule_new (DumpModule_new [] [] [] [] []) X86_64"
  have hyps: "cm_entry ?st = None" "sorted (map fst example_told)"
    "\<forall>c\<in>set example_told. registers_fit c \<and> 0x1000 \<le> fst c"
    by (simp_all add: CFIToModule_new_def example_told_def registers_fit_def)
  from DwarfCFIToModule_in_effect [OF hyps, of 0 "0x20" 1 "[]" 16] obtain st' e where
    e: "call_all DwarfCFIToModule (Entry_call 0 0x1000 0x20 1 [] 16 # map call_of example_told @ [End_call]) ?st = Some (True, st')"
    "cm_module st' = AddStackFrameEntry e (cm_module ?st)"
    "\<forall>pc \<ge> 0x1000. in_effect e pc = fold (apply_rule (name_of X86_64 16)) (filter (\<lambda>c. fst c \<le> pc) example_told)
       [ra_name \<mapsto> ''$rip'']"
    by (auto simp: CFIToModule_new_def X86_64_def)
  have nm: "name_of X86_64 16 (- 1) = ''.cfa''" "name_of X86_64 16 16 = ''.ra''" "name_of X86_64 16 7 = ''$rsp''"
    "name_of X86_64 16 6 = ''$rbp''"
    by (simp_all add: name_of_def X86_64_def)
  have d: "dec_of 8 = ''8''" "dec_of 16 = ''16''" "dec_of (- 8) = ''-8''" "dec_of (- 16) = ''-16''"
    by code_simp+
  have "in_effect e 0x1000 = [''.ra'' \<mapsto> ''$rip'', ''.cfa'' \<mapsto> ''$rsp 8 +'', ''.ra'' \<mapsto> ''.cfa -8 + ^'']"
    "in_effect e 0x1010 = [''.ra'' \<mapsto> ''$rip'', ''.cfa'' \<mapsto> ''$rsp 8 +'', ''.ra'' \<mapsto> ''.cfa -8 + ^'',
       ''.cfa'' \<mapsto> ''$rsp 16 +'', ''$rbp'' \<mapsto> ''.cfa -16 + ^'']"
    using e(3) by (simp_all add: example_told_def apply_rule_def nm d)
  with e(1,2) show ?thesis by (auto simp: CFIToModule_new_def)
qed

end
