(* ===== verification/Bspatch.thy ===== *)
theory Bspatch
  imports Breakpad_Prelude "HOL-Library.Monad_Syntax"
begin

text \<open>
  \<open>bspatch\<close>, the patcher of the application (src/app/src/main/cpp/bspatch.c): it makes a new file
  from an old one and a patch, a header and three compressed streams with the control triples,
  the differences to bytes of the old file and the extra bytes.

  The file system is a function from names to contents with a test whether a file can be created,
  and the allocator a test whether a block can be had. A file that could be opened can be opened
  again, sought, read and closed. What the bzip2 library decompresses is a parameter: it refuses to
  open the patch file behind a position, or the bytes there yield a stream of bytes that ends well or in
  an error. A \<open>long\<close> has 64 bits and
  is an integer; a sum outside of its range is undefined, as is a write outside of the allocated
  block, and so are the calls of \<open>vprintf\<close> with a null format and of \<open>argv[0]\<close> without arguments. The result of a run is \<^const>\<open>None\<close> when it is undefined, \<^const>\<open>Inl\<close> of the message when the
  process exits through \<open>err\<close>, and \<^const>\<open>Inr\<close> of the bytes written to the new file.
\<close>

section \<open>Model\<close>

definition long_ok :: "int \<Rightarrow> bool" where
  "long_ok y \<longleftrightarrow> - (2 ^ 63) \<le> y \<and> y < 2 ^ 63"

text \<open>The conversion of a \<open>long\<close> argument to the \<open>int\<close> parameter \<open>len\<close> of \<open>BZ2_bzRead\<close>.\<close>

definition int_argument :: "int \<Rightarrow> int" where
  "int_argument y = sint (word_of_int y :: u32)"

definition offtin :: "byte list \<Rightarrow> int" where
  "offtin buf =
     (let y = uint (buf ! 7 AND 0x7F);
          y = y * 256 + uint (buf ! 6);
          y = y * 256 + uint (buf ! 5);
          y = y * 256 + uint (buf ! 4);
          y = y * 256 + uint (buf ! 3);
          y = y * 256 + uint (buf ! 2);
          y = y * 256 + uint (buf ! 1);
          y = y * 256 + uint (buf ! 0)
      in if buf ! 7 AND 0x80 \<noteq> 0 then - y else y)"

text \<open>
  An open \<open>BZFILE\<close>: the bytes that decompression still yields, and what is behind them: the end of
  the stream, an error that is noticed when more bytes are wanted (the file ends too early), or
  one that is noticed with the last byte (the checksum of the block). \<open>BZ2_bzRead\<close> returns the
  number of bytes read, whether \<open>bzerror\<close> is \<open>BZ_OK\<close> or \<open>BZ_STREAM_END\<close>, and the bytes it puts into
  the buffer.
\<close>

datatype stream_end = StreamEnd | ErrorBehind | ErrorAtEnd

record BZFILE =
  bz_left :: "byte list"
  bz_end :: stream_end

definition can_read :: "BZFILE \<Rightarrow> nat \<Rightarrow> bool" where
  "can_read b n \<longleftrightarrow> n = 0 \<or> n < length (bz_left b) \<or> n = length (bz_left b) \<and> bz_end b \<noteq> ErrorAtEnd"

definition BZ2_bzRead :: "BZFILE \<Rightarrow> int \<Rightarrow> int \<times> bool \<times> byte list \<times> BZFILE" where
  "BZ2_bzRead b len =
     (if len < 0 then (0, False, [], b)
      else if len = 0 then (0, True, [], b)
      else if can_read b (nat len) then
        (len, True, take (nat len) (bz_left b), b\<lparr>bz_left := drop (nat len) (bz_left b)\<rparr>)
      else (if bz_end b = StreamEnd then int (length (bz_left b)) else 0, bz_end b = StreamEnd, bz_left b,
        b\<lparr>bz_left := [], bz_end := ErrorBehind\<rparr>))"

type_synonym 'a run = "(string + 'a) option"

abbreviation corrupt_patch :: "'a run" where
  "corrupt_patch \<equiv> Some (Inl ''Corrupt patch'')"

text \<open>The control triple; \<^const>\<open>None\<close> when the patch is corrupt.\<close>

definition read_offt :: "BZFILE \<Rightarrow> (int \<times> BZFILE) option" where
  "read_offt cpfbz2 = (case BZ2_bzRead cpfbz2 8 of (lenread, ok, buf, cpfbz2) \<Rightarrow>
     if lenread < 8 \<or> \<not> ok then None else Some (offtin buf, cpfbz2))"

definition read_ctrl :: "BZFILE \<Rightarrow> ((int \<times> int \<times> int) \<times> BZFILE) option" where
  "read_ctrl cpfbz2 = do {
     (ctrl0, cpfbz2) \<leftarrow> read_offt cpfbz2;
     (ctrl1, cpfbz2) \<leftarrow> read_offt cpfbz2;
     (ctrl2, cpfbz2) \<leftarrow> read_offt cpfbz2;
     Some ((ctrl0, ctrl1, ctrl2), cpfbz2) }"

text \<open>A read of \<open>c\<close> bytes to \<open>pnew + newpos\<close>, and the test of its result.\<close>

definition read_block :: "BZFILE \<Rightarrow> byte list \<Rightarrow> int \<Rightarrow> int \<Rightarrow> (byte list \<times> BZFILE) run" where
  "read_block b pnew newpos c =
     (if newpos < 0 \<or> newpos > int (length pnew) then None
      else case BZ2_bzRead b (int_argument c) of (lenread, ok, bytes, b) \<Rightarrow>
        if newpos + int (length bytes) > int (length pnew) then None
        else if lenread < c \<or> \<not> ok then corrupt_patch
        else Some (Inr (take (nat newpos) pnew @ bytes @ drop (nat newpos + length bytes) pnew, b)))"

definition add_old :: "byte list \<Rightarrow> int \<Rightarrow> int \<Rightarrow> int \<Rightarrow> byte list \<Rightarrow> byte list" where
  "add_old pold oldpos newpos c pnew =
     foldl (\<lambda>pnew i. if oldpos + int i \<ge> 0 \<and> oldpos + int i < int (length pold)
                     then pnew[nat newpos + i := pnew ! (nat newpos + i) + pold ! nat (oldpos + int i)]
                     else pnew) pnew [0..<nat c]"

lemma BZ2_bzRead_left: "BZ2_bzRead b len = (n, ok, bytes, b') \<Longrightarrow> 0 < n \<Longrightarrow> length (bz_left b') < length (bz_left b)"
  by (auto simp: BZ2_bzRead_def can_read_def split: if_splits)

lemma read_ctrl_left: "read_ctrl b = Some (c, b') \<Longrightarrow> length (bz_left b') < length (bz_left b)"
  by (auto simp: read_ctrl_def read_offt_def split: bind_splits prod.splits if_splits dest!: BZ2_bzRead_left)

function patch_loop ::
    "byte list \<Rightarrow> int \<Rightarrow> int \<Rightarrow> int \<Rightarrow> byte list \<Rightarrow> BZFILE \<Rightarrow> BZFILE \<Rightarrow> BZFILE \<Rightarrow> byte list run" where
  "patch_loop pold newsize oldpos newpos pnew cpfbz2 dpfbz2 epfbz2 =
     (if newpos < newsize then
        (case read_ctrl cpfbz2 of
           None \<Rightarrow> corrupt_patch
         | Some ((ctrl0, ctrl1, ctrl2), cpfbz2) \<Rightarrow>
             if \<not> long_ok (newpos + ctrl0) then None
             else if newpos + ctrl0 > newsize then corrupt_patch
             else (case read_block dpfbz2 pnew newpos ctrl0 of
                None \<Rightarrow> None
              | Some (Inl message) \<Rightarrow> Some (Inl message)
              | Some (Inr (pnew, dpfbz2)) \<Rightarrow>
                  let pnew = add_old pold oldpos newpos ctrl0 pnew in
                  if \<not> long_ok (oldpos + ctrl0) then None
                  else
                    let newpos = newpos + ctrl0;
                        oldpos = oldpos + ctrl0 in
                    if \<not> long_ok (newpos + ctrl1) then None
                    else if newpos + ctrl1 > newsize then corrupt_patch
                    else (case read_block epfbz2 pnew newpos ctrl1 of
                       None \<Rightarrow> None
                     | Some (Inl message) \<Rightarrow> Some (Inl message)
                     | Some (Inr (pnew, epfbz2)) \<Rightarrow>
                         if \<not> long_ok (oldpos + ctrl2) then None
                         else patch_loop pold newsize (oldpos + ctrl2) (newpos + ctrl1) pnew cpfbz2 dpfbz2 epfbz2)))
      else Some (Inr pnew))"
  by pat_completeness auto
termination
  by (relation "measure (\<lambda>(_, _, _, _, _, c, _). length (bz_left c))") (auto dest: read_ctrl_left)

declare patch_loop.simps [simp del]

abbreviation BSDIFF40 :: "byte list" where
  "BSDIFF40 \<equiv> [0x42, 0x53, 0x44, 0x49, 0x46, 0x46, 0x34, 0x30]"

text \<open>
  \<open>executePatch\<close>; its arguments are the file system, the files it can create, the decompression, which may
  fail to open a stream, the allocator with the indeterminate bytes of a new block, and \<open>argv\<close>. A seek behind
  the end of a file succeeds. When there is no memory for the new file, \<open>err\<close> is called with a null format.
\<close>

definition executePatch ::
    "(string \<Rightarrow> byte list option) \<Rightarrow> (string \<Rightarrow> bool) \<Rightarrow> (byte list \<Rightarrow> BZFILE option) \<Rightarrow> (int \<Rightarrow> bool) \<Rightarrow>
     (nat \<Rightarrow> byte list) \<Rightarrow> string list \<Rightarrow> byte list run" where
  "executePatch read_file can_create decompress can_alloc fresh argv =
     (if length argv \<noteq> 4 then (if argv = [] then None else Some (Inl ''usage''))
      else case read_file (argv ! 3) of
        None \<Rightarrow> Some (Inl ''fopen'')
      | Some patch \<Rightarrow>
          if length patch < 32 then corrupt_patch
          else if take 8 patch \<noteq> BSDIFF40 then corrupt_patch
          else
            let bzctrllen = offtin (drop 8 patch);
                bzdatalen = offtin (drop 16 patch);
                newsize = offtin (drop 24 patch) in
            if bzctrllen < 0 \<or> bzdatalen < 0 \<or> newsize < 0 then corrupt_patch
            else (case decompress (drop 32 patch) of
               None \<Rightarrow> Some (Inl ''BZ2_bzReadOpen'')
             | Some cpfbz2 \<Rightarrow>
            if \<not> long_ok (32 + bzctrllen) then None
            else (case decompress (drop (nat (32 + bzctrllen)) patch) of
               None \<Rightarrow> Some (Inl ''BZ2_bzReadOpen'')
             | Some dpfbz2 \<Rightarrow>
            if \<not> long_ok (32 + bzctrllen + bzdatalen) then None
            else (case decompress (drop (nat (32 + bzctrllen + bzdatalen)) patch) of
               None \<Rightarrow> Some (Inl ''BZ2_bzReadOpen'')
             | Some epfbz2 \<Rightarrow>
              (case read_file (argv ! 1) of
                 None \<Rightarrow> Some (Inl ''Open failed'')
               | Some pold \<Rightarrow>
                   if \<not> can_alloc (int (length pold) + 1) then Some (Inl ''Malloc failed'')
                   else if \<not> long_ok (newsize + 1) then None
                   else if \<not> can_alloc (newsize + 1) then None
                   else (case patch_loop pold newsize 0 0 (fresh (nat newsize + 1)) cpfbz2 dpfbz2 epfbz2 of
                      None \<Rightarrow> None
                    | Some (Inl message) \<Rightarrow> Some (Inl message)
                    | Some (Inr pnew) \<Rightarrow>
                        if \<not> can_create (argv ! 2) then Some (Inl ''Create failed'')
                        else Some (Inr (take (nat newsize) pnew))))))))"

section \<open>Numbers\<close>

text \<open>The format of a number in a patch: its magnitude in little-endian order, the top bit the sign.\<close>

definition offt_bytes :: "int \<Rightarrow> byte list" where
  "offt_bytes v = (let n = nat \<bar>v\<bar> in
     map (\<lambda>k. word_of_nat (n div 256 ^ k)) [0..<7] @
     [word_of_nat (n div 256 ^ 7) OR (if v < 0 then 0x80 else 0)])"

lemma length_offt_bytes [simp]: "length (offt_bytes v) = 8"
  by (simp add: offt_bytes_def Let_def)

lemma uint_byte: "uint (word_of_nat m :: byte) = int m mod 256"
  by (simp add: unsigned_of_nat take_bit_eq_mod zmod_int)

lemma low_byte:
  assumes "t < 128"
  shows "(word_of_nat t :: byte) AND 0x7F = word_of_nat t" "(word_of_nat t OR 0x80 :: byte) AND 0x7F = word_of_nat t"
    "(word_of_nat t :: byte) AND 0x80 = 0" "(word_of_nat t OR 0x80 :: byte) AND 0x80 \<noteq> 0"
proof -
  let ?w = "word_of_nat t :: byte"
  have m: "x AND 0x7F = take_bit 7 x" for x :: byte
    by (simp add: take_bit_eq_mask mask_eq_exp_minus_1)
  have "unat (take_bit 7 ?w) = unat ?w"
    using assms unfolding unsigned_take_bit_eq by (simp add: unat_of_nat take_bit_eq_mod)
  then have t: "take_bit 7 ?w = ?w" by (simp only: word_unat_eq_iff)
  show "?w AND 0x7F = ?w" using t by (simp add: m)
  have "(?w OR 0x80) AND 0x7F = (?w AND 0x7F) OR (0x80 AND 0x7F)" by (simp only: bit.conj_disj_distrib2)
  also have "\<dots> = ?w" using t by (simp add: m)
  finally show "(?w OR 0x80) AND 0x7F = ?w" .
  have "?w AND 0x80 = (?w AND 0x7F) AND 0x80" using t by (simp add: m)
  also have "\<dots> = ?w AND (0x7F AND 0x80)" by (simp only: and.assoc)
  finally show z: "?w AND 0x80 = 0" by simp
  have "(?w OR 0x80) AND 0x80 = (0x80 :: byte)" by (simp add: bit.conj_disj_distrib2 z)
  then show "(?w OR 0x80) AND 0x80 \<noteq> 0" by simp
qed

lemma horner_256: "int (n div 256 ^ Suc k) * 256 + int (n div 256 ^ k) mod 256 = int (n div 256 ^ k)"
proof -
  have "n div 256 ^ Suc k = n div 256 ^ k div 256" unfolding power_Suc2 by (rule div_mult2_eq)
  then show ?thesis by (simp add: zdiv_int)
qed

lemma offtin_horner:
  assumes "\<And>k. k < 7 \<Longrightarrow> uint (buf ! k) = q k mod 256" and "uint (buf ! 7 AND 0x7F) = q 7"
    and "\<And>k. q (Suc k) * 256 + q k mod 256 = q k"
  shows "offtin buf = (if buf ! 7 AND 0x80 \<noteq> 0 then - q 0 else q 0)"
proof -
  have step: "q (k + 1) * 256 + uint (buf ! k) = q k" if "k < 7" for k
    using assms(1) [OF that] assms(3) [of k] by simp
  show ?thesis
    unfolding offtin_def Let_def assms(2)
    using step [of 6] step [of 5] step [of 4] step [of 3] step [of 2] step [of 1] step [of 0]
    by (simp flip: numeral_2_eq_2)
qed

lemma offtin_bytes:
  assumes "\<bar>v\<bar> < 2 ^ 63" shows "offtin (offt_bytes v @ rest) = v"
proof -
  define q where "q k = nat \<bar>v\<bar> div 256 ^ k" for k
  have "nat \<bar>v\<bar> < 2 ^ 63" using assms by (simp add: nat_less_iff)
  then have top: "q 7 < 128" by (simp add: q_def div_less_iff_less_mult)
  let ?b = "offt_bytes v @ rest"
  have seven: "?b ! 7 = word_of_nat (q 7) OR (if v < 0 then 0x80 else 0)"
    by (simp add: offt_bytes_def Let_def nth_append q_def)
  have "uint (?b ! k) = int (q k) mod 256" if "k < 7" for k
    using that by (simp add: offt_bytes_def Let_def nth_append q_def uint_byte)
  moreover have "uint (?b ! 7 AND 0x7F) = int (q 7)"
    unfolding seven using low_byte [OF top] top by (simp add: uint_byte)
  moreover have "int (q (Suc k)) * 256 + int (q k) mod 256 = int (q k)" for k
    unfolding q_def by (rule horner_256)
  ultimately have "offtin ?b = (if ?b ! 7 AND 0x80 \<noteq> 0 then - int (q 0) else int (q 0))"
    by (rule offtin_horner)
  moreover have "?b ! 7 AND 0x80 \<noteq> 0 \<longleftrightarrow> v < 0"
    unfolding seven using low_byte [OF top] by simp
  ultimately show ?thesis by (simp add: q_def)
qed

lemma int_argument_id: "\<bar>c\<bar> < 2 ^ 31 \<Longrightarrow> int_argument c = c"
  unfolding int_argument_def abs_less_iff
  by (simp add: signed_of_int signed_take_bit_int_eq_self_iff)

section \<open>What a patch means\<close>

text \<open>
  The format comment of the source as a function: each triple \<open>(x, y, z)\<close> adds \<open>x\<close> bytes of the old
  file to \<open>x\<close> bytes of the diff block, copies \<open>y\<close> bytes of the extra block and seeks forwards in the
  old file by \<open>z\<close>. Bytes outside of the old file count as zero.
\<close>

type_synonym triple = "nat \<times> nat \<times> int"

definition old_byte :: "byte list \<Rightarrow> int \<Rightarrow> byte" where
  "old_byte pold p = (if 0 \<le> p \<and> p < int (length pold) then pold ! nat p else 0)"

definition add_bytes :: "byte list \<Rightarrow> int \<Rightarrow> byte list \<Rightarrow> byte list" where
  "add_bytes pold pos d = map (\<lambda>i. d ! i + old_byte pold (pos + int i)) [0..<length d]"

fun apply_patch :: "byte list \<Rightarrow> int \<Rightarrow> triple list \<Rightarrow> byte list \<Rightarrow> byte list \<Rightarrow> byte list" where
  "apply_patch pold pos [] d e = []"
| "apply_patch pold pos ((x, y, z) # cs) d e =
     add_bytes pold pos (take x d) @ take y e @ apply_patch pold (pos + int x + z) cs (drop x d) (drop y e)"

definition triple_bytes :: "triple \<Rightarrow> byte list" where
  "triple_bytes t = (case t of (x, y, z) \<Rightarrow> offt_bytes (int x) @ offt_bytes (int y) @ offt_bytes z)"

abbreviation diff_len :: "triple list \<Rightarrow> nat" where
  "diff_len cs \<equiv> sum_list (map fst cs)"

abbreviation extra_len :: "triple list \<Rightarrow> nat" where
  "extra_len cs \<equiv> sum_list (map (fst \<circ> snd) cs)"

definition small_triple :: "triple \<Rightarrow> bool" where
  "small_triple t = (case t of (x, y, z) \<Rightarrow> x < 2 ^ 31 \<and> y < 2 ^ 31 \<and> \<bar>z\<bar> < 2 ^ 31)"

section \<open>The steps of the loop\<close>

lemma length_add_bytes [simp]: "length (add_bytes pold pos d) = length d"
  by (simp add: add_bytes_def)

lemma add_bytes_snoc:
  "add_bytes pold pos (d @ [b]) = add_bytes pold pos d @ [b + old_byte pold (pos + int (length d))]"
  by (simp add: add_bytes_def nth_append)

lemma add_old_correct:
  assumes "newpos = int (length pre)" and "c = int (length d)"
  shows "add_old pold oldpos newpos c (pre @ d @ post) = pre @ add_bytes pold oldpos d @ post"
  using assms(2)
proof (induction d arbitrary: c post rule: rev_induct)
  case Nil
  then show ?case by (simp add: add_old_def add_bytes_def)
next
  case (snoc b d)
  have "add_old pold oldpos newpos (int (length d)) (pre @ d @ b # post) =
      pre @ add_bytes pold oldpos d @ b # post"
    using snoc.IH [of "int (length d)" "b # post"] by simp
  moreover have "nat c = Suc (length d)" using snoc.prems by simp
  ultimately show ?case
    using assms(1) by (simp add: add_old_def add_bytes_snoc old_byte_def nth_append list_update_append)
qed

lemma read_offt_bytes:
  assumes "bz_left b = offt_bytes v @ rest" and "\<bar>v\<bar> < 2 ^ 63" and "rest = [] \<longrightarrow> bz_end b \<noteq> ErrorAtEnd"
  shows "read_offt b = Some (v, b\<lparr>bz_left := rest\<rparr>)"
  using assms offtin_bytes [of v "[]"] by (auto simp: read_offt_def BZ2_bzRead_def can_read_def)

lemma offt_bytes_not_Nil [simp]: "offt_bytes v \<noteq> []"
  using length_offt_bytes [of v] by (metis list.size(3) zero_neq_numeral)

lemma read_ctrl_triple:
  assumes "bz_left b = triple_bytes (x, y, z) @ rest" and "small_triple (x, y, z)" and "rest = [] \<longrightarrow> bz_end b \<noteq> ErrorAtEnd"
  shows "read_ctrl b = Some ((int x, int y, z), b\<lparr>bz_left := rest\<rparr>)"
proof -
  have v: "\<bar>int x\<bar> < 2 ^ 63" "\<bar>int y\<bar> < 2 ^ 63" "\<bar>z\<bar> < 2 ^ 63"
    using assms(2) by (simp_all add: small_triple_def)
  have l: "bz_left b = offt_bytes (int x) @ offt_bytes (int y) @ offt_bytes z @ rest"
    using assms(1) by (simp add: triple_bytes_def)
  show ?thesis
    unfolding read_ctrl_def read_offt_bytes [OF l v(1), simplified]
    using assms(3) by (simp add: read_offt_bytes [OF _ v(2)] read_offt_bytes [OF _ v(3)])
qed

lemma read_block_ok:
  assumes "newpos = int (length pre)" and "n < 2 ^ 31" and "can_read b n"
    and "length old = n"
  shows "read_block b (pre @ old @ post) newpos (int n) =
    Some (Inr (pre @ take n (bz_left b) @ post, b\<lparr>bz_left := drop n (bz_left b)\<rparr>))"
proof -
  have "int_argument (int n) = int n" using assms(2) by (simp add: int_argument_id)
  moreover have "n \<le> length (bz_left b)" using assms(3) by (auto simp: can_read_def)
  ultimately show ?thesis using assms by (auto simp: read_block_def BZ2_bzRead_def)
qed

lemma can_read_add:
  assumes "can_read b (m + n)"
  shows "can_read b m" and "can_read (b\<lparr>bz_left := drop m (bz_left b)\<rparr>) n" and "m + n \<le> length (bz_left b)"
  using assms by (auto simp: can_read_def)

section \<open>The loop\<close>

lemma patch_loop_triples:
  assumes "\<forall>t\<in>set cs. small_triple t" and "\<bar>oldpos\<bar> + int (length cs) * 2 ^ 32 < 2 ^ 63"
    and "length out + length rest = n + 1" and "length out + diff_len cs + extra_len cs = n" and "n < 2 ^ 62"
    and "bz_left c = concat (map triple_bytes cs) @ junk" and "bz_end c \<noteq> ErrorAtEnd"
    and "can_read d (diff_len cs)" and "can_read e (extra_len cs)"
  shows "\<exists>tl. patch_loop pold (int n) oldpos (int (length out)) (out @ rest) c d e =
    Some (Inr (out @ apply_patch pold oldpos cs (bz_left d) (bz_left e) @ tl)) \<and> length tl = 1"
  using assms
proof (induction cs arbitrary: oldpos out rest c d e)
  case Nil
  then show ?case by (simp add: patch_loop.simps)
next
  case (Cons t cs)
  obtain x y z where t: "t = (x, y, z)" by (cases t)
  show ?case
  proof (cases "length out < n")
    case False
    then have "x = 0 \<and> y = 0 \<and> diff_len cs = 0 \<and> extra_len cs = 0"
      using Cons.prems(4) unfolding t list.map sum_list.Cons comp_def fst_conv snd_conv by linarith
    moreover have "apply_patch pold p cs d e = []" if "diff_len cs = 0" "extra_len cs = 0" for p d e
      using that by (induction cs arbitrary: p d e) (auto simp: add_bytes_def)
    ultimately show ?thesis using False Cons.prems(3,4) by (simp add: t patch_loop.simps add_bytes_def)
  next
    case True
    let ?dl = "bz_left d" and ?el = "bz_left e"
    let ?A = "add_bytes pold oldpos (take x ?dl)" and ?E = "take y ?el"
    let ?c = "c\<lparr>bz_left := concat (map triple_bytes cs) @ junk\<rparr>"
    let ?d = "d\<lparr>bz_left := drop x ?dl\<rparr>" and ?e = "e\<lparr>bz_left := drop y ?el\<rparr>"
    have sm: "x < 2 ^ 31" "y < 2 ^ 31" "\<bar>z\<bar> < 2 ^ 31" "small_triple (x, y, z)"
      using Cons.prems(1) by (simp_all add: t small_triple_def)
    have all: "can_read d (x + diff_len cs)" "can_read e (y + extra_len cs)"
      using Cons.prems(8,9) by (simp_all only: t list.map sum_list.Cons comp_def fst_conv snd_conv)
    note fits = can_read_add [OF all(1)] can_read_add [OF all(2)]
    have len: "x \<le> length ?dl" "y \<le> length ?el" using fits(3,6) by simp_all
    obtain r1 r2 r3 where r: "rest = r1 @ r2 @ r3" "length r1 = x" "length r2 = y"
    proof
      show "rest = take x rest @ take y (drop x rest) @ drop y (drop x rest)" by (simp only: append_take_drop_id)
    qed (use Cons.prems(3,4) in \<open>simp_all add: t\<close>)
    have ctrl: "read_ctrl c = Some ((int x, int y, z), ?c)"
      by (rule read_ctrl_triple [OF _ sm(4)]) (simp_all add: Cons.prems(6,7) t)
    have diff: "read_block d (out @ rest) (int (length out)) (int x) = Some (Inr (out @ take x ?dl @ r2 @ r3, ?d))"
      unfolding r(1) by (rule read_block_ok) (use sm fits r(2) in simp_all)
    have add: "add_old pold oldpos (int (length out)) (int x) (out @ take x ?dl @ r2 @ r3) = (out @ ?A) @ r2 @ r3"
      by (subst add_old_correct) (simp_all add: len)
    have extra: "read_block e ((out @ ?A) @ r2 @ r3) (int (length out) + int x) (int y) =
        Some (Inr ((out @ ?A) @ ?E @ r3, ?e))"
      by (rule read_block_ok) (use sm len fits r(3) in simp_all)
    have ok: "long_ok (int (length out) + int x)" "long_ok (oldpos + int x)"
        "long_ok (int (length out) + int x + int y)" "long_ok (oldpos + int x + z)"
        "int (length out) + int x \<le> int n" "int (length out) + int x + int y \<le> int n"
      using Cons.prems(2,4,5) sm by (auto simp: t long_ok_def)
    have "patch_loop pold (int n) oldpos (int (length out)) (out @ rest) c d e =
        patch_loop pold (int n) (oldpos + int x + z) (int (length out) + int x + int y) ((out @ ?A) @ ?E @ r3) ?c ?d ?e"
      using True ok by (subst patch_loop.simps) (simp add: ctrl diff add extra Let_def del: append_assoc)
    moreover have "\<exists>tl. patch_loop pold (int n) (oldpos + int x + z) (int (length (out @ ?A @ ?E)))
        ((out @ ?A @ ?E) @ r3) ?c ?d ?e = Some (Inr ((out @ ?A @ ?E) @
          apply_patch pold (oldpos + int x + z) cs (bz_left ?d) (bz_left ?e) @ tl)) \<and> length tl = 1"
      by (rule Cons.IH) (use Cons.prems sm len fits r in \<open>auto simp: t comp_def\<close>)
    ultimately show ?thesis using len by (simp add: t add.assoc)
  qed
qed

section \<open>Control values that fit an \<open>int\<close>\<close>

definition ctrl_fits :: "byte list \<Rightarrow> bool" where
  "ctrl_fits bs \<longleftrightarrow> (\<forall>i < length bs div 8. \<bar>offtin (take 8 (drop (8 * i) bs))\<bar> < 2 ^ 31)"

lemma ctrl_fits_drop: "ctrl_fits bs \<Longrightarrow> ctrl_fits (drop 8 bs)"
  unfolding ctrl_fits_def
proof (intro allI impI)
  fix i
  assume *: "\<forall>i < length bs div 8. \<bar>offtin (take 8 (drop (8 * i) bs))\<bar> < 2 ^ 31" and "i < length (drop 8 bs) div 8"
  then have "Suc i < length bs div 8" by simp
  with * have "\<bar>offtin (take 8 (drop (8 * Suc i) bs))\<bar> < 2 ^ 31" by blast
  then show "\<bar>offtin (take 8 (drop (8 * i) (drop 8 bs)))\<bar> < 2 ^ 31" by (simp add: add.commute)
qed

lemma read_offt_fits:
  assumes "read_offt b = Some (v, b')" and "ctrl_fits (bz_left b)"
  shows "\<bar>v\<bar> < 2 ^ 31 \<and> ctrl_fits (bz_left b') \<and> length (bz_left b') < length (bz_left b)"
proof -
  have len: "8 \<le> length (bz_left b)" and v: "v = offtin (take 8 (bz_left b))" and b': "bz_left b' = drop 8 (bz_left b)"
    using assms(1) by (auto simp: read_offt_def BZ2_bzRead_def can_read_def split: if_splits)
  have "0 < length (bz_left b) div 8" using len by (simp add: div_greater_zero_iff)
  with assms(2) have "\<bar>v\<bar> < 2 ^ 31" unfolding ctrl_fits_def v by (metis drop0 mult_0_right)
  then show ?thesis using len ctrl_fits_drop [OF assms(2)] by (simp add: b')
qed

lemma read_ctrl_fits:
  assumes "read_ctrl b = Some ((c0, c1, c2), b')" and "ctrl_fits (bz_left b)"
  shows "\<bar>c0\<bar> < 2 ^ 31 \<and> \<bar>c1\<bar> < 2 ^ 31 \<and> \<bar>c2\<bar> < 2 ^ 31 \<and> ctrl_fits (bz_left b') \<and>
    length (bz_left b') < length (bz_left b)"
proof -
  obtain b1 b2 where "read_offt b = Some (c0, b1)" "read_offt b1 = Some (c1, b2)" "read_offt b2 = Some (c2, b')"
    using assms(1) by (auto simp: read_ctrl_def split: bind_splits)
  then show ?thesis using assms(2) by (meson read_offt_fits less_trans)
qed

lemma guarded_read_cases:
  assumes "\<bar>c\<bar> < 2 ^ 31" and "0 \<le> newpos" and "newpos \<le> newsize" and "int (length pnew) = newsize + 1"
  obtains (guard) "newsize < newpos + c"
    | (bad) "newpos + c \<le> newsize" "read_block b pnew newpos c = corrupt_patch"
    | (good) pnew' b' where "newpos + c \<le> newsize" "read_block b pnew newpos c = Some (Inr (pnew', b'))"
        "length pnew' = length pnew" "0 \<le> c"
proof (cases "newpos + c \<le> newsize \<and> read_block b pnew newpos c \<noteq> corrupt_patch")
  case True
  have "int_argument c = c" using assms(1) by (rule int_argument_id)
  then have "\<exists>pnew' b'. read_block b pnew newpos c = Some (Inr (pnew', b')) \<and> length pnew' = length pnew \<and> 0 \<le> c"
    using True assms(2-4) by (auto simp: read_block_def BZ2_bzRead_def can_read_def split: if_splits)
  with True good show thesis by blast
qed (use guard bad in fastforce)

lemma length_add_old [simp]: "length (add_old pold oldpos newpos c pnew) = length pnew"
proof -
  have "length (foldl (\<lambda>pnew i. if P i then pnew[f i := g pnew i] else pnew) pnew ks) = length pnew" for P f g ks
    by (induction ks arbitrary: pnew) auto
  then show ?thesis by (simp add: add_old_def)
qed

definition patch_state_ok :: "int \<Rightarrow> int \<Rightarrow> int \<Rightarrow> byte list \<Rightarrow> BZFILE \<Rightarrow> bool" where
  "patch_state_ok newsize oldpos newpos pnew c \<longleftrightarrow>
     ctrl_fits (bz_left c) \<and> \<bar>oldpos\<bar> + int (length (bz_left c)) * 2 ^ 32 < 2 ^ 63 \<and>
     0 \<le> newpos \<and> newpos \<le> newsize \<and> int (length pnew) = newsize + 1 \<and> newsize < 2 ^ 62"

lemma patch_loop_step:
  assumes inv: "patch_state_ok newsize oldpos newpos pnew c" and "newpos < newsize"
  obtains (corrupt) "patch_loop pold newsize oldpos newpos pnew c d e = corrupt_patch"
    | (step) oldpos' newpos' pnew' c' d' e' where
        "patch_loop pold newsize oldpos newpos pnew c d e = patch_loop pold newsize oldpos' newpos' pnew' c' d' e'"
        "patch_state_ok newsize oldpos' newpos' pnew' c'" "length (bz_left c') < length (bz_left c)"
proof (cases "read_ctrl c")
  case None
  with assms(2) have "patch_loop pold newsize oldpos newpos pnew c d e = corrupt_patch"
    by (subst patch_loop.simps) simp
  then show thesis by (rule corrupt)
next
  case (Some q)
  obtain c0 c1 c2 c' where ctrl: "read_ctrl c = Some ((c0, c1, c2), c')" using Some by (cases q) auto
  note st = inv [unfolded patch_state_ok_def]
  have fits: "\<bar>c0\<bar> < 2 ^ 31" "\<bar>c1\<bar> < 2 ^ 31" "\<bar>c2\<bar> < 2 ^ 31" "ctrl_fits (bz_left c')"
      "length (bz_left c') < length (bz_left c)"
    using read_ctrl_fits [OF ctrl] st by auto
  have old: "\<bar>oldpos\<bar> + int (length (bz_left c')) * 2 ^ 32 + 2 ^ 32 < 2 ^ 63" using st fits(5) by simp
  have ok: "long_ok (newpos + c0)" "long_ok (oldpos + c0)" "long_ok (oldpos + c0 + c2)"
    "newpos + c0 \<le> newsize \<Longrightarrow> long_ok (newpos + c0 + c1)"
    using st fits(1-3) old by (auto simp: long_ok_def)
  note body = patch_loop.simps [of pold newsize oldpos newpos pnew c d e]
  note run = body ctrl Let_def ok assms(2)
  from fits(1) st have "newsize < newpos + c0 \<or> newpos + c0 \<le> newsize \<and> read_block d pnew newpos c0 = corrupt_patch \<or>
      (\<exists>p d'. newpos + c0 \<le> newsize \<and> read_block d pnew newpos c0 = Some (Inr (p, d')) \<and> length p = length pnew \<and> 0 \<le> c0)"
    by (metis guarded_read_cases)
  then consider (guard) "newsize < newpos + c0" | (bad) "newpos + c0 \<le> newsize" "read_block d pnew newpos c0 = corrupt_patch"
    | (good) p d' where "newpos + c0 \<le> newsize" "read_block d pnew newpos c0 = Some (Inr (p, d'))"
        "length p = length pnew" "0 \<le> c0" by blast
  then show thesis
  proof cases
    case guard
    then show thesis by (intro corrupt) (simp add: run)
  next
    case bad
    then show thesis by (intro corrupt) (simp add: run)
  next
    case first: (good p d')
    let ?p = "add_old pold oldpos newpos c0 p"
    have pos: "0 \<le> newpos + c0" and len: "int (length ?p) = newsize + 1" using st first by auto
    show thesis
    proof (cases rule: guarded_read_cases [OF fits(2) pos first(1) len, where b = e, case_names guard bad good])
      case guard
      then show thesis using first by (intro corrupt) (simp add: run)
    next
      case bad
      then show thesis using first by (intro corrupt) (simp add: run)
    next
      case (good p' e')
      show thesis
      proof (rule step)
        show "patch_loop pold newsize oldpos newpos pnew c d e =
            patch_loop pold newsize (oldpos + c0 + c2) (newpos + c0 + c1) p' c' d' e'"
          using first good by (simp add: run)
        show "patch_state_ok newsize (oldpos + c0 + c2) (newpos + c0 + c1) p' c'"
          using st first good fits old by (auto simp: patch_state_ok_def)
      qed (rule fits(5))
    qed
  qed
qed

lemma patch_loop_defined:
  assumes "patch_state_ok newsize oldpos newpos pnew c"
  shows "\<exists>r. patch_loop pold newsize oldpos newpos pnew c d e = Some r \<and>
    (\<forall>p. r = Inr p \<longrightarrow> int (length p) = newsize + 1)"
  using assms
proof (induction "length (bz_left c)" arbitrary: c oldpos newpos pnew d e rule: less_induct)
  case less
  show ?case
  proof (cases "newpos < newsize")
    case False
    then show ?thesis using less.prems by (simp add: patch_loop.simps patch_state_ok_def)
  next
    case True
    with less.prems show ?thesis
      by (cases rule: patch_loop_step [where pold = pold and d = d and e = e, case_names a b corrupt step])
        (auto intro: less.hyps)
  qed
qed

section \<open>Patch files\<close>

text \<open>The file format that the comment in \<open>executePatch\<close> gives.\<close>

definition patch_file :: "byte list \<Rightarrow> byte list \<Rightarrow> byte list \<Rightarrow> nat \<Rightarrow> byte list" where
  "patch_file c d e n =
     BSDIFF40 @ offt_bytes (int (length c)) @ offt_bytes (int (length d)) @ offt_bytes (int n) @ c @ d @ e"

lemma patch_file_sections:
  "32 \<le> length (patch_file c d e n)" "take 8 (patch_file c d e n) = BSDIFF40"
  "drop 8 (patch_file c d e n) =
     offt_bytes (int (length c)) @ offt_bytes (int (length d)) @ offt_bytes (int n) @ c @ d @ e"
  "drop 16 (patch_file c d e n) = offt_bytes (int (length d)) @ offt_bytes (int n) @ c @ d @ e"
  "drop 24 (patch_file c d e n) = offt_bytes (int n) @ c @ d @ e"
  "drop 32 (patch_file c d e n) = c @ d @ e"
  by (simp_all add: patch_file_def)

lemma patch_file_blocks:
  "drop (nat (32 + int (length c))) (patch_file c d e n) = d @ e"
  "drop (nat (32 + int (length c) + int (length d))) (patch_file c d e n) = e"
proof -
  have "drop (32 + length c) (patch_file c d e n) = drop (length c) (drop 32 (patch_file c d e n))"
    "drop (32 + length c + length d) (patch_file c d e n) = drop (length c + length d) (drop 32 (patch_file c d e n))"
    by (simp_all add: ac_simps)
  then show "drop (nat (32 + int (length c))) (patch_file c d e n) = d @ e"
    "drop (nat (32 + int (length c) + int (length d))) (patch_file c d e n) = e"
    unfolding patch_file_sections(6) by (simp_all add: nat_add_distrib)
qed

lemma executePatch_patch_file:
  assumes "length argv = 4" and "read_file (argv ! 3) = Some (patch_file c d e n)"
    and "read_file (argv ! 1) = Some pold" and "can_alloc (int (length pold) + 1)" and "can_alloc (int n + 1)"
    and "can_create (argv ! 2)"
    and "decompress (c @ d @ e) = Some cpf" and "decompress (d @ e) = Some dpf" and "decompress e = Some epf"
    and "length c < 2 ^ 61" and "length d < 2 ^ 61" and "n < 2 ^ 62"
  shows "executePatch read_file can_create decompress can_alloc fresh argv =
    map_option (map_sum id (take n)) (patch_loop pold (int n) 0 0 (fresh (n + 1)) cpf dpf epf)"
proof -
  let ?p = "patch_file c d e n"
  have num: "offtin (drop 8 ?p) = int (length c)" "offtin (drop 16 ?p) = int (length d)" "offtin (drop 24 ?p) = int n"
    using assms(10-12) by (simp_all add: patch_file_sections offtin_bytes)
  have ok: "long_ok (32 + int (length c))" "long_ok (32 + int (length c) + int (length d))" "long_ok (int n + 1)"
    using assms(10-12) by (auto simp: long_ok_def)
  show ?thesis
    unfolding executePatch_def assms(2,3) option.case Let_def num patch_file_blocks patch_file_sections(2,6) assms(7-9)
    using assms(1,4-6) ok patch_file_sections(1) [of c d e n]
    by (auto split: option.split sum.split)
qed

text \<open>A small directory and its three streams, for the examples.\<close>

definition stored_streams :: "byte list \<Rightarrow> BZFILE option" where
  "stored_streams bs = Some \<lparr>bz_left =
     (if bs = [1, 2, 3] then triple_bytes (2, 1, -1) @ triple_bytes (1, 0, 0)
      else if bs = [2, 3] then [10, 20, 30] else [7]), bz_end = StreamEnd\<rparr>"

definition patch_dir :: "byte list \<Rightarrow> string \<Rightarrow> byte list option" where
  "patch_dir patch name = (if name = ''old'' then Some [1, 2, 3] else if name = ''patch'' then Some patch else None)"

text \<open>
  C6: a patch whose triples are small numbers and whose blocks are long enough, and do not end where
  they are needed in an error that decompression notices with their last byte, is applied as its format says.
\<close>

theorem executePatch_correct:
  assumes "length argv = 4" and "read_file (argv ! 3) = Some (patch_file c d e (diff_len cs + extra_len cs))"
    and "read_file (argv ! 1) = Some pold"
    and "can_alloc (int (length pold) + 1)" and "can_alloc (int (diff_len cs + extra_len cs) + 1)"
    and "can_create (argv ! 2)"
    and "\<forall>n. length (fresh n) = n"
    and "decompress (c @ d @ e) = Some cpf" and "decompress (d @ e) = Some dpf" and "decompress e = Some epf"
    and "bz_left cpf = concat (map triple_bytes cs)" and "bz_end cpf \<noteq> ErrorAtEnd"
    and "can_read dpf (diff_len cs)" and "can_read epf (extra_len cs)"
    and "\<forall>t\<in>set cs. small_triple t" and "length cs < 2 ^ 30"
    and "length c < 2 ^ 61" and "length d < 2 ^ 61" and "diff_len cs + extra_len cs < 2 ^ 62"
  shows "executePatch read_file can_create decompress can_alloc fresh argv =
    Some (Inr (apply_patch pold 0 cs (bz_left dpf) (bz_left epf)))"
proof -
  let ?n = "diff_len cs + extra_len cs"
  let ?new = "apply_patch pold 0 cs (bz_left dpf) (bz_left epf)"
  have "\<exists>tl. patch_loop pold (int ?n) 0 (int (length ([] :: byte list))) ([] @ fresh (?n + 1)) cpf dpf epf =
    Some (Inr ([] @ ?new @ tl)) \<and> length tl = 1"
    by (rule patch_loop_triples [where junk = "[]"]) (use assms in auto)
  then obtain tl where run: "patch_loop pold (int ?n) 0 0 (fresh (?n + 1)) cpf dpf epf = Some (Inr (?new @ tl))" by auto
  have "length (apply_patch pold p cs d e) = diff_len cs + extra_len cs"
    if "diff_len cs \<le> length d" "extra_len cs \<le> length e" for p d e
    using that by (induction pold p cs d e rule: apply_patch.induct) auto
  then have "length ?new = ?n"
    using can_read_add(3) [of dpf 0 "diff_len cs"] can_read_add(3) [of epf 0 "extra_len cs"] assms(13,14) by auto
  then show ?thesis
    unfolding executePatch_patch_file [where can_create = can_create, OF assms(1-6,8-10,17-19)] run by simp
qed

theorem executePatch_correct_witness:
  "executePatch (patch_dir (patch_file [1] [2] [3] 4)) (\<lambda>_. True) stored_streams (\<lambda>_. True) (\<lambda>n. replicate n 0)
     [''bspatch'', ''old'', ''new'', ''patch''] = Some (Inr [11, 22, 7, 32])"
proof -
  let ?cpf = "\<lparr>bz_left = triple_bytes (2, 1, -1) @ triple_bytes (1, 0, 0), bz_end = StreamEnd\<rparr>"
  let ?dpf = "\<lparr>bz_left = [10, 20, 30], bz_end = StreamEnd\<rparr>" and ?epf = "\<lparr>bz_left = [7], bz_end = StreamEnd\<rparr>"
  have "executePatch (patch_dir (patch_file [1] [2] [3] 4)) (\<lambda>_. True) stored_streams (\<lambda>_. True) (\<lambda>n. replicate n 0)
     [''bspatch'', ''old'', ''new'', ''patch''] =
     Some (Inr (apply_patch [1, 2, 3] 0 [(2, 1, -1), (1, 0, 0)] (bz_left ?dpf) (bz_left ?epf)))"
    by (rule executePatch_correct [where c = "[1]" and d = "[2]" and e = "[3]" and cpf = ?cpf])
      (simp_all add: patch_dir_def stored_streams_def small_triple_def can_read_def)
  then show ?thesis by (simp add: add_bytes_def old_byte_def upt_rec)
qed

text \<open>
  C39: control values that fit an \<open>int\<close> keep a run defined, whatever else the patch holds, within these
  bounds: the lengths of the compressed blocks in the header are below \<open>2 ^ 61\<close> and the size of the new file
  below \<open>2 ^ 62\<close>, the control block has less than \<open>2 ^ 31\<close> bytes, and the block of the new file can be allocated
  (otherwise \<open>err\<close> prints a null format). No write leaves the block of the new file, no sum overflows, and a
  new file has the length the header gives.
\<close>

theorem executePatch_defined:
  assumes "argv \<noteq> []" and "read_file (argv ! 3) = Some patch" and "\<forall>n. length (fresh n) = n"
    and "offtin (drop 8 patch) < 2 ^ 61" and "offtin (drop 16 patch) < 2 ^ 61" and "offtin (drop 24 patch) < 2 ^ 62"
    and "can_alloc (offtin (drop 24 patch) + 1)"
    and "\<And>cpf. decompress (drop 32 patch) = Some cpf \<Longrightarrow> ctrl_fits (bz_left cpf) \<and> length (bz_left cpf) < 2 ^ 31"
  shows "executePatch read_file can_create decompress can_alloc fresh argv \<noteq> None \<and>
    (\<forall>new. executePatch read_file can_create decompress can_alloc fresh argv = Some (Inr new) \<longrightarrow>
       int (length new) = offtin (drop 24 patch))"
proof -
  let ?n = "offtin (drop 24 patch)"
  have ex: "\<exists>r. patch_loop pold ?n 0 0 (fresh (nat ?n + 1)) cpf d e = Some r \<and>
      (\<forall>p. r = Inr p \<longrightarrow> int (length p) = ?n + 1)" if "decompress (drop 32 patch) = Some cpf" "0 \<le> ?n" for pold cpf d e
    by (rule patch_loop_defined) (use assms(3,6) assms(8) [OF that(1)] that in \<open>auto simp: patch_state_ok_def\<close>)
  have def: "decompress (drop 32 patch) = Some cpf \<Longrightarrow> 0 \<le> ?n \<Longrightarrow> patch_loop pold ?n 0 0 (fresh (Suc (nat ?n))) cpf d e \<noteq> None"
    for pold cpf d e using ex [of cpf pold d e] by auto
  have len: "min (length p) (nat ?n) = nat ?n" if
      "patch_loop pold ?n 0 0 (fresh (Suc (nat ?n))) cpf d e = Some (Inr p)"
      "decompress (drop 32 patch) = Some cpf" "0 \<le> ?n" for pold cpf d e p
    using ex [OF that(2,3), of pold d e] that(1) by auto
  have ok: "long_ok (32 + offtin (drop 8 patch))" "long_ok (32 + offtin (drop 8 patch) + offtin (drop 16 patch))"
    "long_ok (?n + 1)" if "0 \<le> offtin (drop 8 patch)" "0 \<le> offtin (drop 16 patch)" "0 \<le> ?n"
    using that assms(4-6) by (auto simp: long_ok_def)
  show ?thesis
    using assms(1,2,7) ok unfolding executePatch_def Let_def
    by (auto simp: not_less def dest!: len split: option.split sum.split)
qed

theorem executePatch_defined_witness:
  "executePatch (patch_dir (patch_file [1] [2] [3] 4)) (\<lambda>_. True)
     (\<lambda>bs. Some \<lparr>bz_left = replicate 24 0, bz_end = ErrorAtEnd\<rparr>)
     (\<lambda>_. True) (\<lambda>n. replicate n 0) [''bspatch'', ''old'', ''new'', ''patch''] \<noteq> None"
proof -
  have "offtin (drop 8 (patch_file [1] [2] [3] 4)) < 2 ^ 61" "offtin (drop 16 (patch_file [1] [2] [3] 4)) < 2 ^ 61"
    "offtin (drop 24 (patch_file [1] [2] [3] 4)) < 2 ^ 62" "ctrl_fits (replicate 24 0)"
    by (simp_all add: patch_file_sections offtin_bytes)
      (auto simp: ctrl_fits_def offtin_def less_Suc_eq numeral_3_eq_3)
  then show ?thesis
    using executePatch_defined [of "[''bspatch'', ''old'', ''new'', ''patch'']" "patch_dir (patch_file [1] [2] [3] 4)"
        "patch_file [1] [2] [3] 4" "\<lambda>n. replicate n 0" "\<lambda>_. True"
        "\<lambda>bs. Some \<lparr>bz_left = replicate 24 0, bz_end = ErrorAtEnd\<rparr>" "\<lambda>_. True"]
    by (simp add: patch_dir_def)
qed

lemma int_argument_wraps: "0 \<le> k \<Longrightarrow> k < 2 ^ 31 \<Longrightarrow> int_argument (k - 2 ^ 32) = k"
proof -
  assume k: "0 \<le> k" "k < 2 ^ 31"
  have "(word_of_int (k - 2 ^ 32) :: u32) = word_of_int k"
    by (simp add: word_of_int_eq_iff take_bit_eq_mod)
  then show ?thesis using int_argument_id [of k] k by (simp only: int_argument_def)
qed

text \<open>
  C40: a negative control value below \<open>INT_MIN\<close> passes the check against the new size and is then
  truncated to a positive length: the read writes outside of the block of the new file.
\<close>

theorem executePatch_overflow:
  assumes "length argv = 4" and "read_file (argv ! 3) = Some (patch_file c d e n)"
    and "read_file (argv ! 1) = Some pold" and "can_alloc (int (length pold) + 1)" and "can_alloc (int n + 1)"
    and "can_create (argv ! 2)"
    and "\<forall>n. length (fresh n) = n" and "length c < 2 ^ 61" and "length d < 2 ^ 61"
    and "decompress (c @ d @ e) = Some cpf" and "decompress (d @ e) = Some dpf" and "decompress e = Some epf"
    and "bz_left cpf = offt_bytes (int k - 2 ^ 32) @ offt_bytes y @ offt_bytes z @ rest"
    and "rest = [] \<longrightarrow> bz_end cpf \<noteq> ErrorAtEnd"
    and "\<bar>y\<bar> < 2 ^ 63" and "\<bar>z\<bar> < 2 ^ 63"
    and "0 < n" and "n + 1 < k" and "k < 2 ^ 31" and "k \<le> length (bz_left dpf)"
  shows "executePatch read_file can_create decompress can_alloc fresh argv = None"
proof -
  let ?v = "int k - 2 ^ 32"
  have v: "\<bar>?v\<bar> < 2 ^ 63" using assms(19) by simp
  have ctrl: "read_ctrl cpf = Some ((?v, y, z), cpf\<lparr>bz_left := rest\<rparr>)"
    unfolding read_ctrl_def read_offt_bytes [OF assms(13) v, simplified]
    using assms(14) by (simp add: read_offt_bytes [OF _ assms(15)] read_offt_bytes [OF _ assms(16)])
  have "int_argument ?v = int k" using assms(19) by (intro int_argument_wraps) simp_all
  then have "read_block dpf (fresh (n + 1)) 0 ?v = None"
    using assms(7,18,20) by (auto simp: read_block_def BZ2_bzRead_def can_read_def)
  then have "patch_loop pold (int n) 0 0 (fresh (n + 1)) cpf dpf epf = None"
    using assms(17,19) by (subst patch_loop.simps) (simp add: ctrl long_ok_def)
  moreover have "n < 2 ^ 62" using assms(18,19) by simp
  ultimately show ?thesis by (simp add: executePatch_patch_file [where can_create = can_create, OF assms(1-6,10-12,8,9)])
qed

theorem executePatch_overflow_witness:
  "executePatch (patch_dir (patch_file [1] [2] [3] 1)) (\<lambda>_. True)
     (\<lambda>bs. Some \<lparr>bz_left = (if bs = [1, 2, 3] then offt_bytes (3 - 2 ^ 32) @ offt_bytes 0 @ offt_bytes 0 else [5, 5, 5]),
        bz_end = StreamEnd\<rparr>)
     (\<lambda>_. True) (\<lambda>n. replicate n 0) [''bspatch'', ''old'', ''new'', ''patch''] = None"
  by (rule executePatch_overflow [where c = "[1]" and d = "[2]" and e = "[3]" and n = 1 and k = 3 and y = 0 and z = 0 and rest = "[]"
        and pold = "[1, 2, 3]" and dpf = "\<lparr>bz_left = [5, 5, 5], bz_end = StreamEnd\<rparr>"
        and cpf = "\<lparr>bz_left = offt_bytes (3 - 2 ^ 32) @ offt_bytes 0 @ offt_bytes 0, bz_end = StreamEnd\<rparr>"])
    (simp_all add: patch_dir_def)

end
