(* ===== verification/Spec2Isabelle.thy ===== *)
theory Spec2Isabelle
  imports Fast_Symbols Stackwalker_CPU Symbol_Writer Call_Frame_Section CFI_To_Module Bspatch
begin

text \<open>
  The processor of the Breakpad crash reporting library, under
  \<^verbatim>\<open>src/crash/src/main/cpp/breakpad/src\<close>. The processor turns a crash report into symbolic
  stack traces: it reads symbol files, keeps what they say in maps from address ranges to records,
  walks the stack of a crashed thread and names the functions and source lines of its frames.
  Paths below are relative to that directory, unless they begin with \<^verbatim>\<open>src/\<close>. Beside it stand two
  programs at the ends of the same work: the dumper, which reads the debugging information of a
  program and writes the symbol files, and the application's binary patcher \<open>bspatch\<close>.

  \<^bold>\<open>The parts and how they interact.\<close>
  A \<open>Stackwalker\<close> begins with the registers of the crashed thread and asks again and again for the
  caller of the last frame. \<open>StackwalkerForCPU\<close> chooses the concrete walker for the CPU of the
  context, and that finds a caller by call frame information, by Windows frame information, by
  the chain of frame or stack pointers or by scanning the stack for a plausible return address. Call frame information
  and names come from a \<open>StackFrameSymbolizer\<close>, which finds the
  \<open>CodeModule\<close> of an address, fetches its symbol file from a supplier, loads it into a
  \<open>SourceLineResolverBase\<close> once and remembers which modules have no symbols. The resolver keeps
  one \<open>BasicSourceLineResolver::Module\<close> per code module: range maps of functions, of source lines
  and of call frame rules, an address map of public symbols, and trees of nested ranges for the
  Windows frame information. Rules are evaluated by a postfix stack machine. The same maps can be
  serialized to bytes and searched there without being rebuilt (the \<open>Static\<close> maps); a
  \<open>ModuleSerializer\<close> writes a whole module so and a \<open>FastSourceLineResolver\<close> answers from the bytes.
  On the side of the dumper, \<open>CallFrameInfo\<close> parses the call frame section of a program with a
  \<open>ByteReader\<close> and interprets its instructions, calling a handler for each rule; the handler
  \<open>DwarfCFIToModule\<close> writes the rules as postfix expressions into the \<open>Module\<close>, which prints them as
  the \<open>STACK CFI\<close> records that the resolver loads and the walkers evaluate.

  \<^bold>\<open>Theories, with the code they model.\<close>

  \<^item> \<open>Breakpad_Prelude\<close>, \<open>Std_Map\<close>, \<open>Range_Lists\<close>: the machine words, the collections of simplification rules and the
    interface of \<open>std::map\<close> as a sorted association list with iterators as positions; maps filled from
    lists of disjoint ranges.
  \<^item> \<open>Address_Map\<close>, \<open>Range_Map\<close>, \<open>Contained_Range_Map\<close>: the templates in
    \<^verbatim>\<open>processor/address_map-inl.h\<close>, \<^verbatim>\<open>range_map-inl.h\<close>, \<^verbatim>\<open>contained_range_map-inl.h\<close>, on 64 bit addresses
    with wrap-around. \<open>StoreRangeInternal\<close> calls itself after it has cut a range, so it is a partial
    function; that it returns is a theorem.
  \<^item> \<open>Byte_Memory\<close>, \<open>Resolver_Types\<close>, \<open>Map_Serializers\<close>: \<^verbatim>\<open>simple_serializer-inl.h\<close>,
    \<^verbatim>\<open>map_serializers-inl.h\<close> and the records of \<^verbatim>\<open>source_line_resolver_base_types.h\<close> and
    \<^verbatim>\<open>windows_frame_info.h\<close>. A memory is a byte list with a position; a write outside it is \<open>None\<close>.
  \<^item> \<open>Static_Map\<close>, \<open>Static_Range_Maps\<close>: \<^verbatim>\<open>static_map-inl.h\<close>, \<^verbatim>\<open>static_map_iterator-inl.h\<close>,
    \<^verbatim>\<open>static_address_map-inl.h\<close>, \<^verbatim>\<open>static_range_map-inl.h\<close>, \<^verbatim>\<open>static_contained_range_map-inl.h\<close>. A read
    outside the bytes is \<open>None\<close>.
  \<^item> \<open>C_String\<close>, \<open>Symbol_Parse\<close>: the functions of the C library the parsers use (\<open>strtok_r\<close>, \<open>strtoull\<close>
    and the like), \<^verbatim>\<open>tokenize.cc\<close> and the record parsers of \<^verbatim>\<open>basic_source_line_resolver.cc\<close>.
  \<^item> \<open>Postfix_Evaluator\<close>, \<open>CFI_Frame_Info\<close>: \<^verbatim>\<open>postfix_evaluator-inl.h\<close>, \<^verbatim>\<open>cfi_frame_info.cc\<close> and
    \<^verbatim>\<open>cfi_frame_info-inl.h\<close>. What C++ leaves undefined is \<open>None\<close> in the outer option of a result.
  \<^item> \<open>Code_Modules\<close>: \<^verbatim>\<open>basic_code_module.h\<close> and \<^verbatim>\<open>basic_code_modules.cc\<close>.
  \<^item> \<open>Basic_Resolver\<close>, \<open>Symbol_File\<close>: loading and searching one module, the rest of
    \<^verbatim>\<open>basic_source_line_resolver.cc\<close>; \<open>Symbol_File\<close> has the abstract view of a symbol file as a list
    of records.
  \<^item> \<open>Frame_Symbolizer\<close>: \<^verbatim>\<open>source_line_resolver_base.cc\<close> and \<^verbatim>\<open>stack_frame_symbolizer.cc\<close>.
  \<^item> \<open>Fast_Resolver\<close>, \<open>Fast_Symbols\<close>: \<^verbatim>\<open>module_serializer.cc\<close>, \<^verbatim>\<open>fast_source_line_resolver.cc\<close> and
    \<^verbatim>\<open>fast_source_line_resolver_types.h\<close>: the sizes and the layout of a serialized module, loading it
    and searching it; \<open>Fast_Symbols\<close> relates the fast resolver to the basic one.
  \<^item> \<open>Stackwalker\<close>: the walk and the scan of \<^verbatim>\<open>stackwalker.cc\<close> and \<^verbatim>\<open>stackwalker.h\<close>.
    \<open>Stackwalker_AMD64\<close>, \<open>Stackwalker_ARM64\<close>, \<open>Stackwalker_ARM\<close>, \<open>Stackwalker_MIPS\<close>, \<open>Stackwalker_X86\<close> and
    \<open>Stackwalker_Chains\<close> (PowerPC, SPARC and lists of addresses): the concrete walkers,
    \<^verbatim>\<open>stackwalker_amd64.cc\<close> and its siblings, with the frames of \<^verbatim>\<open>stack_frame_cpu.h\<close>.
  \<^item> \<open>Dump_Context\<close>, \<open>Stackwalker_CPU\<close>: \<^verbatim>\<open>dump_context.cc\<close> and the choice of the walker,
    \<open>StackwalkerForCPU\<close>.
  \<^item> \<open>Symbol_Writer\<close>: \<^verbatim>\<open>common/module.h\<close> and \<^verbatim>\<open>common/module.cc\<close>, the tables of a dumped module and
    \<open>Module::Write\<close> on a stream that may fail.
  \<^item> \<open>Byte_Reader\<close>: \<^verbatim>\<open>common/dwarf/bytereader.cc\<close> and \<^verbatim>\<open>bytereader-inl.h\<close>, with the LEB128 writers of
    \<^verbatim>\<open>common/test_assembler.cc\<close>. A buffer is a byte list that may be longer than the section, as the
    code reads before it compares with the end; a read outside it, a failed assertion and an
    abort are \<open>None\<close>.
  \<^item> \<open>Call_Frame_Interpreter\<close>, \<open>Call_Frame_Info\<close>, \<open>Call_Frame_Section\<close>: class \<open>CallFrameInfo\<close> of
    \<^verbatim>\<open>common/dwarf/dwarf2reader.cc\<close>: its rules and \<open>State\<close>, the parser of entries with its reports, and
    the bytes of a section.
  \<^item> \<open>CFI_To_Module\<close>: \<^verbatim>\<open>common/dwarf_cfi_to_module.cc\<close>.
  \<^item> \<open>Bspatch\<close>: \<^verbatim>\<open>src/app/src/main/cpp/bspatch.c\<close>, with \<open>BZ2_bzRead\<close> over the decompressed bytes.

  \<^bold>\<open>Interfaces.\<close> Components meet through locales, each interpreted on the model: the sorted map
  under the range maps, the serializer of an entry under the serializers of maps, the key reader
  under the static maps, the register file under the evaluation of call frame rules
  (\<open>register_file\<close>, interpreted for the AMD64 and the x86 registers), the concrete walker under
  the walk (\<open>cpu_walker\<close>, interpreted for every CPU) and an invariant that every instruction keeps
  under the interpreter of call frame instructions (\<open>cfi_invariant\<close> and, over both entries,
  \<open>cfi_entry_invariant\<close>, interpreted for the position of the cursor, for the order of saved tables
  and for what the handler has been told).

  \<^bold>\<open>What is shown.\<close>

  \<^item> The range maps stay well formed under every operation. With each merge strategy a store gives
    the addresses to the ranges that should own them, and retrieval finds the owner, the nearest
    range below, or the innermost of nested ranges.
  \<^item> A search in the serialized bytes of a map gives what a search in the map gives. For a whole
    module, the fast resolver on the serialized bytes answers as the basic resolver does, and
    converting the modules of a resolver converts each of them.
  \<^item> Loading the text of a symbol file, with one terminator behind it, returns unless the text ends in
    a \<open>STACK CFI\<close> or \<open>STACK WIN\<close> line that has neither fields nor a line end, and it builds exactly the
    tables that the records of the text describe (records other than \<open>STACK WIN\<close>). Searching the tables gives the function, the line or the
    public symbol of the address, and the call frame rules in force there.
  \<^item> The stack machine computes the values of expressions; the rules of a frame give the registers of
    the caller; printing and parsing rules are inverse.
  \<^item> The symbolizer asks for the symbols of a module once, and loading and unloading are inverse.
  \<^item> For every CPU, a trace begins at the context, has a bounded number of frames and ascending stack
    pointers; on a chain of frame pointers the AMD64 walk returns the frames of the chain first, then at
    most frames found by scanning, and a list of addresses is walked as it is. Scanning ends and returns a plausible address of its window. On
    x86 the layout that Windows frame information describes gives the caller.
    Pointer authentication codes are removed from pointers into modules.
  \<^item> The text that \<open>Module::Write\<close> writes is read back without an error, and a lookup in the loaded
    module gives the function, line and file that the dumper had for the address.
  \<^item> LEB128 numbers are read back as written. On the bytes of a section the parser offers the entries
    that were written; the interpreter's assertions do not fail, its calls tell the
    handler exactly the table of rules it keeps, and the module gets these rules, in the dumper's
    form, at each address. Where a section can make the parser read outside its buffer or abort, a
    theorem or a finding says so.
  \<^item> A patch is applied as its format says; runs are defined when the control values fit an \<open>int\<close>,
    the lengths in the header are below \<open>2 ^ 61\<close> and the new file can be allocated, and a value that does not fit makes the patcher write outside of its block.
  \<^item> Errors: \<open>STACK\<close> lines without fields, which make the parser leave its buffer or lose the rest of the file,
    maps of one node whose key validation does not look at, expressions that are undefined, and the
    out of bounds access of the ARM walker.

  \<^bold>\<open>Bounds.\<close> The walk recurses on the number of frames left until \<open>max_frames\<close>; the scan for a
  return address, the range map and the fast search for call frame deltas are partial functions
  proved to return. The loops of the MIPS scan and of the x86 search for a saved frame pointer are
  partial functions, too: with a memory that answers every read they need not end. The interpreter
  of call frame instructions and the loop over the entries of a section recurse on the bytes left.
  Nothing uses fuel.

  \<^bold>\<open>Parameters.\<close> The memory of the crashed process is an interface with a base, a size and partial
  functions from addresses to words; the
  symbol supplier a function from modules to texts, and the file system a function from names to
  contents. Theorems that say that a walk, a scan or the symbolizer returns assume that no symbol
  file of the supplier ends in a \<open>STACK\<close> line without fields and without a line end
  (\<open>loadable\<close>, part of \<open>symbolizer_inv\<close>); the loader reads outside of its buffer there, as
  \<open>Symbol_File.bare_stack_line\<close> shows. Nothing more is assumed of them. The patcher also takes the allocator and the
  decompression of bzip2 as parameters; its theorems name the bytes that a stream yields.

  \<^bold>\<open>Not modelled.\<close> Log messages and the freeing of memory, which no result depends on; the reader of
  minidump files; of debugging information the readers of units, line programs and ranges; the client that writes crash
  reports, which is made of system calls; exploitability
  analysis, which rests on a vendored disassembler; the Android glue and the inside of the vendored bzip2.
\<close>

end
